(* ===== verification/Zen_Prelude.thy ===== *)
theory Zen_Prelude
  imports
    "HOL-Library.Word"
    "HOL-Library.Char_ord"
    "HOL-Library.List_Lexorder"
    "HOL-Library.Product_Lexorder"
begin

text \<open>
  Shared vocabulary of the development.

  \<^item> The machine types of the C++ sources (\<open>std::uint8_t\<close> \<dots> \<open>std::uint64_t\<close>) as words;
    \<open>std::int64_t\<close> is a 64-bit word read with \<open>sint\<close>, and a \<open>double\<close> is its IEEE-754
    binary64 bit pattern, which is how the sources themselves look at it (\<open>std::memcpy\<close>).
  \<^item> \<open>std::string\<close>, \<open>std::string_view\<close> and raw byte buffers as HOL strings: a HOL \<open>char\<close> is
    exactly one octet. \<open>byte_of\<close> and \<open>chr\<close> are the two \<open>static_cast\<close>s between \<open>char\<close> and
    \<open>unsigned char\<close>.
  \<^item> The C++ exceptions the library throws, as the left summand of a sum type.
  \<^item> The interface of a self-delimiting wire codec, as a locale: every primitive of the
    wire formats is an interpretation of it.
\<close>

unbundle bit_operations_syntax

named_theorems bus_simps \<open>frame rules: what each operation of a component leaves unchanged\<close>

section \<open>Machine types\<close>

type_synonym u8 = "8 word"
type_synonym u16 = "16 word"
type_synonym u32 = "32 word"
type_synonym u64 = "64 word"
type_synonym i64 = "64 word"
type_synonym f64 = "64 word"

definition byte_of :: "char \<Rightarrow> u8" where
  "byte_of c = word_of_nat (of_char c)"

definition chr :: "u8 \<Rightarrow> char" where
  "chr b = char_of (unat b)"

lemma byte_of_chr [simp]: "byte_of (chr b) = b"
proof -
  have "unat b < 256" using unsigned_less [of b] by simp
  then show ?thesis by (simp add: byte_of_def chr_def)
qed

lemma chr_byte_of [simp]: "chr (byte_of c) = c"
proof -
  have "char_of (take_bit 8 (of_char c) :: nat) = c"
    by (simp add: char_of_take_bit_eq)
  then show ?thesis by (simp add: byte_of_def chr_def unsigned_of_nat)
qed

lemma chr_inject [simp]: "chr a = chr b \<longleftrightarrow> a = b"
  by (metis byte_of_chr)

lemma byte_of_inject [simp]: "byte_of a = byte_of b \<longleftrightarrow> a = b"
  by (metis chr_byte_of)

section \<open>Words\<close>

text \<open>Shifts and masks in terms of the unsigned value, for any width.\<close>

lemma unat_eqI: "unat (a :: 'a :: len word) = unat b \<Longrightarrow> a = b"
  by (rule unsigned_word_eqI)

lemma unat_drop_bit: "unat (drop_bit n (w :: 'a :: len word)) = unat w div 2 ^ n"
  unfolding unsigned_drop_bit_eq by (simp add: drop_bit_eq_div take_bit_nat_eq_self unsigned_less)

lemma and_ff_take_bit: "(w :: 'a :: len word) AND 0xFF = take_bit 8 w"
  by (simp add: take_bit_eq_mask mask_eq_exp_minus_1)

lemma unat_and_ff: "unat ((w :: 'a :: len word) AND 0xFF) = unat w mod 256"
  unfolding and_ff_take_bit unsigned_take_bit_eq by (simp add: take_bit_eq_mod)

lemma unat_ucast_u8: "unat (ucast (w :: 'a :: len word) :: u8) = unat w mod 256"
  by (simp add: unsigned_ucast_eq take_bit_eq_mod)

lemma unat_u8_less [simp]: "unat (b :: u8) < 256"
  using unsigned_less [of b] by simp

lemma unat_ucast_u8_u64 [simp]: "unat (ucast (b :: u8) :: u64) = unat b"
  by (simp add: unsigned_ucast_eq take_bit_nat_eq_self less_trans [OF unat_u8_less])

lemma ucast_u8_u64_u8 [simp]: "(ucast (ucast (b :: u8) :: u64) :: u8) = b"
  by (rule unat_eqI) (simp add: unat_ucast_u8)

lemma unat_ucast_u32_u64 [simp]: "unat (ucast (v :: u32) :: u64) = unat v"
proof -
  have "unat v < 2 ^ 32" using unsigned_less [of v] by simp
  then show ?thesis by (simp add: unsigned_ucast_eq take_bit_nat_eq_self)
qed

lemma ucast_u32_u64_inject [simp]: "(ucast (v :: u32) :: u64) = ucast w \<longleftrightarrow> v = w"
  by (metis unat_ucast_u32_u64 unsigned_word_eqI)

lemma xor_cancel_right: "(a :: 'a :: len word) XOR c = b XOR c \<longleftrightarrow> a = b"
proof
  assume "a XOR c = b XOR c"
  then have "(a XOR c) XOR c = (b XOR c) XOR c" by simp
  then show "a = b" by (simp add: xor.assoc)
qed simp

lemma and_7f_take_bit: "(w :: 'a :: len word) AND 0x7F = take_bit 7 w"
  by (simp add: take_bit_eq_mask mask_eq_exp_minus_1)

lemma unat_and_7f: "unat ((w :: 'a :: len word) AND 0x7F) = unat w mod 128"
  unfolding and_7f_take_bit unsigned_take_bit_eq by (simp add: take_bit_eq_mod)

lemma and_7f_id: "unat (w :: 'a :: len word) < 128 \<Longrightarrow> w AND 0x7F = w"
  by (rule unat_eqI) (simp add: unat_and_7f)

lemma unat_and_low:
  "unat ((w :: 'a :: len word) AND 0x3F) = unat w mod 64"
  "unat (w AND 0x1F) = unat w mod 32"
  "unat (w AND 0x0F) = unat w mod 16"
  "unat (w AND 0x07) = unat w mod 8"
proof -
  have low: "unat (w AND mask n) = unat w mod 2 ^ n" for n
    unfolding take_bit_eq_mask [symmetric] unsigned_take_bit_eq by (simp add: take_bit_eq_mod)
  show "unat (w AND 0x3F) = unat w mod 64" "unat (w AND 0x1F) = unat w mod 32"
    "unat (w AND 0x0F) = unat w mod 16" "unat (w AND 0x07) = unat w mod 8"
    using low [of 6] low [of 5] low [of 4] low [of 3] by (simp_all add: mask_eq_exp_minus_1)
qed

lemma bit_word_unat: "bit (w :: 'a :: len word) n \<longleftrightarrow> odd (unat w div 2 ^ n)"
proof -
  have "bit w n \<longleftrightarrow> bit (unat w) n" by (simp add: bit_unsigned_iff)
  then show ?thesis by (simp add: bit_iff_odd)
qed

lemma u8_top_bit: "(b :: u8) AND 0x80 = 0 \<longleftrightarrow> unat b < 128"
proof -
  have "(b AND 2 ^ 7 = 0) \<longleftrightarrow> \<not> odd (unat b div 128)"
    unfolding and_exp_eq_0_iff_not_bit bit_word_unat by simp
  also have "unat b div 128 = (if unat b < 128 then 0 else 1)"
    using unat_u8_less [of b] by (auto intro: div_nat_eqI)
  finally show ?thesis by (auto split: if_splits)
qed

text \<open>Or-ing in bits above the ones in use is addition.\<close>

lemma bit_beyond_unat: "unat (a :: 'a :: len word) < 2 ^ n \<Longrightarrow> n \<le> i \<Longrightarrow> \<not> bit a i"
  by (simp add: bit_word_unat order_less_le_trans [OF _ power_increasing])

lemma or_push_bit_add:
  "unat (a :: 'a :: len word) < 2 ^ n \<Longrightarrow> a OR push_bit n b = a + push_bit n b"
  by (rule disjunctive_add [symmetric]) (auto simp: bit_simps dest: bit_beyond_unat)

lemma unat_push_bit:
  assumes "unat (b :: 'a :: len word) * 2 ^ n < 2 ^ LENGTH('a)"
  shows "unat (push_bit n b) = unat b * 2 ^ n"
  unfolding unsigned_push_bit_eq using assms by (simp add: push_bit_eq_mult take_bit_nat_eq_self)

lemma unat_or_80: "unat (w :: u64) < 128 \<Longrightarrow> unat (w OR 0x80) = unat w + 128"
proof -
  assume w: "unat w < 128"
  have "w OR push_bit 7 1 = w + push_bit 7 1" by (rule or_push_bit_add) (simp add: w)
  then have "w OR 0x80 = w + 0x80" by simp
  moreover have "unat (w + 0x80) = unat w + 128"
    using w by (simp add: unat_word_ariths)
  ultimately show ?thesis by simp
qed

lemma sint_succ_u64:
  assumes "sint (u :: u64) < sint (n :: u64)" and "0 \<le> sint u"
  shows "sint (u + 1) = sint u + 1"
proof -
  have "sint n < 2 ^ 63" using sint_lt [of n] by simp
  then show ?thesis using assms by (simp add: sint_word_ariths signed_take_bit_int_eq_self)
qed

section \<open>Exceptions\<close>

text \<open>The exception classes the sources throw, each with its \<open>what()\<close> text.\<close>

datatype exn =
    Invalid_argument string
  | Out_of_range string
  | Logic_error string
  | Runtime_error string
  | Bad_variant_access
  | Schema_conflict string u32 u64 u64

type_synonym 'a result = "exn + 'a"

text \<open>Straight-line code in which each step may throw: the first exception ends it.\<close>

fun rbind :: "'a result \<Rightarrow> ('a \<Rightarrow> 'b result) \<Rightarrow> 'b result" where
  "rbind (Inl e) f = Inl e"
| "rbind (Inr x) f = f x"

lemma rbind_Inr_iff: "rbind m f = Inr y \<longleftrightarrow> (\<exists>x. m = Inr x \<and> f x = Inr y)"
  by (cases m) auto

lemma rbind_cong [fundef_cong]:
  "m = m' \<Longrightarrow> (\<And>x. m' = Inr x \<Longrightarrow> f x = f' x) \<Longrightarrow> rbind m f = rbind m' f'"
  by (cases m') auto

text \<open>Dereferencing a pointer; the error stands for the null pointer, which the laws below rule out.\<close>

definition deref :: "'a option \<Rightarrow> 'a result" where
  "deref p = (case p of None \<Rightarrow> Inl (Logic_error ''null pointer'') | Some x \<Rightarrow> Inr x)"

lemma deref_simps [simp]: "deref (Some x) = Inr x" "deref p = Inr x \<longleftrightarrow> p = Some x"
  by (auto simp: deref_def split: option.splits)


section \<open>Decimal rendering\<close>

text \<open>\<open>std::to_string\<close> of an unsigned integer.\<close>

definition digit_char :: "nat \<Rightarrow> char" where
  "digit_char d = char_of (48 + d)"

fun to_string :: "nat \<Rightarrow> string" where
  "to_string n =
     (if n < 10 then [digit_char n] else to_string (n div 10) @ [digit_char (n mod 10)])"

declare to_string.simps [simp del]

text \<open>\<open>std::to_string\<close> of a signed integer.\<close>

definition ll_to_string :: "int \<Rightarrow> string" where
  "ll_to_string i = (if i < 0 then CHR ''-'' # to_string (nat (- i)) else to_string (nat i))"

lemma to_string_nonempty [simp]: "to_string n \<noteq> []"
  by (subst to_string.simps) simp

section \<open>Lists\<close>

lemma take_1_append: "take 1 (xs @ ys) = (if xs = [] then take 1 ys else take 1 xs)"
  by (cases xs) auto

lemma append_eq_prefixD: "xs @ ys = zs \<Longrightarrow> length xs \<le> length zs"
  by auto

section \<open>Self-delimiting codecs\<close>

text \<open>
  A codec writes a value with \<open>enc\<close> and reads one back, together with the unread rest, with
  \<open>dec\<close>. \<open>valid\<close> says which values it can write. The two laws are the two halves of
  canonicity: what was written is read back, and nothing but what would be written is
  accepted.
\<close>

locale wire_codec =
  fixes enc :: "'a \<Rightarrow> string"
    and dec :: "string \<Rightarrow> ('a \<times> string) option"
    and valid :: "'a \<Rightarrow> bool"
  assumes dec_enc: "valid x \<Longrightarrow> dec (enc x @ rest) = Some (x, rest)"
    and enc_dec: "dec bs = Some (x, rest) \<Longrightarrow> valid x \<and> bs = enc x @ rest"
begin

lemma dec_iff: "dec bs = Some (x, rest) \<longleftrightarrow> valid x \<and> bs = enc x @ rest"
  by (metis dec_enc enc_dec)

lemma enc_inject:
  assumes "valid x" and "valid y" and "enc x @ r = enc y @ s"
  shows "x = y \<and> r = s"
proof -
  have "Some (x, r) = Some (y, s)"
    using dec_enc [OF assms(1), of r] dec_enc [OF assms(2), of s] assms(3) by metis
  then show ?thesis by simp
qed

lemma dec_consumes: "dec bs = Some (x, rest) \<Longrightarrow> length bs = length (enc x) + length rest"
  by (auto dest: enc_dec)

lemma dec_length: "dec bs = Some (x, rest) \<Longrightarrow> length rest \<le> length bs"
  by (auto dest: enc_dec)

end

end
