(* ===== verification/Zen_Hash.thy ===== *)
theory Zen_Hash
  imports Zen_Prelude
begin

text \<open>
  The streaming content hash of \<open>src/detail/hash.hpp\<close> (\<open>class Fnv1a\<close>): the hash state is
  the one 64-bit word \<open>h_\<close>, and each member function is a state transformer. The lemmas show
  that every member function folds \<open>fnv_byte\<close> over a byte sequence, and that one step is a
  bijection of the state, so a stream that differs in a single byte always hashes differently.
\<close>

section \<open>The hash state and its operations\<close>

definition kFnvOffset :: u64 where
  "kFnvOffset = 1469598103934665603"

definition kFnvPrime :: u64 where
  "kFnvPrime = 1099511628211"

definition fnv_byte :: "u8 \<Rightarrow> u64 \<Rightarrow> u64" where
  "fnv_byte b h = (h XOR ucast b) * kFnvPrime"

fun fnv_bytes :: "string \<Rightarrow> u64 \<Rightarrow> u64" where
  "fnv_bytes [] h = h"
| "fnv_bytes (c # s) h = fnv_bytes s (fnv_byte (byte_of c) h)"

text \<open>The loop \<open>for (int i = 0; i < 8; ++i)\<close> of \<open>u64\<close>, counting its remaining rounds.\<close>

fun fnv_u64_loop :: "nat \<Rightarrow> u64 \<Rightarrow> u64 \<Rightarrow> u64" where
  "fnv_u64_loop 0 v h = h"
| "fnv_u64_loop (Suc n) v h = fnv_u64_loop n (drop_bit 8 v) (fnv_byte (ucast (v AND 0xFF)) h)"

definition fnv_u64 :: "u64 \<Rightarrow> u64 \<Rightarrow> u64" where
  "fnv_u64 v h = fnv_u64_loop 8 v h"

definition fnv_field :: "string \<Rightarrow> u64 \<Rightarrow> u64" where
  "fnv_field s h = fnv_bytes s (fnv_u64 (word_of_nat (length s)) h)"

section \<open>Folding a byte stream\<close>

text \<open>The little-endian octets that \<open>u64\<close> feeds to the hash.\<close>

fun le_octets :: "nat \<Rightarrow> u64 \<Rightarrow> u8 list" where
  "le_octets 0 v = []"
| "le_octets (Suc n) v = ucast (v AND 0xFF) # le_octets n (drop_bit 8 v)"

lemma length_le_octets [simp]: "length (le_octets n v) = n"
  by (induction n arbitrary: v) auto

lemma fnv_bytes_fold: "fnv_bytes s h = fold fnv_byte (map byte_of s) h"
  by (induction s arbitrary: h) auto

lemma fnv_u64_loop_fold: "fnv_u64_loop n v h = fold fnv_byte (le_octets n v) h"
  by (induction n arbitrary: v h) auto

lemma fnv_u64_fold: "fnv_u64 v h = fold fnv_byte (le_octets 8 v) h"
  by (simp add: fnv_u64_def fnv_u64_loop_fold)

lemma fnv_field_fold:
  "fnv_field s h = fold fnv_byte (le_octets 8 (word_of_nat (length s)) @ map byte_of s) h"
  by (simp add: fnv_field_def fnv_bytes_fold fnv_u64_fold)

lemma le_octets_inject:
  assumes "le_octets n v = le_octets n w" and "unat v < 256 ^ n" and "unat w < 256 ^ n"
  shows "v = w"
  using assms
proof (induction n arbitrary: v w)
  case 0
  then show ?case by (simp add: unat_eq_0)
next
  case (Suc n)
  have low: "unat v mod 256 = unat w mod 256"
    using Suc.prems(1) by (auto dest!: arg_cong [where f = unat] simp: unat_ucast_u8 unat_and_ff)
  have "unat (drop_bit 8 v) < 256 ^ n" and "unat (drop_bit 8 w) < 256 ^ n"
    using Suc.prems(2,3) by (simp_all add: unat_drop_bit less_mult_imp_div_less mult.commute)
  then have "drop_bit 8 v = drop_bit 8 w"
    using Suc by simp
  then have high: "unat v div 256 = unat w div 256"
    by (auto dest: arg_cong [where f = unat] simp: unat_drop_bit)
  from low high have "unat v = unat w"
    by (metis div_mult_mod_eq)
  then show ?case by (rule unsigned_word_eqI)
qed

section \<open>One step is a bijection\<close>

lemma kFnvPrime_inverse: "kFnvPrime * 14886173955864302971 = 1"
  by (simp add: kFnvPrime_def)

lemma times_kFnvPrime_inject: "a * kFnvPrime = b * kFnvPrime \<longleftrightarrow> a = b"
proof
  assume "a * kFnvPrime = b * kFnvPrime"
  then have "a * (kFnvPrime * 14886173955864302971) = b * (kFnvPrime * 14886173955864302971)"
    unfolding mult.assoc [symmetric] by simp
  then show "a = b" by (simp add: kFnvPrime_inverse)
qed simp

lemma fnv_byte_inject_state: "fnv_byte b h = fnv_byte b h' \<longleftrightarrow> h = h'"
  by (simp add: fnv_byte_def times_kFnvPrime_inject xor_cancel_right)

lemma fnv_byte_inject_byte: "fnv_byte b h = fnv_byte b' h \<longleftrightarrow> b = b'"
proof -
  have "(ucast b :: u64) = ucast b' \<longleftrightarrow> b = b'"
    by (metis unat_ucast_u8_u64 unsigned_word_eqI)
  then show ?thesis
    by (simp add: fnv_byte_def times_kFnvPrime_inject xor.commute [of h] xor_cancel_right)
qed

lemma fold_fnv_byte_inject_state: "fold fnv_byte bs h = fold fnv_byte bs h' \<longleftrightarrow> h = h'"
  by (induction bs arbitrary: h h') (auto simp: fnv_byte_inject_state)

lemma fnv_single_byte:
  "fold fnv_byte (xs @ b # ys) h = fold fnv_byte (xs @ b' # ys) h \<longleftrightarrow> b = b'"
  by (simp add: fold_fnv_byte_inject_state fnv_byte_inject_byte)

end
