(* ===== verification/Zen_Schema.thy ===== *)
theory Zen_Schema
  imports Zen_Hash
begin

text \<open>
  Kinds, type references, fields and schemas: \<open>include/zen/kind.hpp\<close>, \<open>include/zen/schema.hpp\<close>
  and \<open>src/schema.cpp\<close>. A \<open>std::shared_ptr\<close> member that may be null is an \<open>option\<close>; the
  sharing itself is not observable, because a schema is immutable once built. A schema carries the
  content id its constructor computed. Where the code dereferences the \<open>message\<close> or \<open>element\<close>
  pointer of a type reference, the null branch of the model returns its input unchanged; the
  constructor rules it out (\<open>wf_schema\<close> below).
\<close>

section \<open>Kinds\<close>

datatype kind = KInt | KFloat | KText | KBool | KBytes | KMessage | KList

fun kind_code :: "kind \<Rightarrow> u8" where
  "kind_code KInt = 0"
| "kind_code KFloat = 1"
| "kind_code KText = 2"
| "kind_code KBool = 3"
| "kind_code KBytes = 4"
| "kind_code KMessage = 5"
| "kind_code KList = 6"

fun name_of_kind :: "kind \<Rightarrow> string" where
  "name_of_kind KInt = ''Int''"
| "name_of_kind KFloat = ''Float''"
| "name_of_kind KText = ''Text''"
| "name_of_kind KBool = ''Bool''"
| "name_of_kind KBytes = ''Bytes''"
| "name_of_kind KMessage = ''Message''"
| "name_of_kind KList = ''List''"

definition primitive_kind :: "kind \<Rightarrow> bool" where
  "primitive_kind k \<longleftrightarrow> k \<noteq> KMessage \<and> k \<noteq> KList"

lemma kind_code_inject [simp]: "kind_code a = kind_code b \<longleftrightarrow> a = b"
  by (cases a; cases b) simp_all

section \<open>Type references, fields, schemas\<close>

datatype typeref =
    TypeRef (tr_kind: kind) (tr_message: "schema option") (tr_element: "typeref option")
and field =
    Field (f_name: string) (f_type: typeref) (f_required: bool)
and schema =
    Schema (s_name: string) (s_version: u32) (s_fields: "field list") (s_content_id: u64)

text \<open>Recursion over a door goes down through its fields and their types.\<close>

lemma size_s_fields [termination_simp]: "size_list size (s_fields s) < size s"
  by (cases s) simp

lemma size_f_type [termination_simp]: "size (f_type f) < size f"
  by (cases f) simp

lemma size_f_type_less [termination_simp]: "f \<in> set (s_fields s) \<Longrightarrow> size (f_type f) < size s"
proof -
  assume "f \<in> set (s_fields s)"
  then have "size f \<le> size_list size (s_fields s)"
    by (induction "s_fields s" arbitrary: s) (auto simp: size_list_estimation')
  then show ?thesis using size_f_type [of f] size_s_fields [of s] by simp
qed

definition type_of :: "kind \<Rightarrow> typeref result" where
  "type_of k =
     (if k = KMessage \<or> k = KList
      then Inl (Invalid_argument ''type_of is for primitive kinds; use type_message/type_list'')
      else Inr (TypeRef k None None))"

definition type_message :: "schema option \<Rightarrow> typeref result" where
  "type_message s =
     (if s = None then Inl (Invalid_argument ''type_message requires a non-null schema'')
      else Inr (TypeRef KMessage s None))"

definition type_list :: "typeref \<Rightarrow> typeref" where
  "type_list element = TypeRef KList None (Some element)"

fun validate_typeref :: "typeref \<Rightarrow> unit result" where
  "validate_typeref (TypeRef KMessage m e) =
     (if m = None then Inl (Invalid_argument ''Message type requires a nested schema'')
      else if e \<noteq> None then Inl (Invalid_argument ''Message type must not carry a list element'')
      else Inr ())"
| "validate_typeref (TypeRef KList m e) =
     (case e of
        None \<Rightarrow> Inl (Invalid_argument ''List type requires an element type'')
      | Some el \<Rightarrow>
          if m \<noteq> None then Inl (Invalid_argument ''List type must not carry a message schema'')
          else validate_typeref el)"
| "validate_typeref (TypeRef k m e) =
     (if m \<noteq> None \<or> e \<noteq> None
      then Inl (Invalid_argument ''primitive type must not carry a schema or element'')
      else Inr ())"

section \<open>Content identity\<close>

fun hash_typeref :: "typeref \<Rightarrow> u64 \<Rightarrow> u64" where
  "hash_typeref (TypeRef k m e) h =
     (let h1 = fnv_byte (kind_code k) h in
      case k of
        KMessage \<Rightarrow> (case m of Some s \<Rightarrow> fnv_u64 (s_content_id s) h1 | None \<Rightarrow> h1)
      | KList \<Rightarrow> (case e of Some el \<Rightarrow> hash_typeref el h1 | None \<Rightarrow> h1)
      | _ \<Rightarrow> h1)"

fun hash_fields :: "field list \<Rightarrow> u64 \<Rightarrow> u64" where
  "hash_fields [] h = h"
| "hash_fields (f # fs) h =
     hash_fields fs
       (hash_typeref (f_type f)
         (fnv_byte (if f_required f then 1 else 0) (fnv_field (f_name f) h)))"

definition compute_content_id :: "string \<Rightarrow> u32 \<Rightarrow> field list \<Rightarrow> u64" where
  "compute_content_id name version fields =
     hash_fields fields
       (fnv_u64 (word_of_nat (length fields))
         (fnv_u64 (ucast version) (fnv_field name kFnvOffset)))"

section \<open>The Schema constructor\<close>

text \<open>The constructor's loop over the fields; \<open>seen\<close> is its set of field names so far.\<close>

fun check_fields :: "string list \<Rightarrow> field list \<Rightarrow> unit result" where
  "check_fields seen [] = Inr ()"
| "check_fields seen (f # fs) =
     (if f_name f = [] then Inl (Invalid_argument ''field name must not be empty'')
      else if f_name f \<in> set seen
      then Inl (Invalid_argument (''duplicate field name '' @ [CHR 39] @ f_name f @ [CHR 39]))
      else case validate_typeref (f_type f) of
             Inl e \<Rightarrow> Inl e
           | Inr _ \<Rightarrow> check_fields (f_name f # seen) fs)"

definition mk_schema :: "string \<Rightarrow> u32 \<Rightarrow> field list \<Rightarrow> schema result" where
  "mk_schema name version fields =
     (case check_fields [] fields of
        Inl e \<Rightarrow> Inl e
      | Inr _ \<Rightarrow> Inr (Schema name version fields (compute_content_id name version fields)))"

fun find_field :: "string \<Rightarrow> field list \<Rightarrow> field option" where
  "find_field n [] = None"
| "find_field n (f # fs) = (if f_name f = n then Some f else find_field n fs)"

definition schema_find :: "schema \<Rightarrow> string \<Rightarrow> field option" where
  "schema_find s n = find_field n (s_fields s)"

definition same_identity :: "schema \<Rightarrow> schema \<Rightarrow> bool" where
  "same_identity a b \<longleftrightarrow>
     s_name a = s_name b \<and> s_version a = s_version b \<and> s_content_id a = s_content_id b"

section \<open>SchemaBuilder\<close>

record schema_builder =
  sb_name :: string
  sb_version :: u32
  sb_fields :: "field list"

definition new_builder :: "string \<Rightarrow> u32 \<Rightarrow> schema_builder" where
  "new_builder name version = \<lparr>sb_name = name, sb_version = version, sb_fields = []\<rparr>"

definition builder_add :: "field \<Rightarrow> schema_builder \<Rightarrow> schema_builder" where
  "builder_add f b = b\<lparr>sb_fields := sb_fields b @ [f]\<rparr>"

definition builder_field :: "string \<Rightarrow> kind \<Rightarrow> bool \<Rightarrow> schema_builder \<Rightarrow> schema_builder result" where
  "builder_field name k required b =
     (case type_of k of Inl e \<Rightarrow> Inl e | Inr t \<Rightarrow> Inr (builder_add (Field name t required) b))"

definition builder_message ::
  "string \<Rightarrow> schema option \<Rightarrow> bool \<Rightarrow> schema_builder \<Rightarrow> schema_builder result" where
  "builder_message name s required b =
     (case type_message s of Inl e \<Rightarrow> Inl e | Inr t \<Rightarrow> Inr (builder_add (Field name t required) b))"

definition builder_list :: "string \<Rightarrow> typeref \<Rightarrow> bool \<Rightarrow> schema_builder \<Rightarrow> schema_builder" where
  "builder_list name element required b = builder_add (Field name (type_list element) required) b"

definition builder_build :: "schema_builder \<Rightarrow> schema result" where
  "builder_build b = mk_schema (sb_name b) (sb_version b) (sb_fields b)"

definition make_schema :: "string \<Rightarrow> u32 \<Rightarrow> field list \<Rightarrow> schema result" where
  "make_schema name version flds = mk_schema name version flds"

section \<open>Well-formedness\<close>

text \<open>
  What the constructor guarantees, at every depth: each type reference has exactly the pointers
  its kind calls for, field names are nonempty and distinct, and the stored content id is the
  computed one.
\<close>

fun wf_typeref :: "typeref \<Rightarrow> bool"
and wf_field :: "field \<Rightarrow> bool"
and wf_schema :: "schema \<Rightarrow> bool" where
  "wf_typeref (TypeRef k m e) =
     (case k of
        KMessage \<Rightarrow> (case m of None \<Rightarrow> False | Some s \<Rightarrow> e = None \<and> wf_schema s)
      | KList \<Rightarrow> (case e of None \<Rightarrow> False | Some el \<Rightarrow> m = None \<and> wf_typeref el)
      | _ \<Rightarrow> m = None \<and> e = None)"
| "wf_field (Field n t r) = (n \<noteq> [] \<and> wf_typeref t)"
| "wf_schema (Schema n v fs cid) =
     (distinct (map f_name fs) \<and> (\<forall>f \<in> set fs. wf_field f) \<and> cid = compute_content_id n v fs)"

text \<open>The schemas a type reference mentions are well formed (they were built earlier).\<close>

fun nested_wf :: "typeref \<Rightarrow> bool" where
  "nested_wf (TypeRef k m e) =
     ((case m of None \<Rightarrow> True | Some s \<Rightarrow> wf_schema s) \<and>
      (case e of None \<Rightarrow> True | Some el \<Rightarrow> nested_wf el))"

lemma wf_typeref_iff:
  "wf_typeref t \<longleftrightarrow> validate_typeref t = Inr () \<and> nested_wf t"
proof (induction t rule: validate_typeref.induct)
  case (2 m e)
  then show ?case by (auto split: option.splits)
qed (auto split: option.splits)

lemma check_fields_iff:
  "check_fields seen fs = Inr () \<longleftrightarrow>
     distinct (map f_name fs) \<and> set (map f_name fs) \<inter> set seen = {} \<and>
     (\<forall>f \<in> set fs. f_name f \<noteq> [] \<and> validate_typeref (f_type f) = Inr ())"
  by (induction fs arbitrary: seen) (auto split: sum.splits)

lemma wf_field_iff:
  "wf_field f \<longleftrightarrow> f_name f \<noteq> [] \<and> validate_typeref (f_type f) = Inr () \<and> nested_wf (f_type f)"
  by (cases f) (simp add: wf_typeref_iff)

lemma wf_schema_field: "wf_schema s \<Longrightarrow> f \<in> set (s_fields s) \<Longrightarrow> wf_typeref (f_type f)"
  by (cases s; cases f) auto

lemma wf_schema_distinct: "wf_schema s \<Longrightarrow> distinct (map f_name (s_fields s))"
  by (cases s) simp

lemma validate_typeref_error: "validate_typeref t = Inl e \<Longrightarrow> \<exists>why. e = Invalid_argument why"
  by (induction t rule: validate_typeref.induct) (auto split: if_splits option.splits)

lemma check_fields_error: "check_fields seen fs = Inl e \<Longrightarrow> \<exists>why. e = Invalid_argument why"
  by (induction fs arbitrary: seen)
     (auto split: if_splits sum.splits dest: validate_typeref_error)

lemma mk_schema_Inr_iff:
  "mk_schema n v fs = Inr s \<longleftrightarrow>
     check_fields [] fs = Inr () \<and> s = Schema n v fs (compute_content_id n v fs)"
  by (auto simp: mk_schema_def split: sum.splits)

text \<open>
  C39: the \<open>Schema\<close> constructor either throws \<open>std::invalid_argument\<close> or builds a schema that is
  well formed at every depth and keeps the name, version and fields it was given; it succeeds
  exactly when every field name is nonempty, no two fields share a name and every type reference
  carries exactly the pointers its kind calls for.
\<close>

theorem mk_schema_wf:
  assumes "\<forall>f \<in> set fs. nested_wf (f_type f)"
  shows "(case mk_schema n v fs of
            Inr s \<Rightarrow> wf_schema s \<and> s_name s = n \<and> s_version s = v \<and> s_fields s = fs
          | Inl e \<Rightarrow> (\<exists>why. e = Invalid_argument why))
       \<and> ((\<exists>s. mk_schema n v fs = Inr s) \<longleftrightarrow>
            distinct (map f_name fs) \<and>
            (\<forall>f \<in> set fs. f_name f \<noteq> [] \<and> validate_typeref (f_type f) = Inr ()))"
proof -
  have "wf_schema s" if "mk_schema n v fs = Inr s" for s
    using assms that by (auto simp: mk_schema_Inr_iff check_fields_iff wf_field_iff)
  moreover have "\<exists>why. e = Invalid_argument why" if "mk_schema n v fs = Inl e" for e
    using that by (auto simp: mk_schema_def split: sum.splits dest: check_fields_error)
  ultimately show ?thesis
    by (auto simp: mk_schema_Inr_iff check_fields_iff split: sum.split)
qed

theorem mk_schema_wf_witness:
  "nested_wf (TypeRef KInt None None) \<and>
   (\<exists>s. mk_schema ''P'' 1 [Field ''x'' (TypeRef KInt None None) True] = Inr s)"
  using mk_schema_wf [of "[Field ''x'' (TypeRef KInt None None) True]" "''P''" 1] by simp

section \<open>What the content id identifies\<close>

text \<open>The exact octets a schema feeds to the hash.\<close>

fun typeref_octets :: "typeref \<Rightarrow> u8 list" where
  "typeref_octets (TypeRef k m e) =
     kind_code k #
     (case k of
        KMessage \<Rightarrow> (case m of Some s \<Rightarrow> le_octets 8 (s_content_id s) | None \<Rightarrow> [])
      | KList \<Rightarrow> (case e of Some el \<Rightarrow> typeref_octets el | None \<Rightarrow> [])
      | _ \<Rightarrow> [])"

definition string_octets :: "string \<Rightarrow> u8 list" where
  "string_octets s = le_octets 8 (word_of_nat (length s)) @ map byte_of s"

definition field_octets :: "field \<Rightarrow> u8 list" where
  "field_octets f =
     string_octets (f_name f) @ (if f_required f then 1 else 0) # typeref_octets (f_type f)"

definition schema_octets :: "string \<Rightarrow> u32 \<Rightarrow> field list \<Rightarrow> u8 list" where
  "schema_octets n v fs =
     string_octets n @ le_octets 8 (ucast v) @ le_octets 8 (word_of_nat (length fs)) @
     concat (map field_octets fs)"

text \<open>Two type references of the same shape: equal up to the content ids of nested messages.\<close>

fun same_shape :: "typeref \<Rightarrow> typeref \<Rightarrow> bool" where
  "same_shape (TypeRef k m e) (TypeRef k' m' e') =
     (k = k' \<and>
      (case k of
         KMessage \<Rightarrow> map_option s_content_id m = map_option s_content_id m'
       | KList \<Rightarrow>
           (case e of
              None \<Rightarrow> e' = None
            | Some a \<Rightarrow> (case e' of None \<Rightarrow> False | Some b \<Rightarrow> same_shape a b))
       | _ \<Rightarrow> True))"

definition same_field :: "field \<Rightarrow> field \<Rightarrow> bool" where
  "same_field f g \<longleftrightarrow>
     f_name f = f_name g \<and> f_required f = f_required g \<and> same_shape (f_type f) (f_type g)"

lemma hash_typeref_fold: "hash_typeref t h = fold fnv_byte (typeref_octets t) h"
  by (induction t h rule: hash_typeref.induct)
     (auto simp: Let_def fnv_u64_fold split: kind.splits option.splits)

lemma hash_fields_fold: "hash_fields fs h = fold fnv_byte (concat (map field_octets fs)) h"
  by (induction fs arbitrary: h)
     (auto simp: field_octets_def string_octets_def fnv_field_fold hash_typeref_fold)

lemma compute_content_id_fold:
  "compute_content_id n v fs = fold fnv_byte (schema_octets n v fs) kFnvOffset"
  by (simp add: compute_content_id_def schema_octets_def string_octets_def hash_fields_fold
      fnv_u64_fold fnv_field_fold)

lemma unat_u64_less [simp]: "unat (w :: u64) < 256 ^ 8"
  using unsigned_less [of w] by simp

lemma octets8_inject: "le_octets 8 v = le_octets 8 w \<longleftrightarrow> v = w"
  using le_octets_inject [of 8 v w, OF _ unat_u64_less unat_u64_less] by blast

lemma octets8_append_inject:
  "le_octets 8 v @ xs = le_octets 8 w @ ys \<longleftrightarrow> v = w \<and> xs = ys"
  by (simp add: octets8_inject)

lemma word_of_nat_u64_inject:
  assumes "a < 2 ^ 64" and "b < 2 ^ 64"
  shows "(word_of_nat a :: u64) = word_of_nat b \<longleftrightarrow> a = b"
  using assms by (simp add: word_of_nat_eq_iff take_bit_nat_eq_self)

lemma map_byte_of_inject: "map byte_of s = map byte_of t \<longleftrightarrow> s = t"
  by (simp add: inj_map_eq_map inj_def)

lemma string_octets_append_inject:
  assumes "length s < 2 ^ 64" and "length t < 2 ^ 64"
  shows "string_octets s @ xs = string_octets t @ ys \<longleftrightarrow> s = t \<and> xs = ys"
proof
  assume "string_octets s @ xs = string_octets t @ ys"
  then have len: "length s = length t" and rest: "map byte_of s @ xs = map byte_of t @ ys"
    using assms by (auto simp: string_octets_def octets8_append_inject word_of_nat_u64_inject)
  then show "s = t \<and> xs = ys" by (simp add: map_byte_of_inject)
qed simp

lemma typeref_octets_append_inject:
  assumes "validate_typeref t = Inr ()" and "validate_typeref t' = Inr ()"
  shows "typeref_octets t @ xs = typeref_octets t' @ ys \<longleftrightarrow> same_shape t t' \<and> xs = ys"
  using assms
proof (induction t t' rule: same_shape.induct)
  case (1 k m e k' m' e')
  show ?case
  proof (cases "k = KList \<and> k' = KList")
    case True
    with 1 show ?thesis by (auto split: option.splits if_splits)
  next
    case False
    with 1 show ?thesis
      by (cases k; cases k')
         (auto split: option.splits if_splits simp: octets8_append_inject)
  qed
qed

lemma field_octets_append_inject:
  assumes "length (f_name f) < 2 ^ 64" and "length (f_name g) < 2 ^ 64"
    and "validate_typeref (f_type f) = Inr ()" and "validate_typeref (f_type g) = Inr ()"
  shows "field_octets f @ xs = field_octets g @ ys \<longleftrightarrow> same_field f g \<and> xs = ys"
  using assms
  by (auto simp: field_octets_def same_field_def string_octets_append_inject
      typeref_octets_append_inject)

text \<open>A field the hash can tell apart from others: it fits the 64-bit length prefix and its type
  reference is valid.\<close>

definition hashable :: "field \<Rightarrow> bool" where
  "hashable f \<longleftrightarrow> length (f_name f) < 2 ^ 64 \<and> validate_typeref (f_type f) = Inr ()"

lemma concat_field_octets_inject:
  assumes "length fs = length gs" and "\<forall>f \<in> set fs. hashable f" and "\<forall>g \<in> set gs. hashable g"
  shows "concat (map field_octets fs) = concat (map field_octets gs) \<longleftrightarrow> list_all2 same_field fs gs"
  using assms
  by (induction fs gs rule: list_induct2)
     (auto simp: field_octets_append_inject hashable_def)

lemma schema_octets_inject:
  assumes "length n < 2 ^ 64" and "length n' < 2 ^ 64"
    and "length fs < 2 ^ 64" and "length gs < 2 ^ 64"
    and "\<forall>f \<in> set fs. hashable f" and "\<forall>g \<in> set gs. hashable g"
  shows "schema_octets n v fs = schema_octets n' v' gs \<longleftrightarrow>
    n = n' \<and> v = v' \<and> list_all2 same_field fs gs"
proof -
  have len: "(word_of_nat (length fs) :: u64) = word_of_nat (length gs) \<longleftrightarrow> length fs = length gs"
    using assms(3,4) by (rule word_of_nat_u64_inject)
  show ?thesis
    unfolding schema_octets_def string_octets_append_inject [OF assms(1,2)] octets8_append_inject
      ucast_u32_u64_inject len
    using concat_field_octets_inject [OF _ assms(5,6)] by (auto dest: list_all2_lengthD)
qed

text \<open>
  C40: the content id is the hash of an octet stream that determines the schema. For valid type
  references and sizes below 2^64, two schemas feed the same stream exactly when they agree on the
  name, the version and, field by field, on the field name, the required flag and the shape of the
  type (nested messages compared by their own content id). So equal shapes always share a content
  id, and two different shapes can only share one by a hash collision.
\<close>

theorem content_id_identifies:
  assumes "length n < 2 ^ 64" and "length n' < 2 ^ 64"
    and "length fs < 2 ^ 64" and "length gs < 2 ^ 64"
    and "\<forall>f \<in> set fs. hashable f" and "\<forall>g \<in> set gs. hashable g"
  shows "compute_content_id n v fs = fold fnv_byte (schema_octets n v fs) kFnvOffset
    \<and> (schema_octets n v fs = schema_octets n' v' gs \<longleftrightarrow>
         n = n' \<and> v = v' \<and> list_all2 same_field fs gs)"
  using schema_octets_inject [OF assms] by (simp add: compute_content_id_fold)

theorem content_id_identifies_witness:
  "schema_octets ''P'' 1 [Field ''x'' (TypeRef KInt None None) True] \<noteq>
   schema_octets ''P'' 1 [Field ''x'' (TypeRef KFloat None None) True]"
  using content_id_identifies [of "''P''" "''P''" "[Field ''x'' (TypeRef KInt None None) True]"
      "[Field ''x'' (TypeRef KFloat None None) True]" 1 1]
  by (simp add: hashable_def same_field_def)

text \<open>
  no collision can hide a small edit. Flipping one field's required flag, or replacing the
  kind of one primitive field by another primitive kind, always changes the content id, whatever
  the other fields are.
\<close>

theorem content_id_small_edit:
  assumes "primitive_kind k" and "primitive_kind k'" and "(k, r) \<noteq> (k', r')" and "k = k' \<or> r = r'"
  shows "compute_content_id n v (pre @ Field x (TypeRef k None None) r # post) \<noteq>
         compute_content_id n v (pre @ Field x (TypeRef k' None None) r' # post)"
proof -
  let ?req = "\<lambda>b. (if b then 1 else 0) :: u8"
  have oct: "typeref_octets (TypeRef j None None) = [kind_code j]" if "primitive_kind j" for j
    using that by (cases j) (simp_all add: primitive_kind_def)
  define xs where "xs = string_octets n @ le_octets 8 (ucast v) @
    le_octets 8 (word_of_nat (length pre + 1 + length post)) @ concat (map field_octets pre) @
    string_octets x"
  define ys where "ys = concat (map field_octets post)"
  have split: "schema_octets n v (pre @ Field x (TypeRef j None None) b # post) =
      xs @ ?req b # kind_code j # ys" if "primitive_kind j" for j b
    using oct [OF that]
    by (simp add: schema_octets_def field_octets_def xs_def ys_def add.commute
        del: typeref_octets.simps)
  show ?thesis
  proof (cases "k = k'")
    case True
    then have "?req r \<noteq> ?req r'" using assms(3) by auto
    then show ?thesis
      using fnv_single_byte [of xs "?req r" "kind_code k # ys" kFnvOffset "?req r'"]
      by (simp add: compute_content_id_fold split assms(1,2) True [symmetric] del: fold_append)
  next
    case False
    then have "r = r'" and "kind_code k \<noteq> kind_code k'" using assms(4) by auto
    then show ?thesis
      using fnv_single_byte [of "xs @ [?req r]" "kind_code k" ys kFnvOffset "kind_code k'"]
      by (simp add: compute_content_id_fold split assms(1,2) del: fold_append)
  qed
qed

theorem content_id_small_edit_witness:
  "compute_content_id ''P'' 1 [Field ''x'' (TypeRef KInt None None) True] \<noteq>
   compute_content_id ''P'' 1 [Field ''x'' (TypeRef KInt None None) False]"
  using content_id_small_edit [of KInt KInt True False "''P''" 1 "[]" "''x''" "[]"]
  by (simp add: primitive_kind_def)

end
