(* ===== verification/Zen_Value.thy ===== *)
theory Zen_Value
  imports Zen_Schema
begin

text \<open>
  Cells and self-describing values: \<open>include/zen/value.hpp\<close> and \<open>src/value.cpp\<close>. A cell is the
  variant \<open>Cell::Storage\<close>; a \<open>std::shared_ptr<Value>\<close> is an \<open>option\<close> (null or not), because a
  value is treated as immutable once shared. A value is its claimed schema and one optional cell
  per declared field (\<open>slots_\<close>, aligned with \<open>schema_->fields()\<close>). A \<open>double\<close> is its bit
  pattern.
\<close>

section \<open>Cells\<close>

datatype cell =
    CInt i64
  | CFloat f64
  | CText string
  | CBool bool
  | CBytes "u8 list"
  | CMessage "zvalue option"
  | CList "cell list"
and zvalue =
    Value (v_schema: schema) (v_slots: "cell option list")

fun cell_kind :: "cell \<Rightarrow> kind" where
  "cell_kind (CInt _) = KInt"
| "cell_kind (CFloat _) = KFloat"
| "cell_kind (CText _) = KText"
| "cell_kind (CBool _) = KBool"
| "cell_kind (CBytes _) = KBytes"
| "cell_kind (CMessage _) = KMessage"
| "cell_kind (CList _) = KList"

fun as_int :: "cell \<Rightarrow> i64 result" where
  "as_int (CInt v) = Inr v"
| "as_int _ = Inl Bad_variant_access"

fun as_float :: "cell \<Rightarrow> f64 result" where
  "as_float (CFloat v) = Inr v"
| "as_float _ = Inl Bad_variant_access"

fun as_text :: "cell \<Rightarrow> string result" where
  "as_text (CText v) = Inr v"
| "as_text _ = Inl Bad_variant_access"

fun as_bool :: "cell \<Rightarrow> bool result" where
  "as_bool (CBool v) = Inr v"
| "as_bool _ = Inl Bad_variant_access"

fun as_bytes :: "cell \<Rightarrow> u8 list result" where
  "as_bytes (CBytes v) = Inr v"
| "as_bytes _ = Inl Bad_variant_access"

fun as_message :: "cell \<Rightarrow> zvalue option result" where
  "as_message (CMessage v) = Inr v"
| "as_message _ = Inl Bad_variant_access"

fun as_list :: "cell \<Rightarrow> cell list result" where
  "as_list (CList v) = Inr v"
| "as_list _ = Inl Bad_variant_access"

section \<open>Values\<close>

text \<open>The index at which the scan \<open>for (i = 0; i < fields.size(); ++i)\<close> stops, if it does.\<close>

fun field_index :: "string \<Rightarrow> field list \<Rightarrow> nat option" where
  "field_index n [] = None"
| "field_index n (f # fs) =
     (if f_name f = n then Some 0 else map_option Suc (field_index n fs))"

definition new_value :: "schema option \<Rightarrow> zvalue result" where
  "new_value s =
     (case s of
        None \<Rightarrow> Inl (Invalid_argument ''Value requires a non-null schema'')
      | Some sc \<Rightarrow> Inr (Value sc (replicate (length (s_fields sc)) None)))"

definition value_set :: "string \<Rightarrow> cell \<Rightarrow> zvalue \<Rightarrow> zvalue result" where
  "value_set n c v =
     (case field_index n (s_fields (v_schema v)) of
        Some i \<Rightarrow> Inr (Value (v_schema v) ((v_slots v)[i := Some c]))
      | None \<Rightarrow>
          Inl (Out_of_range (''field '' @ [CHR 39] @ n @ [CHR 39] @
            '' is not declared by schema '' @ [CHR 39] @ s_name (v_schema v) @ [CHR 39])))"

definition value_get :: "zvalue \<Rightarrow> string \<Rightarrow> cell option" where
  "value_get v n =
     (case field_index n (s_fields (v_schema v)) of
        Some i \<Rightarrow> v_slots v ! i
      | None \<Rightarrow> None)"

definition value_has :: "zvalue \<Rightarrow> string \<Rightarrow> bool" where
  "value_has v n \<longleftrightarrow> value_get v n \<noteq> None"

definition field_count :: "zvalue \<Rightarrow> nat" where
  "field_count v = length (v_slots v)"

definition value_at :: "zvalue \<Rightarrow> nat \<Rightarrow> cell option" where
  "value_at v i = (if i \<ge> length (v_slots v) then None else v_slots v ! i)"

fun fill_blind :: "(field \<Rightarrow> cell option) \<Rightarrow> field list \<Rightarrow> zvalue \<Rightarrow> zvalue result" where
  "fill_blind source [] v = Inr v"
| "fill_blind source (f # fs) v =
     (case source f of
        None \<Rightarrow> fill_blind source fs v
      | Some c \<Rightarrow>
          (case value_set (f_name f) c v of
             Inl e \<Rightarrow> Inl e
           | Inr v' \<Rightarrow> fill_blind source fs v'))"

definition construct_blind :: "schema option \<Rightarrow> (field \<Rightarrow> cell option) \<Rightarrow> zvalue result" where
  "construct_blind s source =
     (case new_value s of
        Inl e \<Rightarrow> Inl e
      | Inr v \<Rightarrow> fill_blind source (s_fields (v_schema v)) v)"

section \<open>Slots and names\<close>

text \<open>The class invariant of \<open>Value\<close>: one slot per declared field.\<close>

definition aligned :: "zvalue \<Rightarrow> bool" where
  "aligned v \<longleftrightarrow> length (v_slots v) = length (s_fields (v_schema v))"

lemma field_index_None_iff: "field_index n fs = None \<longleftrightarrow> n \<notin> f_name ` set fs"
  by (induction fs) auto

lemma field_index_Some:
  "field_index n fs = Some i \<Longrightarrow> i < length fs \<and> f_name (fs ! i) = n"
  by (induction fs arbitrary: i) (auto split: if_splits)

lemma field_index_nth:
  "distinct (map f_name fs) \<Longrightarrow> i < length fs \<Longrightarrow> field_index (f_name (fs ! i)) fs = Some i"
proof (induction fs arbitrary: i)
  case (Cons f fs)
  then show ?case by (cases i) (auto dest: nth_mem)
qed simp

lemma aligned_new_value: "new_value s = Inr v \<Longrightarrow> aligned v"
  by (auto simp: new_value_def aligned_def split: option.splits)

lemma value_set_Inr:
  assumes "value_set n c v = Inr v'"
  shows "v_schema v' = v_schema v" and "aligned v \<Longrightarrow> aligned v'"
  using assms by (auto simp: value_set_def aligned_def split: option.splits)

lemma value_set_declared:
  "(\<exists>v'. value_set n c v = Inr v') \<longleftrightarrow> n \<in> f_name ` set (s_fields (v_schema v))"
proof (cases "field_index n (s_fields (v_schema v))")
  case None
  then show ?thesis using field_index_None_iff [of n "s_fields (v_schema v)"]
    by (simp add: value_set_def)
next
  case (Some i)
  then show ?thesis using field_index_None_iff [of n "s_fields (v_schema v)"]
    by (simp add: value_set_def)
qed

lemma value_get_set:
  assumes "aligned v" and "value_set n c v = Inr v'"
  shows "value_get v' m = (if m = n then Some c else value_get v m)"
proof -
  obtain i where i: "field_index n (s_fields (v_schema v)) = Some i"
    and v': "v' = Value (v_schema v) ((v_slots v)[i := Some c])"
    using assms(2) by (auto simp: value_set_def split: option.splits)
  have "i < length (v_slots v)"
    using field_index_Some [OF i] assms(1) by (simp add: aligned_def)
  moreover have "j \<noteq> i" if "field_index m (s_fields (v_schema v)) = Some j" "m \<noteq> n" for j
    using field_index_Some [OF i] field_index_Some [OF that(1)] that(2) by auto
  ultimately show ?thesis
    using i v' by (auto simp: value_get_def split: option.splits)
qed

lemma value_get_nth:
  assumes "distinct (map f_name (s_fields (v_schema v)))" and "i < length (s_fields (v_schema v))"
  shows "value_get v (f_name (s_fields (v_schema v) ! i)) = v_slots v ! i"
  by (simp add: value_get_def field_index_nth assms)

text \<open>
  a value holds a field exactly when it was set. On an aligned value, \<open>set\<close> succeeds exactly
  for the declared names, throws \<open>std::out_of_range\<close> otherwise, keeps the claimed schema and the
  slot alignment, makes \<open>get\<close> return the new cell for that name and leaves every other name's
  cell as it was.
\<close>

theorem value_set_correct:
  assumes "aligned v"
  shows "(case value_set n c v of
            Inr v' \<Rightarrow>
              n \<in> f_name ` set (s_fields (v_schema v)) \<and> aligned v' \<and> v_schema v' = v_schema v \<and>
              (\<forall>m. value_get v' m = (if m = n then Some c else value_get v m))
          | Inl e \<Rightarrow>
              n \<notin> f_name ` set (s_fields (v_schema v)) \<and> (\<exists>why. e = Out_of_range why))"
proof (cases "value_set n c v")
  case (Inl e)
  then show ?thesis
    using value_set_declared [of n c v] by (auto simp: value_set_def split: option.splits)
next
  case (Inr v')
  then show ?thesis
    using value_set_declared [of n c v] value_set_Inr [OF Inr] value_get_set [OF assms Inr] assms
    by auto
qed

theorem value_set_correct_witness:
  "value_set ''x'' (CInt 7)
     (Value (Schema ''P'' 1 [Field ''x'' (TypeRef KInt None None) True] 0) [None]) =
   Inr (Value (Schema ''P'' 1 [Field ''x'' (TypeRef KInt None None) True] 0) [Some (CInt 7)])"
  using value_set_correct [of "Value (Schema ''P'' 1 [Field ''x'' (TypeRef KInt None None) True] 0)
      [None]" "''x''" "CInt 7"]
  by (simp add: aligned_def value_set_def)

lemma fill_blind_get:
  assumes "aligned v" and "f_name ` set fs \<subseteq> f_name ` set (s_fields (v_schema v))"
    and "distinct (map f_name fs)"
  shows "\<exists>v'. fill_blind source fs v = Inr v' \<and> v_schema v' = v_schema v \<and> aligned v' \<and>
    (\<forall>f \<in> set fs. value_get v' (f_name f) =
       (case source f of None \<Rightarrow> value_get v (f_name f) | Some c \<Rightarrow> Some c)) \<and>
    (\<forall>n. n \<notin> f_name ` set fs \<longrightarrow> value_get v' n = value_get v n)"
  using assms
proof (induction fs arbitrary: v)
  case Nil
  then show ?case by simp
next
  case (Cons f fs)
  obtain w where w: "fill_blind source (f # fs) v = fill_blind source fs w"
      "v_schema w = v_schema v" "aligned w"
      "\<And>n. value_get w n =
        (case source f of None \<Rightarrow> value_get v n
         | Some c \<Rightarrow> if n = f_name f then Some c else value_get v n)"
  proof (cases "source f")
    case None
    then show ?thesis using that [of v] Cons.prems(1) by simp
  next
    case (Some c)
    moreover obtain v' where v': "value_set (f_name f) c v = Inr v'"
      using Cons.prems(2) value_set_declared [of "f_name f" c v] by auto
    ultimately show ?thesis
      using that [of v'] value_set_Inr [OF v'] value_get_set [OF Cons.prems(1) v'] Cons.prems(1)
      by simp
  qed
  from Cons.IH [of w] w(2,3) Cons.prems(2,3) obtain v' where v':
    "fill_blind source fs w = Inr v'" "v_schema v' = v_schema w" "aligned v'"
    "\<And>g. g \<in> set fs \<Longrightarrow> value_get v' (f_name g) =
       (case source g of None \<Rightarrow> value_get w (f_name g) | Some c \<Rightarrow> Some c)"
    "\<And>n. n \<notin> f_name ` set fs \<Longrightarrow> value_get v' n = value_get w n"
    by auto
  have "f_name g \<noteq> f_name f" if "g \<in> set fs" for g
    using Cons.prems(3) imageI [OF that, of f_name] by auto
  moreover have "f_name f \<notin> f_name ` set fs"
    using Cons.prems(3) by simp
  ultimately show ?case
    using v' w by (auto split: option.splits)
qed

text \<open>
  Blind construction never throws for a schema with distinct field names, and the value it
  builds claims that schema and holds, for each declared field, exactly what the source returned
  for it (absent where the source returned nothing).
\<close>

theorem construct_blind_correct:
  assumes "distinct (map f_name (s_fields s))"
  shows "\<exists>v. construct_blind (Some s) source = Inr v \<and> v_schema v = s \<and> aligned v \<and>
    (\<forall>f \<in> set (s_fields s). value_get v (f_name f) = source f)"
proof -
  let ?v0 = "Value s (replicate (length (s_fields s)) None)"
  have empty: "value_get ?v0 n = None" for n
  proof (cases "field_index n (s_fields s)")
    case (Some i)
    then show ?thesis using field_index_Some [OF Some] by (simp add: value_get_def)
  qed (simp add: value_get_def)
  from fill_blind_get [of ?v0 "s_fields s" source] assms obtain v where
    "fill_blind source (s_fields s) ?v0 = Inr v" "v_schema v = s" "aligned v"
    "\<forall>f \<in> set (s_fields s). value_get v (f_name f) =
       (case source f of None \<Rightarrow> value_get ?v0 (f_name f) | Some c \<Rightarrow> Some c)"
    by (auto simp: aligned_def)
  then show ?thesis
    by (auto simp: construct_blind_def new_value_def empty split: option.splits)
qed

theorem construct_blind_correct_witness:
  "\<exists>v. construct_blind (Some (Schema ''P'' 1 [Field ''x'' (TypeRef KBool None None) True] 0))
         (\<lambda>f. Some (CBool True)) = Inr v
     \<and> value_get v ''x'' = Some (CBool True)"
  using construct_blind_correct
    [of "Schema ''P'' 1 [Field ''x'' (TypeRef KBool None None) True] 0" "\<lambda>f. Some (CBool True)"]
  by auto

end
