(* ===== verification/Zen_Gate.thy ===== *)
theory Zen_Gate
  imports Zen_Value
begin

text \<open>
  The one gate: \<open>include/zen/admission.hpp\<close>, \<open>include/zen/gate.hpp\<close>, \<open>src/gate.cpp\<close> and
  \<open>src/detail/gate_internal.hpp\<close>. The validator keeps the source's shape: a context \<open>Ctx\<close> with the
  errors so far, the report mode and the \<open>stopped\<close> flag is threaded through the mutually recursive
  \<open>validate_value\<close> and \<open>validate_cell\<close> (their two \<open>for\<close> loops are \<open>validate_fields\<close> and
  \<open>validate_items\<close>). The process-wide counter \<open>g_gate_calls\<close> is an explicit word passed in and
  returned. The reference definition \<open>value_errors\<close> lists every offence; the lemmas relate the two
  report modes to it and to the declarative predicate \<open>value_conforms\<close>.
\<close>

section \<open>Errors and admissions\<close>

datatype error_kind =
    EK_None | SchemaMismatch | UnknownSchema | MissingField | TypeMismatch | NullMessage
  | MalformedBytes | MalformedField | UnknownField

fun name_of_error_kind :: "error_kind \<Rightarrow> string" where
  "name_of_error_kind EK_None = ''None''"
| "name_of_error_kind SchemaMismatch = ''SchemaMismatch''"
| "name_of_error_kind UnknownSchema = ''UnknownSchema''"
| "name_of_error_kind MissingField = ''MissingField''"
| "name_of_error_kind TypeMismatch = ''TypeMismatch''"
| "name_of_error_kind NullMessage = ''NullMessage''"
| "name_of_error_kind MalformedBytes = ''MalformedBytes''"
| "name_of_error_kind MalformedField = ''MalformedField''"
| "name_of_error_kind UnknownField = ''UnknownField''"

record zerror =
  e_kind :: error_kind
  e_path :: string
  e_expected :: string
  e_actual :: string
  e_detail :: string

definition mk_error :: "error_kind \<Rightarrow> string \<Rightarrow> string \<Rightarrow> string \<Rightarrow> string \<Rightarrow> zerror" where
  "mk_error k p ex ac d =
     \<lparr>e_kind = k, e_path = p, e_expected = ex, e_actual = ac, e_detail = d\<rparr>"

text \<open>The separator before the detail is an em dash, three octets in UTF-8.\<close>

definition error_message :: "zerror \<Rightarrow> string" where
  "error_message e =
     (let loc = (if e_path e = [] then ''<value>'' else e_path e);
          s = loc @ '': '' @ name_of_error_kind (e_kind e);
          s = (if e_expected e \<noteq> [] \<or> e_actual e \<noteq> []
               then s @ '' (expected '' @ e_expected e @ '', got '' @ e_actual e @ '')'' else s)
      in if e_detail e \<noteq> []
         then s @ '' '' @ [CHR 0xE2, CHR 0x80, CHR 0x94] @ '' '' @ e_detail e else s)"

text \<open>\<open>class Admission\<close>: the optional value and the error vector, both as the class stores them.\<close>

record admission =
  a_value :: "zvalue option"
  a_errors :: "zerror list"

definition accept :: "zvalue \<Rightarrow> admission" where
  "accept v = \<lparr>a_value = Some v, a_errors = []\<rparr>"

definition reject_one :: "zerror \<Rightarrow> admission" where
  "reject_one e = \<lparr>a_value = None, a_errors = [e]\<rparr>"

definition reject :: "zerror list \<Rightarrow> admission" where
  "reject es =
     \<lparr>a_value = None,
      a_errors = (if es = [] then [mk_error EK_None [] [] [] ''refused without detail''] else es)\<rparr>"

definition adm_ok :: "admission \<Rightarrow> bool" where
  "adm_ok a \<longleftrightarrow> a_value a \<noteq> None"

definition adm_value :: "admission \<Rightarrow> zvalue result" where
  "adm_value a =
     (case a_value a of
        None \<Rightarrow> Inl (Logic_error ''Admission::value() called on a refused admission'')
      | Some v \<Rightarrow> Inr v)"

definition first_error :: "admission \<Rightarrow> zerror result" where
  "first_error a =
     (case a_errors a of
        [] \<Rightarrow> Inl (Logic_error ''Admission::first_error() called on an accepted admission'')
      | e # _ \<Rightarrow> Inr e)"

section \<open>The single validator\<close>

definition version_label :: "schema \<Rightarrow> string" where
  "version_label s = s_name s @ '' v'' @ to_string (unat (s_version s))"

fun type_label :: "typeref \<Rightarrow> string" where
  "type_label (TypeRef k m e) =
     (case k of
        KMessage \<Rightarrow>
          ''Message('' @ (case m of Some s \<Rightarrow> version_label s | None \<Rightarrow> []) @ '')''
      | KList \<Rightarrow> ''List<'' @ (case e of Some el \<Rightarrow> type_label el | None \<Rightarrow> []) @ ''>''
      | _ \<Rightarrow> name_of_kind k)"

record ctx =
  errs :: "zerror list"
  collect_all :: bool
  stopped :: bool

definition emit :: "zerror \<Rightarrow> ctx \<Rightarrow> ctx" where
  "emit e c =
     (let c' = c\<lparr>errs := errs c @ [e]\<rparr> in if collect_all c then c' else c'\<lparr>stopped := True\<rparr>)"

definition join_path :: "string \<Rightarrow> string \<Rightarrow> string" where
  "join_path base n = (if base = [] then n else base @ ''.'' @ n)"

definition item_path :: "string \<Rightarrow> nat \<Rightarrow> string" where
  "item_path path i = path @ ''['' @ to_string i @ '']''"

function (sequential) validate_value :: "zvalue \<Rightarrow> schema \<Rightarrow> ctx \<Rightarrow> string \<Rightarrow> ctx"
and validate_fields :: "zvalue \<Rightarrow> field list \<Rightarrow> ctx \<Rightarrow> string \<Rightarrow> ctx"
and validate_cell :: "cell \<Rightarrow> typeref \<Rightarrow> ctx \<Rightarrow> string \<Rightarrow> ctx"
and validate_items :: "cell list \<Rightarrow> nat \<Rightarrow> typeref \<Rightarrow> ctx \<Rightarrow> string \<Rightarrow> ctx" where
  "validate_value v door cx base = validate_fields v (s_fields door) cx base"
| "validate_fields v [] cx base = cx"
| "validate_fields v (f # fs) cx base =
     (if stopped cx then cx
      else
        let fpath = join_path base (f_name f) in
        case value_get v (f_name f) of
          None \<Rightarrow>
            validate_fields v fs
              (if f_required f
               then emit (mk_error MissingField fpath (type_label (f_type f)) ''absent'' []) cx
               else cx) base
        | Some c \<Rightarrow> validate_fields v fs (validate_cell c (f_type f) cx fpath) base)"
| "validate_cell c (TypeRef k m e) cx path =
     (if stopped cx then cx
      else
        case k of
          KMessage \<Rightarrow>
            (case c of
               CMessage None \<Rightarrow>
                 emit (mk_error NullMessage path (type_label (TypeRef k m e)) ''null'' []) cx
             | CMessage (Some nested) \<Rightarrow>
                 (case m of
                    None \<Rightarrow> cx
                  | Some s \<Rightarrow>
                      if s_content_id (v_schema nested) \<noteq> s_content_id s
                      then emit (mk_error SchemaMismatch path (type_label (TypeRef k m e))
                             (version_label (v_schema nested))
                             ''nested value claims a different shape'') cx
                      else validate_value nested s cx path)
             | _ \<Rightarrow>
                 emit (mk_error TypeMismatch path (type_label (TypeRef k m e))
                   (name_of_kind (cell_kind c)) []) cx)
        | KList \<Rightarrow>
            (case c of
               CList arr \<Rightarrow>
                 (case e of None \<Rightarrow> cx | Some el \<Rightarrow> validate_items arr 0 el cx path)
             | _ \<Rightarrow>
                 emit (mk_error TypeMismatch path (type_label (TypeRef k m e))
                   (name_of_kind (cell_kind c)) []) cx)
        | _ \<Rightarrow>
            (if cell_kind c \<noteq> k
             then emit (mk_error TypeMismatch path (name_of_kind k)
                    (name_of_kind (cell_kind c)) []) cx
             else cx))"
| "validate_items [] i el cx path = cx"
| "validate_items (c # cs) i el cx path =
     (if stopped cx then cx
      else validate_items cs (Suc i) el (validate_cell c el cx (item_path path i)) path)"
  by pat_completeness auto
termination
  by (relation "measures
      [\<lambda>x. case x of
          Inl (Inl (v, s, cx, b)) \<Rightarrow> size s
        | Inl (Inr (v, fs, cx, b)) \<Rightarrow> size_list size fs
        | Inr (Inl (c, t, cx, b)) \<Rightarrow> size t
        | Inr (Inr (cs, i, t, cx, b)) \<Rightarrow> size t,
       \<lambda>x. case x of Inr (Inr (cs, i, t, cx, b)) \<Rightarrow> Suc (length cs) | _ \<Rightarrow> 0]")
     (auto simp: termination_simp intro: less_trans [OF size_f_type])

definition validate_into :: "zvalue \<Rightarrow> schema \<Rightarrow> bool \<Rightarrow> u64 \<Rightarrow> zerror list \<times> u64" where
  "validate_into claimant door collect g =
     (let g' = g + 1 in
      if s_content_id (v_schema claimant) \<noteq> s_content_id door
      then ([mk_error SchemaMismatch [] (version_label door) (version_label (v_schema claimant))
               ''claimed shape does not match this door''], g')
      else (errs (validate_value claimant door
                   \<lparr>errs = [], collect_all = collect, stopped = False\<rparr> []), g'))"

section \<open>The public gate\<close>

datatype report = FirstError | Full

definition admit :: "zvalue \<Rightarrow> schema \<Rightarrow> report \<Rightarrow> u64 \<Rightarrow> admission \<times> u64" where
  "admit claimant door r g =
     (let (es, g') = validate_into claimant door (r = Full) g in
      if es = [] then (accept claimant, g') else (reject es, g'))"

definition diagnose :: "zvalue \<Rightarrow> schema \<Rightarrow> u64 \<Rightarrow> zerror list \<times> u64" where
  "diagnose claimant door g = validate_into claimant door True g"

section \<open>Reference definitions: every offence, and conformance\<close>

function (sequential) cell_errors :: "cell \<Rightarrow> typeref \<Rightarrow> string \<Rightarrow> zerror list"
and value_errors :: "zvalue \<Rightarrow> schema \<Rightarrow> string \<Rightarrow> zerror list" where
  "cell_errors c (TypeRef k m e) path =
     (case k of
        KMessage \<Rightarrow>
          (case c of
             CMessage None \<Rightarrow> [mk_error NullMessage path (type_label (TypeRef k m e)) ''null'' []]
           | CMessage (Some nested) \<Rightarrow>
               (case m of
                  None \<Rightarrow> []
                | Some s \<Rightarrow>
                    if s_content_id (v_schema nested) \<noteq> s_content_id s
                    then [mk_error SchemaMismatch path (type_label (TypeRef k m e))
                            (version_label (v_schema nested))
                            ''nested value claims a different shape'']
                    else value_errors nested s path)
           | _ \<Rightarrow> [mk_error TypeMismatch path (type_label (TypeRef k m e))
                    (name_of_kind (cell_kind c)) []])
      | KList \<Rightarrow>
          (case c of
             CList arr \<Rightarrow>
               (case e of
                  None \<Rightarrow> []
                | Some el \<Rightarrow>
                    concat (map (\<lambda>(i, x). cell_errors x el (item_path path i))
                      (zip [0..<length arr] arr)))
           | _ \<Rightarrow> [mk_error TypeMismatch path (type_label (TypeRef k m e))
                    (name_of_kind (cell_kind c)) []])
      | _ \<Rightarrow>
          (if cell_kind c \<noteq> k
           then [mk_error TypeMismatch path (name_of_kind k) (name_of_kind (cell_kind c)) []]
           else []))"
| "value_errors v door base =
     concat (map (\<lambda>f.
       case value_get v (f_name f) of
         None \<Rightarrow>
           (if f_required f
            then [mk_error MissingField (join_path base (f_name f)) (type_label (f_type f))
                    ''absent'' []]
            else [])
       | Some c \<Rightarrow> cell_errors c (f_type f) (join_path base (f_name f)))
      (s_fields door))"
  by pat_completeness auto
termination
  by (relation "measure (\<lambda>x. case x of Inl (c, t, p) \<Rightarrow> size t | Inr (v, s, p) \<Rightarrow> size s)")
     (auto simp: termination_simp dest: size_f_type_less)

definition field_errors :: "zvalue \<Rightarrow> string \<Rightarrow> field \<Rightarrow> zerror list" where
  "field_errors v base f =
     (case value_get v (f_name f) of
        None \<Rightarrow>
          (if f_required f
           then [mk_error MissingField (join_path base (f_name f)) (type_label (f_type f))
                   ''absent'' []]
           else [])
      | Some c \<Rightarrow> cell_errors c (f_type f) (join_path base (f_name f)))"

definition items_errors :: "typeref \<Rightarrow> string \<Rightarrow> nat \<Rightarrow> cell list \<Rightarrow> zerror list" where
  "items_errors el path i cs =
     concat (map (\<lambda>(j, x). cell_errors x el (item_path path j)) (zip [i..<i + length cs] cs))"

lemma value_errors_fields:
  "value_errors v door base = concat (map (field_errors v base) (s_fields door))"
  by (simp add: field_errors_def [abs_def])

lemma items_errors_Nil [simp]: "items_errors el path i [] = []"
  by (simp add: items_errors_def)

lemma items_errors_Cons [simp]:
  "items_errors el path i (c # cs) =
     cell_errors c el (item_path path i) @ items_errors el path (Suc i) cs"
  by (simp add: items_errors_def upt_conv_Cons del: upt_Suc)

declare value_errors.simps [simp del]

text \<open>
  Declarative conformance: every declared field is present if required, and a present cell has the
  declared kind, recursively, a nested message also claiming the nested schema's content id.
\<close>

function (sequential) cell_conforms :: "cell \<Rightarrow> typeref \<Rightarrow> bool"
and value_conforms :: "zvalue \<Rightarrow> schema \<Rightarrow> bool" where
  "cell_conforms c (TypeRef k m e) =
     (case k of
        KMessage \<Rightarrow>
          (case c of
             CMessage (Some nested) \<Rightarrow>
               (case m of
                  None \<Rightarrow> False
                | Some s \<Rightarrow>
                    s_content_id (v_schema nested) = s_content_id s \<and> value_conforms nested s)
           | _ \<Rightarrow> False)
      | KList \<Rightarrow>
          (case c of
             CList arr \<Rightarrow>
               (case e of None \<Rightarrow> False | Some el \<Rightarrow> (\<forall>x \<in> set arr. cell_conforms x el))
           | _ \<Rightarrow> False)
      | _ \<Rightarrow> cell_kind c = k)"
| "value_conforms v door =
     (\<forall>f \<in> set (s_fields door).
        case value_get v (f_name f) of
          None \<Rightarrow> \<not> f_required f
        | Some c \<Rightarrow> cell_conforms c (f_type f))"
  by pat_completeness auto
termination
  by (relation "measure (\<lambda>x. case x of Inl (c, t) \<Rightarrow> size t | Inr (v, s) \<Rightarrow> size s)")
     (auto simp: termination_simp dest: size_f_type_less)

declare value_conforms.simps [simp del]

section \<open>The validator implements the reference\<close>

text \<open>Adding a batch of errors to a context, in either report mode.\<close>

definition ctx_add :: "zerror list \<Rightarrow> ctx \<Rightarrow> ctx" where
  "ctx_add es cx =
     (if stopped cx \<or> es = [] then cx
      else if collect_all cx then cx\<lparr>errs := errs cx @ es\<rparr>
      else cx\<lparr>errs := errs cx @ [hd es], stopped := True\<rparr>)"

lemma ctx_add_Nil [simp]: "ctx_add [] cx = cx"
  by (simp add: ctx_add_def)

lemma ctx_add_stopped [simp]: "stopped cx \<Longrightarrow> ctx_add es cx = cx"
  by (simp add: ctx_add_def)

lemma ctx_add_ctx_add [simp]: "ctx_add b (ctx_add a cx) = ctx_add (a @ b) cx"
  by (simp add: ctx_add_def)

lemma emit_ctx_add: "\<not> stopped cx \<Longrightarrow> emit e cx = ctx_add [e] cx"
  by (simp add: emit_def ctx_add_def)

lemma validate_refines:
  shows "validate_value v s cx base = ctx_add (value_errors v s base) cx"
    and "validate_fields v fs cx base = ctx_add (concat (map (field_errors v base) fs)) cx"
    and "validate_cell c t cx path = ctx_add (cell_errors c t path) cx"
    and "validate_items cs i el cx path = ctx_add (items_errors el path i cs) cx"
proof (induction v s cx base and v fs cx base and c t cx path and cs i el cx path
    rule: validate_value_validate_fields_validate_cell_validate_items.induct)
  case (1 v door cx base)
  then show ?case by (simp add: value_errors_fields)
next
  case (3 v f fs cx base)
  then show ?case
    by (auto simp: field_errors_def Let_def emit_ctx_add split: option.splits)
next
  case (4 c k m e cx path)
  then show ?case
    by (cases "stopped cx"; cases k)
       (auto simp: emit_ctx_add items_errors_def split: cell.splits option.splits)
qed auto

declare validate_value.simps [simp del]

lemma zip_upt_ball:
  "(\<forall>p \<in> set (zip [0..<length xs] xs). P (snd p)) \<longleftrightarrow> (\<forall>x \<in> set xs. P x)"
proof -
  have "snd ` set (zip [0..<length xs] xs) = set xs"
    by (metis list.set_map map_snd_zip length_upt minus_nat.diff_0)
  then show ?thesis by (metis imageE imageI)
qed

lemma cell_errors_Nil_iff:
  shows "wf_typeref t \<Longrightarrow> cell_errors c t path = [] \<longleftrightarrow> cell_conforms c t"
    and "wf_schema s \<Longrightarrow> value_errors v s path = [] \<longleftrightarrow> value_conforms v s"
proof (induction c t path and v s path rule: cell_errors_value_errors.induct)
  case (1 c k m e path)
  show ?case
  proof (cases "k = KList \<and> (\<exists>arr el. c = CList arr \<and> e = Some el)")
    case True
    then obtain arr el where eq: "k = KList" "c = CList arr" "e = Some el" by auto
    have "cell_errors (snd p) el (item_path path (fst p)) = [] \<longleftrightarrow> cell_conforms (snd p) el"
      if "p \<in> set (zip [0..<length arr] arr)" for p
      using "1.IH"(2) [OF eq(1,2,3) that, of "fst p" "snd p"] "1.prems" eq by simp
    then show ?thesis
      using eq zip_upt_ball [of arr "\<lambda>x. cell_conforms x el"] by (auto simp: case_prod_beta)
  next
    case False
    with 1 show ?thesis by (auto split: kind.splits cell.splits option.splits)
  qed
next
  case (2 v door base)
  have "cell_errors c (f_type f) (join_path base (f_name f)) = [] \<longleftrightarrow> cell_conforms c (f_type f)"
    if "f \<in> set (s_fields door)" "value_get v (f_name f) = Some c" for f c
    using 2 that wf_schema_field [OF "2.prems" that(1)] by auto
  then show ?case
    by (auto simp: value_errors_fields field_errors_def value_conforms.simps split: option.splits)
qed

lemma fst_validate_into:
  "fst (validate_into v door collect g) =
     (if s_content_id (v_schema v) \<noteq> s_content_id door
      then [mk_error SchemaMismatch [] (version_label door) (version_label (v_schema v))
               ''claimed shape does not match this door'']
      else if collect then value_errors v door []
      else take 1 (value_errors v door []))"
  by (cases "value_errors v door []")
     (auto simp: validate_into_def validate_refines ctx_add_def Let_def)

lemma snd_validate_into [simp]: "snd (validate_into v door collect g) = g + 1"
  by (simp add: validate_into_def Let_def)

lemma validate_into_Nil_iff:
  "wf_schema door \<Longrightarrow>
   fst (validate_into v door collect g) = [] \<longleftrightarrow>
     s_content_id (v_schema v) = s_content_id door \<and> value_conforms v door"
  by (simp add: fst_validate_into cell_errors_Nil_iff(2))

lemma snd_admit [simp]: "snd (admit v door r g) = g + 1"
  by (simp add: admit_def case_prod_beta)

lemma fst_admit:
  "fst (admit v door r g) =
     (let es = fst (validate_into v door (r = Full) g) in if es = [] then accept v else reject es)"
  by (simp add: admit_def case_prod_beta Let_def)

text \<open>
  C3: the gate decides identity and structure, exactly. For a well-formed door and in either report
  mode, \<open>admit\<close> accepts precisely the claimants whose claimed content id is the door's and which
  conform to it; an accepted admission holds the claimant itself and no errors, a refused one holds
  no value and at least one error, and every call counts once in \<open>g_gate_calls\<close>.
\<close>

theorem admit_decides:
  assumes "wf_schema door"
  shows "case admit claimant door r g of (a, g') \<Rightarrow>
    g' = g + 1 \<and>
    (adm_ok a \<longleftrightarrow>
       s_content_id (v_schema claimant) = s_content_id door \<and> value_conforms claimant door) \<and>
    (if adm_ok a then a = accept claimant else a_value a = None \<and> a_errors a \<noteq> [])"
proof -
  have "adm_ok (fst (admit claimant door r g)) \<longleftrightarrow>
      fst (validate_into claimant door (r = Full) g) = []"
    by (simp add: fst_admit adm_ok_def accept_def reject_def Let_def)
  then show ?thesis
    using validate_into_Nil_iff [OF assms]
    by (auto simp: fst_admit case_prod_beta reject_def Let_def)
qed

theorem admit_decides_witness:
  "let fs = [Field ''x'' (TypeRef KBool None None) True];
       door = Schema ''P'' 1 fs (compute_content_id ''P'' 1 fs)
   in adm_ok (fst (admit (Value door [Some (CBool True)]) door FirstError 0)) \<and>
      \<not> adm_ok (fst (admit (Value door [Some (CText [])]) door FirstError 0))"
proof -
  let ?fs = "[Field ''x'' (TypeRef KBool None None) True]"
  let ?door = "Schema ''P'' 1 ?fs (compute_content_id ''P'' 1 ?fs)"
  have wf: "wf_schema ?door" by simp
  show ?thesis
    using admit_decides [OF wf, where claimant = "Value ?door [Some (CBool True)]" and r = FirstError and g = 0]
      admit_decides [OF wf, where claimant = "Value ?door [Some (CText [])]" and r = FirstError and g = 0]
    by (auto simp: case_prod_beta Let_def value_conforms.simps value_get_def)
qed

text \<open>
  the hot path and the diagnostic path agree. The \<open>FirstError\<close> mode reports exactly the first
  error of the \<open>Full\<close> mode, \<open>diagnose\<close> returns exactly the \<open>Full\<close> errors, and the two modes accept the
  same claimants.
\<close>

theorem report_modes_agree:
  "fst (validate_into claimant door False g) = take 1 (fst (diagnose claimant door g)) \<and>
   adm_ok (fst (admit claimant door FirstError g)) = adm_ok (fst (admit claimant door Full g)) \<and>
   a_errors (fst (admit claimant door Full g)) = fst (diagnose claimant door g)"
proof -
  have "a_errors (reject es) = es" if "es \<noteq> []" for es
    using that by (simp add: reject_def)
  then show ?thesis
    by (auto simp: fst_validate_into diagnose_def fst_admit Let_def adm_ok_def accept_def reject_def)
qed

end
