(* ===== verification/Zen_Ordmap.thy ===== *)
theory Zen_Ordmap
  imports Zen_Prelude
begin

text \<open>
  \<open>std::map\<close>: an association list in strictly ascending key order, so that iteration order is the
  order of the list (the bus relies on it: ascending shard id is registration order). The locale
  \<open>ordered_map\<close> states the laws its clients use; the interpretation proves them for the list.
\<close>

section \<open>Operations\<close>

type_synonym ('k, 'v) omap = "('k \<times> 'v) list"

fun om_find :: "('k, 'v) omap \<Rightarrow> 'k \<Rightarrow> 'v option" where
  "om_find [] k = None"
| "om_find ((a, v) # m) k = (if a = k then Some v else om_find m k)"

text \<open>\<open>m[k] = v\<close>: insert, or overwrite what is there.\<close>

fun om_put :: "'k :: linorder \<Rightarrow> 'v \<Rightarrow> ('k, 'v) omap \<Rightarrow> ('k, 'v) omap" where
  "om_put k v [] = [(k, v)]"
| "om_put k v ((a, w) # m) =
     (if k < a then (k, v) # (a, w) # m
      else if k = a then (a, v) # m
      else (a, w) # om_put k v m)"

fun om_erase :: "'k \<Rightarrow> ('k, 'v) omap \<Rightarrow> ('k, 'v) omap" where
  "om_erase k [] = []"
| "om_erase k ((a, w) # m) = (if a = k then m else (a, w) # om_erase k m)"

definition om_ok :: "('k :: linorder, 'v) omap \<Rightarrow> bool" where
  "om_ok m \<longleftrightarrow> sorted_wrt (<) (map fst m)"

section \<open>Contract\<close>

locale ordered_map =
  fixes find :: "'m \<Rightarrow> 'k :: linorder \<Rightarrow> 'v option"
    and put :: "'k \<Rightarrow> 'v \<Rightarrow> 'm \<Rightarrow> 'm"
    and erase :: "'k \<Rightarrow> 'm \<Rightarrow> 'm"
    and keys :: "'m \<Rightarrow> 'k list"
    and ok :: "'m \<Rightarrow> bool"
  assumes find_put: "ok m \<Longrightarrow> find (put k v m) = (find m)(k := Some v)"
    and find_erase: "ok m \<Longrightarrow> find (erase k m) = (find m)(k := None)"
    and ok_put: "ok m \<Longrightarrow> ok (put k v m)"
    and ok_erase: "ok m \<Longrightarrow> ok (erase k m)"
    and keys_sorted: "ok m \<Longrightarrow> sorted_wrt (<) (keys m)"
    and keys_dom: "ok m \<Longrightarrow> set (keys m) = dom (find m)"
begin

lemma finite_dom: "ok m \<Longrightarrow> finite (dom (find m))"
  by (simp flip: keys_dom)

lemma length_keys: "ok m \<Longrightarrow> length (keys m) = card (dom (find m))"
  using strict_sorted_iff [of "keys m"] keys_sorted [of m]
  by (simp add: distinct_card flip: keys_dom)

lemma size_put:
  "ok m \<Longrightarrow> length (keys (put k v m)) = length (keys m) + (if find m k = None then 1 else 0)"
  by (auto simp: length_keys ok_put find_put finite_dom card_insert_if)

lemma size_erase:
  assumes "ok m"
  shows "length (keys (erase k m)) = length (keys m) - (if find m k = None then 0 else 1)"
proof -
  have "dom ((find m)(k := None)) = dom (find m) - {k}" by auto
  then show ?thesis
    using assms by (auto simp: length_keys ok_erase find_erase card_Diff_singleton_if)
qed

end

section \<open>The association list satisfies it\<close>

lemma om_find_map_of: "om_find m k = map_of m k"
  by (induction m) auto

lemma om_find_dom: "dom (om_find m) = fst ` set m"
  using dom_map_of_conv_image_fst [of m] by (simp add: om_find_map_of dom_def)

lemma om_find_set: "om_find m k = Some v \<Longrightarrow> (k, v) \<in> set m"
  by (simp add: om_find_map_of map_of_SomeD)

lemma om_find_set_iff: "om_ok m \<Longrightarrow> om_find m k = Some v \<longleftrightarrow> (k, v) \<in> set m"
  unfolding om_find_map_of om_ok_def by (intro map_of_eq_Some_iff) (simp add: strict_sorted_iff)

lemma om_find_put: "om_find (om_put k v m) = (om_find m)(k := Some v)"
  by (induction m) (auto simp: fun_eq_iff)

lemma om_find_erase: "om_ok m \<Longrightarrow> om_find (om_erase k m) = (om_find m)(k := None)"
proof (induction m)
  case (Cons p m)
  obtain a w where p: "p = (a, w)" by (cases p)
  have "om_find m a = None"
  proof (rule ccontr)
    assume "om_find m a \<noteq> None"
    then have "a \<in> fst ` set m" by (metis domI om_find_dom not_None_eq)
    then show False using Cons.prems p by (auto simp: om_ok_def)
  qed
  then show ?case using Cons p by (auto simp: om_ok_def fun_eq_iff)
qed (simp add: fun_eq_iff)

lemma set_om_put_keys: "fst ` set (om_put k v m) = insert k (fst ` set m)"
  by (simp add: om_find_put flip: om_find_dom)

lemma om_ok_put: "om_ok m \<Longrightarrow> om_ok (om_put k v m)"
  by (induction m) (auto simp: om_ok_def set_om_put_keys less_trans dest: less_trans)

lemma set_om_erase: "set (om_erase k m) \<subseteq> set m"
  by (induction m) (auto split: if_splits)

lemma om_ok_erase: "om_ok m \<Longrightarrow> om_ok (om_erase k m)"
proof (induction m)
  case (Cons p m)
  then show ?case
    using set_om_erase [of k m] by (cases p) (force simp: om_ok_def)
qed simp

interpretation om: ordered_map om_find om_put om_erase "map fst" om_ok
  by unfold_locales
     (simp_all add: om_find_put om_find_erase om_ok_put om_ok_erase om_find_dom,
      simp add: om_ok_def)

lemma om_ok_Nil [simp]: "om_ok []"
  by (simp add: om_ok_def)

lemma om_put_last:
  "(\<forall>p \<in> set m. fst p < k) \<Longrightarrow> om_put k v m = m @ [(k, v)]"
  by (induction m) auto

end
