(* ===== verification/Zen_Registry.thy ===== *)
theory Zen_Registry
  imports Zen_Schema Zen_Ordmap
begin

text \<open>
  The grammar store: \<open>include/zen/registry.hpp\<close> and \<open>src/registry.cpp\<close>. The published snapshot
  (\<open>current_\<close>) is a \<open>std::map\<close> from (name, version) to schema; a registration replaces it by an
  extended copy, so a reader that took the old snapshot keeps exactly the map it took, which is how
  a value of the model behaves. A null \<open>shared_ptr\<close> argument is \<open>None\<close>. An operation that may throw
  returns its result and the registry it leaves behind, as \<open>register_shard\<close> of the bus relies on
  what earlier registrations left.
\<close>

section \<open>Operations\<close>

type_synonym reg_key = "string \<times> u32"
type_synonym registry = "(reg_key, schema) omap"

definition conflict_what :: "string \<Rightarrow> u32 \<Rightarrow> string" where
  "conflict_what name version =
     ''schema '' @ [CHR 39] @ name @ [CHR 39] @ '' v'' @ to_string (unat version) @
     '' is already published with a different shape (published schemas are immutable)''"

text \<open>\<open>what()\<close> of an exception.\<close>

fun exn_what :: "exn \<Rightarrow> string" where
  "exn_what (Invalid_argument m) = m"
| "exn_what (Out_of_range m) = m"
| "exn_what (Logic_error m) = m"
| "exn_what (Runtime_error m) = m"
| "exn_what Bad_variant_access = ''std::get: wrong index for variant''"
| "exn_what (Schema_conflict n v a b) = conflict_what n v"

definition new_registry :: registry where
  "new_registry = []"

definition reg_snapshot :: "registry \<Rightarrow> (reg_key, schema) omap" where
  "reg_snapshot r = r"

definition register_schema ::
  "schema option \<Rightarrow> registry \<Rightarrow> (schema \<times> bool) result \<times> registry" where
  "register_schema schema_ptr r =
     (case schema_ptr of
        None \<Rightarrow>
          (Inl (Invalid_argument ''Registry::register_schema requires a non-null schema''), r)
      | Some s \<Rightarrow>
          let key = (s_name s, s_version s) in
          case om_find r key of
            Some existing \<Rightarrow>
              if s_content_id existing = s_content_id s then (Inr (existing, False), r)
              else (Inl (Schema_conflict (s_name s) (s_version s) (s_content_id existing)
                     (s_content_id s)), r)
          | None \<Rightarrow> (Inr (s, True), om_put key s r))"

definition reg_lookup :: "registry \<Rightarrow> string \<Rightarrow> u32 \<Rightarrow> schema option" where
  "reg_lookup r name version = om_find (reg_snapshot r) (name, version)"

definition reg_contains :: "registry \<Rightarrow> string \<Rightarrow> u32 \<Rightarrow> bool" where
  "reg_contains r name version \<longleftrightarrow> reg_lookup r name version \<noteq> None"

definition reg_size :: "registry \<Rightarrow> nat" where
  "reg_size r = length (reg_snapshot r)"

section \<open>Contract of a schema store\<close>

text \<open>
  What the bus and the persistence gate rely on: a published entry never changes, a successful
  registration leaves a schema of the same identity published under its own key, and every entry
  is filed under the name and version it carries.
\<close>

locale schema_store =
  fixes lookup :: "'r \<Rightarrow> string \<Rightarrow> u32 \<Rightarrow> schema option"
    and register :: "schema option \<Rightarrow> 'r \<Rightarrow> (schema \<times> bool) result \<times> 'r"
    and ok :: "'r \<Rightarrow> bool"
  assumes ok_register: "ok r \<Longrightarrow> ok (snd (register p r))"
    and published: "ok r \<Longrightarrow> lookup r n v = Some x \<Longrightarrow> lookup (snd (register p r)) n v = Some x"
    and registered: "ok r \<Longrightarrow> register (Some s) r = (Inr (x, b), r') \<Longrightarrow>
      lookup r' (s_name s) (s_version s) = Some x \<and> same_identity x s"
    and filed: "ok r \<Longrightarrow> lookup r n v = Some x \<Longrightarrow> s_name x = n \<and> s_version x = v"
begin

text \<open>Any sequence of registrations, failed ones included.\<close>

definition register_all :: "schema option list \<Rightarrow> 'r \<Rightarrow> 'r" where
  "register_all ss r = fold (\<lambda>s r. snd (register s r)) ss r"

lemma register_all_simps [simp]:
  "register_all [] r = r"
  "register_all (s # ss) r = register_all ss (snd (register s r))"
  by (simp_all add: register_all_def)

lemma ok_register_all: "ok r \<Longrightarrow> ok (register_all ss r)"
  by (induction ss arbitrary: r) (simp_all add: ok_register)

lemma published_forever:
  "ok r \<Longrightarrow> lookup r n v = Some x \<Longrightarrow> lookup (register_all ss r) n v = Some x"
  by (induction ss arbitrary: r) (simp_all add: ok_register published)

text \<open>All holders of a key agree: later successful registrations return the first one's owner.\<close>

lemma registrations_agree:
  assumes "ok r" and "register (Some s) r = (Inr (x, b), r1)"
    and "register (Some t) (register_all ss r1) = (Inr (y, c), r2)"
    and "s_name s = s_name t" and "s_version s = s_version t"
  shows "y = x \<and> same_identity s t"
proof -
  have r1: "ok r1" using ok_register [OF assms(1), of "Some s"] assms(2) by simp
  have x: "lookup r1 (s_name t) (s_version t) = Some x" "same_identity x s"
    using registered [OF assms(1,2)] assms(4,5) by auto
  have "lookup r2 (s_name t) (s_version t) = Some x"
    using published [OF ok_register_all [OF r1, of ss] published_forever [OF r1 x(1)], of "Some t"]
      assms(3) by simp
  moreover have "lookup r2 (s_name t) (s_version t) = Some y" "same_identity y t"
    using registered [OF ok_register_all [OF r1] assms(3)] by auto
  ultimately show ?thesis using x(2) by (auto simp: same_identity_def)
qed

end

section \<open>The registry satisfies it\<close>

definition reg_ok :: "registry \<Rightarrow> bool" where
  "reg_ok r \<longleftrightarrow> om_ok r \<and> (\<forall>((n, v), s) \<in> set r. s_name s = n \<and> s_version s = v)"

lemma reg_ok_new [simp]: "reg_ok new_registry"
  by (simp add: reg_ok_def new_registry_def)

lemma reg_ok_find: "reg_ok r \<Longrightarrow> om_find r (n, v) = Some s \<Longrightarrow> s_name s = n \<and> s_version s = v"
  by (auto simp: reg_ok_def dest: om_find_set)

lemma reg_ok_put:
  assumes "reg_ok r" and "k = (s_name s, s_version s)"
  shows "reg_ok (om_put k s r)"
proof -
  have ok: "om_ok (om_put k s r)" using assms om_ok_put by (auto simp: reg_ok_def)
  have "s_name x = n \<and> s_version x = v" if "((n, v), x) \<in> set (om_put k s r)" for n v x
  proof -
    have "om_find (om_put k s r) (n, v) = Some x" using om_find_set_iff [OF ok] that by simp
    then show ?thesis
      using reg_ok_find [OF assms(1)] assms(2) by (auto simp: om_find_put split: if_splits)
  qed
  with ok show ?thesis by (auto simp: reg_ok_def)
qed

lemmas register_schema_cases = register_schema_def Let_def reg_lookup_def reg_snapshot_def

interpretation reg: schema_store reg_lookup register_schema reg_ok
proof
  fix r s assume "reg_ok r"
  then show "reg_ok (snd (register_schema s r))"
    by (auto simp: register_schema_cases reg_ok_put split: option.splits)
next
  fix r n v x s assume "reg_ok r" "reg_lookup r n v = Some x"
  then show "reg_lookup (snd (register_schema s r)) n v = Some x"
    by (auto simp: register_schema_cases om_find_put split: option.splits)
next
  fix r s x b r' assume "reg_ok r" "register_schema (Some s) r = (Inr (x, b), r')"
  then show "reg_lookup r' (s_name s) (s_version s) = Some x \<and> same_identity x s"
    by (auto simp: register_schema_cases om_find_put same_identity_def reg_ok_find
        split: option.splits if_splits)
next
  fix r n v x assume "reg_ok r" "reg_lookup r n v = Some x"
  then show "s_name x = n \<and> s_version x = v"
    by (simp add: register_schema_cases reg_ok_find)
qed

text \<open>
  registration on every branch. On a well-formed registry a null schema throws
  \<open>std::invalid_argument\<close>; a free key gets the schema itself, reported as inserted; a key held with
  the same content id returns the existing owner, reported as not inserted; a key held with another
  content id throws \<open>SchemaConflict\<close> naming both ids. Only the insertion changes the registry: it
  adds exactly that one binding and the size grows by one.
\<close>

theorem register_schema_correct:
  assumes "reg_ok r"
  shows "case register_schema p r of (res, r') \<Rightarrow>
    reg_ok r' \<and>
    (case p of
       None \<Rightarrow> (\<exists>why. res = Inl (Invalid_argument why)) \<and> r' = r
     | Some s \<Rightarrow>
         (case reg_lookup r (s_name s) (s_version s) of
            None \<Rightarrow>
              res = Inr (s, True) \<and> reg_size r' = reg_size r + 1 \<and>
              (\<forall>n v. reg_lookup r' n v =
                 (if n = s_name s \<and> v = s_version s then Some s else reg_lookup r n v))
          | Some old \<Rightarrow>
              r' = r \<and>
              (if s_content_id old = s_content_id s then res = Inr (old, False)
               else res = Inl (Schema_conflict (s_name s) (s_version s) (s_content_id old)
                      (s_content_id s)))))"
proof -
  have size: "length (om_put k s r) = length r + 1" if "om_find r k = None" for k s
    using om.size_put [of r k s] assms that by (simp add: reg_ok_def)
  show ?thesis
    using assms size
    by (auto simp: register_schema_cases reg_size_def om_find_put reg_ok_put
        split: option.split)
qed

theorem register_schema_correct_witness:
  "reg_ok new_registry \<and>
   fst (register_schema (Some (Schema ''P'' 1 [] 5)) new_registry) =
     Inr (Schema ''P'' 1 [] 5, True)"
  using register_schema_correct [of new_registry "Some (Schema ''P'' 1 [] 5)"]
  by (simp add: case_prod_beta reg_lookup_def reg_snapshot_def new_registry_def [symmetric])
     (simp add: new_registry_def register_schema_def)

text \<open>
  C4: a published schema is immutable and shared. Whatever registrations follow (failing ones
  included), a published (name, version) keeps resolving to the very same schema, and any later
  successful registration of that name and version returns that schema and had the same content id.
\<close>

theorem published_schema_immutable:
  fixes ss :: "schema option list"
  assumes "reg_ok r" and "reg_lookup r n v = Some x"
  defines "r' \<equiv> fold (\<lambda>s r. snd (register_schema s r)) ss r"
  shows "reg_lookup r' n v = Some x \<and>
    (\<forall>t y b. s_name t = n \<and> s_version t = v \<and> fst (register_schema (Some t) r') = Inr (y, b) \<longrightarrow>
       y = x \<and> s_content_id t = s_content_id x)"
proof -
  have r': "r' = reg.register_all ss r" by (simp add: r'_def reg.register_all_def)
  have look: "reg_lookup r' n v = Some x"
    unfolding r' by (rule reg.published_forever [OF assms(1,2)])
  have "y = x \<and> s_content_id t = s_content_id x"
    if "s_name t = n" "s_version t = v" "fst (register_schema (Some t) r') = Inr (y, b)" for t y b
    using look that by (auto simp: register_schema_cases split: option.splits if_splits)
  with look show ?thesis by blast
qed

theorem published_schema_immutable_witness:
  "reg_lookup (snd (register_schema (Some (Schema ''P'' 1 [] 6)) [((''P'', 1), Schema ''P'' 1 [] 5)]))
     ''P'' 1 = Some (Schema ''P'' 1 [] 5)"
  using published_schema_immutable [of "[((''P'', 1), Schema ''P'' 1 [] 5)]" "''P''" 1
      "Schema ''P'' 1 [] 5" "[Some (Schema ''P'' 1 [] 6)]"]
  by (simp add: reg_ok_def om_ok_def reg_lookup_def reg_snapshot_def)

end
