(* ===== verification/Zen_Binary.thy ===== *)
theory Zen_Binary
  imports Zen_Prelude
begin

text \<open>
  The primitives of the native wire format: \<open>src/detail/binary.hpp\<close> and \<open>src/detail/binary.cpp\<close>.
  A writer takes the output buffer last and returns it extended. The state of a \<open>BinReader\<close> is the
  unread suffix \<open>p_[i_ .. n_)\<close> of its buffer: a reader returns the value and the new suffix, or
  \<open>None\<close> where the C++ member function returns \<open>false\<close> (after which no caller reads again).
  Each primitive is shown to be a canonical codec, by an interpretation of \<open>wire_codec\<close>.
\<close>

section \<open>Caps and constants\<close>

definition kMaxBinaryDepth :: nat where "kMaxBinaryDepth = 64"
definition kMaxListCount :: u64 where "kMaxListCount = 2 ^ 20"
definition kMaxFieldBytes :: u64 where "kMaxFieldBytes = 2 ^ 28"
definition kCanonicalNaNBits :: u64 where "kCanonicalNaNBits = 0x7FF8000000000000"

section \<open>Writers\<close>

definition put_u8 :: "u8 \<Rightarrow> string \<Rightarrow> string" where
  "put_u8 v out = out @ [chr v]"

definition put_u16le :: "u16 \<Rightarrow> string \<Rightarrow> string" where
  "put_u16le v out = put_u8 (ucast (drop_bit 8 v AND 0xFF)) (put_u8 (ucast (v AND 0xFF)) out)"

definition put_u32le :: "u32 \<Rightarrow> string \<Rightarrow> string" where
  "put_u32le v out = fold (\<lambda>s. put_u8 (ucast (drop_bit s v AND 0xFF))) [0, 8, 16, 24] out"

definition put_u64le :: "u64 \<Rightarrow> string \<Rightarrow> string" where
  "put_u64le v out =
     fold (\<lambda>s. put_u8 (ucast (drop_bit s v AND 0xFF))) [0, 8, 16, 24, 32, 40, 48, 56] out"

definition is_nan_bits :: "f64 \<Rightarrow> bool" where
  "is_nan_bits bits \<longleftrightarrow>
     bits AND 0x7FF0000000000000 = 0x7FF0000000000000 \<and> bits AND 0x000FFFFFFFFFFFFF \<noteq> 0"

definition put_f64le :: "f64 \<Rightarrow> string \<Rightarrow> string" where
  "put_f64le bits out = put_u64le (if is_nan_bits bits then kCanonicalNaNBits else bits) out"

function put_uvarint :: "u64 \<Rightarrow> string \<Rightarrow> string" where
  "put_uvarint v out =
     (if v \<ge> 0x80 then put_uvarint (drop_bit 7 v) (put_u8 (ucast ((v AND 0x7F) OR 0x80)) out)
      else put_u8 (ucast v) out)"
  by pat_completeness auto
termination
proof (relation "measure (\<lambda>(v, out). unat v)", goal_cases)
  case (2 v out)
  then have "128 \<le> unat v" by (simp add: word_le_nat_alt)
  then show ?case by (simp add: unat_drop_bit)
qed simp

declare put_uvarint.simps [simp del]

definition put_zigzag :: "i64 \<Rightarrow> string \<Rightarrow> string" where
  "put_zigzag v out =
     (let sign = (if sint v < 0 then NOT 0 else 0); zz = push_bit 1 v XOR sign
      in put_uvarint zz out)"

section \<open>Readers\<close>

fun read_u8 :: "string \<Rightarrow> (u8 \<times> string) option" where
  "read_u8 [] = None"
| "read_u8 (c # r) = Some (byte_of c, r)"

definition read_u16le :: "string \<Rightarrow> (u16 \<times> string) option" where
  "read_u16le bs =
     (if length bs < 2 then None
      else Some (ucast (byte_of (bs ! 0)) OR push_bit 8 (ucast (byte_of (bs ! 1))), drop 2 bs))"

definition read_u32le :: "string \<Rightarrow> (u32 \<times> string) option" where
  "read_u32le bs =
     (if length bs < 4 then None
      else Some (fold (\<lambda>b v. v OR push_bit (8 * b) (ucast (byte_of (bs ! b)))) [0..<4] 0,
                 drop 4 bs))"

definition read_u64le :: "string \<Rightarrow> (u64 \<times> string) option" where
  "read_u64le bs =
     (if length bs < 8 then None
      else Some (fold (\<lambda>b v. v OR push_bit (8 * b) (ucast (byte_of (bs ! b)))) [0..<8] 0,
                 drop 8 bs))"

definition read_f64le :: "string \<Rightarrow> (f64 \<times> string) option" where
  "read_f64le bs =
     (case read_u64le bs of
        None \<Rightarrow> None
      | Some (bits, r) \<Rightarrow>
          if is_nan_bits bits \<and> bits \<noteq> kCanonicalNaNBits then None else Some (bits, r))"

text \<open>The loop of \<open>uvarint\<close>; \<open>idx\<close> counts the groups read, and the tenth is the last.\<close>

function uvarint_loop :: "nat \<Rightarrow> nat \<Rightarrow> u64 \<Rightarrow> string \<Rightarrow> (u64 \<times> string) option" where
  "uvarint_loop idx shift res bs =
     (if idx \<ge> 10 then None
      else case read_u8 bs of
        None \<Rightarrow> None
      | Some (b, r) \<Rightarrow>
          if idx = 9 \<and> b > 1 then None
          else
            let res' = res OR push_bit shift (ucast (b AND 0x7F)) in
            if b AND 0x80 = 0 then (if idx > 0 \<and> b = 0 then None else Some (res', r))
            else uvarint_loop (idx + 1) (shift + 7) res' r)"
  by pat_completeness auto
termination
  by (relation "measure (\<lambda>(idx, shift, res, bs). 10 - idx)") auto

declare uvarint_loop.simps [simp del]

definition read_uvarint :: "string \<Rightarrow> (u64 \<times> string) option" where
  "read_uvarint bs = uvarint_loop 0 0 0 bs"

definition read_zigzag :: "string \<Rightarrow> (i64 \<times> string) option" where
  "read_zigzag bs =
     (case read_uvarint bs of
        None \<Rightarrow> None
      | Some (zz, r) \<Rightarrow>
          (let mag = drop_bit 1 zz; neg = NOT (zz AND 1) + 1 in Some (mag XOR neg, r)))"

definition take_bytes :: "nat \<Rightarrow> string \<Rightarrow> (string \<times> string) option" where
  "take_bytes n bs = (if length bs < n then None else Some (take n bs, drop n bs))"

section \<open>Writers only append\<close>

lemma put_u8_append: "put_u8 v out = out @ put_u8 v []"
  by (simp add: put_u8_def)

lemma put_u16le_append: "put_u16le v out = out @ put_u16le v []"
  by (simp add: put_u16le_def put_u8_def)

lemma put_u32le_append: "put_u32le v out = out @ put_u32le v []"
  by (simp add: put_u32le_def put_u8_def)

lemma put_u64le_append: "put_u64le v out = out @ put_u64le v []"
  by (simp add: put_u64le_def put_u8_def)

lemma put_f64le_append: "put_f64le v out = out @ put_f64le v []"
  unfolding put_f64le_def by (rule put_u64le_append)

lemma unat_ge_128: "v \<ge> 0x80 \<longleftrightarrow> 128 \<le> unat (v :: u64)"
  by (simp add: word_le_nat_alt)

lemma put_uvarint_append: "put_uvarint v out = out @ put_uvarint v []"
proof (induction "unat v" arbitrary: v out rule: less_induct)
  case less
  show ?case
  proof (cases "v \<ge> 0x80")
    case True
    then have "unat (drop_bit 7 v) < unat v" by (simp add: unat_drop_bit unat_ge_128)
    note IH = less [OF this]
    let ?b = "put_u8 (ucast ((v AND 0x7F) OR 0x80))"
    have "put_uvarint v out = ?b out @ put_uvarint (drop_bit 7 v) []"
      using True IH [of "?b out"] by (simp add: put_uvarint.simps [of v])
    moreover have "put_uvarint v [] = ?b [] @ put_uvarint (drop_bit 7 v) []"
      using True IH [of "?b []"] by (simp add: put_uvarint.simps [of v])
    ultimately show ?thesis by (simp add: put_u8_def)
  next
    case False
    then show ?thesis by (simp add: put_uvarint.simps [of v] put_u8_def)
  qed
qed

lemma put_zigzag_append: "put_zigzag v out = out @ put_zigzag v []"
  unfolding put_zigzag_def Let_def by (rule put_uvarint_append)

text \<open>A varint is its low seven bits with the continuation bit, then the varint of the rest.\<close>

lemma uvarint_small: "\<not> v \<ge> 0x80 \<Longrightarrow> put_uvarint v [] = [chr (ucast v)]"
  by (simp add: put_uvarint.simps [of v] put_u8_def)

lemma uvarint_large:
  "v \<ge> 0x80 \<Longrightarrow>
   put_uvarint v [] = chr (ucast ((v AND 0x7F) OR 0x80)) # put_uvarint (drop_bit 7 v) []"
  by (simp add: put_uvarint.simps [of v] put_u8_def put_uvarint_append [of _ "[_]"])

section \<open>Fixed-width little-endian integers\<close>

interpretation u8_codec: wire_codec "\<lambda>v. put_u8 v []" read_u8 "\<lambda>_. True"
proof
  fix bs x rest assume "read_u8 bs = Some (x, rest)"
  then show "True \<and> bs = put_u8 x [] @ rest"
    by (cases bs) (auto simp: put_u8_def)
qed (simp add: put_u8_def)

text \<open>Octet \<open>b\<close> of a word, and the word assembled from the first \<open>n\<close> octets of a buffer.\<close>

definition octet :: "'a :: len word \<Rightarrow> nat \<Rightarrow> u8" where
  "octet v b = ucast (drop_bit (8 * b) v AND 0xFF)"

definition le_word :: "nat \<Rightarrow> string \<Rightarrow> 'a :: len word" where
  "le_word n bs = fold (\<lambda>b v. v OR push_bit (8 * b) (ucast (byte_of (bs ! b)))) [0..<n] 0"

lemma bit_octet: "bit (octet v b) j \<longleftrightarrow> j < 8 \<and> bit v (8 * b + j)"
  by (auto simp: octet_def and_ff_take_bit bit_simps)

lemma bit_le_word:
  "bit (le_word n bs :: 'a :: len word) i \<longleftrightarrow>
     i < LENGTH('a) \<and> i < 8 * n \<and> bit (byte_of (bs ! (i div 8))) (i mod 8)"
proof (induction n)
  case 0
  show ?case by (simp add: le_word_def)
next
  case (Suc n)
  have step: "le_word (Suc n) bs =
      le_word n bs OR push_bit (8 * n) (ucast (byte_of (bs ! n)) :: 'a word)"
    by (simp add: le_word_def)
  have in_byte: "i div 8 = n \<and> i mod 8 = i - 8 * n" if "8 * n \<le> i" "i < 8 * Suc n"
    using that by (metis add.commute div_nat_eqI minus_mod_eq_mult_div [symmetric]
        diff_diff_cancel mod_less_eq_dividend mult.commute)
  have "i < 8 * Suc n" if "8 * n \<le> i" "bit (byte_of (bs ! n)) (i - 8 * n)"
    using bit_imp_le_length [OF that(2)] that(1) by simp
  with in_byte show ?case
    unfolding step by (auto simp: bit_or_iff bit_push_bit_iff bit_ucast_iff Suc)
qed

lemma le_word_octets:
  assumes "LENGTH('a) = 8 * n" and "\<And>b. b < n \<Longrightarrow> bs ! b = chr (octet (v :: 'a :: len word) b)"
  shows "le_word n bs = v"
proof (rule bit_word_eqI)
  fix i assume i: "i < LENGTH('a)"
  then have "i div 8 < n" using assms(1) by simp
  then show "bit (le_word n bs :: 'a word) i = bit v i"
    using i assms by (simp add: bit_le_word bit_octet)
qed

lemma octet_le_word:
  assumes "LENGTH('a) = 8 * n" and "b < n"
  shows "octet (le_word n bs :: 'a :: len word) b = byte_of (bs ! b)"
proof (rule bit_word_eqI)
  fix j assume "j < LENGTH(8)"
  then have j: "j < 8" by simp
  then have "8 * b + j < 8 * n" using assms(2) by simp
  then show "bit (octet (le_word n bs :: 'a word) b) j = bit (byte_of (bs ! b)) j"
    using j assms(1) by (simp add: bit_octet bit_le_word)
qed

lemma octets_le_word:
  assumes "LENGTH('a) = 8 * n" and "n \<le> length bs"
  shows "map (\<lambda>b. chr (octet (le_word n bs :: 'a :: len word) b)) [0..<n] = take n bs"
  using assms by (intro nth_equalityI) (simp_all add: octet_le_word)

lemma put_u32le_octets: "put_u32le v [] = map (\<lambda>b. chr (octet v b)) [0..<4]"
  by (simp add: put_u32le_def put_u8_def octet_def upt_rec numeral_eq_Suc)

lemma put_u64le_octets: "put_u64le v [] = map (\<lambda>b. chr (octet v b)) [0..<8]"
  by (simp add: put_u64le_def put_u8_def octet_def upt_rec numeral_eq_Suc)

lemma put_u16le_octets: "put_u16le v [] = map (\<lambda>b. chr (octet v b)) [0..<2]"
  by (simp add: put_u16le_def put_u8_def octet_def upt_rec numeral_eq_Suc)

lemma read_u16le_le_word:
  "read_u16le bs = (if length bs < 2 then None else Some (le_word 2 bs, drop 2 bs))"
  by (simp add: read_u16le_def le_word_def upt_rec numeral_eq_Suc)

lemma le_word_codec:
  assumes "LENGTH('a) = 8 * n"
    and "\<And>v :: 'a :: len word. enc v = map (\<lambda>b. chr (octet v b)) [0..<n]"
    and "\<And>bs. dec bs = (if length bs < n then None else Some (le_word n bs :: 'a word, drop n bs))"
  shows "wire_codec enc dec (\<lambda>_. True)"
proof
  fix x :: "'a word" and rest
  show "dec (enc x @ rest) = Some (x, rest)"
    using le_word_octets [OF assms(1), of "enc x @ rest" x] by (simp add: assms(2,3) nth_append)
next
  fix bs x rest assume "dec bs = Some (x, rest)"
  then show "True \<and> bs = enc x @ rest"
    using octets_le_word [OF assms(1), of bs]
    by (auto simp: assms(2,3) not_less split: if_splits)
qed

interpretation u16_codec: wire_codec "\<lambda>v. put_u16le v []" read_u16le "\<lambda>_. True"
  by (rule le_word_codec [of 2]) (simp_all add: put_u16le_octets read_u16le_le_word)

interpretation u32_codec: wire_codec "\<lambda>v. put_u32le v []" read_u32le "\<lambda>_. True"
  by (rule le_word_codec [of 4]) (simp_all add: put_u32le_octets read_u32le_def le_word_def)

interpretation u64_codec: wire_codec "\<lambda>v. put_u64le v []" read_u64le "\<lambda>_. True"
  by (rule le_word_codec [of 8]) (simp_all add: put_u64le_octets read_u64le_def le_word_def)

text \<open>A float is canonical when it is not a NaN, or is the one canonical NaN.\<close>

definition canonical_f64 :: "f64 \<Rightarrow> bool" where
  "canonical_f64 bits \<longleftrightarrow> is_nan_bits bits \<longrightarrow> bits = kCanonicalNaNBits"

interpretation f64_codec: wire_codec "\<lambda>v. put_f64le v []" read_f64le canonical_f64
proof
  fix x rest assume "canonical_f64 x"
  then show "read_f64le (put_f64le x [] @ rest) = Some (x, rest)"
    by (auto simp: read_f64le_def put_f64le_def canonical_f64_def u64_codec.dec_enc)
next
  fix bs x rest assume "read_f64le bs = Some (x, rest)"
  then show "canonical_f64 x \<and> bs = put_f64le x [] @ rest"
    by (auto simp: read_f64le_def put_f64le_def canonical_f64_def dest: u64_codec.enc_dec
        split: option.splits if_splits)
qed

section \<open>Varints\<close>

lemma u8_less_2: "\<not> b > (1 :: u8) \<longleftrightarrow> unat b < 2"
  by (simp add: word_less_nat_alt not_less less_Suc_eq_le numeral_2_eq_2)

text \<open>One continuation group carries the low seven bits of the value.\<close>

lemma uvarint_group:
  "\<not> (ucast ((v AND 0x7F) OR 0x80) :: u8) AND 0x80 = 0"
  "(ucast ((ucast ((v AND 0x7F) OR 0x80) :: u8) AND 0x7F) :: u64) = (v :: u64) AND 0x7F"
proof -
  have "unat (v AND 0x7F) < 128" by (simp add: unat_and_7f)
  then have "unat ((v AND 0x7F) OR 0x80) = unat (v AND 0x7F) + 128" by (rule unat_or_80)
  with \<open>unat (v AND 0x7F) < 128\<close>
  have b: "unat (ucast ((v AND 0x7F) OR 0x80) :: u8) = unat (v AND 0x7F) + 128"
    by (simp add: unat_ucast_u8)
  then show "\<not> (ucast ((v AND 0x7F) OR 0x80) :: u8) AND 0x80 = 0"
    by (simp add: u8_top_bit)
  show "(ucast ((ucast ((v AND 0x7F) OR 0x80) :: u8) AND 0x7F) :: u64) = v AND 0x7F"
    using b by (intro unat_eqI) (simp add: unat_and_7f)
qed

lemma uvarint_acc:
  assumes "unat (res :: u64) < 128 ^ idx" and "idx \<le> 8" and "unat (x :: u64) < 128"
  shows "res OR push_bit (7 * idx) x = res + push_bit (7 * idx) x"
    and "unat (res OR push_bit (7 * idx) x) = unat res + unat x * 128 ^ idx"
    and "unat (res OR push_bit (7 * idx) x) < 128 ^ Suc idx"
proof -
  have pow: "(128 :: nat) ^ idx = 2 ^ (7 * idx)"
    by (simp add: power_mult)
  show eq: "res OR push_bit (7 * idx) x = res + push_bit (7 * idx) x"
    using assms(1) pow by (intro or_push_bit_add) simp
  have "unat x * 128 ^ idx \<le> 127 * 128 ^ idx"
    using assms(3) by (intro mult_le_mono1) simp
  moreover have "(128 :: nat) ^ Suc idx = 128 * 128 ^ idx" by simp
  ultimately have sum: "unat res + unat x * 128 ^ idx < 128 ^ Suc idx"
    using assms(1) by linarith
  moreover have "(128 :: nat) ^ Suc idx \<le> 128 ^ 9"
    using assms(2) by (intro power_increasing) auto
  ultimately have small: "unat res + unat x * 128 ^ idx < 2 ^ 64"
    by simp
  then have "unat (push_bit (7 * idx) x) = unat x * 128 ^ idx"
    using pow by (subst unat_push_bit) simp_all
  then show "unat (res OR push_bit (7 * idx) x) = unat res + unat x * 128 ^ idx"
    using small by (simp add: eq unat_word_ariths)
  with sum show "unat (res OR push_bit (7 * idx) x) < 128 ^ Suc idx" by simp
qed

lemma push_bit_split_7:
  "push_bit s (v :: u64) = push_bit s (v AND 0x7F) + push_bit (s + 7) (drop_bit 7 v)"
proof -
  have "push_bit s v = push_bit s (push_bit 7 (drop_bit 7 v) + take_bit 7 v)"
    by (simp only: bits_ident)
  then show ?thesis
    by (simp add: push_bit_add and_7f_take_bit add.commute)
qed

text \<open>
  The reader's loop on what the writer wrote: after \<open>idx\<close> groups the accumulator holds their
  \<open>7 * idx\<close> bits and the rest of the value is still on the wire.
\<close>

lemma uvarint_loop_put:
  assumes "unat v * 128 ^ idx < 2 ^ 64" and "unat res < 128 ^ idx" and "idx > 0 \<Longrightarrow> v \<noteq> 0"
    and "idx \<le> 9"
  shows "uvarint_loop idx (7 * idx) res (put_uvarint v [] @ rest) =
    Some (res + push_bit (7 * idx) v, rest)"
  using assms
proof (induction "unat v" arbitrary: v idx res rule: less_induct)
  case less
  have pow: "(128 :: nat) ^ idx = 2 ^ (7 * idx)"
    by (simp add: power_mult)
  have nine: "unat v < 2" if "idx = 9"
    using less.prems(1) that by simp
  show ?case
  proof (cases "v \<ge> 0x80")
    case False
    let ?b = "ucast v :: u8"
    have v: "unat v < 128" using False by (simp add: unat_ge_128)
    then have b: "unat ?b = unat v" by (simp add: unat_ucast_u8)
    then have "?b AND 0x80 = 0" and "?b AND 0x7F = ?b"
      using v by (simp_all add: u8_top_bit and_7f_id)
    moreover have "(ucast ?b :: u64) = v"
      using b by (intro unat_eqI) simp
    moreover have "idx = 0 \<or> ?b \<noteq> 0"
      using less.prems(3) b by (cases idx) (auto simp: unat_eq_0 [symmetric])
    moreover have "idx = 9 \<longrightarrow> \<not> ?b > 1"
      using nine b by (simp add: u8_less_2)
    moreover have "res OR push_bit (7 * idx) v = res + push_bit (7 * idx) v"
      using less.prems(2) pow by (intro or_push_bit_add) simp
    ultimately show ?thesis
      using less.prems(4) False by (simp add: uvarint_loop.simps [of idx] uvarint_small Let_def)
  next
    case True
    let ?b = "ucast ((v AND 0x7F) OR 0x80) :: u8"
    let ?res = "res OR push_bit (7 * idx) (v AND 0x7F)"
    have big: "128 \<le> unat v" using True by (simp add: unat_ge_128)
    then have idx: "idx \<le> 8" using nine less.prems(4) by (cases "idx = 9") auto
    have group: "\<not> ?b AND 0x80 = 0" "(ucast (?b AND 0x7F) :: u64) = v AND 0x7F"
      using uvarint_group [of v] by auto
    have res: "unat ?res < 128 ^ Suc idx" "?res = res + push_bit (7 * idx) (v AND 0x7F)"
      using uvarint_acc [OF less.prems(2) idx, of "v AND 0x7F"] by (simp_all add: unat_and_7f)
    have rest: "unat (drop_bit 7 v) * 128 ^ Suc idx < 2 ^ 64"
    proof -
      have "unat (drop_bit 7 v) * 128 \<le> unat v" by (simp add: unat_drop_bit)
      then have "unat (drop_bit 7 v) * 128 * 128 ^ idx \<le> unat v * 128 ^ idx"
        by (rule mult_le_mono1)
      moreover have "unat (drop_bit 7 v) * 128 ^ Suc idx = unat (drop_bit 7 v) * 128 * 128 ^ idx"
        by simp
      ultimately show ?thesis using less.prems(1) by linarith
    qed
    have nz: "drop_bit 7 v \<noteq> 0"
      using big by (auto dest: arg_cong [where f = unat] simp: unat_drop_bit)
    have "uvarint_loop idx (7 * idx) res (put_uvarint v [] @ rest) =
        uvarint_loop (Suc idx) (7 * Suc idx) ?res (put_uvarint (drop_bit 7 v) [] @ rest)"
      using idx group True 
      by (simp add: uvarint_loop.simps [of idx] uvarint_large Let_def add.commute)
    also have "\<dots> = Some (?res + push_bit (7 * Suc idx) (drop_bit 7 v), rest)"
      using big rest res(1) nz idx by (intro less.hyps) (simp_all add: unat_drop_bit)
    also have "?res + push_bit (7 * Suc idx) (drop_bit 7 v) = res + push_bit (7 * idx) v"
      unfolding res(2) push_bit_split_7 [of "7 * idx" v]
      by (simp only: add.assoc mult_Suc_right add.commute [of 7])
    finally show ?thesis .
  qed
qed

text \<open>
  Conversely, the loop accepts only what the writer writes: the value is determined, minimal, and
  fits the bits that are left.
\<close>

lemma uvarint_join:
  assumes "unat (x :: u64) < 128" and "unat v' < 2 ^ (57 - 7 * idx)" and "v' \<noteq> 0" and "idx \<le> 8"
    and "v = x + push_bit 7 v'"
  shows "unat v < 2 ^ (64 - 7 * idx)" "v \<ge> 0x80" "v AND 0x7F = x" "drop_bit 7 v = v'"
proof -
  have "64 - 7 * idx = 7 + (57 - 7 * idx)" using assms(4) by simp
  then have "(2 :: nat) ^ (64 - 7 * idx) = 2 ^ 7 * 2 ^ (57 - 7 * idx)"
    unfolding power_add [symmetric] by (rule arg_cong)
  then have split: "(2 :: nat) ^ (64 - 7 * idx) = 128 * 2 ^ (57 - 7 * idx)"
    by simp
  have le57: "(2 :: nat) ^ (57 - 7 * idx) \<le> 2 ^ 57" by (rule power_increasing) auto
  then have fits: "unat v' * 2 ^ 7 < 2 ^ 64" using assms(2) by simp
  then have "unat (push_bit 7 v') = 128 * unat v'"
    by (subst unat_push_bit) simp_all
  moreover have "unat x + 128 * unat v' < 2 ^ 64"
    using assms(1,2) le57 by simp
  ultimately have v: "unat v = unat x + 128 * unat v'"
    by (simp add: assms(5) unat_word_ariths)
  have "unat x + 128 * unat v' < 128 * 2 ^ (57 - 7 * idx)"
    using assms(1,2) by linarith
  then show "unat v < 2 ^ (64 - 7 * idx)"
    by (simp only: v split)
  have "unat v' \<noteq> 0" using assms(3) by (simp add: unat_eq_0)
  then show "v \<ge> 0x80" by (simp add: unat_ge_128 v)
  show "v AND 0x7F = x"
    using assms(1) by (intro unat_eqI) (simp add: unat_and_7f v)
  show "drop_bit 7 v = v'"
    using assms(1) by (intro unat_eqI) (simp add: unat_drop_bit v)
qed

lemma uvarint_loop_canonical:
  assumes "uvarint_loop idx (7 * idx) res bs = Some (w, rest)" and "unat res < 128 ^ idx"
  shows "\<exists>v. w = res + push_bit (7 * idx) v \<and> bs = put_uvarint v [] @ rest \<and>
    unat v < 2 ^ (64 - 7 * idx) \<and> (idx > 0 \<longrightarrow> v \<noteq> 0)"
  using assms
proof (induction "10 - idx" arbitrary: idx res bs rule: less_induct)
  case less
  obtain c r where bs: "bs = c # r" and idx: "idx \<le> 9"
    using less.prems(1) by (cases bs) (auto simp: uvarint_loop.simps [of idx] split: if_splits)
  let ?b = "byte_of c"
  let ?x = "ucast (?b AND 0x7F) :: u64"
  have nine: "idx = 9 \<longrightarrow> unat ?b < 2"
    using less.prems(1) by (auto simp: uvarint_loop.simps [of idx] bs u8_less_2 split: if_splits)
  have x: "unat ?x < 128" "unat ?x = unat ?b mod 128" by (simp_all add: unat_and_7f)
  show ?case
  proof (cases "?b AND 0x80 = 0")
    case True
    then have small: "unat ?b < 128" by (simp add: u8_top_bit)
    then have xb: "?x = ucast ?b" by (simp add: and_7f_id)
    have "w = res OR push_bit (7 * idx) ?x" "rest = r" "idx = 0 \<or> ?b \<noteq> 0"
      using less.prems(1) True idx
      by (auto simp: uvarint_loop.simps [of idx] bs Let_def split: if_splits)
    moreover have "res OR push_bit (7 * idx) ?x = res + push_bit (7 * idx) ?x"
      using less.prems(2) by (intro or_push_bit_add) (simp add: power_mult)
    moreover have "put_uvarint ?x [] = [c]"
      using small xb by (subst uvarint_small) (simp_all add: unat_ge_128 unat_eqI unat_ucast_u8)
    moreover have "unat ?x < 2 ^ (64 - 7 * idx)"
    proof (cases "idx = 9")
      case True
      then show ?thesis using nine xb by simp
    next
      case False
      then have "(2 :: nat) ^ 7 \<le> 2 ^ (64 - 7 * idx)"
        using idx by (intro power_increasing) auto
      then show ?thesis using x(1) by simp
    qed
    moreover have "?b \<noteq> 0 \<longrightarrow> ?x \<noteq> 0"
      using xb by (metis unat_ucast_u8_u64 unat_eq_0)
    ultimately show ?thesis using bs by (intro exI [of _ ?x]) auto
  next
    case False
    then have big: "\<not> unat ?b < 128" by (simp add: u8_top_bit)
    then have idx8: "idx \<le> 8" using nine idx by (cases "idx = 9") auto
    note acc = uvarint_acc [OF less.prems(2) idx8 x(1)]
    have "uvarint_loop (Suc idx) (7 * Suc idx) (res OR push_bit (7 * idx) ?x) r = Some (w, rest)"
      using less.prems(1) False idx8 by (simp add: uvarint_loop.simps [of idx] bs Let_def add.commute)
    with less.hyps [of "Suc idx"] idx8 acc(3) obtain v' where v':
      "w = (res OR push_bit (7 * idx) ?x) + push_bit (7 * Suc idx) v'"
      "r = put_uvarint v' [] @ rest" "unat v' < 2 ^ (57 - 7 * idx)" "v' \<noteq> 0"
      by fastforce
    define v where "v = ?x + push_bit 7 v'"
    note join = uvarint_join [OF x(1) v'(3,4) idx8 v_def]
    have "unat ?b - 128 < 128" using unat_u8_less [of ?b] by linarith
    then have "unat ?x = unat ?b - 128"
      using big by (simp add: unat_and_7f le_mod_geq)
    then have "ucast ((v AND 0x7F) OR 0x80) = ?b"
      using big x(1) unat_u8_less [of ?b]
      by (intro unat_eqI) (simp add: join(3) unat_or_80 unat_ucast_u8)
    then have "bs = put_uvarint v [] @ rest"
      using bs v'(2) by (simp add: uvarint_large [OF join(2)] join(4))
    moreover have "w = res + push_bit (7 * idx) v"
      unfolding v'(1) acc(1) push_bit_split_7 [of "7 * idx" v] join(3,4)
      by (simp only: add.assoc mult_Suc_right add.commute [of 7])
    moreover have "v \<noteq> 0" using join(2) by auto
    ultimately show ?thesis using join(1) by auto
  qed
qed

interpretation uvarint_codec: wire_codec "\<lambda>v. put_uvarint v []" read_uvarint "\<lambda>_. True"
proof
  fix x rest
  have "unat (x :: u64) < 2 ^ 64" using unsigned_less [of x] by simp
  then show "read_uvarint (put_uvarint x [] @ rest) = Some (x, rest)"
    using uvarint_loop_put [of x 0 0 rest] by (simp add: read_uvarint_def)
next
  fix bs x rest assume "read_uvarint bs = Some (x, rest)"
  then show "True \<and> bs = put_uvarint x [] @ rest"
    using uvarint_loop_canonical [of 0 0 bs x rest] by (auto simp: read_uvarint_def)
qed

section \<open>Zigzag\<close>

definition zigzag :: "i64 \<Rightarrow> u64" where
  "zigzag v = push_bit 1 v XOR (if sint v < 0 then NOT 0 else 0)"

definition unzigzag :: "u64 \<Rightarrow> i64" where
  "unzigzag zz = drop_bit 1 zz XOR (NOT (zz AND 1) + 1)"

lemma sint_neg_bit: "sint (v :: 64 word) < 0 \<longleftrightarrow> bit v 63"
  using bit_last_iff [of v] by simp

lemma bit_zigzag:
  "bit (zigzag v) n \<longleftrightarrow> n < 64 \<and> ((n > 0 \<and> bit v (n - 1)) \<noteq> bit v 63)"
  unfolding zigzag_def sint_neg_bit bit_xor_iff bit_push_bit_iff by (auto dest: bit_imp_le_length)

lemma sign_spread: "NOT (zz AND 1) + 1 = (if bit (zz :: u64) 0 then NOT 0 else 0)"
proof -
  have "zz AND 1 = (if bit zz 0 then 1 else 0)"
    by (simp add: and_one_eq mod_2_eq_odd bit_0)
  then show ?thesis by auto
qed

lemma bit_unzigzag:
  "bit (unzigzag zz) n \<longleftrightarrow> n < 64 \<and> (bit zz (n + 1) \<noteq> bit zz 0)"
  unfolding unzigzag_def sign_spread bit_xor_iff bit_drop_bit_eq
  by (auto dest: bit_imp_le_length)

lemma unzigzag_zigzag: "unzigzag (zigzag v) = v"
proof (rule bit_word_eqI)
  fix n assume "n < LENGTH(64)"
  then consider "n < 63" | "n = 63" by fastforce
  then show "bit (unzigzag (zigzag v)) n = bit v n"
    by cases (auto simp: bit_unzigzag bit_zigzag)
qed

lemma zigzag_unzigzag: "zigzag (unzigzag zz) = zz"
proof (rule bit_word_eqI)
  fix n assume "n < LENGTH(64)"
  moreover have "\<not> bit zz 64" using bit_imp_le_length [of zz 64] by auto
  ultimately show "bit (zigzag (unzigzag zz)) n = bit zz n"
    by (cases n) (auto simp: bit_unzigzag bit_zigzag)
qed

lemma put_zigzag_zigzag: "put_zigzag v out = put_uvarint (zigzag v) out"
  by (simp add: put_zigzag_def zigzag_def Let_def)

lemma read_zigzag_unzigzag:
  "read_zigzag bs = map_option (\<lambda>(zz, r). (unzigzag zz, r)) (read_uvarint bs)"
  by (simp add: read_zigzag_def unzigzag_def Let_def split: option.splits)

interpretation zigzag_codec: wire_codec "\<lambda>v. put_zigzag v []" read_zigzag "\<lambda>_. True"
proof
  fix x rest
  show "read_zigzag (put_zigzag x [] @ rest) = Some (x, rest)"
    by (simp add: read_zigzag_unzigzag put_zigzag_zigzag uvarint_codec.dec_enc unzigzag_zigzag)
next
  fix bs x rest assume "read_zigzag bs = Some (x, rest)"
  then show "True \<and> bs = put_zigzag x [] @ rest"
    by (auto simp: read_zigzag_unzigzag put_zigzag_zigzag uvarint_codec.dec_iff zigzag_unzigzag)
qed

section \<open>Every primitive has exactly one encoding\<close>

lemma length_put_uvarint_le:
  assumes "unat v < 128 ^ k" and "0 < k"
  shows "length (put_uvarint v []) \<le> k"
  using assms
proof (induction k arbitrary: v)
  case (Suc k)
  show ?case
  proof (cases "v \<ge> 0x80")
    case True
    have less: "unat (drop_bit 7 v) < 128 ^ k"
      using Suc.prems(1) by (simp add: unat_drop_bit less_mult_imp_div_less mult.commute)
    have "k \<noteq> 0"
      using True Suc.prems(1) by (cases k) (auto simp: unat_ge_128)
    then show ?thesis using Suc.IH [OF less] by (simp add: uvarint_large [OF True])
  qed (simp add: uvarint_small)
qed simp

lemma length_put_uvarint: "length (put_uvarint v []) \<le> 10"
proof (rule length_put_uvarint_le)
  have "unat v < 2 ^ 64" using unsigned_less [of v, where 'a = nat] by simp
  then show "unat v < 128 ^ 10" by simp
qed simp

text \<open>
  C36: every wire primitive has exactly one encoding. For each width, the varint, the zigzag integer
  and the float, the bounds-checked reader returns a value and a remainder exactly when the input is
  what the writer writes for that value followed by that remainder; short input, an overlong or
  overflowing varint and a non-canonical NaN are all refused. A varint takes at most ten octets.
\<close>

theorem wire_primitives_canonical:
  "(read_u16le bs = Some (h, r) \<longleftrightarrow> bs = put_u16le h [] @ r) \<and>
   (read_u32le bs = Some (w, r) \<longleftrightarrow> bs = put_u32le w [] @ r) \<and>
   (read_u64le bs = Some (d, r) \<longleftrightarrow> bs = put_u64le d [] @ r) \<and>
   (read_uvarint bs = Some (u, r) \<longleftrightarrow> bs = put_uvarint u [] @ r) \<and>
   (read_zigzag bs = Some (i, r) \<longleftrightarrow> bs = put_zigzag i [] @ r) \<and>
   (read_f64le bs = Some (f, r) \<longleftrightarrow> canonical_f64 f \<and> bs = put_f64le f [] @ r) \<and>
   length (put_uvarint u []) \<le> 10"
  by (simp add: u16_codec.dec_iff u32_codec.dec_iff u64_codec.dec_iff uvarint_codec.dec_iff
      zigzag_codec.dec_iff f64_codec.dec_iff length_put_uvarint)

end
