(* ===== verification/Zen_Utf8.thy ===== *)
theory Zen_Utf8
  imports Zen_Prelude
begin

text \<open>
  The UTF-8 routines of \<open>src/detail/json.cpp\<close>: the encoder of one code point (\<open>encode_utf8\<close>, used
  for \<open>\u\<close> escapes) and the validator \<open>valid_utf8\<close> that guards every Text and schema name read from
  bytes. One round of the validator's loop is \<open>utf8_step\<close>; it is the decoder of the encoder, an
  interpretation of \<open>wire_codec\<close> whose valid values are the Unicode scalar values.
\<close>

section \<open>Encoder\<close>

definition encode_utf8 :: "u32 \<Rightarrow> string" where
  "encode_utf8 cp =
     (if cp \<le> 0x7F then [chr (ucast cp)]
      else if cp \<le> 0x7FF then
        [chr (ucast (0xC0 OR drop_bit 6 cp)), chr (ucast (0x80 OR (cp AND 0x3F)))]
      else if cp \<le> 0xFFFF then
        [chr (ucast (0xE0 OR drop_bit 12 cp)), chr (ucast (0x80 OR (drop_bit 6 cp AND 0x3F))),
         chr (ucast (0x80 OR (cp AND 0x3F)))]
      else
        [chr (ucast (0xF0 OR drop_bit 18 cp)), chr (ucast (0x80 OR (drop_bit 12 cp AND 0x3F))),
         chr (ucast (0x80 OR (drop_bit 6 cp AND 0x3F))), chr (ucast (0x80 OR (cp AND 0x3F)))])"

section \<open>Validator\<close>

text \<open>The inner loop \<open>for (k = 1; k <= extra; ++k)\<close> over the continuation bytes.\<close>

definition utf8_acc :: "u32 \<Rightarrow> u8 \<Rightarrow> u32" where
  "utf8_acc cp cc = push_bit 6 cp OR ucast (cc AND 0x3F)"

fun utf8_cont :: "nat \<Rightarrow> u32 \<Rightarrow> string \<Rightarrow> u32 option" where
  "utf8_cont 0 cp s = Some cp"
| "utf8_cont (Suc k) cp [] = None"
| "utf8_cont (Suc k) cp (ch # s) =
     (if byte_of ch AND 0xC0 \<noteq> 0x80 then None else utf8_cont k (utf8_acc cp (byte_of ch)) s)"

text \<open>The lead byte's verdict: \<open>extra\<close>, the initial \<open>cp\<close>, \<open>lo\<close> and \<open>hi\<close>.\<close>

definition utf8_lead :: "u8 \<Rightarrow> (nat \<times> u32 \<times> u32 \<times> u32) option" where
  "utf8_lead c =
     (if c AND 0xE0 = 0xC0 then Some (1, ucast (c AND 0x1F), 0x80, 0x7FF)
      else if c AND 0xF0 = 0xE0 then Some (2, ucast (c AND 0x0F), 0x800, 0xFFFF)
      else if c AND 0xF8 = 0xF0 then Some (3, ucast (c AND 0x07), 0x10000, 0x10FFFF)
      else None)"

definition utf8_tail :: "nat \<Rightarrow> u32 \<Rightarrow> u32 \<Rightarrow> u32 \<Rightarrow> string \<Rightarrow> (u32 \<times> string) option" where
  "utf8_tail extra cp0 lo hi r =
     (if length r < extra then None
      else case utf8_cont extra cp0 r of
             None \<Rightarrow> None
           | Some cp \<Rightarrow>
               if cp < lo \<or> cp > hi then None
               else if cp \<ge> 0xD800 \<and> cp \<le> 0xDFFF then None
               else Some (cp, drop extra r))"

text \<open>One round of the outer loop: the code point read and the rest of the input.\<close>

definition utf8_step :: "string \<Rightarrow> (u32 \<times> string) option" where
  "utf8_step s =
     (case s of
        [] \<Rightarrow> None
      | ch # r \<Rightarrow>
          (let c = byte_of ch in
           if c < 0x80 then Some (ucast c, r)
           else case utf8_lead c of
                  None \<Rightarrow> None
                | Some (extra, cp0, lo, hi) \<Rightarrow> utf8_tail extra cp0 lo hi r))"

lemma utf8_step_shorter: "utf8_step s = Some (cp, r) \<Longrightarrow> length r < length s"
  by (cases s) (auto simp: utf8_step_def utf8_tail_def Let_def split: if_splits option.splits)

function valid_utf8 :: "string \<Rightarrow> bool" where
  "valid_utf8 s =
     (if s = [] then True
      else case utf8_step s of None \<Rightarrow> False | Some (cp, r) \<Rightarrow> valid_utf8 r)"
  by pat_completeness auto
termination
  by (relation "measure length") (auto dest: utf8_step_shorter)

declare valid_utf8.simps [simp del]

section \<open>Bytes and code points as numbers\<close>

lemma unat_and_high_gen: "unat ((w :: 'a :: len word) AND NOT (mask n)) = unat w div 2 ^ n * 2 ^ n"
proof -
  have "w AND NOT (mask n) = push_bit n (drop_bit n w)"
    by (rule bit_word_eqI) (auto simp: bit_and_iff bit_not_iff bit_mask_iff bit_push_bit_iff
        bit_drop_bit_eq)
  moreover have "unat w div 2 ^ n * 2 ^ n < 2 ^ LENGTH('a)"
    using unsigned_less [of w] by (rule le_less_trans [OF div_times_less_eq_dividend])
  ultimately show ?thesis by (simp add: unat_push_bit unat_drop_bit)
qed

lemma unat_and_high:
  "unat ((c :: u8) AND 0xE0) = unat c div 32 * 32"
  "unat (c AND 0xF0) = unat c div 16 * 16"
  "unat (c AND 0xF8) = unat c div 8 * 8"
  "unat (c AND 0xC0) = unat c div 64 * 64"
proof -
  have neg: "(0xE0 :: u8) = - 32" "(0xF0 :: u8) = - 16" "(0xF8 :: u8) = - 8" "(0xC0 :: u8) = - 64"
    by simp_all
  show "unat (c AND 0xE0) = unat c div 32 * 32" "unat (c AND 0xF0) = unat c div 16 * 16"
    "unat (c AND 0xF8) = unat c div 8 * 8" "unat (c AND 0xC0) = unat c div 64 * 64"
    unfolding neg
    using unat_and_high_gen [of c 5] unat_and_high_gen [of c 4] unat_and_high_gen [of c 3]
      unat_and_high_gen [of c 6]
    by (simp_all add: mask_eq_exp_minus_1)
qed

lemma div_mult_eq_range:
  assumes "0 < (k :: nat)"
  shows "n div k * k = m * k \<longleftrightarrow> m * k \<le> n \<and> n < m * k + k"
proof -
  have "n div k = m \<longleftrightarrow> m * k \<le> n \<and> n < m * k + k"
    using assms by (metis add.commute div_nat_eqI div_times_less_eq_dividend
        dividend_less_div_times mult.commute mult_Suc)
  then show ?thesis using assms by simp
qed

text \<open>The byte classes of the validator as number ranges.\<close>

lemma utf8_classes:
  "(c :: u8) AND 0xE0 = 0xC0 \<longleftrightarrow> 192 \<le> unat c \<and> unat c < 224"
  "c AND 0xF0 = 0xE0 \<longleftrightarrow> 224 \<le> unat c \<and> unat c < 240"
  "c AND 0xF8 = 0xF0 \<longleftrightarrow> 240 \<le> unat c \<and> unat c < 248"
  "c AND 0xC0 = 0x80 \<longleftrightarrow> 128 \<le> unat c \<and> unat c < 192"
  using unat_and_high [of c] div_mult_eq_range [of 32 "unat c" 6]
    div_mult_eq_range [of 16 "unat c" 14] div_mult_eq_range [of 8 "unat c" 30]
    div_mult_eq_range [of 64 "unat c" 2]
  by (auto simp: word_unat_eq_iff simp del: unat_u8_less)

text \<open>The encoder's bytes: a prefix plus a digit in base 64.\<close>

lemma unat_or_prefix:
  "unat (x :: u32) < 64 \<Longrightarrow> unat (0xC0 OR x) = 192 + unat x"
  "unat x < 64 \<Longrightarrow> unat (0x80 OR x) = 128 + unat x"
  "unat x < 16 \<Longrightarrow> unat (0xE0 OR x) = 224 + unat x"
  "unat x < 8 \<Longrightarrow> unat (0xF0 OR x) = 240 + unat x"
proof -
  have gen: "unat (push_bit n p OR x) = unat (push_bit n p) + unat x"
    if "unat x < 2 ^ n" "unat (push_bit n p) + unat x < 256" for n and p :: u32
  proof -
    have "push_bit n p OR x = x + push_bit n p"
      using or_push_bit_add [OF that(1), of p] by (simp add: or.commute)
    then show ?thesis
      using that(2) by (simp add: unat_word_ariths del: push_bit_eq_mult)
  qed
  show "unat x < 64 \<Longrightarrow> unat (0xC0 OR x) = 192 + unat x"
    using gen [of 6 3] by simp
  show "unat x < 64 \<Longrightarrow> unat (0x80 OR x) = 128 + unat x"
    using gen [of 6 2] by simp
  show "unat x < 16 \<Longrightarrow> unat (0xE0 OR x) = 224 + unat x"
    using gen [of 4 14] by simp
  show "unat x < 8 \<Longrightarrow> unat (0xF0 OR x) = 240 + unat x"
    using gen [of 3 30] by simp
qed

lemma unat_utf8_acc:
  assumes "unat (cp :: u32) < 2 ^ 15"
  shows "unat (push_bit 6 cp OR ucast ((b :: u8) AND 0x3F)) = unat cp * 64 + unat b mod 64"
proof -
  let ?x = "ucast (b AND 0x3F) :: u32"
  have x: "unat ?x = unat b mod 64"
    by (simp add: unsigned_ucast_eq take_bit_nat_eq_self unat_and_low)
  have "push_bit 6 cp OR ?x = ?x + push_bit 6 cp"
    using or_push_bit_add [of ?x 6 cp] x by (simp add: or.commute)
  moreover have "unat (push_bit 6 cp) = unat cp * 64"
    using assms by (subst unat_push_bit) simp_all
  moreover have "unat cp * 64 + unat b mod 64 < 2 ^ 32"
    using assms by (simp add: add_less_le_mono order_less_le_trans)
  ultimately show ?thesis
    by (simp add: unat_word_ariths x del: push_bit_eq_mult)
qed

definition scalar_value :: "u32 \<Rightarrow> bool" where
  "scalar_value cp \<longleftrightarrow> cp \<le> 0x10FFFF \<and> \<not> (cp \<ge> 0xD800 \<and> cp \<le> 0xDFFF)"

text \<open>The four sequence lengths, as numbers: lead byte, continuation bytes, code point.\<close>

definition cont_byte :: "nat \<Rightarrow> bool" where
  "cont_byte b \<longleftrightarrow> 128 \<le> b \<and> b < 192"

definition utf8_seq :: "nat list \<Rightarrow> nat \<Rightarrow> bool" where
  "utf8_seq bs n \<longleftrightarrow>
     (case bs of
        [a] \<Rightarrow> a < 128 \<and> n = a
      | [a, b] \<Rightarrow> 192 \<le> a \<and> a < 224 \<and> cont_byte b \<and> n = (a - 192) * 64 + (b - 128) \<and> 128 \<le> n
      | [a, b, c] \<Rightarrow> 224 \<le> a \<and> a < 240 \<and> cont_byte b \<and> cont_byte c \<and>
          n = ((a - 224) * 64 + (b - 128)) * 64 + (c - 128) \<and> 2048 \<le> n
      | [a, b, c, d] \<Rightarrow> 240 \<le> a \<and> a < 248 \<and> cont_byte b \<and> cont_byte c \<and> cont_byte d \<and>
          n = (((a - 240) * 64 + (b - 128)) * 64 + (c - 128)) * 64 + (d - 128) \<and>
          65536 \<le> n \<and> n < 1114112
      | _ \<Rightarrow> False)"

lemma utf8_seq_bound:
  assumes "utf8_seq bs n"
  shows "length bs = (if n < 128 then 1 else if n < 2048 then 2 else if n < 65536 then 3 else 4)"
    and "n < 1114112"
  using assms by (auto simp: utf8_seq_def cont_byte_def split: list.splits)

lemma base64_digits:
  assumes "x * 64 + (y - 128) = x' * 64 + (y' - 128)" and "cont_byte y" and "cont_byte y'"
  shows "x = x' \<and> y = y'"
proof -
  have "(x * 64 + (y - 128)) div 64 = x" "(x' * 64 + (y' - 128)) div 64 = x'"
    using assms(2,3) by (auto simp: cont_byte_def div_add1_eq)
  with assms show ?thesis by (auto simp: cont_byte_def)
qed

lemma utf8_seq_inject:
  assumes "utf8_seq bs n" and "utf8_seq bs' n"
  shows "bs = bs'"
proof -
  have len: "length bs = length bs'"
    by (simp only: utf8_seq_bound(1) [OF assms(1)] utf8_seq_bound(1) [OF assms(2)])
  have "length bs \<in> {1, 2, 3, 4}"
    using utf8_seq_bound(1) [OF assms(1)] by simp
  then consider a a' where "bs = [a]" "bs' = [a']"
    | a b a' b' where "bs = [a, b]" "bs' = [a', b']"
    | a b c a' b' c' where "bs = [a, b, c]" "bs' = [a', b', c']"
    | a b c d a' b' c' d' where "bs = [a, b, c, d]" "bs' = [a', b', c', d']"
    using len by (auto simp: numeral_eq_Suc length_Suc_conv)
  then show ?thesis
  proof cases
    case 1
    with assms show ?thesis by (simp add: utf8_seq_def)
  next
    case 2
    with assms base64_digits [of "a - 192" b "a' - 192" b'] show ?thesis
      by (auto simp: utf8_seq_def)
  next
    case 3
    with assms base64_digits [of "(a - 224) * 64 + (b - 128)" c "(a' - 224) * 64 + (b' - 128)" c']
      base64_digits [of "a - 224" b "a' - 224" b'] show ?thesis
      by (auto simp: utf8_seq_def)
  next
    case 4
    with assms base64_digits [of "((a - 240) * 64 + (b - 128)) * 64 + (c - 128)" d
        "((a' - 240) * 64 + (b' - 128)) * 64 + (c' - 128)" d']
      base64_digits [of "(a - 240) * 64 + (b - 128)" c "(a' - 240) * 64 + (b' - 128)" c']
      base64_digits [of "a - 240" b "a' - 240" b'] show ?thesis
      by (auto simp: utf8_seq_def eq_diff_iff)
  qed
qed

lemma div_64_64: "(n :: nat) div 4096 = n div 64 div 64" "n div 262144 = n div 64 div 64 div 64"
  by (simp_all flip: div_mult2_eq)

lemma utf8_seq_encode:
  assumes "unat cp < 1114112"
  shows "utf8_seq (map (\<lambda>ch. unat (byte_of ch)) (encode_utf8 cp)) (unat cp)"
proof -
  let ?n = "unat cp"
  have lead: "?n \<le> 0x7FF \<Longrightarrow> ?n div 64 < 32" "?n \<le> 0xFFFF \<Longrightarrow> ?n div 64 div 64 < 16"
      "?n div 64 div 64 div 64 < 5"
    using assms by (simp_all add: less_mult_imp_div_less flip: div_mult2_eq)
  have bytes: "128 + m mod 64 < 256" for m :: nat
    using mod_less_divisor [of 64 m] by linarith
  have recon: "?n = ?n div 64 * 64 + ?n mod 64"
      "?n div 64 = ?n div 64 div 64 * 64 + ?n div 64 mod 64"
      "?n div 64 div 64 = ?n div 64 div 64 div 64 * 64 + ?n div 64 div 64 mod 64"
    by simp_all
  from lead bytes assms show ?thesis
    unfolding encode_utf8_def utf8_seq_def cont_byte_def
    by (auto simp: word_le_nat_alt unat_or_prefix unat_drop_bit unat_and_low unat_ucast_u8 div_64_64)
       (use recon in linarith)+
qed

section \<open>The validator decodes the encoder\<close>

lemma u32_range: "(a :: u32) \<le> b \<longleftrightarrow> unat a \<le> unat b" "a < b \<longleftrightarrow> unat a < unat b"
  by (simp_all add: word_le_nat_alt word_less_nat_alt)

lemma mod_offset:
  "192 \<le> (a :: nat) \<Longrightarrow> a < 224 \<Longrightarrow> a mod 32 = a - 192"
  "224 \<le> a \<Longrightarrow> a < 240 \<Longrightarrow> a mod 16 = a - 224"
  "240 \<le> a \<Longrightarrow> a < 248 \<Longrightarrow> a mod 8 = a - 240"
  "128 \<le> a \<Longrightarrow> a < 192 \<Longrightarrow> a mod 64 = a - 128"
proof -
  have off: "a mod k = a - q * k" if "q * k \<le> a" "a < q * k + k" for k q :: nat
  proof -
    have "a = (a - q * k) + q * k" using that by simp
    then have "a mod k = (a - q * k) mod k" by (metis mod_mult_self1)
    then show ?thesis using that by simp
  qed
  show "192 \<le> a \<Longrightarrow> a < 224 \<Longrightarrow> a mod 32 = a - 192" using off [of 6 32] by simp
  show "224 \<le> a \<Longrightarrow> a < 240 \<Longrightarrow> a mod 16 = a - 224" using off [of 14 16] by simp
  show "240 \<le> a \<Longrightarrow> a < 248 \<Longrightarrow> a mod 8 = a - 240" using off [of 30 8] by simp
  show "128 \<le> a \<Longrightarrow> a < 192 \<Longrightarrow> a mod 64 = a - 128" using off [of 2 64] by simp
qed

lemma unat_ucast_u8_u32 [simp]: "unat (ucast (b :: u8) :: u32) = unat b"
  by (simp add: unsigned_ucast_eq take_bit_nat_eq_self less_trans [OF unat_u8_less])

lemma word_of_nat_unat: "word_of_nat (unat w) = (w :: 'a :: len word)"
  by (rule unat_eqI) (simp add: unsigned_of_nat take_bit_nat_eq_self unsigned_less)

text \<open>The continuation loop folds the low six bits of each byte.\<close>

abbreviation num :: "char \<Rightarrow> nat" where
  "num ch \<equiv> unat (byte_of ch)"

lemma unat_utf8_acc_cont:
  assumes "unat cp < 2 ^ 15" and "cont_byte (unat b)"
  shows "unat (utf8_acc cp b) = unat cp * 64 + (unat b - 128)"
  using unat_utf8_acc [OF assms(1), of b] assms(2)
  by (simp add: utf8_acc_def cont_byte_def mod_offset)

lemma Cons_append_split:
  "(\<exists>bs r. b # s = bs @ r \<and> length bs = Suc k \<and> P bs) \<longleftrightarrow>
   (\<exists>bs r. s = bs @ r \<and> length bs = k \<and> P (b # bs))"
proof
  assume "\<exists>bs r. b # s = bs @ r \<and> length bs = Suc k \<and> P bs"
  then obtain bs r where bs: "b # s = bs @ r" "length bs = Suc k" "P bs" by blast
  then obtain bs' where "bs = b # bs'" by (cases bs) auto
  with bs show "\<exists>bs r. s = bs @ r \<and> length bs = k \<and> P (b # bs)" by auto
next
  assume "\<exists>bs r. s = bs @ r \<and> length bs = k \<and> P (b # bs)"
  then obtain bs r where "s = bs @ r" "length bs = k" "P (b # bs)" by blast
  then show "\<exists>bs r. b # s = bs @ r \<and> length bs = Suc k \<and> P bs"
    by (intro exI [of _ "b # bs"] exI [of _ r]) simp
qed

lemma utf8_cont_iff:
  assumes "(unat cp0 + 1) * 64 ^ k \<le> 2 ^ 21"
  shows "utf8_cont k cp0 s = Some cp \<longleftrightarrow>
    (\<exists>bs r. s = bs @ r \<and> length bs = k \<and> (\<forall>b \<in> set bs. cont_byte (num b)) \<and>
       unat cp = foldl (\<lambda>x b. x * 64 + (num b - 128)) (unat cp0) bs)"
  using assms
proof (induction k arbitrary: cp0 s)
  case 0
  show ?case by (auto simp: word_unat_eq_iff)
next
  case (Suc k)
  show ?case
  proof (cases s)
    case Nil
    then show ?thesis by simp
  next
    case (Cons b s')
    have "(unat cp0 + 1) * 64 * 1 \<le> (unat cp0 + 1) * 64 * 64 ^ k"
      by (intro mult_le_mono2) simp
    moreover have prems: "(unat cp0 + 1) * 64 * 64 ^ k \<le> 2 ^ 21"
      using Suc.prems by (simp only: power_Suc mult.assoc)
    ultimately have "(unat cp0 + 1) * 64 \<le> 2 ^ 21" by linarith
    then have small: "unat cp0 < 2 ^ 15" by simp
    have split: "(\<exists>bs r. s = bs @ r \<and> length bs = Suc k \<and> P bs) \<longleftrightarrow>
        (\<exists>bs r. s' = bs @ r \<and> length bs = k \<and> P (b # bs))" for P
      unfolding Cons by (rule Cons_append_split)
    show ?thesis
    proof (cases "cont_byte (num b)")
      case True
      have acc: "unat (utf8_acc cp0 (byte_of b)) = unat cp0 * 64 + (num b - 128)"
        using small True by (rule unat_utf8_acc_cont)
      have "num b - 128 \<le> 63" using True by (auto simp: cont_byte_def)
      then have "(unat cp0 * 64 + (num b - 128) + 1) * 64 ^ k \<le> (unat cp0 + 1) * 64 * 64 ^ k"
        by (intro mult_le_mono1) (simp add: add_mult_distrib)
      then have "(unat cp0 * 64 + (num b - 128) + 1) * 64 ^ k \<le> 2 ^ 21"
        using prems by linarith
      then show ?thesis
        using True Suc.IH [of "utf8_acc cp0 (byte_of b)" s'] acc
        unfolding split by (simp add: Cons utf8_classes cont_byte_def)
    next
      case False
      then show ?thesis
        unfolding split by (auto simp: Cons utf8_classes cont_byte_def)
    qed
  qed
qed

lemma utf8_tail_iff:
  "utf8_tail extra cp0 lo hi r = Some (cp, rest) \<longleftrightarrow>
     extra \<le> length r \<and> utf8_cont extra cp0 r = Some cp \<and> lo \<le> cp \<and> cp \<le> hi \<and>
     \<not> (cp \<ge> 0xD800 \<and> cp \<le> 0xDFFF) \<and> rest = drop extra r"
  by (auto simp: utf8_tail_def not_less split: if_splits option.splits)

lemma utf8_tail_seq:
  assumes "(unat cp0 + 1) * 64 ^ extra \<le> 2 ^ 21"
  shows "utf8_tail extra cp0 lo hi r = Some (cp, rest) \<longleftrightarrow>
    (\<exists>bs. r = bs @ rest \<and> length bs = extra \<and> (\<forall>b \<in> set bs. cont_byte (num b)) \<and>
       unat cp = foldl (\<lambda>x b. x * 64 + (num b - 128)) (unat cp0) bs \<and>
       lo \<le> cp \<and> cp \<le> hi \<and> \<not> (cp \<ge> 0xD800 \<and> cp \<le> 0xDFFF))"
  unfolding utf8_tail_iff utf8_cont_iff [OF assms] by auto

text \<open>The class of the lead byte fixes how many continuation bytes a sequence has.\<close>

lemma utf8_seq_classes:
  "a < 128 \<Longrightarrow> utf8_seq (a # bs) n \<longleftrightarrow> bs = [] \<and> n = a"
  "192 \<le> a \<Longrightarrow> a < 224 \<Longrightarrow> utf8_seq (a # bs) n \<longleftrightarrow>
     length bs = 1 \<and> (\<forall>b \<in> set bs. cont_byte b) \<and>
     n = foldl (\<lambda>x b. x * 64 + (b - 128)) (a - 192) bs \<and> 128 \<le> n \<and> n \<le> 2047"
  "224 \<le> a \<Longrightarrow> a < 240 \<Longrightarrow> utf8_seq (a # bs) n \<longleftrightarrow>
     length bs = 2 \<and> (\<forall>b \<in> set bs. cont_byte b) \<and>
     n = foldl (\<lambda>x b. x * 64 + (b - 128)) (a - 224) bs \<and> 2048 \<le> n \<and> n \<le> 65535"
  "240 \<le> a \<Longrightarrow> a < 248 \<Longrightarrow> utf8_seq (a # bs) n \<longleftrightarrow>
     length bs = 3 \<and> (\<forall>b \<in> set bs. cont_byte b) \<and>
     n = foldl (\<lambda>x b. x * 64 + (b - 128)) (a - 240) bs \<and> 65536 \<le> n \<and> n \<le> 1114111"
  "128 \<le> a \<Longrightarrow> a < 192 \<or> 248 \<le> a \<Longrightarrow> \<not> utf8_seq (a # bs) n"
proof -
  show "a < 128 \<Longrightarrow> utf8_seq (a # bs) n \<longleftrightarrow> bs = [] \<and> n = a"
    by (auto simp: utf8_seq_def split: list.splits)
  show "192 \<le> a \<Longrightarrow> a < 224 \<Longrightarrow> utf8_seq (a # bs) n \<longleftrightarrow>
     length bs = 1 \<and> (\<forall>b \<in> set bs. cont_byte b) \<and>
     n = foldl (\<lambda>x b. x * 64 + (b - 128)) (a - 192) bs \<and> 128 \<le> n \<and> n \<le> 2047"
    by (auto simp: utf8_seq_def cont_byte_def split: list.splits)
  show "224 \<le> a \<Longrightarrow> a < 240 \<Longrightarrow> utf8_seq (a # bs) n \<longleftrightarrow>
     length bs = 2 \<and> (\<forall>b \<in> set bs. cont_byte b) \<and>
     n = foldl (\<lambda>x b. x * 64 + (b - 128)) (a - 224) bs \<and> 2048 \<le> n \<and> n \<le> 65535"
    by (auto simp: utf8_seq_def cont_byte_def split: list.splits)
  show "240 \<le> a \<Longrightarrow> a < 248 \<Longrightarrow> utf8_seq (a # bs) n \<longleftrightarrow>
     length bs = 3 \<and> (\<forall>b \<in> set bs. cont_byte b) \<and>
     n = foldl (\<lambda>x b. x * 64 + (b - 128)) (a - 240) bs \<and> 65536 \<le> n \<and> n \<le> 1114111"
    by (auto simp: utf8_seq_def cont_byte_def split: list.splits)
  show "128 \<le> a \<Longrightarrow> a < 192 \<or> 248 \<le> a \<Longrightarrow> \<not> utf8_seq (a # bs) n"
    by (auto simp: utf8_seq_def split: list.splits)
qed

lemma foldl_num: "foldl (\<lambda>x b. x * 64 + (b - 128)) c (map num bs) =
    foldl (\<lambda>x b. x * 64 + (num b - 128)) c bs"
  by (simp add: foldl_map)

lemma utf8_step_class:
  assumes "utf8_lead (byte_of a) = Some (extra, cp0, lo, hi)" and "\<not> num a < 128"
    and "(unat cp0 + 1) * 64 ^ extra \<le> 2 ^ 21" and "hi \<le> 0x10FFFF"
    and "\<And>bs n. utf8_seq (num a # bs) n \<longleftrightarrow> length bs = extra \<and> (\<forall>b \<in> set bs. cont_byte b) \<and>
       n = foldl (\<lambda>x b. x * 64 + (b - 128)) (unat cp0) bs \<and> unat lo \<le> n \<and> n \<le> unat hi"
  shows "utf8_step (a # r) = Some (cp, rest) \<longleftrightarrow>
    (\<exists>bs. r = bs @ rest \<and> utf8_seq (num a # map num bs) (unat cp) \<and> scalar_value cp)"
proof -
  have "utf8_step (a # r) = utf8_tail extra cp0 lo hi r"
    using assms(1,2) by (simp add: utf8_step_def word_less_nat_alt)
  then show ?thesis
    using assms(4)
    by (auto simp: utf8_tail_seq [OF assms(3)] assms(5) foldl_num u32_range scalar_value_def)
qed

lemma utf8_step_Cons:
  "utf8_step (a # r) = Some (cp, rest) \<longleftrightarrow>
     (\<exists>bs. r = bs @ rest \<and> utf8_seq (num a # map num bs) (unat cp) \<and> scalar_value cp)"
proof -
  consider "num a < 128" | "192 \<le> num a" "num a < 224" | "224 \<le> num a" "num a < 240"
    | "240 \<le> num a" "num a < 248" | "128 \<le> num a" "num a < 192 \<or> 248 \<le> num a"
    by linarith
  then show ?thesis
  proof cases
    case 1
    then show ?thesis
      by (auto simp: utf8_step_def utf8_seq_classes(1) word_less_nat_alt scalar_value_def u32_range
          word_unat_eq_iff)
  next
    case 2
    then show ?thesis
      by (intro utf8_step_class [of a 1 "ucast (byte_of a AND 0x1F)" "0x80" "0x7FF"])
         (auto simp: utf8_lead_def utf8_classes unat_and_low mod_offset utf8_seq_classes(2))
  next
    case 3
    then show ?thesis
      by (intro utf8_step_class [of a 2 "ucast (byte_of a AND 0x0F)" "0x800" "0xFFFF"])
         (auto simp: utf8_lead_def utf8_classes unat_and_low mod_offset utf8_seq_classes(3))
  next
    case 4
    then show ?thesis
      by (intro utf8_step_class [of a 3 "ucast (byte_of a AND 0x07)" "0x10000" "0x10FFFF"])
         (auto simp: utf8_lead_def utf8_classes unat_and_low mod_offset utf8_seq_classes(4))
  next
    case 5
    then show ?thesis
      by (auto simp: utf8_step_def utf8_lead_def utf8_classes utf8_seq_classes(5) word_less_nat_alt)
  qed
qed

lemma utf8_step_iff:
  "utf8_step s = Some (cp, rest) \<longleftrightarrow>
     (\<exists>bs. s = bs @ rest \<and> utf8_seq (map num bs) (unat cp) \<and> scalar_value cp)"
proof (cases s)
  case Nil
  then show ?thesis by (auto simp: utf8_step_def utf8_seq_def)
next
  case (Cons a r)
  have "\<not> utf8_seq [] n" for n by (simp add: utf8_seq_def)
  then show ?thesis
    unfolding Cons utf8_step_Cons by (auto simp: Cons_eq_append_conv)
qed

lemma scalar_value_bound: "scalar_value cp \<Longrightarrow> unat cp < 1114112"
  by (simp add: scalar_value_def word_le_nat_alt)

lemma map_num_inject: "map num xs = map num ys \<longleftrightarrow> xs = ys"
proof -
  have "inj num"
  proof (rule injI)
    fix x y assume "num x = num y"
    then have "byte_of x = byte_of y" by (rule unat_eqI)
    then show "x = y" by simp
  qed
  then show ?thesis by (rule inj_map_eq_map)
qed

interpretation utf8_codec: wire_codec encode_utf8 utf8_step scalar_value
proof
  fix cp rest assume "scalar_value cp"
  then show "utf8_step (encode_utf8 cp @ rest) = Some (cp, rest)"
    using utf8_seq_encode [OF scalar_value_bound] by (auto simp: utf8_step_iff)
next
  fix s cp rest assume "utf8_step s = Some (cp, rest)"
  then obtain bs where bs: "s = bs @ rest" "utf8_seq (map num bs) (unat cp)" "scalar_value cp"
    by (auto simp: utf8_step_iff)
  then have "map num bs = map num (encode_utf8 cp)"
    using utf8_seq_inject utf8_seq_encode [OF scalar_value_bound] by blast
  then show "scalar_value cp \<and> s = encode_utf8 cp @ rest"
    using bs by (simp add: map_num_inject)
qed

lemma encode_utf8_nonempty [simp]: "encode_utf8 cp \<noteq> []"
  by (simp add: encode_utf8_def)

lemma encode_all_inject:
  assumes "list_all scalar_value xs" "list_all scalar_value ys"
    and "concat (map encode_utf8 xs) = concat (map encode_utf8 ys)"
  shows "xs = ys"
  using assms
proof (induction xs arbitrary: ys)
  case Nil
  then show ?case by (cases ys) auto
next
  case (Cons x xs)
  have "ys \<noteq> []" using Cons.prems(3) by (intro notI) simp
  then obtain y ys' where ys: "ys = y # ys'" by (cases ys) auto
  have "x = y \<and> concat (map encode_utf8 xs) = concat (map encode_utf8 ys')"
    using Cons.prems ys
    by (intro utf8_codec.enc_inject [of x y "concat (map encode_utf8 xs)" "concat (map encode_utf8 ys')"])
       simp_all
  then show ?case using Cons ys by auto
qed

lemma list_all_concat_cases:
  assumes "list_all P xs" and "concat (map f xs) \<noteq> []"
  obtains x ys where "P x" "list_all P ys" "concat (map f xs) = f x @ concat (map f ys)"
  using assms by (cases xs) auto

lemma valid_utf8_decodes:
  "valid_utf8 s \<longleftrightarrow> (\<exists>cps. list_all scalar_value cps \<and> s = concat (map encode_utf8 cps))"
proof (induction s rule: valid_utf8.induct)
  case (1 s)
  show ?case
  proof (cases "s = []")
    case True
    then show ?thesis by (auto simp: valid_utf8.simps intro: exI [of _ "[]"])
  next
    case False
    show ?thesis
    proof
      assume "valid_utf8 s"
      then obtain cp r where step: "utf8_step s = Some (cp, r)" and v: "valid_utf8 r"
        using False by (subst (asm) valid_utf8.simps) (auto split: option.splits)
      then obtain cps where "list_all scalar_value cps" "r = concat (map encode_utf8 cps)"
        using 1 [OF False step refl] by auto
      then show "\<exists>cps. list_all scalar_value cps \<and> s = concat (map encode_utf8 cps)"
        using step by (intro exI [of _ "cp # cps"]) (auto simp: utf8_codec.dec_iff)
    next
      assume "\<exists>cps. list_all scalar_value cps \<and> s = concat (map encode_utf8 cps)"
      then obtain cp cps where cps: "scalar_value cp" "list_all scalar_value cps"
          "s = encode_utf8 cp @ concat (map encode_utf8 cps)"
        using False by (metis list_all_concat_cases)
      then have step: "utf8_step s = Some (cp, concat (map encode_utf8 cps))"
        by (simp add: utf8_codec.dec_enc)
      then have "valid_utf8 (concat (map encode_utf8 cps))"
        using 1 [OF False step refl] cps by auto
      then show "valid_utf8 s" using False step by (subst valid_utf8.simps) simp
    qed
  qed
qed

text \<open>
  C37: UTF-8 validity is exactly what Unicode defines. \<open>valid_utf8\<close> accepts a byte string if and only
  if it is the concatenation of the encodings of some sequence of Unicode scalar values (no
  surrogates, nothing above U+10FFFF, no overlong or truncated form), and that sequence is unique.
\<close>

theorem valid_utf8_iff:
  "valid_utf8 s \<longleftrightarrow> (\<exists>!cps. list_all scalar_value cps \<and> s = concat (map encode_utf8 cps))"
  using valid_utf8_decodes [of s] by (auto dest: encode_all_inject)

end
