(* ===== verification/Zen_Base64.thy ===== *)
theory Zen_Base64
  imports Zen_Prelude
begin

text \<open>
  Base64 with mandatory padding: \<open>src/detail/base64.cpp\<close>, used by the compatibility codec for Bytes
  fields. The reverse table is built by the source's loop; both main loops recurse over the input
  three octets, respectively four symbols, at a time. A decode that returns \<open>false\<close> is \<open>None\<close>
  (callers never look at the partial output).
\<close>

section \<open>Tables\<close>

definition kAlphabet :: string where
  "kAlphabet = ''ABCDEFGHIJKLMNOPQRSTUVWXYZabcdefghijklmnopqrstuvwxyz0123456789+/''"

definition make_reverse :: "u8 list" where
  "make_reverse =
     fold (\<lambda>i r. r[unat (byte_of (kAlphabet ! i)) := word_of_nat i]) [0..<64] (replicate 256 0xFF)"

definition rev_lookup :: "char \<Rightarrow> u8" where
  "rev_lookup c = make_reverse ! unat (byte_of c)"

definition b64_sym :: "u32 \<Rightarrow> nat \<Rightarrow> char" where
  "b64_sym n shift = kAlphabet ! unat (drop_bit shift n AND 0x3F)"

section \<open>Encoder\<close>

fun base64_encode :: "u8 list \<Rightarrow> string" where
  "base64_encode [] = []"
| "base64_encode [a] =
     (let n = push_bit 16 (ucast a)
      in [b64_sym n 18, b64_sym n 12, CHR ''='', CHR ''=''])"
| "base64_encode [a, b] =
     (let n = push_bit 16 (ucast a) OR push_bit 8 (ucast b)
      in [b64_sym n 18, b64_sym n 12, b64_sym n 6, CHR ''=''])"
| "base64_encode (a # b # c # rest) =
     (let n = push_bit 16 (ucast a) OR push_bit 8 (ucast b) OR ucast c
      in [b64_sym n 18, b64_sym n 12, b64_sym n 6, b64_sym n 0]) @ base64_encode rest"

section \<open>Decoder\<close>

text \<open>The three output expressions; the shifts happen at \<open>int\<close> width and are then truncated.\<close>

definition b64_out0 :: "u8 \<Rightarrow> u8 \<Rightarrow> u8" where
  "b64_out0 v0 v1 = ucast (push_bit 2 (ucast v0 :: u32) OR drop_bit 4 (ucast v1))"

definition b64_out1 :: "u8 \<Rightarrow> u8 \<Rightarrow> u8" where
  "b64_out1 v1 v2 = ucast (push_bit 4 (ucast v1 :: u32) OR drop_bit 2 (ucast v2))"

definition b64_out2 :: "u8 \<Rightarrow> u8 \<Rightarrow> u8" where
  "b64_out2 v2 v3 = ucast (push_bit 6 (ucast v2 :: u32) OR ucast v3)"

text \<open>One round of the loop: the octets pushed, or \<open>None\<close> for \<open>return false\<close>.\<close>

definition base64_quad :: "bool \<Rightarrow> char \<Rightarrow> char \<Rightarrow> char \<Rightarrow> char \<Rightarrow> u8 list option" where
  "base64_quad last_quad c0 c1 c2 c3 =
     (let pad2 = (c2 = CHR ''=''); pad3 = (c3 = CHR ''='') in
      if (pad2 \<or> pad3) \<and> \<not> last_quad then None
      else if pad2 \<and> \<not> pad3 then None
      else
        let v0 = rev_lookup c0; v1 = rev_lookup c1 in
        if v0 = 0xFF \<or> v1 = 0xFF then None
        else if pad3 \<and> pad2 then
          (if v1 AND 0x0F \<noteq> 0 then None else Some [b64_out0 v0 v1])
        else
          let v2 = rev_lookup c2 in
          if v2 = 0xFF then None
          else if pad3 then
            (if v2 AND 0x03 \<noteq> 0 then None else Some [b64_out0 v0 v1, b64_out1 v1 v2])
          else
            let v3 = rev_lookup c3 in
            if v3 = 0xFF then None
            else Some [b64_out0 v0 v1, b64_out1 v1 v2, b64_out2 v2 v3])"

fun base64_loop :: "string \<Rightarrow> u8 list option" where
  "base64_loop (c0 # c1 # c2 # c3 # rest) =
     (case base64_quad (rest = []) c0 c1 c2 c3 of
        None \<Rightarrow> None
      | Some out \<Rightarrow> map_option ((@) out) (base64_loop rest))"
| "base64_loop _ = Some []"

definition base64_decode :: "string \<Rightarrow> u8 list option" where
  "base64_decode s = (if length s mod 4 \<noteq> 0 then None else base64_loop s)"

section \<open>The two tables are inverse\<close>

text \<open>A table filled by indexed assignments with distinct keys.\<close>

lemma fold_table_hit:
  assumes "inj_on k {..<n}" and "\<forall>i < n. k i < length r" and "i < n"
  shows "fold (\<lambda>i r. r[k i := f i]) [0..<n] r ! k i = f i"
  using assms
proof (induction n)
  case (Suc n)
  have len: "length (fold (\<lambda>i r. r[k i := f i]) xs r) = length r" for xs
    by (induction xs arbitrary: r) auto
  show ?case
  proof (cases "i = n")
    case True
    then show ?thesis using Suc.prems by (simp add: len)
  next
    case False
    then have "k n \<noteq> k i" using Suc.prems by (auto simp: inj_on_def)
    moreover have "inj_on k {..<n}" using Suc.prems(1) by (auto simp: inj_on_def)
    ultimately show ?thesis using Suc False by simp
  qed
qed simp

lemma fold_table_miss:
  "\<forall>i < n. k i \<noteq> m \<Longrightarrow> fold (\<lambda>i r. r[k i := f i]) [0..<n] r ! m = r ! m"
  by (induction n) auto

lemma kAlphabet_facts: "length kAlphabet = 64" "distinct kAlphabet" "CHR ''='' \<notin> set kAlphabet"
  by (simp_all add: kAlphabet_def)

lemma num_inject: "unat (byte_of a) = unat (byte_of b) \<longleftrightarrow> a = b"
  using unat_eqI [of "byte_of a" "byte_of b"] by auto

lemma rev_lookup_sym:
  assumes "i < 64"
  shows "rev_lookup (kAlphabet ! i) = word_of_nat i"
proof -
  have "inj_on (\<lambda>i. unat (byte_of (kAlphabet ! i))) {..<64}"
    using kAlphabet_facts(1,2) by (auto simp: inj_on_def num_inject nth_eq_iff_index_eq)
  then show ?thesis
    unfolding rev_lookup_def make_reverse_def
    by (rule fold_table_hit [where k = "\<lambda>i. unat (byte_of (kAlphabet ! i))"])
       (use assms in auto)
qed

lemma rev_lookup_hit:
  assumes "rev_lookup c \<noteq> 0xFF"
  shows "unat (rev_lookup c) < 64 \<and> kAlphabet ! unat (rev_lookup c) = c"
proof -
  have "\<exists>i < 64. kAlphabet ! i = c"
  proof (rule ccontr)
    assume "\<not> (\<exists>i < 64. kAlphabet ! i = c)"
    then have "make_reverse ! unat (byte_of c) = replicate 256 0xFF ! unat (byte_of c)"
      unfolding make_reverse_def by (intro fold_table_miss) (auto simp: num_inject)
    then show False using assms by (simp add: rev_lookup_def)
  qed
  then obtain i where i: "i < 64" "kAlphabet ! i = c" by blast
  then have "rev_lookup c = word_of_nat i" using rev_lookup_sym by blast
  moreover have "unat (word_of_nat i :: u8) = i"
    using i(1) by (simp add: unsigned_of_nat take_bit_nat_eq_self)
  ultimately show ?thesis using i by simp
qed

section \<open>Quads\<close>

lemma u8_eq_iff:
  "(x :: u8) = y \<longleftrightarrow>
     (bit x 0 \<longleftrightarrow> bit y 0) \<and> (bit x 1 \<longleftrightarrow> bit y 1) \<and> (bit x 2 \<longleftrightarrow> bit y 2) \<and> (bit x 3 \<longleftrightarrow> bit y 3) \<and>
     (bit x 4 \<longleftrightarrow> bit y 4) \<and> (bit x 5 \<longleftrightarrow> bit y 5) \<and> (bit x 6 \<longleftrightarrow> bit y 6) \<and> (bit x 7 \<longleftrightarrow> bit y 7)"
proof -
  have "(\<forall>n < 8. bit x n \<longleftrightarrow> bit y n) \<longleftrightarrow> x = y"
    by (auto simp: bit_eq_iff)
  then show ?thesis by (auto simp: numeral_eq_Suc All_less_Suc)
qed

definition sextet :: "u8 \<Rightarrow> bool" where
  "sextet v \<longleftrightarrow> unat v < 64"

lemma sextet_bits: "sextet v \<longleftrightarrow> \<not> bit v 6 \<and> \<not> bit v 7"
proof -
  have "unat v < 64 \<longleftrightarrow> unat (drop_bit 6 v) = 0"
    by (auto simp: unat_drop_bit div_eq_0_iff)
  also have "\<dots> \<longleftrightarrow> drop_bit 6 v = 0" by (simp add: unat_eq_0)
  also have "\<dots> \<longleftrightarrow> \<not> bit v 6 \<and> \<not> bit v 7"
    by (auto simp: u8_eq_iff bit_drop_bit_eq dest: bit_imp_le_length)
  finally show ?thesis by (simp add: sextet_def)
qed

text \<open>The symbol index as an octet.\<close>

definition b64_ix :: "u32 \<Rightarrow> nat \<Rightarrow> u8" where
  "b64_ix n shift = ucast (drop_bit shift n AND 0x3F)"

lemma bit_b64_ix: "bit (b64_ix n shift) j \<longleftrightarrow> j < 6 \<and> bit n (shift + j)"
proof -
  have mask: "(0x3F :: u32) = mask 6" by (simp add: mask_eq_exp_minus_1)
  show ?thesis
    unfolding b64_ix_def mask by (auto simp: bit_simps)
qed

lemma sextet_b64_ix [simp]: "sextet (b64_ix n shift)"
  by (simp add: sextet_bits bit_b64_ix)

lemma b64_sym_ix: "b64_sym n shift = kAlphabet ! unat (b64_ix n shift)"
proof -
  have "unat (drop_bit shift n AND (0x3F :: u32)) < 64"
    by (simp add: unat_and_low)
  then show ?thesis by (simp add: b64_sym_def b64_ix_def unat_ucast_u8)
qed

text \<open>Octets to sextets and back, for the three quad shapes.\<close>

lemma u8_bit_beyond: "8 \<le> n \<Longrightarrow> \<not> bit (v :: u8) n"
  using bit_imp_le_length [of v n] by auto

lemmas b64_bits = u8_bit_beyond numeral_2_eq_2 [symmetric] u8_eq_iff b64_out0_def b64_out1_def b64_out2_def bit_b64_ix sextet_bits bit_simps

lemma quad_octets3:
  fixes a b c :: u8
  defines "n \<equiv> push_bit 16 (ucast a) OR push_bit 8 (ucast b) OR ucast c"
  shows "b64_out0 (b64_ix n 18) (b64_ix n 12) = a"
    and "b64_out1 (b64_ix n 12) (b64_ix n 6) = b"
    and "b64_out2 (b64_ix n 6) (b64_ix n 0) = c"
  unfolding n_def by (simp_all add: b64_bits)

lemma quad_octets2:
  fixes a b :: u8
  defines "n \<equiv> push_bit 16 (ucast a) OR push_bit 8 (ucast b)"
  shows "b64_out0 (b64_ix n 18) (b64_ix n 12) = a"
    and "b64_out1 (b64_ix n 12) (b64_ix n 6) = b"
    and "b64_ix n 6 AND 0x03 = 0"
  unfolding n_def by (simp_all add: b64_bits)

lemma quad_octets1:
  fixes a :: u8
  defines "n \<equiv> push_bit 16 (ucast a)"
  shows "b64_out0 (b64_ix n 18) (b64_ix n 12) = a"
    and "b64_ix n 12 AND 0x0F = 0"
  unfolding n_def by (simp_all add: b64_bits)

lemma quad_sextets3:
  fixes v0 v1 v2 v3 :: u8
  defines "n \<equiv> push_bit 16 (ucast (b64_out0 v0 v1)) OR push_bit 8 (ucast (b64_out1 v1 v2)) OR
    ucast (b64_out2 v2 v3)"
  assumes "sextet v0" "sextet v1" "sextet v2" "sextet v3"
  shows "b64_ix n 18 = v0" and "b64_ix n 12 = v1" and "b64_ix n 6 = v2" and "b64_ix n 0 = v3"
  using assms unfolding n_def by (simp_all add: b64_bits)

lemma quad_sextets2:
  fixes v0 v1 v2 :: u8
  defines "n \<equiv> push_bit 16 (ucast (b64_out0 v0 v1)) OR push_bit 8 (ucast (b64_out1 v1 v2))"
  assumes "sextet v0" "sextet v1" "sextet v2" "v2 AND 0x03 = 0"
  shows "b64_ix n 18 = v0" and "b64_ix n 12 = v1" and "b64_ix n 6 = v2"
  using assms unfolding n_def by (simp_all add: b64_bits)

lemma quad_sextets1:
  fixes v0 v1 :: u8
  defines "n \<equiv> push_bit 16 (ucast (b64_out0 v0 v1))"
  assumes "sextet v0" "sextet v1" "v1 AND 0x0F = 0"
  shows "b64_ix n 18 = v0" and "b64_ix n 12 = v1"
  using assms unfolding n_def by (simp_all add: b64_bits)

lemma rev_lookup_b64_sym [simp]: "rev_lookup (b64_sym n k) = b64_ix n k"
  using rev_lookup_sym [of "unat (b64_ix n k)"] sextet_b64_ix [of n k]
  by (simp add: b64_sym_ix sextet_def)

lemma b64_sym_not_pad [simp]: "b64_sym n k \<noteq> CHR ''=''" "CHR ''='' \<noteq> b64_sym n k"
proof -
  have "b64_sym n k \<in> set kAlphabet"
    using sextet_b64_ix [of n k] kAlphabet_facts(1) by (simp add: b64_sym_ix sextet_def)
  then show "b64_sym n k \<noteq> CHR ''=''" "CHR ''='' \<noteq> b64_sym n k"
    using kAlphabet_facts(3) by auto
qed

lemma sextet_not_FF: "sextet v \<Longrightarrow> v \<noteq> 0xFF"
  by (auto simp: sextet_def)

lemma b64_ix_not_FF [simp]: "b64_ix n k \<noteq> 0xFF"
  by (intro sextet_not_FF sextet_b64_ix)

lemma base64_quad_complete:
  assumes "base64_quad l c0 c1 c2 c3 = Some out"
  shows "(\<forall>rest. base64_encode (out @ rest) = c0 # c1 # c2 # c3 # base64_encode rest) \<or>
         l \<and> base64_encode out = [c0, c1, c2, c3]"
proof -
  let ?v0 = "rev_lookup c0" and ?v1 = "rev_lookup c1" and ?v2 = "rev_lookup c2"
  let ?v3 = "rev_lookup c3"
  have hit: "sextet (rev_lookup c) \<and> kAlphabet ! unat (rev_lookup c) = c"
    if "rev_lookup c \<noteq> 0xFF" for c
    using rev_lookup_hit [OF that] by (simp add: sextet_def)
  have v01: "?v0 \<noteq> 0xFF" "?v1 \<noteq> 0xFF"
    using assms by (auto simp: base64_quad_def Let_def split: if_splits)
  consider "c2 = CHR ''=''" "c3 = CHR ''=''" "l" "?v1 AND 0x0F = 0" "out = [b64_out0 ?v0 ?v1]"
    | "c3 = CHR ''=''" "l" "?v2 \<noteq> 0xFF" "?v2 AND 0x03 = 0"
        "out = [b64_out0 ?v0 ?v1, b64_out1 ?v1 ?v2]"
    | "?v2 \<noteq> 0xFF" "?v3 \<noteq> 0xFF" "out = [b64_out0 ?v0 ?v1, b64_out1 ?v1 ?v2, b64_out2 ?v2 ?v3]"
    using assms by (auto simp: base64_quad_def Let_def split: if_splits)
  then show ?thesis
  proof cases
    case 1
    then show ?thesis
      using hit [OF v01(1)] hit [OF v01(2)] quad_sextets1 [of ?v0 ?v1]
      by (simp add: Let_def b64_sym_ix)
  next
    case 2
    then show ?thesis
      using hit [OF v01(1)] hit [OF v01(2)] hit [OF 2(3)] quad_sextets2 [of ?v0 ?v1 ?v2]
      by (simp add: Let_def b64_sym_ix)
  next
    case 3
    then show ?thesis
      using hit [OF v01(1)] hit [OF v01(2)] hit [OF 3(1)] hit [OF 3(2)]
        quad_sextets3 [of ?v0 ?v1 ?v2 ?v3]
      by (simp add: Let_def b64_sym_ix)
  qed
qed

lemma base64_quad_pad:
  "base64_quad l c0 c1 c2 c3 = Some out \<Longrightarrow> \<not> l \<Longrightarrow>
   base64_encode (out @ rest) = c0 # c1 # c2 # c3 # base64_encode rest"
  using base64_quad_complete by blast

lemma base64_loop_encode: "base64_loop (base64_encode b) = Some b"
proof (induction b rule: base64_encode.induct)
  case (2 a)
  then show ?case by (simp add: Let_def base64_quad_def quad_octets1)
next
  case (3 a b)
  then show ?case by (simp add: Let_def base64_quad_def quad_octets2)
next
  case (4 a b c rest)
  then show ?case by (simp add: Let_def base64_quad_def quad_octets3)
qed simp

lemma length_base64_encode: "length (base64_encode b) = 4 * ((length b + 2) div 3)"
proof (induction b rule: base64_encode.induct)
  case (4 a b c rest)
  have "(length rest + 2 + 3) div 3 = (length rest + 2) div 3 + 1" by (rule div_add_self2) simp
  then show ?case using 4 by (simp add: Let_def add.commute)
qed (simp_all add: Let_def)

lemma base64_loop_canonical:
  "length s mod 4 = 0 \<Longrightarrow> base64_loop s = Some b \<Longrightarrow> s = base64_encode b"
proof (induction s arbitrary: b rule: base64_loop.induct)
  case (1 c0 c1 c2 c3 rest)
  then obtain out b' where q: "base64_quad (rest = []) c0 c1 c2 c3 = Some out"
    and b': "base64_loop rest = Some b'" and b: "b = out @ b'"
    by (auto split: option.splits)
  have rest: "rest = base64_encode b'" using 1 q b' by simp
  show ?case
  proof (cases "rest = []")
    case True
    then show ?thesis
      using b' b base64_quad_complete [OF q] by (auto dest: spec [of _ "[]"])
  next
    case False
    then show ?thesis using base64_quad_pad [OF q, of b'] b rest by simp
  qed
qed auto

text \<open>
  C38: base64 is canonical. \<open>base64_decode\<close> accepts a string and yields octets \<open>b\<close> exactly when the
  string is \<open>base64_encode b\<close>: every encoding decodes to what was encoded, and padding in the middle,
  stray symbols, wrong lengths and non-zero dropped bits are all refused. The encoding of \<open>n\<close> octets
  has \<open>((n + 2) / 3) * 4\<close> symbols, the size the encoder reserves.
\<close>

theorem base64_canonical:
  "(base64_decode s = Some b \<longleftrightarrow> s = base64_encode b) \<and>
   length (base64_encode b) = ((length b + 2) div 3) * 4"
  using base64_loop_encode [of b] base64_loop_canonical [of s b] length_base64_encode [of b]
  by (auto simp: base64_decode_def)

end
