(* ===== verification/Zen_Json.thy ===== *)
theory Zen_Json
  imports Zen_Utf8
begin

text \<open>
  The hardened JSON reader and the string quoter of \<open>src/detail/json.hpp\<close> and
  \<open>src/detail/json.cpp\<close>. The parser's cursor \<open>i_\<close> into \<open>s_\<close> is the unread suffix; a member function
  that returns \<open>false\<close> after setting \<open>err_\<close> is the left summand holding that text. \<open>parse_value\<close>,
  the object loop and the array loop call each other on what the inner call left unread, so they
  carry fuel (one unit per call, \<open>None\<close> when it runs out); \<open>parse_json\<close> starts with two units per
  input octet and two more, which is shown to be always enough.
\<close>

section \<open>Data\<close>

datatype json =
    JNull
  | JBool bool
  | JNumber string
  | JString string
  | JArray "json list"
  | JObject "(string \<times> json) list"

fun json_lookup :: "(string \<times> json) list \<Rightarrow> string \<Rightarrow> json option" where
  "json_lookup [] key = None"
| "json_lookup ((k, v) # ms) key = (if k = key then Some v else json_lookup ms key)"

fun json_members :: "json \<Rightarrow> (string \<times> json) list" where
  "json_members (JObject ms) = ms"
| "json_members _ = []"

fun json_items :: "json \<Rightarrow> json list" where
  "json_items (JArray xs) = xs"
| "json_items _ = []"

definition json_find :: "json \<Rightarrow> string \<Rightarrow> json option" where
  "json_find j key = json_lookup (json_members j) key"

type_synonym 'a parsed = "string + 'a \<times> string"

section \<open>Lexical level\<close>

abbreviation quote_ch :: char where "quote_ch \<equiv> CHR 0x22"
abbreviation bslash_ch :: char where "bslash_ch \<equiv> CHR 0x5C"

definition peek :: "string \<Rightarrow> char" where
  "peek s = (case s of [] \<Rightarrow> CHR 0x00 | c # _ \<Rightarrow> c)"

definition is_ws :: "char \<Rightarrow> bool" where
  "is_ws c \<longleftrightarrow> c = CHR 0x20 \<or> c = CHR 0x09 \<or> c = CHR 0x0A \<or> c = CHR 0x0D"

definition skip_ws :: "string \<Rightarrow> string" where
  "skip_ws s = dropWhile is_ws s"

definition is_digit :: "char \<Rightarrow> bool" where
  "is_digit c \<longleftrightarrow> 48 \<le> unat (byte_of c) \<and> unat (byte_of c) \<le> 57"

definition hex_digit :: "char \<Rightarrow> u32 option" where
  "hex_digit c =
     (let n = unat (byte_of c) in
      if 48 \<le> n \<and> n \<le> 57 then Some (word_of_nat (n - 48))
      else if 97 \<le> n \<and> n \<le> 102 then Some (word_of_nat (n - 97 + 10))
      else if 65 \<le> n \<and> n \<le> 70 then Some (word_of_nat (n - 65 + 10))
      else None)"

fun hex_loop :: "nat \<Rightarrow> u32 \<Rightarrow> string \<Rightarrow> u32 option" where
  "hex_loop 0 cp s = Some cp"
| "hex_loop (Suc k) cp [] = None"
| "hex_loop (Suc k) cp (c # s) =
     (case hex_digit c of None \<Rightarrow> None | Some d \<Rightarrow> hex_loop k (push_bit 4 cp OR d) s)"

definition parse_hex4 :: "string \<Rightarrow> u32 parsed" where
  "parse_hex4 s =
     (if length s < 4 then Inl (''truncated '' @ [bslash_ch] @ ''u escape'')
      else case hex_loop 4 0 s of
             None \<Rightarrow> Inl (''invalid '' @ [bslash_ch] @ ''u escape'')
           | Some cp \<Rightarrow> Inr (cp, drop 4 s))"

text \<open>The \<open>case 'u'\<close> of the escape switch, surrogate pairs included: the bytes it appends.\<close>

definition parse_unicode :: "string \<Rightarrow> string parsed" where
  "parse_unicode s =
     (case parse_hex4 s of
        Inl e \<Rightarrow> Inl e
      | Inr (cp, r) \<Rightarrow>
          if cp \<ge> 0xD800 \<and> cp \<le> 0xDBFF then
            (if length r < 2 \<or> r ! 0 \<noteq> bslash_ch \<or> r ! 1 \<noteq> CHR ''u''
             then Inl ''unpaired high surrogate''
             else case parse_hex4 (drop 2 r) of
                    Inl e \<Rightarrow> Inl e
                  | Inr (lo, r') \<Rightarrow>
                      if lo < 0xDC00 \<or> lo > 0xDFFF then Inl ''invalid low surrogate''
                      else Inr (encode_utf8 (0x10000 + push_bit 10 (cp - 0xD800) + (lo - 0xDC00)), r'))
          else if cp \<ge> 0xDC00 \<and> cp \<le> 0xDFFF then Inl ''unexpected low surrogate''
          else Inr (encode_utf8 cp, r))"

text \<open>The whole escape switch: the bytes appended and what follows.\<close>

definition parse_escape :: "char \<Rightarrow> string \<Rightarrow> string parsed" where
  "parse_escape e r =
     (if e = quote_ch then Inr ([quote_ch], r)
      else if e = bslash_ch then Inr ([bslash_ch], r)
      else if e = CHR ''/'' then Inr (''/'', r)
      else if e = CHR ''b'' then Inr ([CHR 0x08], r)
      else if e = CHR ''f'' then Inr ([CHR 0x0C], r)
      else if e = CHR ''n'' then Inr ([CHR 0x0A], r)
      else if e = CHR ''r'' then Inr ([CHR 0x0D], r)
      else if e = CHR ''t'' then Inr ([CHR 0x09], r)
      else if e = CHR ''u'' then parse_unicode r
      else Inl ''invalid escape'')"

lemma parse_hex4_shorter: "parse_hex4 s = Inr (cp, r) \<Longrightarrow> length r < length s"
  by (auto simp: parse_hex4_def split: if_splits option.splits)

lemma parse_unicode_shorter: "parse_unicode s = Inr (bs, r) \<Longrightarrow> length r < length s"
  by (auto simp: parse_unicode_def split: if_splits sum.splits dest!: parse_hex4_shorter)

lemma parse_escape_shorter: "parse_escape e r = Inr (bs, r') \<Longrightarrow> length r' \<le> length r"
  by (auto simp: parse_escape_def split: if_splits dest: parse_unicode_shorter)

text \<open>The loop of \<open>parse_string\<close>, after the opening quote; \<open>out\<close> is the text so far.\<close>

function parse_string_loop :: "string \<Rightarrow> string \<Rightarrow> string parsed" where
  "parse_string_loop s out =
     (case s of
        [] \<Rightarrow> Inl ''unterminated string''
      | c # r \<Rightarrow>
          if c = quote_ch then Inr (out, r)
          else if c = bslash_ch then
            (case r of
               [] \<Rightarrow> Inl ''unterminated escape''
             | e # r' \<Rightarrow>
                 (case parse_escape e r' of
                    Inl err \<Rightarrow> Inl err
                  | Inr (bs, r'') \<Rightarrow> parse_string_loop r'' (out @ bs)))
          else if byte_of c < 0x20 then Inl ''control character in string''
          else parse_string_loop r (out @ [c]))"
  by pat_completeness auto
termination
  by (relation "measure (\<lambda>(s, out). length s)") (auto dest: parse_escape_shorter)

declare parse_string_loop.simps [simp del]

definition parse_string :: "string \<Rightarrow> string parsed" where
  "parse_string s = parse_string_loop (tl s) []"

section \<open>Numbers and literals\<close>

text \<open>Each phase returns what is left; the token is what all phases consumed.\<close>

definition number_int :: "string \<Rightarrow> string + string" where
  "number_int s =
     (case s of
        [] \<Rightarrow> Inl ''malformed number''
      | c # r \<Rightarrow>
          if c = CHR ''0'' then Inr r
          else if is_digit c then Inr (dropWhile is_digit s)
          else Inl ''malformed number'')"

definition number_frac :: "string \<Rightarrow> string + string" where
  "number_frac s =
     (case s of
        [] \<Rightarrow> Inr s
      | c # r \<Rightarrow>
          if c \<noteq> CHR ''.'' then Inr s
          else if r = [] \<or> \<not> is_digit (hd r) then Inl ''malformed fraction''
          else Inr (dropWhile is_digit r))"

definition number_exp :: "string \<Rightarrow> string + string" where
  "number_exp s =
     (case s of
        [] \<Rightarrow> Inr s
      | c # r \<Rightarrow>
          if c \<noteq> CHR ''e'' \<and> c \<noteq> CHR ''E'' then Inr s
          else
            let r' = (if r \<noteq> [] \<and> (hd r = CHR ''+'' \<or> hd r = CHR ''-'') then tl r else r) in
            if r' = [] \<or> \<not> is_digit (hd r') then Inl ''malformed exponent''
            else Inr (dropWhile is_digit r'))"

definition parse_number :: "string \<Rightarrow> json parsed" where
  "parse_number s =
     (case number_int (if peek s = CHR ''-'' then tl s else s) of
        Inl e \<Rightarrow> Inl e
      | Inr s1 \<Rightarrow>
          (case number_frac s1 of
             Inl e \<Rightarrow> Inl e
           | Inr s2 \<Rightarrow>
               (case number_exp s2 of
                  Inl e \<Rightarrow> Inl e
                | Inr s3 \<Rightarrow> Inr (JNumber (take (length s - length s3) s), s3))))"

definition match_literal :: "string \<Rightarrow> json \<Rightarrow> string \<Rightarrow> json parsed" where
  "match_literal lit v s =
     (if take (length lit) s \<noteq> lit then Inl ''invalid literal'' else Inr (v, drop (length lit) s))"

definition parse_bool :: "string \<Rightarrow> json parsed" where
  "parse_bool s =
     (if peek s = CHR ''t'' then match_literal ''true'' (JBool True) s
      else match_literal ''false'' (JBool False) s)"

definition parse_null :: "string \<Rightarrow> json parsed" where
  "parse_null s = match_literal ''null'' JNull s"

section \<open>Values\<close>

definition json_enter :: "nat \<Rightarrow> nat \<Rightarrow> bool" where
  "json_enter max_depth depth \<longleftrightarrow> \<not> depth + 1 > max_depth"

text \<open>The branches of \<open>parse_value\<close> that do not recurse.\<close>

definition parse_scalar :: "string \<Rightarrow> json parsed" where
  "parse_scalar s =
     (let c = peek s in
      if c = quote_ch then
        (case parse_string s of Inl e \<Rightarrow> Inl e | Inr (t, r) \<Rightarrow> Inr (JString t, r))
      else if c = CHR ''t'' \<or> c = CHR ''f'' then parse_bool s
      else if c = CHR ''n'' then parse_null s
      else if c = CHR ''-'' \<or> is_digit c then parse_number s
      else Inl ''unexpected character'')"

text \<open>One round of the object loop up to and including the colon: the key and what follows.\<close>

definition parse_key :: "(string \<times> json) list \<Rightarrow> string \<Rightarrow> string parsed" where
  "parse_key ms s =
     (let s1 = skip_ws s in
      if peek s1 \<noteq> quote_ch then Inl ''expected string key in object''
      else
        case parse_string s1 of
          Inl e \<Rightarrow> Inl e
        | Inr (key, s2) \<Rightarrow>
            if key \<in> fst ` set ms then Inl ''duplicate object key''
            else if peek (skip_ws s2) \<noteq> CHR '':''
            then Inl (''expected '' @ [CHR 39] @ '':'' @ [CHR 39] @ '' in object'')
            else Inr (key, tl (skip_ws s2)))"

text \<open>After a member or an item: a comma (\<open>True\<close>) or the closing character (\<open>False\<close>).\<close>

definition parse_sep :: "char \<Rightarrow> string \<Rightarrow> string \<Rightarrow> bool parsed" where
  "parse_sep close what s =
     (let r = skip_ws s in
      if peek r = CHR '','' then Inr (True, tl r)
      else if peek r = close then Inr (False, tl r)
      else Inl (''expected '' @ [CHR 39] @ '','' @ [CHR 39] @ '' or '' @ [CHR 39, close, CHR 39] @ what))"

function (sequential) parse_value :: "nat \<Rightarrow> nat \<Rightarrow> nat \<Rightarrow> string \<Rightarrow> json parsed option"
and parse_members ::
  "nat \<Rightarrow> nat \<Rightarrow> nat \<Rightarrow> (string \<times> json) list \<Rightarrow> string \<Rightarrow> json parsed option"
and parse_items :: "nat \<Rightarrow> nat \<Rightarrow> nat \<Rightarrow> json list \<Rightarrow> string \<Rightarrow> json parsed option" where
  "parse_value 0 md depth s0 = None"
| "parse_value (Suc n) md depth s0 =
     (let s = skip_ws s0 in
      if s = [] then Some (Inl ''unexpected end of input'')
      else if peek s = CHR ''{'' then
        (if \<not> json_enter md depth then Some (Inl ''maximum nesting depth exceeded'')
         else
           let r = skip_ws (tl s) in
           if peek r = CHR ''}'' then Some (Inr (JObject [], tl r))
           else parse_members n md depth [] r)
      else if peek s = CHR ''['' then
        (if \<not> json_enter md depth then Some (Inl ''maximum nesting depth exceeded'')
         else
           let r = skip_ws (tl s) in
           if peek r = CHR '']'' then Some (Inr (JArray [], tl r))
           else parse_items n md depth [] r)
      else Some (parse_scalar s))"
| "parse_members 0 md depth ms s = None"
| "parse_members (Suc n) md depth ms s =
     (case parse_key ms s of
        Inl e \<Rightarrow> Some (Inl e)
      | Inr (key, s1) \<Rightarrow>
          (case parse_value n md (depth + 1) s1 of
             None \<Rightarrow> None
           | Some (Inl e) \<Rightarrow> Some (Inl e)
           | Some (Inr (v, s2)) \<Rightarrow>
               (case parse_sep (CHR ''}'') '' in object'' s2 of
                  Inl e \<Rightarrow> Some (Inl e)
                | Inr (more, s3) \<Rightarrow>
                    if more then parse_members n md depth (ms @ [(key, v)]) s3
                    else Some (Inr (JObject (ms @ [(key, v)]), s3)))))"
| "parse_items 0 md depth xs s = None"
| "parse_items (Suc n) md depth xs s =
     (case parse_value n md (depth + 1) s of
        None \<Rightarrow> None
      | Some (Inl e) \<Rightarrow> Some (Inl e)
      | Some (Inr (v, s1)) \<Rightarrow>
          (case parse_sep (CHR '']'') '' in array'' s1 of
             Inl e \<Rightarrow> Some (Inl e)
           | Inr (more, s2) \<Rightarrow>
               if more then parse_items n md depth (xs @ [v]) s2
               else Some (Inr (JArray (xs @ [v]), s2))))"
  by pat_completeness auto
termination
  by (relation "measure (\<lambda>x. case x of
        Inl (n, md, depth, s) \<Rightarrow> n
      | Inr (Inl (n, md, depth, ms, s)) \<Rightarrow> n
      | Inr (Inr (n, md, depth, xs, s)) \<Rightarrow> n)") auto

text \<open>\<open>JsonParse\<close>: the tree, or the human reason.\<close>

definition parse_json_fuel :: "nat \<Rightarrow> nat \<Rightarrow> string \<Rightarrow> (string + json) option" where
  "parse_json_fuel n md s =
     (case parse_value n md 0 (skip_ws s) of
        None \<Rightarrow> None
      | Some (Inl e) \<Rightarrow> Some (Inl (if e = [] then ''malformed JSON'' else e))
      | Some (Inr (v, r)) \<Rightarrow>
          if skip_ws r \<noteq> [] then Some (Inl ''trailing characters after JSON value'')
          else Some (Inr v))"

definition kJsonMaxDepth :: nat where "kJsonMaxDepth = 64"

definition parse_json :: "string \<Rightarrow> (string + json) option" where
  "parse_json s = parse_json_fuel (2 * length s + 2) kJsonMaxDepth s"

section \<open>Quoting\<close>

definition kHex :: string where "kHex = ''0123456789abcdef''"

definition quote_char :: "char \<Rightarrow> string" where
  "quote_char ch =
     (let c = byte_of ch in
      if ch = quote_ch then [bslash_ch, quote_ch]
      else if ch = bslash_ch then [bslash_ch, bslash_ch]
      else if ch = CHR 0x08 then [bslash_ch, CHR ''b'']
      else if ch = CHR 0x0C then [bslash_ch, CHR ''f'']
      else if ch = CHR 0x0A then [bslash_ch, CHR ''n'']
      else if ch = CHR 0x0D then [bslash_ch, CHR ''r'']
      else if ch = CHR 0x09 then [bslash_ch, CHR ''t'']
      else if c < 0x20 then
        [bslash_ch] @ ''u00'' @ [kHex ! unat (drop_bit 4 c AND 0xF), kHex ! unat (c AND 0xF)]
      else [ch])"

definition json_quote :: "string \<Rightarrow> string \<Rightarrow> string" where
  "json_quote s out = fold (\<lambda>ch out. out @ quote_char ch) s (out @ [quote_ch]) @ [quote_ch]"

section \<open>Every call consumes input\<close>

lemma length_skip_ws: "length (skip_ws s) \<le> length s"
  by (simp add: skip_ws_def length_dropWhile_le)

lemma peek_nonempty: "peek s \<noteq> CHR 0x00 \<Longrightarrow> s \<noteq> []"
  by (auto simp: peek_def)

lemma parse_string_loop_Nil [simp]: "parse_string_loop [] out = Inl ''unterminated string''"
  by (simp add: parse_string_loop.simps)

lemma parse_string_loop_Cons:
  "parse_string_loop (c # r) out =
     (if c = quote_ch then Inr (out, r)
      else if c = bslash_ch then
        (case r of
           [] \<Rightarrow> Inl ''unterminated escape''
         | e # r' \<Rightarrow>
             (case parse_escape e r' of
                Inl err \<Rightarrow> Inl err
              | Inr (bs, r'') \<Rightarrow> parse_string_loop r'' (out @ bs)))
      else if byte_of c < 0x20 then Inl ''control character in string''
      else parse_string_loop r (out @ [c]))"
  by (subst parse_string_loop.simps) simp

lemma parse_string_loop_shorter: "parse_string_loop s out = Inr (t, r) \<Longrightarrow> length r < length s"
proof (induction "length s" arbitrary: s out rule: less_induct)
  case less
  have IH: "length s' < length s \<Longrightarrow> parse_string_loop s' out' = Inr (t, r) \<Longrightarrow> length r < length s"
    for s' out' using less.hyps [of s'] by fastforce
  from less.prems obtain c q where s: "s = c # q" by (cases s) auto
  then show ?case
    using less.prems IH
    by (auto simp: parse_string_loop_Cons split: if_splits list.splits sum.splits
        dest!: parse_escape_shorter)
       (metis le_imp_less_Suc less_SucI)
qed

lemma parse_string_shorter: "s \<noteq> [] \<Longrightarrow> parse_string s = Inr (t, r) \<Longrightarrow> length r < length s"
  by (cases s) (auto simp: parse_string_def dest: parse_string_loop_shorter)

lemma parse_key_shorter:
  assumes "parse_key ms s = Inr (key, r)"
  shows "length r < length s \<and> key \<notin> fst ` set ms"
proof -
  obtain s2 where s2: "peek (skip_ws s) = quote_ch" "parse_string (skip_ws s) = Inr (key, s2)"
      "key \<notin> fst ` set ms" "r = tl (skip_ws s2)"
    using assms by (auto simp: parse_key_def Let_def split: if_splits sum.splits)
  then have "length s2 < length (skip_ws s)"
    using peek_nonempty [of "skip_ws s"] by (intro parse_string_shorter) auto
  then show ?thesis
    using s2(3,4) length_skip_ws [of s] length_skip_ws [of s2] by auto
qed

lemma parse_sep_shorter:
  "parse_sep close what s = Inr (more, r) \<Longrightarrow> close \<noteq> CHR 0x00 \<Longrightarrow> length r < length s"
  using length_skip_ws [of s] peek_nonempty [of "skip_ws s"]
  by (cases "skip_ws s") (auto simp: parse_sep_def Let_def split: if_splits)

lemma number_phases_shorter:
  "number_int s = Inr r \<Longrightarrow> length r \<le> length s"
  "number_frac s = Inr r \<Longrightarrow> length r \<le> length s"
  "number_exp s = Inr r \<Longrightarrow> length r \<le> length s"
proof -
  show "number_int s = Inr r \<Longrightarrow> length r \<le> length s"
    using length_dropWhile_le [of is_digit s]
    by (auto simp: number_int_def split: list.splits if_splits)
  show "number_frac s = Inr r \<Longrightarrow> length r \<le> length s"
    using length_dropWhile_le [of is_digit "tl s"]
    by (auto simp: number_frac_def split: list.splits if_splits)
  show "number_exp s = Inr r \<Longrightarrow> length r \<le> length s"
    using length_dropWhile_le [of is_digit "tl s"] length_dropWhile_le [of is_digit "tl (tl s)"]
    by (auto simp: number_exp_def Let_def split: list.splits if_splits)
qed

lemma parse_number_shorter: "parse_number s = Inr (v, r) \<Longrightarrow> length r \<le> length s"
  by (auto simp: parse_number_def split: sum.splits if_splits dest!: number_phases_shorter)

lemma parse_scalar_shorter: "parse_scalar s = Inr (v, r) \<Longrightarrow> length r \<le> length s"
  using parse_string_shorter [of s] parse_number_shorter [of s v r] peek_nonempty [of s]
  by (fastforce simp: parse_scalar_def parse_bool_def parse_null_def match_literal_def Let_def
      split: if_splits sum.splits)

lemma parse_shorter:
  shows "parse_value n md depth s = Some (Inr (v, r)) \<Longrightarrow> length r \<le> length s"
    and "parse_members n md depth ms s = Some (Inr (v, r)) \<Longrightarrow> length r \<le> length s"
    and "parse_items n md depth xs s = Some (Inr (v, r)) \<Longrightarrow> length r \<le> length s"
proof (induction n md depth s and n md depth ms s and n md depth xs s arbitrary: v r and v r and v r
    rule: parse_value_parse_members_parse_items.induct)
  case (2 n md depth s0)
  have "length (skip_ws (tl (skip_ws s0))) \<le> length s0" "length (tl (skip_ws (tl (skip_ws s0)))) \<le> length s0"
    using length_skip_ws [of s0] length_skip_ws [of "tl (skip_ws s0)"] by auto
  moreover have "length r \<le> length s0" if "parse_scalar (skip_ws s0) = Inr (v, r)"
    using parse_scalar_shorter [OF that] length_skip_ws [of s0] by simp
  ultimately show ?case
    using 2 by (auto simp: Let_def split: if_splits) (metis le_trans)+
next
  case (4 n md depth ms s)
  obtain key s1 v2 s2 more s3 where
    steps: "parse_key ms s = Inr (key, s1)" "parse_value n md (depth + 1) s1 = Some (Inr (v2, s2))"
      "parse_sep (CHR ''}'') '' in object'' s2 = Inr (more, s3)"
    using "4.prems" by (auto split: sum.splits option.splits)
  have "length s1 < length s" "length s2 \<le> length s1" "length s3 < length s2"
    using parse_key_shorter [OF steps(1)] "4.IH"(1) [OF steps(1) refl steps(2)]
      parse_sep_shorter [OF steps(3)] by auto
  then show ?case
    using "4.prems" "4.IH"(2) [OF steps(1) refl steps(2) refl refl steps(3) refl] steps
    by (cases more) auto
next
  case (6 n md depth xs s)
  obtain v2 s1 more s2 where
    steps: "parse_value n md (depth + 1) s = Some (Inr (v2, s1))"
      "parse_sep (CHR '']'') '' in array'' s1 = Inr (more, s2)"
    using "6.prems" by (auto split: sum.splits option.splits)
  have "length s1 \<le> length s" "length s2 < length s1"
    using "6.IH"(1) [OF steps(1)] parse_sep_shorter [OF steps(2)] by auto
  then show ?case
    using "6.prems" "6.IH"(2) [OF steps(1) refl refl steps(2) refl] steps
    by (cases more) auto
qed auto

section \<open>The fuel is enough\<close>

lemma parse_enough_fuel:
  shows "2 * length s + 1 \<le> n \<Longrightarrow> parse_value n md depth s \<noteq> None"
    and "2 * length s + 1 \<le> n \<Longrightarrow> parse_members n md depth ms s \<noteq> None"
    and "2 * length s + 2 \<le> n \<Longrightarrow> parse_items n md depth xs s \<noteq> None"
proof (induction n md depth s and n md depth ms s and n md depth xs s
    rule: parse_value_parse_members_parse_items.induct)
  case (2 n md depth s0)
  have "2 * length (skip_ws (tl (skip_ws s0))) + 2 \<le> n" if "skip_ws s0 \<noteq> []"
    using that "2.prems" length_skip_ws [of s0] length_skip_ws [of "tl (skip_ws s0)"]
    by (cases "skip_ws s0") auto
  with 2 show ?case by (auto simp: Let_def)
next
  case (4 n md depth ms s)
  show ?case
  proof (cases "parse_key ms s")
    case (Inr p)
    obtain key s1 where p: "p = (key, s1)" by (cases p)
    have len: "length s1 < length s" using parse_key_shorter Inr p by blast
    then have "parse_value n md (depth + 1) s1 \<noteq> None"
      using "4.IH"(1) [OF Inr p [symmetric]] "4.prems" by simp
    then obtain res where res: "parse_value n md (depth + 1) s1 = Some res" by blast
    show ?thesis
    proof (cases res)
      case (Inr q)
      obtain v s2 where q: "q = (v, s2)" by (cases q)
      have len2: "length s2 \<le> length s1" using parse_shorter(1) res Inr q by blast
      show ?thesis
      proof (cases "parse_sep (CHR ''}'') '' in object'' s2")
        case (Inr w)
        obtain more s3 where w: "w = (more, s3)" by (cases w)
        have "length s3 < length s2" using parse_sep_shorter Inr w by fastforce
        then have "more \<Longrightarrow> parse_members n md depth (ms @ [(key, v)]) s3 \<noteq> None"
          using "4.IH"(2) [OF \<open>parse_key ms s = Inr p\<close> p [symmetric] res \<open>res = Inr q\<close>
              q [symmetric] Inr w [symmetric]] "4.prems" len len2 by simp
        then show ?thesis using \<open>parse_key ms s = Inr p\<close> p res \<open>res = Inr q\<close> q Inr w by simp
      qed (insert res, simp add: \<open>parse_key ms s = Inr p\<close> p \<open>res = Inr q\<close> q)
    qed (insert res, simp add: Inr p)
  qed simp
next
  case (6 n md depth xs s)
  have "parse_value n md (depth + 1) s \<noteq> None" using "6.IH"(1) "6.prems" by simp
  then obtain res where res: "parse_value n md (depth + 1) s = Some res" by blast
  show ?case
  proof (cases res)
    case (Inr q)
    obtain v s1 where q: "q = (v, s1)" by (cases q)
    have len: "length s1 \<le> length s" using parse_shorter(1) res Inr q by blast
    show ?thesis
    proof (cases "parse_sep (CHR '']'') '' in array'' s1")
      case (Inr w)
      obtain more s2 where w: "w = (more, s2)" by (cases w)
      have "length s2 < length s1" using parse_sep_shorter Inr w by fastforce
      then have "more \<Longrightarrow> parse_items n md depth (xs @ [v]) s2 \<noteq> None"
        using "6.IH"(2) [OF res \<open>res = Inr q\<close> q [symmetric] Inr w [symmetric]] "6.prems" len by simp
      then show ?thesis using res \<open>res = Inr q\<close> q Inr w by simp
    qed (insert res, simp add: \<open>res = Inr q\<close> q)
  qed (insert res, simp)
qed auto

section \<open>What a parsed tree looks like\<close>

text \<open>Nesting within a budget of \<open>k\<close> levels, and no duplicate keys anywhere.\<close>

fun json_fits :: "nat \<Rightarrow> json \<Rightarrow> bool" where
  "json_fits k (JArray xs) = (0 < k \<and> (\<forall>x \<in> set xs. json_fits (k - 1) x))"
| "json_fits k (JObject ms) =
     (0 < k \<and> distinct (map fst ms) \<and> (\<forall>p \<in> set ms. json_fits (k - 1) (snd p)))"
| "json_fits k _ = True"

lemma parse_scalar_fits: "parse_scalar s = Inr (v, r) \<Longrightarrow> json_fits k v"
  by (auto simp: parse_scalar_def parse_bool_def parse_null_def parse_number_def match_literal_def
      Let_def split: if_splits sum.splits)

lemma parse_fits:
  shows "parse_value n md depth s = Some (Inr (v, r)) \<Longrightarrow> json_fits (md - depth) v"
    and "parse_members n md depth ms s = Some (Inr (v, r)) \<Longrightarrow> depth < md \<Longrightarrow>
      json_fits (md - depth) (JObject ms) \<Longrightarrow> json_fits (md - depth) v"
    and "parse_items n md depth xs s = Some (Inr (v, r)) \<Longrightarrow> depth < md \<Longrightarrow>
      json_fits (md - depth) (JArray xs) \<Longrightarrow> json_fits (md - depth) v"
proof (induction n md depth s and n md depth ms s and n md depth xs s arbitrary: v r and v r and v r
    rule: parse_value_parse_members_parse_items.induct)
  case (2 n md depth s0)
  then show ?case
    by (auto simp: Let_def json_enter_def parse_scalar_fits split: if_splits)
next
  case (4 n md depth ms s)
  obtain key s1 v2 s2 more s3 where
    steps: "parse_key ms s = Inr (key, s1)" "parse_value n md (depth + 1) s1 = Some (Inr (v2, s2))"
      "parse_sep (CHR ''}'') '' in object'' s2 = Inr (more, s3)"
    using "4.prems"(1) by (auto split: sum.splits option.splits)
  have "json_fits (md - depth) (JObject (ms @ [(key, v2)]))"
    using "4.prems"(2,3) "4.IH"(1) [OF steps(1) refl steps(2)] parse_key_shorter [OF steps(1)]
    by auto
  then show ?case
    using "4.prems" "4.IH"(2) [OF steps(1) refl steps(2) refl refl steps(3) refl] steps
    by (cases more) auto
next
  case (6 n md depth xs s)
  obtain v2 s1 more s2 where
    steps: "parse_value n md (depth + 1) s = Some (Inr (v2, s1))"
      "parse_sep (CHR '']'') '' in array'' s1 = Inr (more, s2)"
    using "6.prems"(1) by (auto split: sum.splits option.splits)
  have "json_fits (md - depth) (JArray (xs @ [v2]))"
    using "6.prems"(2,3) "6.IH"(1) [OF steps(1)] by auto
  then show ?case
    using "6.prems" "6.IH"(2) [OF steps(1) refl refl steps(2) refl] steps
    by (cases more) auto
qed auto

declare parse_value.simps [simp del]

text \<open>
  C35: the JSON reader is total and safe on every input. Whatever the bytes, \<open>parse_json\<close> returns a
  tree or a non-empty reason (the recursion never runs past the input: the fuel is never
  exhausted); a returned tree nests at most 64 levels deep and no object in it has two members of
  the same name.
\<close>

theorem parse_json_total:
  "\<exists>res. parse_json s = Some res \<and>
     (case res of Inl why \<Rightarrow> why \<noteq> [] | Inr v \<Rightarrow> json_fits 64 v)"
proof -
  have "2 * length (skip_ws s) + 1 \<le> 2 * length s + 2" using length_skip_ws [of s] by simp
  then obtain res where res: "parse_value (2 * length s + 2) 64 0 (skip_ws s) = Some res"
    using parse_enough_fuel(1) by blast
  show ?thesis
  proof (cases res)
    case (Inl e)
    then show ?thesis using res by (simp add: parse_json_def parse_json_fuel_def kJsonMaxDepth_def)
  next
    case (Inr p)
    obtain v r where "p = (v, r)" by (cases p)
    then show ?thesis
      using res Inr parse_fits(1) [of _ 64 0 "skip_ws s" v r]
      by (auto simp: parse_json_def parse_json_fuel_def kJsonMaxDepth_def)
  qed
qed

section \<open>Quoting round trip\<close>

lemma json_quote_append: "json_quote s out = out @ [quote_ch] @ concat (map quote_char s) @ [quote_ch]"
proof -
  have "fold (\<lambda>ch out. out @ quote_char ch) s acc = acc @ concat (map quote_char s)" for acc
    by (induction s arbitrary: acc) simp_all
  then show ?thesis by (simp add: json_quote_def)
qed

text \<open>The 32 control octets, escaped and read back.\<close>

lemma hex_digits: "list_all (\<lambda>k. hex_digit (kHex ! k) = Some (word_of_nat k)) [0..<16]"
  by code_simp

lemma hex_loop_append: "k \<le> length xs \<Longrightarrow> hex_loop k cp (xs @ r) = hex_loop k cp xs"
proof (induction k arbitrary: cp xs)
  case (Suc k)
  then show ?case by (cases xs) (auto split: option.split)
qed simp

lemma parse_unicode_append:
  assumes "parse_unicode [a, b, c, d] = Inr (bs, [])"
  shows "parse_unicode (a # b # c # d # r) = Inr (bs, r)"
proof -
  have drop_4: "drop 4 (a # b # c # d # r) = r" for r by (simp add: eval_nat_numeral)
  have h: "parse_hex4 (a # b # c # d # r) =
      (case hex_loop 4 0 [a, b, c, d] of
         None \<Rightarrow> Inl (''invalid '' @ [bslash_ch] @ ''u escape'') | Some cp \<Rightarrow> Inr (cp, r))" for r
    using hex_loop_append [of 4 "[a, b, c, d]" 0 r] unfolding parse_hex4_def drop_4
    by simp
  show ?thesis
    using assms by (auto simp: parse_unicode_def h split: option.splits if_splits)
qed

lemma hex_digit_kHex: "unat w < 16 \<Longrightarrow> hex_digit (kHex ! unat (w :: u8)) = Some (ucast w)"
  using bspec [OF hex_digits [unfolded list_all_iff], of "unat w"] by simp

lemma control_escape:
  assumes "byte_of ch < 0x20"
  shows "parse_unicode (''00'' @ [kHex ! unat (drop_bit 4 (byte_of ch) AND 0xF),
      kHex ! unat (byte_of ch AND 0xF)] @ r) = Inr ([ch], r)"
proof -
  let ?c = "byte_of ch"
  have small: "unat ?c < 32" using assms by (simp add: word_less_nat_alt)
  have low: "unat (w AND 0xF) < 16" for w :: u8 by (simp add: unat_and_low)
  have zero: "hex_digit (CHR ''0'') = Some 0" by (simp add: hex_digit_def byte_of_def)
  have val: "push_bit 4 (ucast (drop_bit 4 ?c AND 0xF)) OR ucast (?c AND 0xF) = (ucast ?c :: u32)"
  proof -
    have m: "(0xF :: u8) = mask 4" by (simp add: mask_eq_exp_minus_1)
    have hi: "bit ?c n \<Longrightarrow> n < 8" for n using bit_imp_le_length [of ?c n] by simp
    show ?thesis
      unfolding m
    proof (rule bit_word_eqI)
      fix n
      show "bit (push_bit 4 (ucast (drop_bit 4 ?c AND mask 4)) OR ucast (?c AND mask 4) :: u32) n =
          bit (ucast ?c :: u32) n" if "n < LENGTH(32)"
        using hi [of n] that by (cases "n < 4"; cases "n < 8") (auto simp: bit_simps)
    qed
  qed
  have cp: "(ucast (ucast ?c :: u32) :: u8) = ?c" by (rule unat_eqI) (simp add: unat_ucast_u8)
  have "hex_loop 4 0 (''00'' @ [kHex ! unat (drop_bit 4 ?c AND 0xF), kHex ! unat (?c AND 0xF)]) =
      Some (ucast ?c)"
    using val by (simp add: eval_nat_numeral zero hex_digit_kHex [OF low] del: push_bit_eq_mult)
  then have "parse_unicode (''00'' @ [kHex ! unat (drop_bit 4 ?c AND 0xF), kHex ! unat (?c AND 0xF)]) =
      Inr ([ch], [])"
    using small
    by (simp add: parse_unicode_def parse_hex4_def encode_utf8_def word_le_nat_alt cp)
  then show ?thesis unfolding append.simps by (rule parse_unicode_append)
qed

lemma parse_quoted_char:
  "parse_string_loop (quote_char ch @ r) out = parse_string_loop r (out @ [ch])"
proof (cases "byte_of ch < 0x20 \<and> ch \<noteq> CHR 0x08 \<and> ch \<noteq> CHR 0x0C \<and> ch \<noteq> CHR 0x0A \<and>
    ch \<noteq> CHR 0x0D \<and> ch \<noteq> CHR 0x09 \<and> ch \<noteq> quote_ch \<and> ch \<noteq> bslash_ch")
  case True
  then have "quote_char ch = [bslash_ch] @ ''u00'' @
      [kHex ! unat (drop_bit 4 (byte_of ch) AND 0xF), kHex ! unat (byte_of ch AND 0xF)]"
    by (simp add: quote_char_def Let_def)
  moreover have "parse_escape (CHR ''u'') (''00'' @ [kHex ! unat (drop_bit 4 (byte_of ch) AND 0xF),
      kHex ! unat (byte_of ch AND 0xF)] @ r) = Inr ([ch], r)"
    using control_escape [of ch r] True by (simp add: parse_escape_def)
  ultimately show ?thesis by (simp add: parse_string_loop_Cons)
next
  case False
  then show ?thesis
    by (auto simp: quote_char_def Let_def parse_string_loop_Cons parse_escape_def)
qed

text \<open>
  Quoting loses nothing. For every byte string, also one that is not UTF-8 or holds control
  octets, quotes or backslashes, reading what \<open>json_quote\<close> wrote gives the string back and stops
  exactly after the closing quote.
\<close>

theorem json_quote_roundtrip: "parse_string (json_quote s [] @ rest) = Inr (s, rest)"
proof -
  have "parse_string_loop (concat (map quote_char s) @ quote_ch # rest) out = Inr (out @ s, rest)" for out
    by (induction s arbitrary: out) (simp_all add: parse_quoted_char parse_string_loop_Cons)
  then show ?thesis by (simp add: parse_string_def json_quote_append)
qed

end
