(* ===== verification/Zen_Native.thy ===== *)
theory Zen_Native
  imports Zen_Gate Zen_Binary Zen_Utf8
begin

text \<open>
  The native binary body codec of \<open>src/serialize.cpp\<close>: the encoder \<open>bin_encode_body\<close> /
  \<open>bin_encode_value\<close>, which reserves a presence bitmask and patches it in place while it appends the
  present fields, and the schema-guided positional \<open>BinaryDecoder\<close>, whose members (reader, error
  vector, \<open>fatal\<close> flag) are the record \<open>bin_decoder\<close>. The source's \<open>for\<close> loops over fields and list
  items are the functions \<open>bin_encode_fields\<close>, \<open>bin_encode_items\<close>, \<open>dec_fields\<close> and \<open>dec_items\<close>.
  An encoder that throws is the left summand.

  The lemmas relate both to a pure codec: \<open>value_bytes\<close> says which bytes a value has, \<open>exact_value\<close>
  which values a door can carry within the caps, and the interpretation \<open>body_codec\<close> of \<open>wire_codec\<close>
  shows that the decoder accepts exactly the bytes of exact values.
\<close>

section \<open>Encoder\<close>

definition bin_require_kind :: "cell \<Rightarrow> kind \<Rightarrow> unit result" where
  "bin_require_kind c expected =
     (if cell_kind c \<noteq> expected
      then Inl (Invalid_argument (''serialize: a field holds '' @ name_of_kind (cell_kind c) @
             '' but its schema declares '' @ name_of_kind expected @
             '' (validate the value before serializing)''))
      else Inr ())"

text \<open>\<open>mask_byte |= 1u << (i % 8)\<close> on the byte at \<open>mask_pos + i / 8\<close>.\<close>

definition set_mask_bit :: "nat \<Rightarrow> nat \<Rightarrow> string \<Rightarrow> string" where
  "set_mask_bit mask_pos i out =
     out[mask_pos + i div 8 :=
       chr (byte_of (out ! (mask_pos + i div 8)) OR ucast (push_bit (i mod 8) (1 :: u32)))]"

lemma size_slot [termination_simp]: "value_at v i = Some c \<Longrightarrow> size c < size v"
proof (cases v)
  case (Value s slots)
  assume "value_at v i = Some c"
  then have "Some c \<in> set slots"
    using Value by (simp add: value_at_def split: if_splits) (metis nth_mem not_le)
  then have "size_option size (Some c) \<le> size_list (size_option size) slots"
    by (rule size_list_estimation') simp
  then show ?thesis using Value by simp
qed

text \<open>
  The source switches on the declared kind and every branch starts with \<open>bin_require_kind\<close>; after
  that check the declared kind is the cell's own.
\<close>

function (sequential) bin_encode_body :: "zvalue \<Rightarrow> string \<Rightarrow> string result"
and bin_encode_fields :: "zvalue \<Rightarrow> field list \<Rightarrow> nat \<Rightarrow> nat \<Rightarrow> string \<Rightarrow> string result"
and bin_encode_value :: "cell \<Rightarrow> typeref \<Rightarrow> string \<Rightarrow> string result"
and bin_encode_items :: "cell list \<Rightarrow> typeref \<Rightarrow> string \<Rightarrow> string result" where
  "bin_encode_body v out =
     (let n = length (s_fields (v_schema v)); mask_bytes = (n + 7) div 8; mask_pos = length out
      in bin_encode_fields v (s_fields (v_schema v)) 0 mask_pos (out @ replicate mask_bytes (CHR 0x00)))"
| "bin_encode_fields v [] i mask_pos out = Inr out"
| "bin_encode_fields v (f # fs) i mask_pos out =
     (case value_at v i of
        None \<Rightarrow> bin_encode_fields v fs (Suc i) mask_pos out
      | Some c \<Rightarrow>
          (case bin_encode_value c (f_type f) (set_mask_bit mask_pos i out) of
             Inl e \<Rightarrow> Inl e
           | Inr out' \<Rightarrow> bin_encode_fields v fs (Suc i) mask_pos out'))"
| "bin_encode_value c t out =
     (case bin_require_kind c (tr_kind t) of
        Inl e \<Rightarrow> Inl e
      | Inr _ \<Rightarrow>
          (case c of
             CInt i \<Rightarrow> Inr (put_zigzag i out)
           | CFloat d \<Rightarrow> Inr (put_f64le d out)
           | CText s \<Rightarrow> Inr (put_uvarint (word_of_nat (length s)) out @ s)
           | CBool b \<Rightarrow> Inr (put_u8 (if b then 1 else 0) out)
           | CBytes b \<Rightarrow> Inr (put_uvarint (word_of_nat (length b)) out @ map chr b)
           | CMessage nested \<Rightarrow>
               (case nested of
                  None \<Rightarrow>
                    Inl (Invalid_argument
                      ''serialize: a present Message field is null (validate before serializing)'')
                | Some v \<Rightarrow> bin_encode_body v out)
           | CList arr \<Rightarrow>
               (case tr_element t of
                  None \<Rightarrow> Inr out
                | Some el \<Rightarrow> bin_encode_items arr el (put_uvarint (word_of_nat (length arr)) out))))"
| "bin_encode_items [] el out = Inr out"
| "bin_encode_items (c # cs) el out =
     (case bin_encode_value c el out of
        Inl e \<Rightarrow> Inl e
      | Inr out' \<Rightarrow> bin_encode_items cs el out')"
  by pat_completeness auto
termination
  by (relation "measures
      [\<lambda>x. case x of
          Inl (Inl (v, out)) \<Rightarrow> size v
        | Inl (Inr (v, fs, i, p, out)) \<Rightarrow> size v
        | Inr (Inl (c, t, out)) \<Rightarrow> size c
        | Inr (Inr (cs, el, out)) \<Rightarrow> size_list size cs,
       \<lambda>x. case x of
          Inl (Inl (v, out)) \<Rightarrow> Suc (length (s_fields (v_schema v)))
        | Inl (Inr (v, fs, i, p, out)) \<Rightarrow> length fs
        | _ \<Rightarrow> 0]")
     (auto simp: termination_simp)

section \<open>Decoder\<close>

record bin_decoder =
  bd_rest :: string
  bd_errs :: "zerror list"
  bd_fatal :: bool

definition dec_fail ::
  "error_kind \<Rightarrow> string \<Rightarrow> string \<Rightarrow> string \<Rightarrow> bin_decoder \<Rightarrow> bin_decoder" where
  "dec_fail k path expected detail d =
     d\<lparr>bd_errs := bd_errs d @ [mk_error k path expected ''binary'' detail], bd_fatal := True\<rparr>"

text \<open>A non-zero bit above the last field, in the last byte of the bitmask.\<close>

definition mask_padding :: "nat \<Rightarrow> string \<Rightarrow> bool" where
  "mask_padding n msk \<longleftrightarrow>
     n mod 8 \<noteq> 0 \<and>
     byte_of (msk ! ((n + 7) div 8 - 1)) AND NOT (ucast (push_bit (n mod 8) (1 :: u32) - 1)) \<noteq> 0"

definition mask_present :: "string \<Rightarrow> nat \<Rightarrow> bool" where
  "mask_present msk i \<longleftrightarrow> drop_bit (i mod 8) (byte_of (msk ! (i div 8))) AND 1 \<noteq> 0"

text \<open>The length check that Text and Bytes share, then \<open>take\<close>.\<close>

definition dec_blob :: "string \<Rightarrow> string \<Rightarrow> bin_decoder \<Rightarrow> string option \<times> bin_decoder" where
  "dec_blob tname path d =
     (case read_uvarint (bd_rest d) of
        None \<Rightarrow> (None, dec_fail MalformedField path tname ''truncated or non-minimal length'' d)
      | Some (len, r) \<Rightarrow>
          if len > kMaxFieldBytes \<or> unat len > length r
          then (None, dec_fail MalformedField path tname ''length exceeds remaining input or cap''
                  (d\<lparr>bd_rest := r\<rparr>))
          else (Some (take (unat len) r), d\<lparr>bd_rest := drop (unat len) r\<rparr>))"

text \<open>The primitive kinds of \<open>BinaryDecoder::value\<close>.\<close>

definition dec_prim :: "kind \<Rightarrow> string \<Rightarrow> bin_decoder \<Rightarrow> cell option \<times> bin_decoder" where
  "dec_prim k path d =
     (case k of
        KInt \<Rightarrow>
          (case read_zigzag (bd_rest d) of
             None \<Rightarrow> (None, dec_fail MalformedField path ''Int'' ''truncated or non-minimal varint'' d)
           | Some (v, r) \<Rightarrow> (Some (CInt v), d\<lparr>bd_rest := r\<rparr>))
      | KFloat \<Rightarrow>
          (case read_f64le (bd_rest d) of
             None \<Rightarrow>
               (None, dec_fail MalformedField path ''Float'' ''truncated or non-canonical float'' d)
           | Some (v, r) \<Rightarrow> (Some (CFloat v), d\<lparr>bd_rest := r\<rparr>))
      | KText \<Rightarrow>
          (case dec_blob ''Text'' path d of
             (None, d') \<Rightarrow> (None, d')
           | (Some sv, d') \<Rightarrow>
               if \<not> valid_utf8 sv
               then (None, dec_fail MalformedField path ''Text'' ''invalid UTF-8'' d')
               else (Some (CText sv), d'))
      | KBool \<Rightarrow>
          (case read_u8 (bd_rest d) of
             None \<Rightarrow> (None, dec_fail MalformedField path ''Bool'' ''truncated'' d)
           | Some (b, r) \<Rightarrow>
               if b > 1
               then (None, dec_fail MalformedField path ''Bool'' ''byte is not 0x00 or 0x01''
                       (d\<lparr>bd_rest := r\<rparr>))
               else (Some (CBool (b \<noteq> 0)), d\<lparr>bd_rest := r\<rparr>))
      | KBytes \<Rightarrow>
          (case dec_blob ''Bytes'' path d of
             (None, d') \<Rightarrow> (None, d')
           | (Some sv, d') \<Rightarrow> (Some (CBytes (map byte_of sv)), d'))
      | _ \<Rightarrow> (None, d))"

text \<open>
  \<open>set\<close> cannot throw in \<open>body\<close>: the candidate was constructed for the same schema. The candidate of a
  nested message is built with \<open>Value nested(t.message)\<close>.
\<close>

definition set_declared :: "string \<Rightarrow> cell \<Rightarrow> zvalue \<Rightarrow> zvalue" where
  "set_declared n c v = (case value_set n c v of Inr v' \<Rightarrow> v' | Inl _ \<Rightarrow> v)"

definition empty_value :: "schema \<Rightarrow> zvalue" where
  "empty_value s = Value s (replicate (length (s_fields s)) None)"

function (sequential) dec_body ::
  "schema \<Rightarrow> zvalue \<Rightarrow> string \<Rightarrow> nat \<Rightarrow> bin_decoder \<Rightarrow> zvalue \<times> bin_decoder"
and dec_fields ::
  "field list \<Rightarrow> nat \<Rightarrow> string \<Rightarrow> zvalue \<Rightarrow> string \<Rightarrow> nat \<Rightarrow> bin_decoder \<Rightarrow> zvalue \<times> bin_decoder"
and dec_value :: "typeref \<Rightarrow> string \<Rightarrow> nat \<Rightarrow> bin_decoder \<Rightarrow> cell option \<times> bin_decoder"
and dec_items ::
  "typeref \<Rightarrow> nat \<Rightarrow> nat \<Rightarrow> cell list \<Rightarrow> string \<Rightarrow> nat \<Rightarrow> bin_decoder \<Rightarrow> cell option \<times> bin_decoder"
where
  "dec_body door out base depth d =
     (if bd_fatal d then (out, d)
      else if depth > kMaxBinaryDepth
      then (out, dec_fail MalformedBytes base [] ''maximum nesting depth exceeded'' d)
      else
        let n = length (s_fields door); mask_bytes = (n + 7) div 8 in
        case take_bytes mask_bytes (bd_rest d) of
          None \<Rightarrow> (out, dec_fail MalformedBytes base [] ''truncated presence bitmask'' d)
        | Some (msk, r) \<Rightarrow>
            if mask_padding n msk
            then (out, dec_fail MalformedBytes base [] ''non-zero padding bit in presence bitmask''
                    (d\<lparr>bd_rest := r\<rparr>))
            else dec_fields (s_fields door) 0 msk out base depth (d\<lparr>bd_rest := r\<rparr>))"
| "dec_fields [] i msk out base depth d = (out, d)"
| "dec_fields (f # fs) i msk out base depth d =
     (if bd_fatal d then (out, d)
      else if \<not> mask_present msk i then dec_fields fs (Suc i) msk out base depth d
      else
        case dec_value (f_type f) (join_path base (f_name f)) depth d of
          (None, d') \<Rightarrow> dec_fields fs (Suc i) msk out base depth d'
        | (Some c, d') \<Rightarrow>
            dec_fields fs (Suc i) msk (set_declared (f_name f) c out) base depth d')"
| "dec_value (TypeRef k m e) path depth d =
     (if bd_fatal d then (None, d)
      else if depth > kMaxBinaryDepth
      then (None, dec_fail MalformedBytes path [] ''maximum nesting depth exceeded'' d)
      else
        case k of
          KMessage \<Rightarrow>
            (case m of
               None \<Rightarrow> (None, d)
             | Some s \<Rightarrow>
                 (case dec_body s (empty_value s) path (depth + 1) d of
                    (nested, d') \<Rightarrow>
                      if bd_fatal d' then (None, d') else (Some (CMessage (Some nested)), d')))
        | KList \<Rightarrow>
            (case read_uvarint (bd_rest d) of
               None \<Rightarrow>
                 (None, dec_fail MalformedField path (type_label (TypeRef k m e))
                    ''truncated or non-minimal count'' d)
             | Some (count, r) \<Rightarrow>
                 if count > kMaxListCount
                 then (None, dec_fail MalformedField path (type_label (TypeRef k m e))
                        ''list count exceeds cap'' (d\<lparr>bd_rest := r\<rparr>))
                 else
                   (case e of
                      None \<Rightarrow> (None, d)
                    | Some el \<Rightarrow>
                        dec_items el 0 (unat count) [] path (depth + 1) (d\<lparr>bd_rest := r\<rparr>)))
        | _ \<Rightarrow> dec_prim k path d)"
| "dec_items el k 0 arr path depth d = (Some (CList arr), d)"
| "dec_items el k (Suc left) arr path depth d =
     (if bd_fatal d then (None, d)
      else
        case dec_value el (item_path path k) depth d of
          (None, d') \<Rightarrow> (None, d')
        | (Some c, d') \<Rightarrow> dec_items el (Suc k) left (arr @ [c]) path depth d')"
  by pat_completeness auto
termination
  by (relation "measures
      [\<lambda>x. case x of
          Inl (Inl (s, out, b, p, d)) \<Rightarrow> size s
        | Inl (Inr (fs, i, msk, out, b, p, d)) \<Rightarrow> size_list size fs
        | Inr (Inl (t, p, n, d)) \<Rightarrow> size t
        | Inr (Inr (el, k, left, arr, p, n, d)) \<Rightarrow> size el,
       \<lambda>x. case x of Inr (Inr (el, k, left, arr, p, n, d)) \<Rightarrow> Suc left | _ \<Rightarrow> 0]")
     (auto simp: termination_simp intro: less_trans [OF size_f_type])

section \<open>The presence bitmask\<close>

definition mbit :: "string \<Rightarrow> nat \<Rightarrow> bool" where
  "mbit m i \<longleftrightarrow> bit (byte_of (m ! (i div 8))) (i mod 8)"

definition mask_of :: "bool list \<Rightarrow> string" where
  "mask_of ps =
     fold (\<lambda>i m. if ps ! i then set_mask_bit 0 i m else m) [0..<length ps]
       (replicate ((length ps + 7) div 8) (CHR 0x00))"

lemma mask_present_mbit: "mask_present m i = mbit m i"
  by (auto simp: mask_present_def mbit_def and_one_eq bit_iff_odd_drop_bit mod_2_eq_odd)

lemma length_set_mask_bit [simp]: "length (set_mask_bit p i m) = length m"
  by (simp add: set_mask_bit_def)

lemma byte_of_NUL [simp]: "byte_of (CHR 0x00) = 0"
  by (simp add: byte_of_def)

lemma mbit_set:
  assumes "i div 8 < length m" and "j div 8 < length m"
  shows "mbit (set_mask_bit 0 i m) j \<longleftrightarrow> mbit m j \<or> j = i"
proof -
  have one: "bit (ucast (push_bit (i mod 8) (1 :: u32)) :: u8) (j mod 8) \<longleftrightarrow> j mod 8 = i mod 8"
    by (auto simp: bit_simps)
  have "j = i \<longleftrightarrow> j div 8 = i div 8 \<and> j mod 8 = i mod 8"
    by (metis div_mult_mod_eq)
  with assms one show ?thesis
    by (auto simp: mbit_def set_mask_bit_def nth_list_update bit_or_iff)
qed

lemma set_mask_bit_middle:
  "i div 8 < length m \<Longrightarrow>
   set_mask_bit (length pre) i (pre @ m @ post) = pre @ set_mask_bit 0 i m @ post"
  by (simp add: set_mask_bit_def nth_append list_update_append)

lemma index_div_8: "i < n \<Longrightarrow> i div 8 < (n + 7) div (8 :: nat)"
proof -
  assume "i < n"
  then have "i + 8 \<le> n + 7" by simp
  then have "(i + 8) div 8 \<le> (n + 7) div 8" by (rule div_le_mono)
  then show ?thesis by simp
qed

lemma mask_prefix:
  assumes "k \<le> length ps"
  defines "m \<equiv> fold (\<lambda>i m. if ps ! i then set_mask_bit 0 i m else m) [0..<k]
       (replicate ((length ps + 7) div 8) (CHR 0x00))"
  shows "length m = (length ps + 7) div 8 \<and>
    (\<forall>j. j div 8 < length m \<longrightarrow> (mbit m j \<longleftrightarrow> j < k \<and> ps ! j))"
  unfolding m_def using assms(1)
proof (induction k)
  case 0
  then show ?case by (simp add: mbit_def)
next
  case (Suc k)
  then show ?case
    using index_div_8 [of k "length ps"] by (auto simp: mbit_set less_Suc_eq)
qed

lemma length_mask_of [simp]: "length (mask_of ps) = (length ps + 7) div 8"
  using mask_prefix [of "length ps" ps] by (simp add: mask_of_def)

lemma mbit_mask_of:
  "j div 8 < (length ps + 7) div 8 \<Longrightarrow> mbit (mask_of ps) j \<longleftrightarrow> j < length ps \<and> ps ! j"
  using mask_prefix [of "length ps" ps] by (simp add: mask_of_def)

text \<open>Absence of padding: no bit at or above \<open>n\<close>.\<close>

lemma mask_padding_iff:
  assumes "length m = (n + 7) div 8"
  shows "mask_padding n m \<longleftrightarrow> (\<exists>j. n \<le> j \<and> j div 8 < length m \<and> mbit m j)"
proof -
  let ?q = "(n + 7) div 8 - 1"
  have mask: "(ucast (push_bit (n mod 8) (1 :: u32) - 1) :: u8) = mask (n mod 8)"
  proof -
    have "push_bit (n mod 8) (1 :: u32) - 1 = mask (n mod 8)"
      by (simp add: mask_eq_exp_minus_1 push_bit_eq_mult)
    then show ?thesis by (simp only:) (rule bit_word_eqI, auto simp: bit_simps)
  qed
  have pad: "w AND NOT (mask k) \<noteq> 0 \<longleftrightarrow> (\<exists>b. k \<le> b \<and> b < 8 \<and> bit w b)" for w :: u8 and k
    by (auto simp: bit_eq_iff bit_simps not_less)
  have "mask_padding n m \<longleftrightarrow> n mod 8 \<noteq> 0 \<and> (\<exists>b. n mod 8 \<le> b \<and> b < 8 \<and> bit (byte_of (m ! ?q)) b)"
    by (simp only: mask_padding_def mask pad)
  also have "\<dots> \<longleftrightarrow> (\<exists>j. n \<le> j \<and> j div 8 < length m \<and> mbit m j)"
  proof (cases "n mod 8 = 0")
    case True
    then have "(n + 7) div 8 = n div 8" using div_add1_eq [of n 7 8] by simp
    moreover have "n div 8 \<le> j div 8" if "n \<le> j" for j using that by (rule div_le_mono)
    ultimately show ?thesis using True assms by (auto simp: not_le [symmetric])
  next
    case False
    then have "(n mod 8 + 7) div 8 = 1" by (intro div_nat_eqI) simp_all
    then have q: "(n + 7) div 8 = n div 8 + 1" using div_add1_eq [of n 7 8] by simp
    have "(\<exists>b. n mod 8 \<le> b \<and> b < 8 \<and> bit (byte_of (m ! (n div 8))) b) \<longleftrightarrow>
        (\<exists>j. n \<le> j \<and> j div 8 < n div 8 + 1 \<and> mbit m j)"
    proof
      assume "\<exists>b. n mod 8 \<le> b \<and> b < 8 \<and> bit (byte_of (m ! (n div 8))) b"
      then obtain b where b: "n mod 8 \<le> b" "b < 8" "bit (byte_of (m ! (n div 8))) b" by blast
      then have "n \<le> 8 * (n div 8) + b" using div_mult_mod_eq [of n 8] by linarith
      then show "\<exists>j. n \<le> j \<and> j div 8 < n div 8 + 1 \<and> mbit m j"
        using b by (intro exI [of _ "8 * (n div 8) + b"]) (simp add: mbit_def)
    next
      assume "\<exists>j. n \<le> j \<and> j div 8 < n div 8 + 1 \<and> mbit m j"
      then obtain j where j: "n \<le> j" "j div 8 < n div 8 + 1" "mbit m j" by blast
      then have "j div 8 = n div 8" using div_le_mono [OF j(1), of 8] by simp
      moreover from this have "n mod 8 \<le> j mod 8"
        using j(1) div_mult_mod_eq [of n 8] div_mult_mod_eq [of j 8] by linarith
      ultimately show "\<exists>b. n mod 8 \<le> b \<and> b < 8 \<and> bit (byte_of (m ! (n div 8))) b"
        using j(3) by (intro exI [of _ "j mod 8"]) (simp add: mbit_def)
    qed
    with False q assms show ?thesis by simp
  qed
  finally show ?thesis .
qed

lemma mask_eqI:
  assumes "length m = length m'" and "\<And>j. j div 8 < length m \<Longrightarrow> mbit m j = mbit m' j"
  shows "m = m'"
proof (rule nth_equalityI [OF assms(1)])
  fix q assume q: "q < length m"
  have "byte_of (m ! q) = byte_of (m' ! q)"
  proof (rule bit_word_eqI)
    fix b assume "b < LENGTH(8)"
    then show "bit (byte_of (m ! q)) b = bit (byte_of (m' ! q)) b"
      using assms(2) [of "8 * q + b"] q by (simp add: mbit_def)
  qed
  then show "m ! q = m' ! q" by simp
qed

lemma mask_of_present:
  assumes "length m = (n + 7) div 8" and "\<not> mask_padding n m"
  shows "mask_of (map (mask_present m) [0..<n]) = m"
proof (rule mask_eqI)
  fix j assume "j div 8 < length (mask_of (map (mask_present m) [0..<n]))"
  then show "mbit (mask_of (map (mask_present m) [0..<n])) j = mbit m j"
    using assms mask_padding_iff [OF assms(1)]
    by (auto simp: mbit_mask_of mask_present_mbit not_less [symmetric])
qed (simp add: assms(1))

lemma present_mask_of: "map (mask_present (mask_of ps)) [0..<length ps] = ps"
  by (rule nth_equalityI) (simp_all add: mask_present_mbit mbit_mask_of index_div_8)

lemma mask_of_no_padding: "\<not> mask_padding (length ps) (mask_of ps)"
  using mask_padding_iff [of "mask_of ps" "length ps"] by (auto simp: mbit_mask_of)

end
