(* ===== verification/Zen_Native_Codec.thy ===== *)
theory Zen_Native_Codec
  imports Zen_Native
begin

text \<open>
  Correctness of the native body codec. \<open>value_bytes\<close> is the reference encoding (the bitmask computed
  up front, then the present cells), \<open>pure_body\<close> the reference decoder (no error bookkeeping); the
  source's encoder and decoder are shown to compute them, and the two are shown to be inverse on
  exactly the values of \<open>exact_value\<close>.
\<close>

section \<open>Reference encoding\<close>

definition slots_of :: "zvalue \<Rightarrow> cell option list" where
  "slots_of v = map (value_at v) [0..<length (s_fields (v_schema v))]"

lemma slots_of_aligned: "aligned v \<Longrightarrow> slots_of v = v_slots v"
  by (rule nth_equalityI) (auto simp: slots_of_def aligned_def value_at_def)

lemma slot_size [termination_simp]: "Some c \<in> set (slots_of v) \<Longrightarrow> size c < size v"
  by (auto simp: slots_of_def intro: size_slot [OF sym])

function (sequential) cell_bytes :: "cell \<Rightarrow> string" and value_bytes :: "zvalue \<Rightarrow> string" where
  "cell_bytes (CInt i) = put_zigzag i []"
| "cell_bytes (CFloat d) = put_f64le d []"
| "cell_bytes (CText s) = put_uvarint (word_of_nat (length s)) [] @ s"
| "cell_bytes (CBool b) = put_u8 (if b then 1 else 0) []"
| "cell_bytes (CBytes b) = put_uvarint (word_of_nat (length b)) [] @ map chr b"
| "cell_bytes (CMessage None) = []"
| "cell_bytes (CMessage (Some v)) = value_bytes v"
| "cell_bytes (CList arr) =
     put_uvarint (word_of_nat (length arr)) [] @ concat (map cell_bytes arr)"
| "value_bytes v =
     mask_of (map (\<lambda>x. x \<noteq> None) (slots_of v)) @
     concat (map (\<lambda>x. case x of None \<Rightarrow> [] | Some c \<Rightarrow> cell_bytes c) (slots_of v))"
  by pat_completeness auto
termination
  by (relation "measure (\<lambda>x. case x of Inl c \<Rightarrow> size c | Inr v \<Rightarrow> size v)")
     (auto simp: termination_simp intro: slot_size)

declare value_bytes.simps [simp del]

text \<open>What the encoder accepts: each present cell has its declared kind, no message is null.\<close>

function (sequential) cell_encodable :: "cell \<Rightarrow> typeref \<Rightarrow> bool"
and value_encodable :: "zvalue \<Rightarrow> bool" where
  "cell_encodable c t =
     (cell_kind c = tr_kind t \<and>
      (case c of
         CMessage m \<Rightarrow> (case m of None \<Rightarrow> False | Some v \<Rightarrow> value_encodable v)
       | CList arr \<Rightarrow>
           (case tr_element t of None \<Rightarrow> False | Some el \<Rightarrow> (\<forall>x \<in> set arr. cell_encodable x el))
       | _ \<Rightarrow> True))"
| "value_encodable v =
     (\<forall>(f, x) \<in> set (zip (s_fields (v_schema v)) (slots_of v)).
        case x of None \<Rightarrow> True | Some c \<Rightarrow> cell_encodable c (f_type f))"
  by pat_completeness auto
termination
  by (relation "measure (\<lambda>x. case x of Inl (c, t) \<Rightarrow> size c | Inr v \<Rightarrow> size v)")
     (auto simp: termination_simp dest: set_zip_rightD intro: slot_size)

declare value_encodable.simps [simp del] cell_encodable.simps [simp del]

definition opt_bytes :: "cell option \<Rightarrow> string" where
  "opt_bytes x = (case x of None \<Rightarrow> [] | Some c \<Rightarrow> cell_bytes c)"

definition slot_encodable :: "field \<Rightarrow> cell option \<Rightarrow> bool" where
  "slot_encodable f x \<longleftrightarrow> (case x of None \<Rightarrow> True | Some c \<Rightarrow> cell_encodable c (f_type f))"

lemma opt_bytes_simps [simp]: "opt_bytes None = []" "opt_bytes (Some c) = cell_bytes c"
  by (simp_all add: opt_bytes_def)

lemma value_bytes_slots:
  "value_bytes v = mask_of (map (\<lambda>x. x \<noteq> None) (slots_of v)) @ concat (map opt_bytes (slots_of v))"
  by (simp add: value_bytes.simps opt_bytes_def [abs_def])

lemma value_encodable_slots:
  "value_encodable v \<longleftrightarrow> list_all2 slot_encodable (s_fields (v_schema v)) (slots_of v)"
  by (simp add: value_encodable.simps list_all2_iff slot_encodable_def slots_of_def case_prod_beta)

section \<open>The encoder computes it\<close>

text \<open>The fields loop, started in the middle: the mask lies after a prefix of the buffer.\<close>

definition mask_from :: "nat \<Rightarrow> cell option list \<Rightarrow> string \<Rightarrow> string" where
  "mask_from i xs m =
     fold (\<lambda>(j, x) m. if x \<noteq> None then set_mask_bit 0 j m else m) (zip [i..<i + length xs] xs) m"

lemma mask_from_simps [simp]:
  "mask_from i [] m = m"
  "mask_from i (x # xs) m =
     mask_from (Suc i) xs (if x \<noteq> None then set_mask_bit 0 i m else m)"
  by (simp_all add: mask_from_def upt_conv_Cons del: upt_Suc)

lemma fold_zip_upt:
  "fold (\<lambda>(j, x) m. f j x m) (zip [0..<length xs] xs) m = fold (\<lambda>j m. f j (xs ! j) m) [0..<length xs] m"
proof -
  have "zip [0..<length xs] xs = map (\<lambda>j. (j, xs ! j)) [0..<length xs]"
    by (rule nth_equalityI) simp_all
  then show ?thesis by (simp add: fold_map comp_def)
qed

lemma mask_from_0:
  "mask_from 0 xs (replicate ((length xs + 7) div 8) (CHR 0x00)) = mask_of (map (\<lambda>x. x \<noteq> None) xs)"
proof -
  have "fold (\<lambda>(j, x) m. if x \<noteq> None then set_mask_bit 0 j m else m) (zip [0..<length xs] xs) m =
      fold (\<lambda>j m. if map (\<lambda>x. x \<noteq> None) xs ! j then set_mask_bit 0 j m else m) [0..<length xs] m"
    for m
    unfolding fold_zip_upt by (rule fold_cong) auto
  then show ?thesis by (simp only: mask_from_def mask_of_def length_map add_0)
qed

lemma slots_from_Cons:
  "map (value_at v) [i..<i + length (f # fs)] =
     value_at v i # map (value_at v) [Suc i..<Suc i + length fs]"
  by (simp add: upt_conv_Cons del: upt_Suc)

lemma bin_encode_correct:
  shows "value_encodable v \<Longrightarrow> bin_encode_body v out = Inr (out @ value_bytes v)"
    and "list_all2 slot_encodable fs (map (value_at v) [i..<i + length fs]) \<Longrightarrow>
      i + length fs \<le> 8 * length m \<Longrightarrow> out = pre @ m @ post \<Longrightarrow> mask_pos = length pre \<Longrightarrow>
      bin_encode_fields v fs i mask_pos out =
        Inr (pre @ mask_from i (map (value_at v) [i..<i + length fs]) m @ post @
          concat (map opt_bytes (map (value_at v) [i..<i + length fs])))"
    and "cell_encodable c t \<Longrightarrow> bin_encode_value c t out = Inr (out @ cell_bytes c)"
    and "\<forall>x \<in> set cs. cell_encodable x el \<Longrightarrow>
      bin_encode_items cs el out = Inr (out @ concat (map cell_bytes cs))"
proof (induction v out and v fs i mask_pos out and c t out and cs el out
    arbitrary: and pre m post and and
    rule: bin_encode_body_bin_encode_fields_bin_encode_value_bin_encode_items.induct)
  case (1 v out)
  let ?n = "length (s_fields (v_schema v))"
  have "?n \<le> 8 * ((?n + 7) div 8)" using div_mult_mod_eq [of "?n + 7" 8] by linarith
  moreover have "list_all2 slot_encodable (s_fields (v_schema v)) (map (value_at v) [0..<0 + ?n])"
    using "1.prems" by (simp add: value_encodable_slots slots_of_def)
  ultimately show ?case
    using "1.IH" [OF refl refl refl, of "replicate ((?n + 7) div 8) (CHR 0x00)" out "[]"]
      mask_from_0 [of "slots_of v"]
    by (simp add: Let_def value_bytes_slots slots_of_def)
next
  case (3 v f fs i mask_pos out)
  have len: "i div 8 < length m" "Suc i + length fs \<le> 8 * length m"
    using "3.prems"(2) by (auto simp: less_mult_imp_div_less mult.commute)
  have enc: "slot_encodable f (value_at v i)"
      "list_all2 slot_encodable fs (map (value_at v) [Suc i..<Suc i + length fs])"
    using "3.prems"(1) unfolding slots_from_Cons by auto
  show ?case
  proof (cases "value_at v i")
    case None
    then show ?thesis
      using "3.IH"(1) [OF None enc(2) len(2) "3.prems"(3,4)]
      unfolding slots_from_Cons by simp
  next
    case (Some c)
    have out: "set_mask_bit mask_pos i out = pre @ set_mask_bit 0 i m @ post"
      using set_mask_bit_middle [OF len(1)] "3.prems"(3,4) by simp
    have c: "bin_encode_value c (f_type f) (set_mask_bit mask_pos i out) =
        Inr (pre @ set_mask_bit 0 i m @ post @ cell_bytes c)"
      using "3.IH"(2) [OF Some] enc(1) Some out by (simp add: slot_encodable_def)
    show ?thesis
      using "3.IH"(3) [OF Some c enc(2), of "set_mask_bit 0 i m" pre "post @ cell_bytes c"]
        len(2) "3.prems"(4) Some c
      unfolding slots_from_Cons by simp
  qed
next
  case (4 c t out)
  have k: "bin_require_kind c (tr_kind t) = Inr ()"
    using "4.prems" by (simp add: bin_require_kind_def cell_encodable.simps)
  show ?case
  proof (cases c)
    case (CMessage m)
    then show ?thesis
      using "4.IH"(1) [OF k CMessage] "4.prems" k
      by (auto simp: cell_encodable.simps split: option.splits)
  next
    case (CList arr)
    then show ?thesis
      using "4.IH"(2) [OF k CList] "4.prems" k
      by (auto simp: cell_encodable.simps put_uvarint_append [of _ out] split: option.splits)
  qed (insert k, simp_all add: put_zigzag_append [of _ out] put_f64le_append [of _ out]
      put_uvarint_append [of _ out] put_u8_append [of _ out])
qed auto

lemma bin_encode_throws:
  shows "bin_encode_body v out = Inl e \<Longrightarrow> \<exists>why. e = Invalid_argument why"
    and "bin_encode_fields v fs i mask_pos out = Inl e \<Longrightarrow> \<exists>why. e = Invalid_argument why"
    and "bin_encode_value c t out = Inl e \<Longrightarrow> \<exists>why. e = Invalid_argument why"
    and "bin_encode_items cs el out = Inl e \<Longrightarrow> \<exists>why. e = Invalid_argument why"
proof (induction v out and v fs i mask_pos out and c t out and cs el out
    rule: bin_encode_body_bin_encode_fields_bin_encode_value_bin_encode_items.induct)
  case (1 v out)
  then show ?case by (simp add: Let_def)
next
  case (3 v f fs i mask_pos out)
  then show ?case by (auto split: option.splits sum.splits)
next
  case (4 c t out)
  then show ?case
    by (auto simp: bin_require_kind_def split: if_splits cell.splits option.splits)
next
  case (6 c cs el out)
  then show ?case by (auto split: sum.splits)
qed auto

section \<open>Reference decoder\<close>

definition pure_blob :: "string \<Rightarrow> (string \<times> string) option" where
  "pure_blob bs =
     (case read_uvarint bs of
        None \<Rightarrow> None
      | Some (len, r) \<Rightarrow>
          if len > kMaxFieldBytes \<or> unat len > length r then None
          else Some (take (unat len) r, drop (unat len) r))"

definition pure_prim :: "kind \<Rightarrow> string \<Rightarrow> (cell \<times> string) option" where
  "pure_prim k bs =
     (case k of
        KInt \<Rightarrow> map_option (map_prod CInt id) (read_zigzag bs)
      | KFloat \<Rightarrow> map_option (map_prod CFloat id) (read_f64le bs)
      | KText \<Rightarrow>
          (case pure_blob bs of
             None \<Rightarrow> None
           | Some (sv, r) \<Rightarrow> if valid_utf8 sv then Some (CText sv, r) else None)
      | KBool \<Rightarrow>
          (case read_u8 bs of
             None \<Rightarrow> None
           | Some (b, r) \<Rightarrow> if b > 1 then None else Some (CBool (b \<noteq> 0), r))
      | KBytes \<Rightarrow> map_option (map_prod (\<lambda>sv. CBytes (map byte_of sv)) id) (pure_blob bs)
      | _ \<Rightarrow> None)"

function (sequential) pure_body :: "schema \<Rightarrow> nat \<Rightarrow> string \<Rightarrow> (zvalue \<times> string) option"
and pure_fields ::
  "field list \<Rightarrow> nat \<Rightarrow> string \<Rightarrow> nat \<Rightarrow> string \<Rightarrow> (cell option list \<times> string) option"
and pure_value :: "typeref \<Rightarrow> nat \<Rightarrow> string \<Rightarrow> (cell \<times> string) option"
and pure_items :: "typeref \<Rightarrow> nat \<Rightarrow> nat \<Rightarrow> string \<Rightarrow> (cell list \<times> string) option"
where
  "pure_body door depth bs =
     (if depth > kMaxBinaryDepth then None
      else
        case take_bytes ((length (s_fields door) + 7) div 8) bs of
          None \<Rightarrow> None
        | Some (msk, r) \<Rightarrow>
            if mask_padding (length (s_fields door)) msk then None
            else map_option (map_prod (Value door) id) (pure_fields (s_fields door) 0 msk depth r))"
| "pure_fields [] i msk depth bs = Some ([], bs)"
| "pure_fields (f # fs) i msk depth bs =
     (if \<not> mask_present msk i
      then map_option (map_prod ((#) None) id) (pure_fields fs (Suc i) msk depth bs)
      else
        case pure_value (f_type f) depth bs of
          None \<Rightarrow> None
        | Some (c, r) \<Rightarrow> map_option (map_prod ((#) (Some c)) id) (pure_fields fs (Suc i) msk depth r))"
| "pure_value (TypeRef k m e) depth bs =
     (if depth > kMaxBinaryDepth then None
      else
        case k of
          KMessage \<Rightarrow>
            (case m of
               None \<Rightarrow> None
             | Some s \<Rightarrow> map_option (map_prod (\<lambda>v. CMessage (Some v)) id) (pure_body s (depth + 1) bs))
        | KList \<Rightarrow>
            (case read_uvarint bs of
               None \<Rightarrow> None
             | Some (count, r) \<Rightarrow>
                 if count > kMaxListCount then None
                 else
                   (case e of
                      None \<Rightarrow> None
                    | Some el \<Rightarrow>
                        map_option (map_prod CList id) (pure_items el (unat count) (depth + 1) r)))
        | _ \<Rightarrow> pure_prim k bs)"
| "pure_items el 0 depth bs = Some ([], bs)"
| "pure_items el (Suc left) depth bs =
     (case pure_value el depth bs of
        None \<Rightarrow> None
      | Some (c, r) \<Rightarrow> map_option (map_prod ((#) c) id) (pure_items el left depth r))"
  by pat_completeness auto
termination
  by (relation "measures
      [\<lambda>x. case x of
          Inl (Inl (s, p, bs)) \<Rightarrow> size s
        | Inl (Inr (fs, i, msk, p, bs)) \<Rightarrow> size_list size fs
        | Inr (Inl (t, p, bs)) \<Rightarrow> size t
        | Inr (Inr (el, left, p, bs)) \<Rightarrow> size el,
       \<lambda>x. case x of Inr (Inr (el, left, p, bs)) \<Rightarrow> Suc left | _ \<Rightarrow> 0]")
     (auto simp: termination_simp intro: less_trans [OF size_f_type])

section \<open>The decoder computes it\<close>

text \<open>
  A decoder step in state \<open>d\<close> that should yield \<open>x\<close>: with the reference result \<open>Some (x, r)\<close> it
  returns it and moves to the rest \<open>r\<close>; with \<open>None\<close> it returns nothing, records one error and is
  fatal from then on.
\<close>

definition dec_failed :: "bin_decoder \<Rightarrow> bin_decoder \<Rightarrow> bool" where
  "dec_failed d d' \<longleftrightarrow>
     bd_fatal d' \<and> (\<exists>e. bd_errs d' = bd_errs d @ [e] \<and> e_actual e = ''binary'')"

definition dec_agrees ::
  "bin_decoder \<Rightarrow> ('a \<times> string) option \<Rightarrow> 'a option \<times> bin_decoder \<Rightarrow> bool" where
  "dec_agrees d ref res \<longleftrightarrow>
     (case ref of
        Some (x, r) \<Rightarrow> res = (Some x, d\<lparr>bd_rest := r\<rparr>)
      | None \<Rightarrow> fst res = None \<and> dec_failed d (snd res))"

lemma dec_failed_fail [simp]:
  "dec_failed d (dec_fail k p ex de d)"
  "dec_failed d (dec_fail k p ex de (d\<lparr>bd_rest := r\<rparr>))"
  by (simp_all add: dec_failed_def dec_fail_def mk_error_def)

lemma dec_failed_rest [simp]: "dec_failed (d\<lparr>bd_rest := r\<rparr>) d' = dec_failed d d'"
  by (simp add: dec_failed_def)

lemma dec_blob_agrees: "dec_agrees d (pure_blob (bd_rest d)) (dec_blob tname path d)"
  by (auto simp: dec_agrees_def pure_blob_def dec_blob_def split: option.split)

lemma dec_prim_agrees:
  assumes "primitive_kind k"
  shows "dec_agrees d (pure_prim k (bd_rest d)) (dec_prim k path d)"
proof (cases "k = KText \<or> k = KBytes")
  case True
  obtain x d' y d'' where blob: "dec_blob ''Text'' path d = (x, d')" "dec_blob ''Bytes'' path d = (y, d'')"
    by (cases "dec_blob ''Text'' path d"; cases "dec_blob ''Bytes'' path d") blast
  show ?thesis
  proof (cases "pure_blob (bd_rest d)")
    case None
    with True show ?thesis
      using dec_blob_agrees [of d "''Text''" path] dec_blob_agrees [of d "''Bytes''" path] blob
      by (auto simp: dec_agrees_def pure_prim_def dec_prim_def)
  next
    case (Some p)
    obtain sv r where "p = (sv, r)" by (cases p)
    with True Some show ?thesis
      using dec_blob_agrees [of d "''Text''" path] dec_blob_agrees [of d "''Bytes''" path] blob
      by (auto simp: dec_agrees_def pure_prim_def dec_prim_def)
  qed
next
  case False
  with assms show ?thesis
    by (cases k) (auto simp: primitive_kind_def dec_agrees_def pure_prim_def dec_prim_def
        split: option.split)
qed

definition body_agrees ::
  "bin_decoder \<Rightarrow> (zvalue \<times> string) option \<Rightarrow> zvalue \<times> bin_decoder \<Rightarrow> bool" where
  "body_agrees d ref res \<longleftrightarrow>
     (case ref of
        Some (v, r) \<Rightarrow> res = (v, d\<lparr>bd_rest := r\<rparr>)
      | None \<Rightarrow> dec_failed d (snd res))"

lemma dec_fields_fatal: "bd_fatal d \<Longrightarrow> dec_fields fs i msk out base depth d = (out, d)"
  by (cases fs) simp_all

text \<open>A candidate whose first \<open>i\<close> fields are decided and whose other fields are still absent.\<close>

definition partial_candidate :: "zvalue \<Rightarrow> nat \<Rightarrow> field list \<Rightarrow> cell option list \<Rightarrow> bool" where
  "partial_candidate out i fs xs \<longleftrightarrow>
     (\<exists>pre. s_fields (v_schema out) = pre @ fs \<and> length pre = i \<and> length xs = i) \<and>
     distinct (map f_name (s_fields (v_schema out))) \<and>
     v_slots out = xs @ replicate (length fs) None"

lemma partial_candidate_set:
  assumes "partial_candidate out i (f # fs) xs"
  shows "partial_candidate (set_declared (f_name f) c out) (Suc i) fs (xs @ [Some c]) \<and>
    v_schema (set_declared (f_name f) c out) = v_schema out"
proof -
  obtain pre where pre: "s_fields (v_schema out) = pre @ f # fs" "length pre = i" "length xs = i"
    and dist: "distinct (map f_name (s_fields (v_schema out)))"
    and slots: "v_slots out = xs @ replicate (length (f # fs)) None"
    using assms by (auto simp: partial_candidate_def)
  have "field_index (f_name f) (s_fields (v_schema out)) = Some i"
    using field_index_nth [OF dist, of i] pre by (simp add: nth_append)
  then have "set_declared (f_name f) c out =
      Value (v_schema out) (xs @ Some c # replicate (length fs) None)"
    using slots pre by (simp add: set_declared_def value_set_def list_update_append)
  moreover have "s_fields (v_schema out) = (pre @ [f]) @ fs" "length (pre @ [f]) = Suc i"
    using pre by simp_all
  ultimately show ?thesis
    using dist pre(3) by (auto simp: partial_candidate_def)
qed

lemma partial_candidate_skip:
  assumes "partial_candidate out i (f # fs) xs"
  shows "partial_candidate out (Suc i) fs (xs @ [None])"
proof -
  obtain pre where pre: "s_fields (v_schema out) = pre @ f # fs" "length pre = i" "length xs = i"
    using assms by (auto simp: partial_candidate_def)
  then have "s_fields (v_schema out) = (pre @ [f]) @ fs" "length (pre @ [f]) = Suc i" by simp_all
  then show ?thesis
    using assms pre(3) unfolding partial_candidate_def by fastforce
qed

lemma partial_candidate_done:
  "partial_candidate out i [] xs \<Longrightarrow> out = Value (v_schema out) xs"
  by (cases out) (simp add: partial_candidate_def)

lemma partial_candidate_empty:
  "wf_schema s \<Longrightarrow> partial_candidate (empty_value s) 0 (s_fields s) []"
  by (simp add: partial_candidate_def empty_value_def wf_schema_distinct)

lemma dec_refines:
  shows "\<not> bd_fatal d \<Longrightarrow> wf_schema s \<Longrightarrow> out = empty_value s \<Longrightarrow>
      body_agrees d (pure_body s depth (bd_rest d)) (dec_body s out base depth d)"
    and "\<not> bd_fatal d \<Longrightarrow> partial_candidate out i fs xs \<Longrightarrow> \<forall>f \<in> set fs. wf_typeref (f_type f) \<Longrightarrow>
      body_agrees d
        (map_option (map_prod (\<lambda>ys. Value (v_schema out) (xs @ ys)) id)
          (pure_fields fs i msk depth (bd_rest d)))
        (dec_fields fs i msk out base depth d)"
    and "\<not> bd_fatal d \<Longrightarrow> wf_typeref t \<Longrightarrow>
      dec_agrees d (pure_value t depth (bd_rest d)) (dec_value t path depth d)"
    and "\<not> bd_fatal d \<Longrightarrow> wf_typeref el \<Longrightarrow>
      dec_agrees d
        (map_option (map_prod (\<lambda>cs. CList (arr @ cs)) id) (pure_items el left depth (bd_rest d)))
        (dec_items el k left arr path depth d)"
proof (induction s out base depth d and fs i msk out base depth d and t path depth d and
    el k left arr path depth d
    arbitrary: and xs and and
    rule: dec_body_dec_fields_dec_value_dec_items.induct)
  case (1 s out base depth d)
  show ?case
  proof (cases "depth > kMaxBinaryDepth")
    case True
    then show ?thesis using "1.prems" by (simp add: body_agrees_def)
  next
    case False
    let ?n = "length (s_fields s)"
    show ?thesis
    proof (cases "take_bytes ((?n + 7) div 8) (bd_rest d)")
      case None
      then show ?thesis using "1.prems" False by (simp add: body_agrees_def)
    next
      case (Some p)
      obtain m r where p: "p = (m, r)" by (cases p)
      have "body_agrees (d\<lparr>bd_rest := r\<rparr>)
        (map_option (map_prod (\<lambda>ys. Value (v_schema out) ([] @ ys)) id)
          (pure_fields (s_fields s) 0 m depth (bd_rest (d\<lparr>bd_rest := r\<rparr>))))
        (dec_fields (s_fields s) 0 m out base depth (d\<lparr>bd_rest := r\<rparr>))"
        if "\<not> mask_padding ?n m"
        by (rule "1.IH" [OF "1.prems"(1) False refl refl Some p [symmetric] that, of "[]"])
           (use "1.prems" partial_candidate_empty [OF "1.prems"(2)]
              wf_schema_field [OF "1.prems"(2)] in simp_all)
      then show ?thesis
        using "1.prems" False Some p
        by (auto simp: body_agrees_def empty_value_def option.map_comp split: option.splits)
    qed
  qed
next
  case (2 i msk out base depth d)
  then show ?case by (simp add: body_agrees_def flip: partial_candidate_done)
next
  case (3 f fs i msk out base depth d)
  have wf: "wf_typeref (f_type f)" "\<forall>g \<in> set fs. wf_typeref (f_type g)"
    using "3.prems"(3) by auto
  show ?case
  proof (cases "mask_present msk i")
    case False
    have "body_agrees d
        (map_option (map_prod (\<lambda>ys. Value (v_schema out) ((xs @ [None]) @ ys)) id)
          (pure_fields fs (Suc i) msk depth (bd_rest d)))
        (dec_fields fs (Suc i) msk out base depth d)"
      using "3.IH"(1) [OF "3.prems"(1)] False "3.prems"(1) wf(2)
        partial_candidate_skip [OF "3.prems"(2)] by blast
    then show ?thesis
      using False "3.prems"(1) by (simp add: option.map_comp comp_def prod.map_comp id_def)
  next
    case True
    have val: "dec_agrees d (pure_value (f_type f) depth (bd_rest d))
        (dec_value (f_type f) (join_path base (f_name f)) depth d)"
      using "3.IH"(2) [OF "3.prems"(1)] True "3.prems"(1) wf(1) by blast
    show ?thesis
    proof (cases "pure_value (f_type f) depth (bd_rest d)")
      case None
      then obtain d' where d': "dec_value (f_type f) (join_path base (f_name f)) depth d = (None, d')"
          "dec_failed d d'"
        using val by (cases "dec_value (f_type f) (join_path base (f_name f)) depth d")
          (auto simp: dec_agrees_def)
      then have "bd_fatal d'" by (simp add: dec_failed_def)
      then show ?thesis
        using True None d' "3.prems"(1) by (simp add: body_agrees_def dec_fields_fatal)
    next
      case (Some p)
      obtain c r where p: "p = (c, r)" by (cases p)
      have dv: "dec_value (f_type f) (join_path base (f_name f)) depth d = (Some c, d\<lparr>bd_rest := r\<rparr>)"
        using val Some p by (simp add: dec_agrees_def)
      note next_cand = partial_candidate_set [OF "3.prems"(2), of c]
      have "body_agrees (d\<lparr>bd_rest := r\<rparr>)
          (map_option (map_prod (\<lambda>ys. Value (v_schema out) ((xs @ [Some c]) @ ys)) id)
            (pure_fields fs (Suc i) msk depth r))
          (dec_fields fs (Suc i) msk (set_declared (f_name f) c out) base depth (d\<lparr>bd_rest := r\<rparr>))"
        using "3.IH"(4) [OF "3.prems"(1) _ dv [symmetric] refl, of "xs @ [Some c]"]
          True "3.prems"(1) wf(2) next_cand by (simp add: id_def)
      then show ?thesis
        using True "3.prems"(1) Some p dv
        by (auto simp: body_agrees_def split: option.splits)
    qed
  qed
next
  case (4 k m e path depth d)
  show ?case
  proof (cases "depth > kMaxBinaryDepth")
    case True
    then show ?thesis using "4.prems" by (simp add: dec_agrees_def)
  next
    case False
    consider (msg) s where "k = KMessage" "m = Some s" "wf_schema s"
      | (lst) el where "k = KList" "e = Some el" "wf_typeref el"
      | (prim) "primitive_kind k"
      using "4.prems"(2) by (cases k) (auto simp: primitive_kind_def split: option.splits)
    then show ?thesis
    proof cases
      case msg
      have "body_agrees d (pure_body s (depth + 1) (bd_rest d))
          (dec_body s (empty_value s) path (depth + 1) d)"
        using "4.IH"(1) [OF "4.prems"(1) False msg(1,2)] "4.prems"(1) msg(3) by blast
      then show ?thesis
        using "4.prems"(1) False msg(1,2)
        by (auto simp: body_agrees_def dec_agrees_def dec_failed_def
            simp del: dec_body.simps pure_body.simps split: option.splits prod.splits)
    next
      case lst
      show ?thesis
      proof (cases "read_uvarint (bd_rest d)")
        case None
        then show ?thesis using "4.prems"(1) False lst(1,2) by (simp add: dec_agrees_def)
      next
        case (Some p)
        obtain count r where p: "p = (count, r)" by (cases p)
        show ?thesis
        proof (cases "count > kMaxListCount")
          case True
          then show ?thesis using "4.prems"(1) False lst(1,2) Some p by (simp add: dec_agrees_def)
        next
          case small: False
          have "dec_agrees (d\<lparr>bd_rest := r\<rparr>)
              (map_option (map_prod (\<lambda>cs. CList ([] @ cs)) id)
                (pure_items el (unat count) (depth + 1) (bd_rest (d\<lparr>bd_rest := r\<rparr>))))
              (dec_items el 0 (unat count) [] path (depth + 1) (d\<lparr>bd_rest := r\<rparr>))"
            using "4.IH"(2) [OF "4.prems"(1) False lst(1) Some p [symmetric] small lst(2)]
              "4.prems"(1) lst(3) by (simp add: id_def)
          then show ?thesis
            using "4.prems"(1) False lst(1,2) Some p small
            by (auto simp: dec_agrees_def split: option.splits)
        qed
      qed
    next
      case prim
      then show ?thesis
        using "4.prems"(1) False dec_prim_agrees [OF prim, of d path]
        by (cases k) (simp_all add: primitive_kind_def)
    qed
  qed
next
  case (5 el k arr path depth d)
  then show ?case by (simp add: dec_agrees_def)
next
  case (6 el k left arr path depth d)
  have val: "dec_agrees d (pure_value el depth (bd_rest d)) (dec_value el (item_path path k) depth d)"
    using "6.IH"(1) [OF "6.prems"(1)] "6.prems" by blast
  show ?case
  proof (cases "pure_value el depth (bd_rest d)")
    case None
    then show ?thesis
      using val "6.prems"(1) by (auto simp: dec_agrees_def split: prod.splits option.splits)
  next
    case (Some p)
    obtain c r where p: "p = (c, r)" by (cases p)
    have dv: "dec_value el (item_path path k) depth d = (Some c, d\<lparr>bd_rest := r\<rparr>)"
      using val Some p by (simp add: dec_agrees_def)
    have "dec_agrees (d\<lparr>bd_rest := r\<rparr>)
        (map_option (map_prod (\<lambda>cs. CList ((arr @ [c]) @ cs)) id) (pure_items el left depth r))
        (dec_items el (Suc k) left (arr @ [c]) path depth (d\<lparr>bd_rest := r\<rparr>))"
      using "6.IH"(2) [OF "6.prems"(1) dv [symmetric] refl] "6.prems" by (simp add: id_def)
    then show ?thesis
      using "6.prems"(1) Some p dv
      by (auto simp: dec_agrees_def split: option.splits)
  qed
qed

section \<open>Exactness: the values a door can carry\<close>

text \<open>
  A cell is exact for a type at a depth when the decoder could have produced it: the kind is the
  declared one, floats are canonical, text is UTF-8, lengths and counts are within the caps, nested
  messages claim precisely the schema the door names, and nothing is nested deeper than the cap.
  Required fields may still be absent: that is the gate's question.
\<close>

fun exact_prim :: "kind \<Rightarrow> cell \<Rightarrow> bool" where
  "exact_prim KInt (CInt i) = True"
| "exact_prim KFloat (CFloat d) = canonical_f64 d"
| "exact_prim KText (CText s) = (valid_utf8 s \<and> length s \<le> unat kMaxFieldBytes)"
| "exact_prim KBool (CBool b) = True"
| "exact_prim KBytes (CBytes b) = (length b \<le> unat kMaxFieldBytes)"
| "exact_prim _ _ = False"

function (sequential) exact_cell :: "typeref \<Rightarrow> nat \<Rightarrow> cell \<Rightarrow> bool"
and exact_value :: "schema \<Rightarrow> nat \<Rightarrow> zvalue \<Rightarrow> bool" where
  "exact_cell (TypeRef k m e) depth c =
     (depth \<le> kMaxBinaryDepth \<and>
      (case k of
         KMessage \<Rightarrow>
           (case c of
              CMessage (Some v) \<Rightarrow>
                (case m of None \<Rightarrow> False | Some s \<Rightarrow> exact_value s (depth + 1) v)
            | _ \<Rightarrow> False)
       | KList \<Rightarrow>
           (case c of
              CList arr \<Rightarrow>
                (case e of
                   None \<Rightarrow> False
                 | Some el \<Rightarrow>
                     length arr \<le> unat kMaxListCount \<and> (\<forall>x \<in> set arr. exact_cell el (depth + 1) x))
            | _ \<Rightarrow> False)
       | _ \<Rightarrow> exact_prim k c))"
| "exact_value s depth v =
     (depth \<le> kMaxBinaryDepth \<and> v_schema v = s \<and> length (v_slots v) = length (s_fields s) \<and>
      (\<forall>(f, x) \<in> set (zip (s_fields s) (v_slots v)).
         case x of None \<Rightarrow> True | Some c \<Rightarrow> exact_cell (f_type f) depth c))"
  by pat_completeness auto
termination
  by (relation "measure (\<lambda>x. case x of Inl (t, n, c) \<Rightarrow> size t | Inr (s, n, v) \<Rightarrow> size s)")
     (auto simp: termination_simp dest: set_zip_leftD)

declare exact_value.simps [simp del]

definition slot_exact :: "nat \<Rightarrow> field \<Rightarrow> cell option \<Rightarrow> bool" where
  "slot_exact depth f x \<longleftrightarrow> (case x of None \<Rightarrow> True | Some c \<Rightarrow> exact_cell (f_type f) depth c)"

lemma slot_exact_simps [simp]:
  "slot_exact depth f None"
  "slot_exact depth f (Some c) = exact_cell (f_type f) depth c"
  by (simp_all add: slot_exact_def)

lemma exact_value_slots:
  "exact_value s depth v \<longleftrightarrow>
     depth \<le> kMaxBinaryDepth \<and> v_schema v = s \<and> list_all2 (slot_exact depth) (s_fields s) (v_slots v)"
  by (auto simp: exact_value.simps list_all2_iff slot_exact_def)

lemma exact_value_aligned: "exact_value s depth v \<Longrightarrow> aligned v"
  by (auto simp: exact_value.simps aligned_def)

section \<open>The decoder accepts exactly the bytes of exact values\<close>

lemma unat_word_of_nat_u64: "n < 2 ^ 64 \<Longrightarrow> unat (word_of_nat n :: u64) = n"
  by (simp add: unsigned_of_nat take_bit_nat_eq_self)

lemma cap_values: "unat kMaxFieldBytes = 268435456" "unat kMaxListCount = 1048576"
  by (simp_all add: kMaxFieldBytes_def kMaxListCount_def)

lemma count_cap: "\<not> (w :: u64) > c \<longleftrightarrow> unat w \<le> unat c"
  by (simp add: word_le_nat_alt not_less)

lemma counted_iff:
  assumes "unat cap < 2 ^ 64"
  shows "(\<exists>len. read_uvarint bs = Some (len, q) \<and> \<not> len > cap \<and> n = unat len) \<longleftrightarrow>
    n \<le> unat cap \<and> bs = put_uvarint (word_of_nat n) [] @ q"
proof
  assume "\<exists>len. read_uvarint bs = Some (len, q) \<and> \<not> len > cap \<and> n = unat len"
  then show "n \<le> unat cap \<and> bs = put_uvarint (word_of_nat n) [] @ q"
    by (auto simp: uvarint_codec.dec_iff count_cap word_of_nat_unat)
next
  assume r: "n \<le> unat cap \<and> bs = put_uvarint (word_of_nat n) [] @ q"
  then have "unat (word_of_nat n :: u64) = n" using assms by (intro unat_word_of_nat_u64) simp
  with r show "\<exists>len. read_uvarint bs = Some (len, q) \<and> \<not> len > cap \<and> n = unat len"
    by (intro exI [of _ "word_of_nat n"]) (auto simp: uvarint_codec.dec_enc count_cap)
qed

lemma pure_blob_iff:
  "pure_blob bs = Some (sv, r) \<longleftrightarrow>
     length sv \<le> unat kMaxFieldBytes \<and> bs = put_uvarint (word_of_nat (length sv)) [] @ sv @ r"
proof -
  have "pure_blob bs = Some (sv, r) \<longleftrightarrow>
      (\<exists>len q. read_uvarint bs = Some (len, q) \<and> \<not> len > kMaxFieldBytes \<and> length sv = unat len \<and>
         q = sv @ r)"
    by (auto simp: pure_blob_def not_less split: option.splits if_splits)
  also have "\<dots> \<longleftrightarrow> (\<exists>len. read_uvarint bs = Some (len, sv @ r) \<and> \<not> len > kMaxFieldBytes \<and>
      length sv = unat len)" by blast
  also have "\<dots> \<longleftrightarrow> length sv \<le> unat kMaxFieldBytes \<and>
      bs = put_uvarint (word_of_nat (length sv)) [] @ sv @ r"
    by (rule counted_iff) (simp add: cap_values)
  finally show ?thesis .
qed

lemma pure_prim_iff:
  "primitive_kind k \<Longrightarrow>
   pure_prim k bs = Some (c, r) \<longleftrightarrow> exact_prim k c \<and> bs = cell_bytes c @ r"
proof (cases k)
  case KInt
  then show ?thesis
    by (cases c) (auto simp: pure_prim_def zigzag_codec.dec_iff zigzag_codec.dec_enc)
next
  case KFloat
  then show ?thesis
    by (cases c) (auto simp: pure_prim_def f64_codec.dec_iff f64_codec.dec_enc)
next
  case KText
  then have "pure_prim k bs = Some (c, r) \<longleftrightarrow>
      (\<exists>sv. c = CText sv \<and> valid_utf8 sv \<and> pure_blob bs = Some (sv, r))"
    by (auto simp: pure_prim_def split: option.splits if_splits)
  with KText show ?thesis by (cases c) (auto simp: pure_blob_iff)
next
  case KBool
  have b: "\<not> b > 1 \<longleftrightarrow> b = 0 \<or> b = 1" for b :: u8
  proof
    assume "\<not> b > 1"
    then have "unat b = unat (0 :: u8) \<or> unat b = unat (1 :: u8)" unfolding u8_less_2 by auto
    then show "b = 0 \<or> b = 1" using unat_eqI by blast
  qed auto
  have "pure_prim k bs = Some (c, r) \<longleftrightarrow>
      (\<exists>b. \<not> b > 1 \<and> c = CBool (b \<noteq> 0) \<and> read_u8 bs = Some (b, r))"
    using KBool by (auto simp: pure_prim_def split: option.splits if_splits)
  also have "\<dots> \<longleftrightarrow>
      c = CBool False \<and> read_u8 bs = Some (0, r) \<or> c = CBool True \<and> read_u8 bs = Some (1, r)"
    (is "?L \<longleftrightarrow> ?R")
  proof
    assume ?L
    then obtain b where "b = 0 \<or> b = 1" "c = CBool (b \<noteq> 0)" "read_u8 bs = Some (b, r)"
      unfolding b by blast
    then show ?R by (elim disjE) simp_all
  next
    assume ?R
    then show ?L unfolding b by (elim disjE) (rule exI [of _ 0], simp, rule exI [of _ 1], simp)
  qed
  also have "\<dots> \<longleftrightarrow> exact_prim k c \<and> bs = cell_bytes c @ r"
    unfolding u8_codec.dec_iff using KBool by (cases c) auto
  finally show ?thesis .
next
  case KBytes
  then have "pure_prim k bs = Some (c, r) \<longleftrightarrow>
      (\<exists>sv. c = CBytes (map byte_of sv) \<and> pure_blob bs = Some (sv, r))"
    by (auto simp: pure_prim_def)
  also have "\<dots> \<longleftrightarrow> (\<exists>b. c = CBytes b \<and> pure_blob bs = Some (map chr b, r))"
  proof -
    have "map chr (map byte_of sv) = sv" "map byte_of (map chr b) = b" for sv b
      by (simp_all add: map_idI)
    then show ?thesis by metis
  qed
  finally show ?thesis using KBytes by (cases c) (auto simp: pure_blob_iff)
qed (simp_all add: primitive_kind_def)

lemma take_bytes_iff: "take_bytes n bs = Some (m, q) \<longleftrightarrow> bs = m @ q \<and> length m = n"
  by (auto simp: take_bytes_def)

text \<open>The bitmask bytes and the presence flags determine each other.\<close>

lemma mask_flags_iff:
  assumes "length ps = n"
  shows "length m = (n + 7) div 8 \<and> \<not> mask_padding n m \<and> ps = map (mask_present m) [0..<n] \<longleftrightarrow>
    m = mask_of ps"
  using assms mask_of_present [of m n] present_mask_of [of ps] mask_of_no_padding [of ps]
  by (metis length_mask_of)

lemma slots_of_Value: "length xs = length (s_fields s) \<Longrightarrow> slots_of (Value s xs) = xs"
  using slots_of_aligned [of "Value s xs"] by (simp add: aligned_def)

lemma pure_codec:
  shows "pure_body s depth bs = Some (v, r) \<longleftrightarrow> exact_value s depth v \<and> bs = value_bytes v @ r"
    and "pure_fields fs i msk depth bs = Some (xs, r) \<longleftrightarrow>
      list_all2 (slot_exact depth) fs xs \<and>
      map (\<lambda>x. x \<noteq> None) xs = map (mask_present msk) [i..<i + length fs] \<and>
      bs = concat (map opt_bytes xs) @ r"
    and "pure_value t depth bs = Some (c, r) \<longleftrightarrow> exact_cell t depth c \<and> bs = cell_bytes c @ r"
    and "pure_items el left depth bs = Some (cs, r) \<longleftrightarrow>
      length cs = left \<and> (\<forall>x \<in> set cs. exact_cell el depth x) \<and> bs = concat (map cell_bytes cs) @ r"
proof (induction s depth bs and fs i msk depth bs and t depth bs and el left depth bs
    arbitrary: v r and xs r and c r and cs r
    rule: pure_body_pure_fields_pure_value_pure_items.induct)
  case (1 s depth bs)
  let ?n = "length (s_fields s)"
  show ?case
  proof (cases "depth > kMaxBinaryDepth")
    case True
    then show ?thesis by (simp add: exact_value_slots)
  next
    case False
    have IH: "pure_fields (s_fields s) 0 m depth q = Some (xs, r) \<longleftrightarrow>
        list_all2 (slot_exact depth) (s_fields s) xs \<and>
        map (\<lambda>x. x \<noteq> None) xs = map (mask_present m) [0..<?n] \<and> q = concat (map opt_bytes xs) @ r"
      if "take_bytes ((?n + 7) div 8) bs = Some (m, q)" "\<not> mask_padding ?n m" for m q xs r
      using "1.IH" [OF False that(1) refl that(2)] by simp
    have flags: "length m = (?n + 7) div 8 \<and> \<not> mask_padding ?n m \<and>
        map (\<lambda>x. x \<noteq> None) xs = map (mask_present m) [0..<?n] \<longleftrightarrow> m = mask_of (map (\<lambda>x. x \<noteq> None) xs)"
      if "list_all2 (slot_exact depth) (s_fields s) xs" for m xs
      by (rule mask_flags_iff) (use list_all2_lengthD [OF that] in simp)
    have "pure_body s depth bs = Some (v, r) \<longleftrightarrow>
        (\<exists>m q xs. take_bytes ((?n + 7) div 8) bs = Some (m, q) \<and> \<not> mask_padding ?n m \<and>
           pure_fields (s_fields s) 0 m depth q = Some (xs, r) \<and> v = Value s xs)"
      using False by (auto split: option.splits if_splits)
    also have "\<dots> \<longleftrightarrow>
        (\<exists>m q xs. take_bytes ((?n + 7) div 8) bs = Some (m, q) \<and> \<not> mask_padding ?n m \<and>
           (list_all2 (slot_exact depth) (s_fields s) xs \<and>
            map (\<lambda>x. x \<noteq> None) xs = map (mask_present m) [0..<?n] \<and>
            q = concat (map opt_bytes xs) @ r) \<and> v = Value s xs)"
      using IH by blast
    also have "\<dots> \<longleftrightarrow>
        (\<exists>m xs. list_all2 (slot_exact depth) (s_fields s) xs \<and>
           (length m = (?n + 7) div 8 \<and> \<not> mask_padding ?n m \<and>
            map (\<lambda>x. x \<noteq> None) xs = map (mask_present m) [0..<?n]) \<and>
           bs = m @ concat (map opt_bytes xs) @ r \<and> v = Value s xs)"
      unfolding take_bytes_iff by auto
    also have "\<dots> \<longleftrightarrow>
        (\<exists>m xs. list_all2 (slot_exact depth) (s_fields s) xs \<and> m = mask_of (map (\<lambda>x. x \<noteq> None) xs) \<and>
           bs = m @ concat (map opt_bytes xs) @ r \<and> v = Value s xs)"
      using flags by blast
    also have "\<dots> \<longleftrightarrow> exact_value s depth v \<and> bs = value_bytes v @ r"
      using False
      by (cases v) (auto simp: exact_value_slots value_bytes_slots slots_of_Value
          dest: list_all2_lengthD)
    finally show ?thesis .
  qed
next
  case (2 i msk depth bs)
  then show ?case by auto
next
  case (3 f fs i msk depth bs)
  show ?case
  proof (cases "mask_present msk i")
    case False
    have "pure_fields (f # fs) i msk depth bs = Some (xs, r) \<longleftrightarrow>
        (\<exists>ys. pure_fields fs (Suc i) msk depth bs = Some (ys, r) \<and> xs = None # ys)"
      using False by auto
    then show ?thesis
      using False "3.IH"(1) [OF False]
      by (cases xs) (auto simp: upt_conv_Cons simp del: upt_Suc)
  next
    case True
    have "pure_fields (f # fs) i msk depth bs = Some (xs, r) \<longleftrightarrow>
        (\<exists>c q ys. pure_value (f_type f) depth bs = Some (c, q) \<and>
           pure_fields fs (Suc i) msk depth q = Some (ys, r) \<and> xs = Some c # ys)"
      using True by (auto split: option.splits)
    also have "\<dots> \<longleftrightarrow>
        (\<exists>c q ys. (exact_cell (f_type f) depth c \<and> bs = cell_bytes c @ q) \<and>
           pure_fields fs (Suc i) msk depth q = Some (ys, r) \<and> xs = Some c # ys)"
      using "3.IH"(2) True by blast
    also have "\<dots> \<longleftrightarrow>
        (\<exists>c q ys. (exact_cell (f_type f) depth c \<and> bs = cell_bytes c @ q) \<and>
           (list_all2 (slot_exact depth) fs ys \<and>
            map (\<lambda>x. x \<noteq> None) ys = map (mask_present msk) [Suc i..<Suc i + length fs] \<and>
            q = concat (map opt_bytes ys) @ r) \<and> xs = Some c # ys)"
      using "3.IH"(2,3) True by (metis (no_types, lifting))
    also have "\<dots> \<longleftrightarrow> list_all2 (slot_exact depth) (f # fs) xs \<and>
        map (\<lambda>x. x \<noteq> None) xs = map (mask_present msk) [i..<i + length (f # fs)] \<and>
        bs = concat (map opt_bytes xs) @ r"
      using True by (cases xs) (auto simp: upt_conv_Cons simp del: upt_Suc)
    finally show ?thesis .
  qed
next
  case (4 k m e depth bs)
  show ?case
  proof (cases "depth > kMaxBinaryDepth")
    case True
    then show ?thesis by simp
  next
    case False
    consider (msg) "k = KMessage" | (lst) "k = KList" | (prim) "primitive_kind k"
      by (auto simp: primitive_kind_def)
    then show ?thesis
    proof cases
      case msg
      show ?thesis
      proof (cases m)
        case None
        then show ?thesis using msg False by (auto split: cell.splits option.splits)
      next
        case (Some s)
        have "pure_value (TypeRef k m e) depth bs = Some (c, r) \<longleftrightarrow>
            (\<exists>v. pure_body s (depth + 1) bs = Some (v, r) \<and> c = CMessage (Some v))"
          using msg Some False by (auto simp del: pure_body.simps)
        then show ?thesis
          using "4.IH"(1) [OF False msg Some] msg Some False
          by (auto simp del: pure_body.simps split: cell.splits option.splits)
      qed
    next
      case lst
      show ?thesis
      proof (cases e)
        case None
        then show ?thesis using lst False by (auto split: cell.splits option.splits if_splits)
      next
        case (Some el)
        have "pure_value (TypeRef k m e) depth bs = Some (c, r) \<longleftrightarrow>
            (\<exists>count q cs. read_uvarint bs = Some (count, q) \<and> \<not> count > kMaxListCount \<and>
               pure_items el (unat count) (depth + 1) q = Some (cs, r) \<and> c = CList cs)"
          using lst Some False by (auto split: option.splits if_splits)
        also have "\<dots> \<longleftrightarrow>
            (\<exists>count q cs. read_uvarint bs = Some (count, q) \<and> \<not> count > kMaxListCount \<and>
               (length cs = unat count \<and> (\<forall>x \<in> set cs. exact_cell el (depth + 1) x) \<and>
                q = concat (map cell_bytes cs) @ r) \<and> c = CList cs)"
          using "4.IH"(2) [OF False lst _ refl _ Some] by blast
        also have "\<dots> \<longleftrightarrow>
            (\<exists>cs. (\<exists>count. read_uvarint bs = Some (count, concat (map cell_bytes cs) @ r) \<and>
                \<not> count > kMaxListCount \<and> length cs = unat count) \<and>
              (\<forall>x \<in> set cs. exact_cell el (depth + 1) x) \<and> c = CList cs)"
          by blast
        also have "\<dots> \<longleftrightarrow> exact_cell (TypeRef k m e) depth c \<and> bs = cell_bytes c @ r"
          unfolding counted_iff [of kMaxListCount, simplified cap_values, simplified]
          using lst Some False by (cases c) (auto simp: cap_values)
        finally show ?thesis .
      qed
    next
      case prim
      then show ?thesis
        using False pure_prim_iff [OF prim, of bs c r] by (cases k) (auto simp: primitive_kind_def)
    qed
  qed
next
  case (5 el depth bs)
  then show ?case by auto
next
  case (6 el left depth bs)
  have "pure_items el (Suc left) depth bs = Some (cs, r) \<longleftrightarrow>
      (\<exists>c q ys. pure_value el depth bs = Some (c, q) \<and> pure_items el left depth q = Some (ys, r) \<and>
         cs = c # ys)"
    by (auto split: option.splits)
  also have "\<dots> \<longleftrightarrow>
      (\<exists>c q ys. (exact_cell el depth c \<and> bs = cell_bytes c @ q) \<and>
         (length ys = left \<and> (\<forall>x \<in> set ys. exact_cell el depth x) \<and>
          q = concat (map cell_bytes ys) @ r) \<and> cs = c # ys)"
    using "6.IH" by (metis (no_types, lifting))
  also have "\<dots> \<longleftrightarrow> length cs = Suc left \<and> (\<forall>x \<in> set cs. exact_cell el depth x) \<and>
      bs = concat (map cell_bytes cs) @ r"
    by (cases cs) auto
  finally show ?case .
qed

declare pure_body.simps [simp del] dec_body.simps [simp del]

interpretation body_codec: wire_codec value_bytes "pure_body s depth" "exact_value s depth" for s depth
  by unfold_locales (simp_all add: pure_codec(1))

lemma cell_encodable_nested:
  "cell_encodable (CMessage m) t \<longleftrightarrow> tr_kind t = KMessage \<and> (\<exists>v. m = Some v \<and> value_encodable v)"
  "cell_encodable (CList arr) t \<longleftrightarrow>
     tr_kind t = KList \<and> (\<exists>el. tr_element t = Some el \<and> (\<forall>x \<in> set arr. cell_encodable x el))"
  by (auto simp: cell_encodable.simps [of "CMessage m" t] cell_encodable.simps [of "CList arr" t]
      split: option.splits)

lemma exact_encodable:
  shows "exact_cell t depth c \<Longrightarrow> cell_encodable c t"
    and "exact_value s depth v \<Longrightarrow> value_encodable v"
proof (induction t depth c and s depth v rule: exact_cell_exact_value.induct)
  case (1 k m e depth c)
  have kind: "exact_prim k c \<Longrightarrow> cell_kind c = k \<and> primitive_kind k"
    by (cases k; cases c) (simp_all add: primitive_kind_def)
  show ?case
  proof (cases "k = KMessage \<or> k = KList")
    case True
    with 1 show ?thesis
      by (auto simp: cell_encodable_nested split: cell.splits option.splits)
  next
    case False
    then have "exact_prim k c" using "1.prems" by (cases k) auto
    then have "cell_kind c = k" "primitive_kind k" using kind by blast+
    then show ?thesis
      by (cases c) (simp_all add: cell_encodable.simps primitive_kind_def)
  qed
next
  case (2 s depth v)
  have "slots_of v = v_slots v" using exact_value_aligned [OF "2.prems"] by (rule slots_of_aligned)
  moreover have "v_schema v = s" using "2.prems" by (simp add: exact_value_slots)
  ultimately show ?case
    using 2 by (auto simp: exact_value.simps value_encodable.simps split: option.splits)
qed

text \<open>The whole body, read from a fresh decoder as \<open>admit_against\<close> does.\<close>

definition fresh_decoder :: "string \<Rightarrow> bin_decoder" where
  "fresh_decoder bs = \<lparr>bd_rest = bs, bd_errs = [], bd_fatal = False\<rparr>"

lemma dec_body_fresh:
  assumes "wf_schema s"
  shows "(\<exists>v r. exact_value s 0 v \<and> bs = value_bytes v @ r \<and>
            dec_body s (empty_value s) [] 0 (fresh_decoder bs) = (v, fresh_decoder r)) \<or>
         (\<nexists>v r. exact_value s 0 v \<and> bs = value_bytes v @ r) \<and>
         (\<exists>e. bd_errs (snd (dec_body s (empty_value s) [] 0 (fresh_decoder bs))) = [e] \<and>
              e_actual e = ''binary'') \<and>
         bd_fatal (snd (dec_body s (empty_value s) [] 0 (fresh_decoder bs)))"
proof -
  have agrees: "body_agrees (fresh_decoder bs) (pure_body s 0 bs)
      (dec_body s (empty_value s) [] 0 (fresh_decoder bs))"
    using dec_refines(1) [of "fresh_decoder bs" s "empty_value s" 0 "[]"] assms
    by (simp add: fresh_decoder_def)
  show ?thesis
  proof (cases "pure_body s 0 bs")
    case None
    then have "\<nexists>v r. exact_value s 0 v \<and> bs = value_bytes v @ r"
      by (metis body_codec.dec_enc option.distinct(1))
    with None agrees show ?thesis
      by (auto simp: body_agrees_def dec_failed_def fresh_decoder_def)
  next
    case (Some p)
    obtain v r where "p = (v, r)" by (cases p)
    with Some have "exact_value s 0 v \<and> bs = value_bytes v @ r" by (simp add: body_codec.dec_iff)
    moreover have "dec_body s (empty_value s) [] 0 (fresh_decoder bs) = (v, fresh_decoder r)"
      using Some agrees \<open>p = (v, r)\<close> by (simp add: body_agrees_def fresh_decoder_def)
    ultimately show ?thesis by blast
  qed
qed

end
