(* ===== verification/Zen_Compat.thy ===== *)
theory Zen_Compat
  imports Zen_Native_Codec Zen_Json Zen_Base64
begin

text \<open>
  The compatibility (JSON) codec of \<open>src/serialize.cpp\<close>: its number and content-id helpers, the
  encoder \<open>json_encode_cell\<close> / \<open>json_encode_fields\<close>, and the strict \<open>JsonDecoder\<close>, whose error vector
  is threaded through. The \<open>std::from_chars\<close> / \<open>std::to_chars\<close> calls on integers are written out; the
  two on \<open>double\<close> are the parameters \<open>fc\<close> (\<open>None\<close> unless the whole text is consumed without error) and
  \<open>tc\<close>.
\<close>

section \<open>Helpers\<close>

definition digits_value :: "string \<Rightarrow> nat" where
  "digits_value ds = foldl (\<lambda>n c. 10 * n + (unat (byte_of c) - 48)) 0 ds"

definition json_parse_int64 :: "string \<Rightarrow> i64 option" where
  "json_parse_int64 text =
     (if text = [] then None
      else
        let neg = (hd text = CHR ''-''); ds = (if neg then tl text else text) in
        if ds = [] \<or> \<not> list_all is_digit ds then None
        else
          let v = (if neg then - int (digits_value ds) else int (digits_value ds)) in
          if - (2 ^ 63) \<le> v \<and> v < 2 ^ 63 then Some (word_of_int v) else None)"

definition json_parse_double :: "(string \<Rightarrow> f64 option) \<Rightarrow> string \<Rightarrow> f64 option" where
  "json_parse_double fc text = (if text = [] then None else fc text)"

definition json_parse_u32 :: "string \<Rightarrow> u32 option" where
  "json_parse_u32 text =
     (if text = [] \<or> \<not> list_all is_digit text then None
      else if digits_value text < 2 ^ 32 then Some (word_of_nat (digits_value text)) else None)"

fun content_id_loop :: "string \<Rightarrow> u64 \<Rightarrow> u64 option" where
  "content_id_loop [] v = Some v"
| "content_id_loop (ch # text) v =
     (let v' = push_bit 4 v; n = unat (byte_of ch) in
      if 48 \<le> n \<and> n \<le> 57 then content_id_loop text (v' OR word_of_nat (n - 48))
      else if 97 \<le> n \<and> n \<le> 102 then content_id_loop text (v' OR word_of_nat (n - 97 + 10))
      else if 65 \<le> n \<and> n \<le> 70 then content_id_loop text (v' OR word_of_nat (n - 65 + 10))
      else None)"

definition json_parse_content_id :: "string \<Rightarrow> u64 option" where
  "json_parse_content_id text0 =
     (let text = (if length text0 \<ge> 2 \<and> text0 ! 0 = CHR ''0'' \<and>
                      (text0 ! 1 = CHR ''x'' \<or> text0 ! 1 = CHR ''X'')
                  then drop 2 text0 else text0) in
      if text = [] \<or> length text > 16 then None else content_id_loop text 0)"

definition format_content_id :: "u64 \<Rightarrow> string" where
  "format_content_id cid =
     ''0x'' @ map (\<lambda>i. kHex ! unat (drop_bit (60 - 4 * i) cid AND 0xF)) [0..<16]"

fun json_type_name :: "json \<Rightarrow> string" where
  "json_type_name JNull = ''json:null''"
| "json_type_name (JBool _) = ''json:bool''"
| "json_type_name (JNumber _) = ''json:number''"
| "json_type_name (JString _) = ''json:string''"
| "json_type_name (JArray _) = ''json:array''"
| "json_type_name (JObject _) = ''json:object''"

section \<open>Encoder\<close>

definition int_to_chars :: "i64 \<Rightarrow> string" where
  "int_to_chars v =
     (if sint v < 0 then ''-'' @ to_string (nat (- sint v)) else to_string (nat (sint v)))"

definition json_encode_int :: "i64 \<Rightarrow> string \<Rightarrow> string" where
  "json_encode_int v out = out @ [quote_ch] @ int_to_chars v @ [quote_ch]"

definition is_inf_bits :: "f64 \<Rightarrow> bool" where
  "is_inf_bits bits \<longleftrightarrow> bits AND 0x7FFFFFFFFFFFFFFF = 0x7FF0000000000000"

definition json_encode_float :: "(f64 \<Rightarrow> string) \<Rightarrow> f64 \<Rightarrow> string \<Rightarrow> string" where
  "json_encode_float tc v out =
     (if is_nan_bits v then out @ [quote_ch] @ ''NaN'' @ [quote_ch]
      else if is_inf_bits v then
        out @ [quote_ch] @ (if bit v 63 then ''-Infinity'' else ''Infinity'') @ [quote_ch]
      else out @ tc v)"

function (sequential) json_encode_fields :: "(f64 \<Rightarrow> string) \<Rightarrow> zvalue \<Rightarrow> string \<Rightarrow> string"
and json_encode_field_loop ::
  "(f64 \<Rightarrow> string) \<Rightarrow> zvalue \<Rightarrow> field list \<Rightarrow> nat \<Rightarrow> bool \<Rightarrow> string \<Rightarrow> string"
and json_encode_cell :: "(f64 \<Rightarrow> string) \<Rightarrow> cell \<Rightarrow> string \<Rightarrow> string"
and json_encode_items :: "(f64 \<Rightarrow> string) \<Rightarrow> cell list \<Rightarrow> bool \<Rightarrow> string \<Rightarrow> string" where
  "json_encode_fields tc v out =
     json_encode_field_loop tc v (s_fields (v_schema v)) 0 True (out @ ''{'') @ ''}''"
| "json_encode_field_loop tc v [] i is_first out = out"
| "json_encode_field_loop tc v (f # fs) i is_first out =
     (case value_at v i of
        None \<Rightarrow> json_encode_field_loop tc v fs (Suc i) is_first out
      | Some c \<Rightarrow>
          json_encode_field_loop tc v fs (Suc i) False
            (json_encode_cell tc c
              (json_quote (f_name f) (if is_first then out else out @ '','') @ '':'')))"
| "json_encode_cell tc (CInt i) out = json_encode_int i out"
| "json_encode_cell tc (CFloat d) out = json_encode_float tc d out"
| "json_encode_cell tc (CText s) out = json_quote s out"
| "json_encode_cell tc (CBool b) out = out @ (if b then ''true'' else ''false'')"
| "json_encode_cell tc (CBytes b) out = json_quote (base64_encode b) out"
| "json_encode_cell tc (CMessage None) out = out @ ''null''"
| "json_encode_cell tc (CMessage (Some v)) out = json_encode_fields tc v out"
| "json_encode_cell tc (CList arr) out = json_encode_items tc arr True (out @ ''['') @ '']''"
| "json_encode_items tc [] is_first out = out"
| "json_encode_items tc (c # cs) is_first out =
     json_encode_items tc cs False (json_encode_cell tc c (if is_first then out else out @ '',''))"
  by pat_completeness auto
termination
  by (relation "measures
      [\<lambda>x. case x of
          Inl (Inl (tc, v, out)) \<Rightarrow> size v
        | Inl (Inr (tc, v, fs, i, b, out)) \<Rightarrow> size v
        | Inr (Inl (tc, c, out)) \<Rightarrow> size c
        | Inr (Inr (tc, cs, b, out)) \<Rightarrow> size_list size cs,
       \<lambda>x. case x of
          Inl (Inl (tc, v, out)) \<Rightarrow> Suc (length (s_fields (v_schema v)))
        | Inl (Inr (tc, v, fs, i, b, out)) \<Rightarrow> length fs
        | _ \<Rightarrow> 0]")
     (auto simp: termination_simp)

section \<open>Decoder\<close>

text \<open>\<open>stop()\<close>, and the first loop of \<open>fields\<close>: members the door does not declare.\<close>

definition jd_stop :: "bool \<Rightarrow> zerror list \<Rightarrow> bool" where
  "jd_stop collect es \<longleftrightarrow> \<not> collect \<and> es \<noteq> []"

fun jd_unknown ::
  "bool \<Rightarrow> (string \<times> json) list \<Rightarrow> schema \<Rightarrow> string \<Rightarrow> zerror list \<Rightarrow> zerror list" where
  "jd_unknown collect [] door base es = es"
| "jd_unknown collect ((k, v) # ms) door base es =
     (if jd_stop collect es then es
      else
        jd_unknown collect ms door base
          (if schema_find door k = None
           then es @ [mk_error UnknownField (join_path base k) ''(a declared field)'' k
                  ''the door does not declare this field'']
           else es))"

definition jd_float ::
  "(string \<Rightarrow> f64 option) \<Rightarrow> json \<Rightarrow> string \<Rightarrow> zerror list \<Rightarrow> cell option \<times> zerror list" where
  "jd_float fc node path es =
     (case node of
        JNumber text \<Rightarrow>
          (case json_parse_double fc text of
             None \<Rightarrow>
               (None, es @ [mk_error MalformedField path ''Float'' ''json:number'' ''unparseable number''])
           | Some d \<Rightarrow> (Some (CFloat d), es))
      | JString text \<Rightarrow>
          if text = ''NaN'' then (Some (CFloat 0x7FF8000000000000), es)
          else if text = ''Infinity'' then (Some (CFloat 0x7FF0000000000000), es)
          else if text = ''-Infinity'' then (Some (CFloat 0xFFF0000000000000), es)
          else (None, es @ [mk_error MalformedField path ''Float'' ''json:string''
                  ''not a number or NaN/Infinity token''])
      | _ \<Rightarrow> (None, es @ [mk_error TypeMismatch path ''Float'' (json_type_name node) []]))"

text \<open>The primitive kinds of \<open>JsonDecoder::cell\<close>.\<close>

definition jd_prim ::
  "(string \<Rightarrow> f64 option) \<Rightarrow> kind \<Rightarrow> json \<Rightarrow> string \<Rightarrow> zerror list \<Rightarrow> cell option \<times> zerror list" where
  "jd_prim fc k node path es =
     (let mismatch = (None, es @ [mk_error TypeMismatch path (name_of_kind k) (json_type_name node) []])
      in case k of
        KInt \<Rightarrow>
          (case node of
             JString text \<Rightarrow>
               (case json_parse_int64 text of
                  None \<Rightarrow> (None, es @ [mk_error MalformedField path ''Int'' ''json:string''
                            ''not a base-10 64-bit integer''])
                | Some v \<Rightarrow> (Some (CInt v), es))
           | _ \<Rightarrow> mismatch)
      | KFloat \<Rightarrow> jd_float fc node path es
      | KText \<Rightarrow>
          (case node of
             JString text \<Rightarrow>
               if \<not> valid_utf8 text
               then (None, es @ [mk_error MalformedField path ''Text'' ''json:string'' ''invalid UTF-8''])
               else (Some (CText text), es)
           | _ \<Rightarrow> mismatch)
      | KBool \<Rightarrow> (case node of JBool b \<Rightarrow> (Some (CBool b), es) | _ \<Rightarrow> mismatch)
      | KBytes \<Rightarrow>
          (case node of
             JString text \<Rightarrow>
               (case base64_decode text of
                  None \<Rightarrow> (None, es @ [mk_error MalformedField path ''Bytes'' ''json:string'' ''invalid base64''])
                | Some b \<Rightarrow> (Some (CBytes b), es))
           | _ \<Rightarrow> mismatch)
      | _ \<Rightarrow> (None, es))"

function (sequential) jd_fields ::
  "(string \<Rightarrow> f64 option) \<Rightarrow> bool \<Rightarrow> json \<Rightarrow> schema \<Rightarrow> zvalue \<Rightarrow> string \<Rightarrow> zerror list \<Rightarrow>
   zvalue \<times> zerror list"
and jd_known ::
  "(string \<Rightarrow> f64 option) \<Rightarrow> bool \<Rightarrow> json \<Rightarrow> field list \<Rightarrow> zvalue \<Rightarrow> string \<Rightarrow> zerror list \<Rightarrow>
   zvalue \<times> zerror list"
and jd_cell ::
  "(string \<Rightarrow> f64 option) \<Rightarrow> bool \<Rightarrow> json \<Rightarrow> typeref \<Rightarrow> string \<Rightarrow> zerror list \<Rightarrow>
   cell option \<times> zerror list"
and jd_items ::
  "(string \<Rightarrow> f64 option) \<Rightarrow> bool \<Rightarrow> json list \<Rightarrow> nat \<Rightarrow> typeref \<Rightarrow> cell list \<Rightarrow> string \<Rightarrow>
   zerror list \<Rightarrow> cell list \<times> zerror list"
where
  "jd_fields fc collect obj door out base es =
     (let es' = jd_unknown collect (json_members obj) door base es in
      if jd_stop collect es' then (out, es')
      else jd_known fc collect obj (s_fields door) out base es')"
| "jd_known fc collect obj [] out base es = (out, es)"
| "jd_known fc collect obj (f # fs) out base es =
     (if jd_stop collect es then (out, es)
      else
        case json_find obj (f_name f) of
          None \<Rightarrow> jd_known fc collect obj fs out base es
        | Some node \<Rightarrow>
            (case jd_cell fc collect node (f_type f) (join_path base (f_name f)) es of
               (c, es') \<Rightarrow>
                 jd_known fc collect obj fs
                   (case c of None \<Rightarrow> out | Some x \<Rightarrow> set_declared (f_name f) x out) base es'))"
| "jd_cell fc collect node (TypeRef k m e) path es =
     (if k = KMessage then
        (case node of
           JObject ms \<Rightarrow>
             (case m of
                None \<Rightarrow> (None, es)
              | Some s \<Rightarrow>
                  (case jd_fields fc collect node s (empty_value s) path es of
                     (nested, es') \<Rightarrow> (Some (CMessage (Some nested)), es')))
         | _ \<Rightarrow> (None, es @ [mk_error TypeMismatch path (type_label (TypeRef k m e))
                   (json_type_name node) []]))
      else if k = KList then
        (case node of
           JArray items \<Rightarrow>
             (case e of
                None \<Rightarrow> (None, es)
              | Some el \<Rightarrow>
                  (case jd_items fc collect items 0 el [] path es of
                     (arr, es') \<Rightarrow> (Some (CList arr), es')))
         | _ \<Rightarrow> (None, es @ [mk_error TypeMismatch path (type_label (TypeRef k m e))
                   (json_type_name node) []]))
      else jd_prim fc k node path es)"
| "jd_items fc collect [] i el arr path es = (arr, es)"
| "jd_items fc collect (x # xs) i el arr path es =
     (if jd_stop collect es then (arr, es)
      else
        case jd_cell fc collect x el (item_path path i) es of
          (c, es') \<Rightarrow>
            jd_items fc collect xs (Suc i) el (case c of None \<Rightarrow> arr | Some y \<Rightarrow> arr @ [y]) path es')"
  by pat_completeness auto
termination
  by (relation "measures
      [\<lambda>x. case x of
          Inl (Inl (fc, b, j, s, out, p, es)) \<Rightarrow> size s
        | Inl (Inr (fc, b, j, fs, out, p, es)) \<Rightarrow> size_list size fs
        | Inr (Inl (fc, b, j, t, p, es)) \<Rightarrow> size t
        | Inr (Inr (fc, b, xs, i, el, arr, p, es)) \<Rightarrow> size el,
       \<lambda>x. case x of Inr (Inr (fc, b, xs, i, el, arr, p, es)) \<Rightarrow> Suc (length xs) | _ \<Rightarrow> 0]")
     (auto simp: termination_simp intro: less_trans [OF size_f_type])

end
