(* ===== verification/Zen_Serialize.thy ===== *)
theory Zen_Serialize
  imports Zen_Compat Zen_Registry
begin

text \<open>
  The persistence gate of \<open>include/zen/serialize.hpp\<close> and \<open>src/serialize.cpp\<close>: the native envelope
  (\<open>serialize\<close>, \<open>parse\<close>), the JSON envelope (\<open>compat::serialize\<close>, \<open>compat::parse\<close>), the opaque
  \<open>Unverified\<close> between parsing and admission, and the two \<open>admit\<close> overloads, which decode under the
  claimed door and then run the one validator. The gate counter of \<open>validate_into\<close> is threaded
  through; \<open>fc\<close> and \<open>tc\<close> are the standard library's conversions of \<open>double\<close>.
\<close>

section \<open>Unverified\<close>

datatype wire_format = Native | Json

record unverified_impl =
  u_ok :: bool
  u_envelope_error :: zerror
  u_format :: wire_format
  u_name :: string
  u_version :: u32
  u_has_content_id :: bool
  u_content_id :: u64
  u_body :: string
  u_json_fields :: json

type_synonym unverified = "unverified_impl option"

definition new_impl :: "wire_format \<Rightarrow> unverified_impl" where
  "new_impl fmt =
     \<lparr>u_ok = False, u_envelope_error = mk_error MalformedBytes [] [] [] ''not parsed'',
      u_format = fmt, u_name = [], u_version = 0, u_has_content_id = False, u_content_id = 0,
      u_body = [], u_json_fields = JNull\<rparr>"

definition malformed :: "string \<Rightarrow> unverified_impl \<Rightarrow> unverified" where
  "malformed why impl =
     Some (impl\<lparr>u_ok := False, u_envelope_error := mk_error MalformedBytes [] [] [] why\<rparr>)"

definition well_formed :: "unverified \<Rightarrow> bool" where
  "well_formed u = (case u of None \<Rightarrow> False | Some impl \<Rightarrow> u_ok impl)"

definition claimed_name :: "unverified \<Rightarrow> string" where
  "claimed_name u = (case u of None \<Rightarrow> [] | Some impl \<Rightarrow> u_name impl)"

definition claimed_version :: "unverified \<Rightarrow> u32" where
  "claimed_version u = (case u of None \<Rightarrow> 0 | Some impl \<Rightarrow> u_version impl)"

section \<open>Native envelope\<close>

definition kBinMagic0 :: u8 where "kBinMagic0 = 0x5A"
definition kBinMagic1 :: u8 where "kBinMagic1 = 0x4E"
definition kBinFormatVersion :: u8 where "kBinFormatVersion = 1"

definition serialize :: "zvalue \<Rightarrow> string result" where
  "serialize v =
     (let s = v_schema v in
      if length (s_name s) > 0xFFFF
      then Inl (Invalid_argument ''serialize: schema name exceeds 65535 bytes'')
      else
        let out = put_u8 kBinFormatVersion (put_u8 kBinMagic1 (put_u8 kBinMagic0 []));
            out = put_u16le (word_of_nat (length (s_name s))) out @ s_name s;
            out = put_u64le (s_content_id s) (put_u32le (s_version s) out)
        in bin_encode_body v out)"

text \<open>\<open>parse\<close> in the order of the source: magic, format version, then the rest of the header.\<close>

definition header_done ::
  "string \<Rightarrow> u32 \<Rightarrow> u64 \<Rightarrow> string \<Rightarrow> unverified_impl \<Rightarrow> unverified_impl" where
  "header_done name ver cid body impl =
     impl\<lparr>u_name := name, u_version := ver, u_content_id := cid, u_has_content_id := True,
          u_body := body, u_ok := True\<rparr>"

definition parse_header :: "string \<Rightarrow> unverified_impl \<Rightarrow> unverified" where
  "parse_header r impl =
     (case read_u16le r of
        None \<Rightarrow> malformed ''truncated schema-name length'' impl
      | Some (name_len, r1) \<Rightarrow>
          (case take_bytes (unat name_len) r1 of
             None \<Rightarrow> malformed ''truncated schema name'' impl
           | Some (name, r2) \<Rightarrow>
               if \<not> valid_utf8 name then malformed ''schema name is not valid UTF-8'' impl
               else
                 (case read_u32le r2 of
                    None \<Rightarrow> malformed ''truncated schema version'' impl
                  | Some (ver, r3) \<Rightarrow>
                      (case read_u64le r3 of
                         None \<Rightarrow>
                           malformed ''truncated content id (mandatory in the native format)'' impl
                       | Some (cid, body) \<Rightarrow> Some (header_done name ver cid body impl)))))"

definition parse :: "string \<Rightarrow> unverified" where
  "parse bytes =
     (let impl = new_impl Native in
      case read_u8 bytes of
        None \<Rightarrow> malformed ''truncated magic'' impl
      | Some (m0, r0) \<Rightarrow>
          (case read_u8 r0 of
             None \<Rightarrow> malformed ''truncated magic'' impl
           | Some (m1, r1) \<Rightarrow>
               if m0 \<noteq> kBinMagic0 \<or> m1 \<noteq> kBinMagic1
               then malformed ''bad magic (not a Zen native value)'' impl
               else
                 (case read_u8 r1 of
                    None \<Rightarrow> malformed ''truncated format version'' impl
                  | Some (ver, r2) \<Rightarrow>
                      if ver \<noteq> kBinFormatVersion
                      then malformed ''unsupported native format version'' impl
                      else parse_header r2 impl)))"

section \<open>JSON envelope\<close>

definition kJsonEnvelopeVersion :: nat where "kJsonEnvelopeVersion = 1"

definition compat_serialize :: "(f64 \<Rightarrow> string) \<Rightarrow> zvalue \<Rightarrow> string" where
  "compat_serialize tc v =
     (let s = v_schema v; q = [quote_ch];
          out = ''{'' @ q @ ''zen'' @ q @ '':'' @ to_string kJsonEnvelopeVersion @
                '','' @ q @ ''schema'' @ q @ '':'';
          out = json_quote (s_name s) out @ '','' @ q @ ''version'' @ q @ '':'' @
                to_string (unat (s_version s)) @ '','' @ q @ ''content_id'' @ q @ '':'';
          out = json_quote (format_content_id (s_content_id s)) out @ '','' @ q @ ''fields'' @ q @ '':''
      in json_encode_fields tc v out @ ''}'')"

definition envelope_members :: "string list" where
  "envelope_members = [''zen'', ''schema'', ''version'', ''content_id'', ''fields'']"

abbreviation tick :: "string \<Rightarrow> string" where
  "tick s \<equiv> [CHR 39] @ s @ [CHR 39]"

text \<open>The strict-envelope loop: the first member outside the known set.\<close>

fun unknown_member :: "(string \<times> json) list \<Rightarrow> string option" where
  "unknown_member [] = None"
| "unknown_member ((k, v) # ms) =
     (if k \<notin> set envelope_members then Some k else unknown_member ms)"

fun json_text :: "json \<Rightarrow> string" where
  "json_text (JNumber t) = t"
| "json_text (JString t) = t"
| "json_text _ = []"

definition is_number :: "json option \<Rightarrow> bool" where
  "is_number j = (case j of Some (JNumber _) \<Rightarrow> True | _ \<Rightarrow> False)"

definition is_string :: "json option \<Rightarrow> bool" where
  "is_string j = (case j of Some (JString _) \<Rightarrow> True | _ \<Rightarrow> False)"

definition is_object :: "json option \<Rightarrow> bool" where
  "is_object j = (case j of Some (JObject _) \<Rightarrow> True | _ \<Rightarrow> False)"

text \<open>The \<open>content_id\<close> member is optional; a present one must be a hex string.\<close>

definition compat_finish :: "json \<Rightarrow> u32 \<Rightarrow> unverified_impl \<Rightarrow> unverified" where
  "compat_finish root ver impl0 =
     (let impl = impl0\<lparr>u_name := json_text (the (json_find root ''schema'')), u_version := ver\<rparr>;
          done = (\<lambda>impl. Some (impl\<lparr>u_json_fields := the (json_find root ''fields''), u_ok := True\<rparr>))
      in case json_find root ''content_id'' of
           None \<Rightarrow> done impl
         | Some cid \<Rightarrow>
             (case (if is_string (Some cid) then json_parse_content_id (json_text cid) else None) of
                None \<Rightarrow> malformed (tick ''content_id'' @ '' is not a hex string'') impl
              | Some v \<Rightarrow> done (impl\<lparr>u_content_id := v, u_has_content_id := True\<rparr>)))"

definition compat_parse_root :: "json \<Rightarrow> unverified_impl \<Rightarrow> unverified" where
  "compat_parse_root root impl =
     (if \<not> is_object (Some root) then malformed ''top-level value is not an object'' impl
      else
        case unknown_member (json_members root) of
          Some k \<Rightarrow> malformed (''unknown envelope member '' @ tick k) impl
        | None \<Rightarrow>
            if \<not> is_number (json_find root ''zen'')
            then malformed (''missing or non-numeric '' @ tick ''zen'' @ '' envelope version'') impl
            else if json_parse_int64 (json_text (the (json_find root ''zen''))) \<noteq>
                Some (word_of_nat kJsonEnvelopeVersion)
            then malformed ''unsupported envelope version'' impl
            else if \<not> is_string (json_find root ''schema'')
            then malformed (''missing or non-string '' @ tick ''schema'') impl
            else if \<not> is_number (json_find root ''version'')
            then malformed (''missing or non-numeric '' @ tick ''version'') impl
            else
              (case json_parse_u32 (json_text (the (json_find root ''version''))) of
                 None \<Rightarrow> malformed (tick ''version'' @ '' is not a 32-bit unsigned integer'') impl
               | Some ver \<Rightarrow>
                   if \<not> is_object (json_find root ''fields'')
                   then malformed (''missing or non-object '' @ tick ''fields'') impl
                   else compat_finish root ver impl))"

text \<open>\<open>parse_json\<close> always returns (its fuel is enough), so the first branch is never taken.\<close>

definition compat_parse :: "string \<Rightarrow> unverified" where
  "compat_parse bytes =
     (let impl = new_impl Json in
      case parse_json bytes of
        None \<Rightarrow> malformed ''not valid JSON: '' impl
      | Some (Inl e) \<Rightarrow> malformed (''not valid JSON: '' @ e) impl
      | Some (Inr root) \<Rightarrow> compat_parse_root root impl)"

section \<open>The persistence gate\<close>

text \<open>The merge of the \<open>Full\<close> report: gate errors at paths the decoder already reported are dropped.\<close>

definition merge_errors :: "zerror list \<Rightarrow> zerror list \<Rightarrow> zerror list" where
  "merge_errors decode_errs verrs =
     decode_errs @ filter (\<lambda>e. e_path e \<notin> e_path ` set decode_errs) verrs"

definition finish ::
  "zvalue \<Rightarrow> zerror list \<Rightarrow> bool \<Rightarrow> schema \<Rightarrow> bool \<Rightarrow> u64 \<Rightarrow> admission \<times> u64" where
  "finish candidate decode_errs fatal door collect g =
     (if fatal then (reject decode_errs, g)
      else
        case validate_into candidate door collect g of
          (verrs, g') \<Rightarrow>
            if \<not> collect then
              (if decode_errs \<noteq> [] then (reject_one (hd decode_errs), g')
               else if verrs \<noteq> [] then (reject_one (hd verrs), g')
               else (accept candidate, g'))
            else
              let merged = merge_errors decode_errs verrs in
              if merged = [] then (accept candidate, g') else (reject merged, g'))"

definition admit_against ::
  "(string \<Rightarrow> f64 option) \<Rightarrow> unverified_impl \<Rightarrow> schema \<Rightarrow> bool \<Rightarrow> u64 \<Rightarrow> admission \<times> u64" where
  "admit_against fc impl door collect g =
     (if u_name impl \<noteq> s_name door \<or> u_version impl \<noteq> s_version door
      then (reject_one (mk_error SchemaMismatch [] (version_label door)
              (u_name impl @ '' v'' @ to_string (unat (u_version impl)))
              ''the bytes claim a different schema than this door''), g)
      else if u_has_content_id impl \<and> u_content_id impl \<noteq> s_content_id door
      then (reject_one (mk_error SchemaMismatch [] (format_content_id (s_content_id door))
              (format_content_id (u_content_id impl))
              ''the bytes were written against a different shape of this name and version''), g)
      else
        case u_format impl of
          Native \<Rightarrow>
            (case dec_body door (empty_value door) [] 0 (fresh_decoder (u_body impl)) of
               (candidate, d) \<Rightarrow>
                 let d' = (if \<not> bd_fatal d \<and> bd_rest d \<noteq> []
                           then dec_fail MalformedBytes [] [] ''trailing bytes after the value'' d
                           else d)
                 in finish candidate (bd_errs d') (bd_fatal d') door collect g)
        | Json \<Rightarrow>
            (case jd_fields fc collect (u_json_fields impl) door (empty_value door) [] [] of
               (candidate, decode_errs) \<Rightarrow> finish candidate decode_errs False door collect g))"

definition envelope_error_of :: "unverified \<Rightarrow> zerror" where
  "envelope_error_of u =
     (case u of
        Some impl \<Rightarrow> u_envelope_error impl
      | None \<Rightarrow> mk_error MalformedBytes [] [] [] ''empty'')"

definition admit_unverified ::
  "(string \<Rightarrow> f64 option) \<Rightarrow> unverified \<Rightarrow> schema option \<Rightarrow> report \<Rightarrow> u64 \<Rightarrow>
   admission result \<times> u64" where
  "admit_unverified fc u door_ptr r g =
     (case door_ptr of
        None \<Rightarrow> (Inl (Invalid_argument ''admit(Unverified, door): door must be non-null''), g)
      | Some door \<Rightarrow>
          if \<not> well_formed u then (Inr (reject_one (envelope_error_of u)), g)
          else map_prod Inr id (admit_against fc (the u) door (r = Full) g))"

definition admit_registry ::
  "(string \<Rightarrow> f64 option) \<Rightarrow> unverified \<Rightarrow> registry \<Rightarrow> report \<Rightarrow> u64 \<Rightarrow> admission \<times> u64" where
  "admit_registry fc u reg r g =
     (if \<not> well_formed u then (reject_one (envelope_error_of u), g)
      else
        let impl = the u in
        case reg_lookup reg (u_name impl) (u_version impl) of
          None \<Rightarrow>
            (reject_one (mk_error UnknownSchema []
               (u_name impl @ '' v'' @ to_string (unat (u_version impl))) []
               ''no such schema is registered''), g)
        | Some door \<Rightarrow> admit_against fc impl door (r = Full) g)"

section \<open>The native envelope, as a codec\<close>

definition native_header :: "string \<Rightarrow> u32 \<Rightarrow> u64 \<Rightarrow> string" where
  "native_header n ver cid =
     put_u8 kBinMagic0 [] @ put_u8 kBinMagic1 [] @ put_u8 kBinFormatVersion [] @
     put_u16le (word_of_nat (length n)) [] @ n @ put_u32le ver [] @ put_u64le cid []"

definition native_impl :: "string \<Rightarrow> u32 \<Rightarrow> u64 \<Rightarrow> string \<Rightarrow> unverified_impl" where
  "native_impl n ver cid body =
     header_done n ver cid body (new_impl Native)"

lemma serialize_header:
  "serialize v =
     (if length (s_name (v_schema v)) > 65535
      then Inl (Invalid_argument ''serialize: schema name exceeds 65535 bytes'')
      else bin_encode_body v (native_header (s_name (v_schema v)) (s_version (v_schema v))
             (s_content_id (v_schema v))))"
proof -
  have out: "put_u64le cid (put_u32le ver (put_u16le len (put_u8 kBinFormatVersion
      (put_u8 kBinMagic1 (put_u8 kBinMagic0 []))) @ n)) =
    put_u8 kBinMagic0 [] @ put_u8 kBinMagic1 [] @ put_u8 kBinFormatVersion [] @
    put_u16le len [] @ n @ put_u32le ver [] @ put_u64le cid []" for n ver cid len
    by (subst put_u64le_append, subst put_u32le_append, subst put_u16le_append)
       (simp add: put_u8_def)
  show ?thesis by (simp add: serialize_def Let_def out native_header_def)
qed

lemma serialize_encodable:
  "value_encodable v \<Longrightarrow> length (s_name (v_schema v)) \<le> 65535 \<Longrightarrow>
   serialize v = Inr (native_header (s_name (v_schema v)) (s_version (v_schema v))
     (s_content_id (v_schema v)) @ value_bytes v)"
  by (simp add: serialize_header bin_encode_correct(1) del: bin_encode_body.simps)

lemma unat_word_of_nat_u16: "n \<le> 65535 \<Longrightarrow> unat (word_of_nat n :: u16) = n"
  by (simp add: unsigned_of_nat take_bit_nat_eq_self)

lemma unat_u16_le: "unat (w :: u16) \<le> 65535"
proof -
  have "unat w < 2 ^ 16" using unsigned_less [of w] by simp
  then show ?thesis by simp
qed

lemma malformed_not_ok [dest]: "malformed why impl = Some i \<Longrightarrow> \<not> u_ok i"
  by (auto simp: malformed_def)

lemma header_done_sel [simp]:
  "u_name (header_done n ver cid body impl) = n" "u_version (header_done n ver cid body impl) = ver"
  "u_content_id (header_done n ver cid body impl) = cid"
  "u_has_content_id (header_done n ver cid body impl)" "u_body (header_done n ver cid body impl) = body"
  "u_ok (header_done n ver cid body impl)" "u_format (header_done n ver cid body impl) = u_format impl"
  by (simp_all add: header_done_def)

lemma new_impl_format [simp]: "u_format (new_impl f) = f"
  by (simp add: new_impl_def)

lemma well_formed_malformed [simp]: "\<not> well_formed (malformed why impl)"
  by (simp add: well_formed_def malformed_def)

lemma parse_header_iff:
  "parse_header r impl = Some i \<and> u_ok i \<longleftrightarrow>
     (\<exists>n ver cid b. length n \<le> 65535 \<and> valid_utf8 n \<and>
        r = put_u16le (word_of_nat (length n)) [] @ n @ put_u32le ver [] @ put_u64le cid [] @ b \<and>
        i = header_done n ver cid b impl)"
  (is "?L \<longleftrightarrow> ?R")
proof
  assume ?L
  then obtain len r1 n r2 ver r3 cid b where
    "read_u16le r = Some (len, r1)" "take_bytes (unat len) r1 = Some (n, r2)" "valid_utf8 n"
    "read_u32le r2 = Some (ver, r3)" "read_u64le r3 = Some (cid, b)"
    "i = header_done n ver cid b impl"
    by (auto simp: parse_header_def split: option.splits prod.splits if_splits)
  then show ?R
    using unat_u16_le [of len]
    by (intro exI [of _ n] exI [of _ ver] exI [of _ cid] exI [of _ b])
       (auto simp: u16_codec.dec_iff u32_codec.dec_iff u64_codec.dec_iff take_bytes_iff
          word_of_nat_unat)
next
  assume ?R
  then show ?L
    by (auto simp: parse_header_def u16_codec.dec_enc u32_codec.dec_enc u64_codec.dec_enc
        unat_word_of_nat_u16 take_bytes_def)
qed

lemma parse_iff:
  "parse bytes = Some i \<and> u_ok i \<longleftrightarrow>
     (\<exists>n ver cid b. length n \<le> 65535 \<and> valid_utf8 n \<and> bytes = native_header n ver cid @ b \<and>
        i = native_impl n ver cid b)"
proof -
  have "parse bytes = Some i \<and> u_ok i \<longleftrightarrow>
      (\<exists>r. bytes = put_u8 kBinMagic0 [] @ put_u8 kBinMagic1 [] @ put_u8 kBinFormatVersion [] @ r \<and>
         parse_header r (new_impl Native) = Some i \<and> u_ok i)" (is "?L \<longleftrightarrow> ?R")
  proof
    assume ?L
    then obtain m0 r0 m1 r1 v r where
      "read_u8 bytes = Some (m0, r0)" "read_u8 r0 = Some (m1, r1)" "read_u8 r1 = Some (v, r)"
      "m0 = kBinMagic0" "m1 = kBinMagic1" "v = kBinFormatVersion"
      "parse_header r (new_impl Native) = Some i" "u_ok i"
      by (auto simp: parse_def Let_def split: option.splits prod.splits if_splits)
    then show ?R by (auto simp: u8_codec.dec_iff)
  next
    assume ?R
    then show ?L by (auto simp: parse_def Let_def u8_codec.dec_enc)
  qed
  then show ?thesis
    unfolding parse_header_iff native_header_def native_impl_def append_assoc by blast
qed

lemma malformed_Some [simp]: "malformed why impl \<noteq> None"
  by (simp add: malformed_def)

lemma parse_header_Some: "parse_header r impl \<noteq> None"
  unfolding parse_header_def by (simp split: option.split del: not_None_eq)

lemma parse_Some: "parse bytes \<noteq> None"
  unfolding parse_def Let_def by (simp add: parse_header_Some split: option.split del: not_None_eq)

section \<open>What the persistence gate accepts\<close>

lemma accept_inject [simp]: "accept a = accept b \<longleftrightarrow> a = b"
  by (simp add: accept_def)

lemma reject_not_accept [simp]:
  "reject es \<noteq> accept v" "reject_one e \<noteq> accept v" "accept v \<noteq> reject es" "accept v \<noteq> reject_one e"
  by (simp_all add: reject_def reject_one_def accept_def)

lemma merge_errors_Nil: "merge_errors ds vs = [] \<longleftrightarrow> ds = [] \<and> vs = []"
  by (auto simp: merge_errors_def)

lemma finish_accepts:
  assumes "wf_schema door"
  shows "fst (finish c ds fatal door collect g) = accept v \<longleftrightarrow>
    \<not> fatal \<and> ds = [] \<and> v = c \<and> s_content_id (v_schema c) = s_content_id door \<and> value_conforms c door"
proof -
  have "fst (finish c ds fatal door collect g) = accept v \<longleftrightarrow>
      \<not> fatal \<and> ds = [] \<and> fst (validate_into c door collect g) = [] \<and> v = c"
    by (auto simp: finish_def case_prod_beta Let_def merge_errors_Nil)
  then show ?thesis using validate_into_Nil_iff [OF assms, of c collect g] by blast
qed

lemma finish_gate_count:
  "snd (finish c ds fatal door collect g) = (if fatal then g else g + 1)"
  by (simp add: finish_def case_prod_beta Let_def)

lemma finish_accept_or_reject:
  "(\<exists>v. fst (finish c ds fatal door collect g) = accept v) \<or>
   (\<exists>es. fst (finish c ds fatal door collect g) = reject es) \<or>
   (\<exists>e. fst (finish c ds fatal door collect g) = reject_one e)"
  by (simp add: finish_def case_prod_beta Let_def) blast

text \<open>The native branch of \<open>admit_against\<close>, on a claim that names the door.\<close>

lemma admit_against_native:
  fixes body :: string
  assumes "wf_schema door"
  defines "impl \<equiv> native_impl (s_name door) (s_version door) (s_content_id door) body"
  shows "fst (admit_against fc impl door collect g) = accept v \<longleftrightarrow>
      exact_value door 0 v \<and> body = value_bytes v \<and> value_conforms v door"
    and "snd (admit_against fc impl door collect g) =
      (if \<exists>v. exact_value door 0 v \<and> body = value_bytes v then g + 1 else g)"
proof -
  define res where "res = dec_body door (empty_value door) [] 0 (fresh_decoder body)"
  define d where "d = (if \<not> bd_fatal (snd res) \<and> bd_rest (snd res) \<noteq> []
      then dec_fail MalformedBytes [] [] ''trailing bytes after the value'' (snd res) else snd res)"
  have eq: "admit_against fc impl door collect g = finish (fst res) (bd_errs d) (bd_fatal d) door collect g"
    by (simp add: admit_against_def impl_def native_impl_def res_def d_def
        case_prod_beta Let_def)
  have key: "(\<exists>w. exact_value door 0 w \<and> body = value_bytes w \<and> fst res = w \<and> bd_errs d = [] \<and>
        \<not> bd_fatal d) \<or>
      (\<nexists>w. exact_value door 0 w \<and> body = value_bytes w) \<and> bd_fatal d"
    using dec_body_fresh [OF assms(1), of body]
  proof (elim disjE exE conjE)
    fix w r assume w: "exact_value door 0 w" "body = value_bytes w @ r"
      "dec_body door (empty_value door) [] 0 (fresh_decoder body) = (w, fresh_decoder r)"
    show ?thesis
    proof (cases "r = []")
      case True
      then show ?thesis using w by (simp add: res_def d_def fresh_decoder_def)
    next
      case False
      have "\<nexists>u. exact_value door 0 u \<and> body = value_bytes u"
        using w False body_codec.enc_inject [of door 0 w _ r "[]"] by auto
      then show ?thesis
        using w False by (simp add: res_def d_def fresh_decoder_def dec_fail_def)
    qed
  qed (auto simp: res_def d_def)
  have inj: "u = w" if "exact_value door 0 u" "exact_value door 0 w" "value_bytes u = value_bytes w" for u w
    using body_codec.enc_inject [OF that(1,2), of "[]" "[]"] that(3) by simp
  have sch: "v_schema w = door" if "exact_value door 0 w" for w
    using that by (simp add: exact_value_slots)
  show "fst (admit_against fc impl door collect g) = accept v \<longleftrightarrow>
      exact_value door 0 v \<and> body = value_bytes v \<and> value_conforms v door"
    unfolding eq finish_accepts [OF assms(1)] using key inj sch by metis
  show "snd (admit_against fc impl door collect g) =
      (if \<exists>v. exact_value door 0 v \<and> body = value_bytes v then g + 1 else g)"
    unfolding eq finish_gate_count using key by auto
qed

text \<open>A body that is no exact value's encoding is refused with a single error.\<close>

lemma native_single_error:
  assumes "wf_schema door" and "\<nexists>v. exact_value door 0 v \<and> body = value_bytes v"
    and "admit_against fc (native_impl (s_name door) (s_version door) (s_content_id door) body) door
      collect g = (a, g')"
  shows "\<exists>e. a_value a = None \<and> a_errors a = [e]"
proof -
  obtain w d where wd: "dec_body door (empty_value door) [] 0 (fresh_decoder body) = (w, d)"
    by (cases "dec_body door (empty_value door) [] 0 (fresh_decoder body)")
  define d' where "d' = (if \<not> bd_fatal d \<and> bd_rest d \<noteq> []
      then dec_fail MalformedBytes [] [] ''trailing bytes after the value'' d else d)"
  have "\<exists>e. bd_fatal d' \<and> bd_errs d' = [e]"
    using dec_body_fresh [OF assms(1), of body] assms(2) wd
    by (auto simp: d'_def fresh_decoder_def dec_fail_def)
  moreover have "(a, g') = finish w (bd_errs d') (bd_fatal d') door collect g"
    using assms(3) wd by (simp add: admit_against_def native_impl_def d'_def Let_def)
  ultimately show ?thesis by (auto simp: finish_def reject_def)
qed

lemma serialize_exact:
  assumes "exact_value door 0 v"
  shows "serialize v = Inr bytes \<longleftrightarrow>
    length (s_name door) \<le> 65535 \<and>
    bytes = native_header (s_name door) (s_version door) (s_content_id door) @ value_bytes v"
proof -
  have sch: "v_schema v = door" using assms by (simp add: exact_value_slots)
  show ?thesis
  proof (cases "length (s_name door) \<le> 65535")
    case True
    then show ?thesis
      using serialize_encodable [OF exact_encodable(2) [OF assms]] sch by auto
  next
    case False
    then show ?thesis using sch by (simp add: serialize_header)
  qed
qed

lemma native_admits_iff:
  assumes "wf_schema door"
  shows "fst (admit_unverified fc (parse bytes) (Some door) r g) = Inr (accept v) \<longleftrightarrow>
    exact_value door 0 v \<and> value_conforms v door \<and> valid_utf8 (s_name door) \<and> serialize v = Inr bytes"
proof -
  obtain i where i: "parse bytes = Some i" using parse_Some by blast
  let ?h = "native_header (s_name door) (s_version door) (s_content_id door)"
  let ?impl = "native_impl (s_name door) (s_version door) (s_content_id door)"
  have claim: "u_name i = s_name door \<and> u_version i = s_version door \<and>
      u_content_id i = s_content_id door"
    if "fst (admit_against fc i door c g) = accept v" "u_has_content_id i" for c
    using that by (auto simp: admit_against_def split: if_splits)
  have fields: "u_name (native_impl n ver cid b) = n" "u_version (native_impl n ver cid b) = ver"
    "u_content_id (native_impl n ver cid b) = cid" "u_has_content_id (native_impl n ver cid b)" for n ver cid b
    by (simp_all add: native_impl_def)
  have "fst (admit_unverified fc (parse bytes) (Some door) r g) = Inr (accept v) \<longleftrightarrow>
      u_ok i \<and> fst (admit_against fc i door (r = Full) g) = accept v"
    by (simp add: admit_unverified_def well_formed_def i)
  also have "\<dots> \<longleftrightarrow> (\<exists>b. length (s_name door) \<le> 65535 \<and> valid_utf8 (s_name door) \<and> bytes = ?h @ b \<and>
      fst (admit_against fc (?impl b) door (r = Full) g) = accept v)" (is "?L \<longleftrightarrow> ?R")
  proof
    assume L: ?L
    then obtain n ver cid b where h: "length n \<le> 65535" "valid_utf8 n"
      "bytes = native_header n ver cid @ b" "i = native_impl n ver cid b"
      using parse_iff [of bytes i] i by blast
    then have "n = s_name door" "ver = s_version door" "cid = s_content_id door"
      using claim [of "r = Full"] L fields by simp_all
    then show ?R using h L by blast
  next
    assume ?R
    then obtain b where b: "length (s_name door) \<le> 65535" "valid_utf8 (s_name door)"
      "bytes = ?h @ b" "fst (admit_against fc (?impl b) door (r = Full) g) = accept v" by blast
    then have "parse bytes = Some (?impl b) \<and> u_ok (?impl b)"
      using parse_iff [of bytes "?impl b"] by blast
    then show ?L using i b(4) by simp
  qed
  also have "\<dots> \<longleftrightarrow> exact_value door 0 v \<and> value_conforms v door \<and> valid_utf8 (s_name door) \<and>
      serialize v = Inr bytes"
    using admit_against_native(1) [OF assms] serialize_exact by auto
  finally show ?thesis .
qed

text \<open>
  C1: the native format is canonical and lossless. For a well-formed door, \<open>admit\<close> of parsed bytes
  accepts a value \<open>v\<close>, in either report mode, if and only if \<open>v\<close> is exact for the door (kinds, UTF-8,
  canonical floats, caps, nested schemas), conforms to it, the schema name is UTF-8, and the bytes
  are precisely what \<open>serialize v\<close> writes. So every such value survives the round trip unchanged, no
  value has a second encoding, and nothing else is ever accepted.
\<close>

theorem native_canonical:
  assumes "wf_schema door"
  shows "fst (admit_unverified fc (parse bytes) (Some door) r g) = Inr (accept v) \<longleftrightarrow>
    exact_value door 0 v \<and> value_conforms v door \<and> valid_utf8 (s_name door) \<and> serialize v = Inr bytes"
  using assms by (rule native_admits_iff)

theorem native_canonical_witness:
  "\<exists>bytes. fst (admit_unverified (\<lambda>_. None) (parse bytes)
     (Some (Schema ''P'' 1 [Field ''x'' (TypeRef KBool None None) True]
        (compute_content_id ''P'' 1 [Field ''x'' (TypeRef KBool None None) True]))) Full 0) =
     Inr (accept (Value (Schema ''P'' 1 [Field ''x'' (TypeRef KBool None None) True]
        (compute_content_id ''P'' 1 [Field ''x'' (TypeRef KBool None None) True])) [Some (CBool True)]))"
proof -
  let ?fs = "[Field ''x'' (TypeRef KBool None None) True]"
  let ?door = "Schema ''P'' 1 ?fs (compute_content_id ''P'' 1 ?fs)"
  let ?v = "Value ?door [Some (CBool True)]"
  have wf: "wf_schema ?door" by simp
  have ex: "exact_value ?door 0 ?v" by (simp add: exact_value_slots)
  have co: "value_conforms ?v ?door" by (simp add: value_conforms.simps value_get_def)
  have "valid_utf8 ''P''"
    by (simp add: valid_utf8.simps utf8_step_def byte_of_def)
  moreover obtain bytes where "serialize ?v = Inr bytes"
    using serialize_exact [OF ex] by simp
  ultimately show ?thesis
    using native_canonical [OF wf, of "\<lambda>_. None" bytes Full 0 ?v] ex co by auto
qed

text \<open>
  No encoding extends another. If \<open>serialize v\<close> wrote \<open>bytes\<close> for an exact value of a door, then
  neither \<open>bytes\<close> with anything appended nor any proper prefix of \<open>bytes\<close> is ever admitted at that door,
  as any value and in either report mode: truncation and trailing data are always caught.
\<close>

theorem native_no_slack:
  assumes "wf_schema door" and "exact_value door 0 v" and "serialize v = Inr bytes"
    and "extra \<noteq> []" and "bytes' = bytes @ extra \<or> bytes = bytes' @ extra"
  shows "fst (admit_unverified fc (parse bytes') (Some door) r g) \<noteq> Inr (accept w)"
proof
  assume "fst (admit_unverified fc (parse bytes') (Some door) r g) = Inr (accept w)"
  then have w: "exact_value door 0 w" "serialize w = Inr bytes'"
    using native_admits_iff [OF assms(1)] by blast+
  let ?h = "native_header (s_name door) (s_version door) (s_content_id door)"
  have "bytes = ?h @ value_bytes v" "bytes' = ?h @ value_bytes w"
    using assms(3) w(2) by (simp_all add: serialize_exact [OF assms(2)] serialize_exact [OF w(1)])
  then have "value_bytes w @ [] = value_bytes v @ extra \<or> value_bytes v @ [] = value_bytes w @ extra"
    using assms(5) by auto
  then show False
    using body_codec.enc_inject [OF w(1) assms(2)] body_codec.enc_inject [OF assms(2) w(1)] assms(4)
    by blast
qed

theorem native_no_slack_witness:
  "fst (admit_unverified (\<lambda>_. None) (parse (native_header [] 1 (compute_content_id [] 1 []) @ ''x''))
     (Some (Schema [] 1 [] (compute_content_id [] 1 []))) Full 0) \<noteq>
   Inr (accept (Value (Schema [] 1 [] (compute_content_id [] 1 [])) []))"
proof -
  let ?door = "Schema [] 1 [] (compute_content_id [] 1 [])"
  let ?h = "native_header [] 1 (compute_content_id [] 1 [])"
  have ex: "exact_value ?door 0 (Value ?door [])" by (simp add: exact_value_slots)
  have "value_bytes (Value ?door []) = []"
    by (simp add: value_bytes_slots slots_of_def mask_of_def)
  then have "serialize (Value ?door []) = Inr ?h"
    by (simp add: serialize_exact [OF ex])
  then show ?thesis
    using native_no_slack [OF _ ex, of ?h "''x''" "?h @ ''x''"] by simp
qed

section \<open>Soundness for every kind of bytes\<close>

lemma set_declared_keeps:
  "v_schema (set_declared n c v) = v_schema v" "aligned v \<Longrightarrow> aligned (set_declared n c v)"
  by (auto simp: set_declared_def value_set_def aligned_def split: sum.splits option.splits)

lemma jd_keeps:
  shows "v_schema (fst (jd_fields fc collect obj door out base es)) = v_schema out \<and>
      (aligned out \<longrightarrow> aligned (fst (jd_fields fc collect obj door out base es)))"
    and "v_schema (fst (jd_known fc collect obj fs out base es)) = v_schema out \<and>
      (aligned out \<longrightarrow> aligned (fst (jd_known fc collect obj fs out base es)))"
proof -
  show known: "v_schema (fst (jd_known fc collect obj fs out base es)) = v_schema out \<and>
      (aligned out \<longrightarrow> aligned (fst (jd_known fc collect obj fs out base es)))" for fs out es
  proof (induction fs arbitrary: out es)
    case (Cons f fs)
    then show ?case
      by (auto simp: case_prod_beta set_declared_keeps split: option.split)
  qed simp
  show "v_schema (fst (jd_fields fc collect obj door out base es)) = v_schema out \<and>
      (aligned out \<longrightarrow> aligned (fst (jd_fields fc collect obj door out base es)))"
    using known by (simp add: Let_def)
qed

lemma aligned_empty_value [simp]: "aligned (empty_value s)" "v_schema (empty_value s) = s"
  by (simp_all add: empty_value_def aligned_def)

lemma finish_value:
  assumes "wf_schema door" and "a_value (fst (finish c ds fatal door collect g)) = Some v"
  shows "v = c \<and> value_conforms c door \<and> \<not> fatal \<and> ds = []"
proof -
  have "fst (finish c ds fatal door collect g) = accept v"
    using finish_accept_or_reject [of c ds fatal door collect g] assms(2)
    by (auto simp: accept_def reject_def reject_one_def)
  then show ?thesis using finish_accepts [OF assms(1)] by blast
qed

lemma admit_against_sound:
  assumes "wf_schema door" and "a_value (fst (admit_against fc impl door collect g)) = Some v"
  shows "v_schema v = door \<and> aligned v \<and> value_conforms v door \<and>
    snd (admit_against fc impl door collect g) = g + 1"
proof -
  obtain c ds fatal where fin: "admit_against fc impl door collect g = finish c ds fatal door collect g"
    and c: "\<not> fatal \<Longrightarrow> v_schema c = door \<and> aligned c"
  proof (cases "u_format impl")
    case Native
    obtain w d where wd: "dec_body door (empty_value door) [] 0 (fresh_decoder (u_body impl)) = (w, d)"
      by (cases "dec_body door (empty_value door) [] 0 (fresh_decoder (u_body impl))")
    define d' where "d' = (if \<not> bd_fatal d \<and> bd_rest d \<noteq> []
        then dec_fail MalformedBytes [] [] ''trailing bytes after the value'' d else d)"
    have "bd_fatal d \<Longrightarrow> bd_fatal d'" by (simp add: d'_def)
    moreover have "\<not> bd_fatal d \<Longrightarrow> exact_value door 0 w"
      using dec_body_fresh [OF assms(1), of "u_body impl"] wd by auto
    ultimately have "\<not> bd_fatal d' \<Longrightarrow> v_schema w = door \<and> aligned w"
      using exact_value_aligned by (auto simp: exact_value_slots)
    moreover have "admit_against fc impl door collect g = finish w (bd_errs d') (bd_fatal d') door collect g"
      using assms(2) Native wd
      by (auto simp: admit_against_def d'_def Let_def reject_one_def split: if_splits)
    ultimately show ?thesis using that by blast
  next
    case Json
    have "admit_against fc impl door collect g =
        finish (fst (jd_fields fc collect (u_json_fields impl) door (empty_value door) [] []))
          (snd (jd_fields fc collect (u_json_fields impl) door (empty_value door) [] [])) False
          door collect g"
      using assms(2) Json
      by (auto simp: admit_against_def reject_one_def case_prod_beta simp del: jd_fields.simps
          split: if_splits)
    then show ?thesis using that jd_keeps(1) [of fc collect _ door "empty_value door"] by auto
  qed
  have "v = c \<and> value_conforms c door \<and> \<not> fatal \<and> ds = []"
    using finish_value [OF assms(1), of c ds fatal collect g v] assms(2) fin by simp
  then show ?thesis using c fin by (simp add: finish_gate_count)
qed

text \<open>
  C2: only conforming values leave the persistence gate. Whatever bytes were parsed, native or JSON,
  well formed or hostile, and whichever report mode is asked for: if \<open>admit\<close> against a well-formed door
  yields a value, then that value claims exactly that door's schema, has one slot per declared field,
  conforms to the door, and the structural gate was consulted exactly once to decide it.
\<close>

theorem persistence_gate_sound:
  assumes "wf_schema door" and "admit_unverified fc u (Some door) r g = (Inr a, g')"
    and "a_value a = Some v"
  shows "well_formed u \<and> v_schema v = door \<and> aligned v \<and> value_conforms v door \<and> g' = g + 1"
proof (cases "well_formed u")
  case True
  then show ?thesis
    using admit_against_sound [OF assms(1), of fc "the u" "r = Full" g v] assms(2,3)
    by (cases "admit_against fc (the u) door (r = Full) g") (auto simp: admit_unverified_def)
next
  case False
  then show ?thesis using assms(2,3) by (auto simp: admit_unverified_def reject_one_def)
qed

theorem persistence_gate_sound_witness:
  "\<exists>door u a g' v. wf_schema door \<and> admit_unverified (\<lambda>_. None) u (Some door) Full 0 = (Inr a, g') \<and>
     a_value a = Some v \<and> v_schema v = door \<and> g' = 1"
proof -
  let ?door = "Schema [] 1 [] (compute_content_id [] 1 [])"
  let ?u = "Some ((new_impl Json)\<lparr>u_ok := True, u_version := 1, u_json_fields := JObject []\<rparr>)"
  have "admit_unverified (\<lambda>_. None) ?u (Some ?door) Full 0 = (Inr (accept (empty_value ?door)), 1)"
    by (simp add: admit_unverified_def well_formed_def admit_against_def new_impl_def finish_def
        validate_into_def validate_value.simps Let_def merge_errors_def empty_value_def)
  then show ?thesis
    using persistence_gate_sound [of ?door "\<lambda>_. None" ?u Full 0 "accept (empty_value ?door)" 1
        "empty_value ?door"]
    by (intro exI [of _ ?door] exI [of _ ?u] exI [of _ "accept (empty_value ?door)"] exI [of _ 1]
        exI [of _ "empty_value ?door"]) (simp add: accept_def)
qed

section \<open>Refusals\<close>

definition envelope_ok :: "unverified \<Rightarrow> bool" where
  "envelope_ok u \<longleftrightarrow>
     (case u of
        None \<Rightarrow> False
      | Some i \<Rightarrow> u_ok i \<or> e_kind (u_envelope_error i) = MalformedBytes)"

lemma envelope_ok_malformed [simp]: "envelope_ok (malformed why impl)"
  by (simp add: envelope_ok_def malformed_def mk_error_def)

lemma envelope_ok_parse_header: "envelope_ok (parse_header r impl)"
proof -
  have "envelope_ok (Some (header_done n ver cid body impl))" for n ver cid body
    by (simp add: envelope_ok_def)
  then show ?thesis unfolding parse_header_def by (simp split: option.split)
qed

lemma envelope_ok_parse: "envelope_ok (parse bytes)"
  unfolding parse_def Let_def by (simp add: envelope_ok_parse_header split: option.split)

lemma parse_envelope_error:
  "parse bytes = Some i \<Longrightarrow> \<not> u_ok i \<Longrightarrow> e_kind (u_envelope_error i) = MalformedBytes"
  using envelope_ok_parse [of bytes] by (simp add: envelope_ok_def)



end
