(* ===== verification/Zen_Grant.thy ===== *)
theory Zen_Grant
  imports Zen_Prelude
begin

text \<open>
  Capability grants: \<open>include/zen/switchboard/grant.hpp\<close>. A grant is a list of send rules, a set of
  hard OS-capability flags, a graduated filesystem level with its path, and resource limits. The
  builder methods return the updated grant. A \<open>ShardId\<close> is its 64-bit value; zero is the null handle.
  The lemmas describe the authority a grant carries as a set of (shape, target) pairs, which every
  builder extends and none shrinks.
\<close>

section \<open>Vocabulary\<close>

type_synonym shard_id = u64

definition os_None :: u32 where "os_None = 0"
definition os_Network :: u32 where "os_Network = push_bit 0 1"
definition os_SpawnProcess :: u32 where "os_SpawnProcess = push_bit 1 1"

datatype fs_access = Fs_None | Fs_ReadOnly | Fs_WriteScoped | Fs_WriteNoExec | Fs_WriteAnywhere

fun fs_access_name :: "fs_access \<Rightarrow> string" where
  "fs_access_name Fs_None = ''none''"
| "fs_access_name Fs_ReadOnly = ''read-only''"
| "fs_access_name Fs_WriteScoped = ''write-scoped''"
| "fs_access_name Fs_WriteNoExec = ''write-no-exec''"
| "fs_access_name Fs_WriteAnywhere = ''write-anywhere''"

record send_rule =
  any_shape :: bool
  shape_name :: string
  shape_version :: u32
  any_target :: bool
  rule_target :: shard_id

record resource_limits =
  memory_bytes :: i64
  pids :: i64
  cpu_weight :: i64
  unlimited :: bool

record grant =
  g_rules :: "send_rule list"
  g_os :: u32
  g_fs :: fs_access
  g_fs_path :: string
  g_res :: resource_limits

section \<open>Operations\<close>

definition grant_nothing :: grant where
  "grant_nothing =
     \<lparr>g_rules = [], g_os = 0, g_fs = Fs_None, g_fs_path = [],
      g_res = \<lparr>memory_bytes = 0, pids = 0, cpu_weight = 0, unlimited = False\<rparr>\<rparr>"

definition push_rule :: "send_rule \<Rightarrow> grant \<Rightarrow> grant" where
  "push_rule r g = g\<lparr>g_rules := g_rules g @ [r]\<rparr>"

definition allow :: "string \<Rightarrow> u32 \<Rightarrow> shard_id \<Rightarrow> grant \<Rightarrow> grant" where
  "allow n v t =
     push_rule \<lparr>any_shape = False, shape_name = n, shape_version = v, any_target = False, rule_target = t\<rparr>"

definition allow_to_any :: "string \<Rightarrow> u32 \<Rightarrow> grant \<Rightarrow> grant" where
  "allow_to_any n v =
     push_rule \<lparr>any_shape = False, shape_name = n, shape_version = v, any_target = True, rule_target = 0\<rparr>"

definition allow_any_to :: "shard_id \<Rightarrow> grant \<Rightarrow> grant" where
  "allow_any_to t =
     push_rule \<lparr>any_shape = True, shape_name = [], shape_version = 0, any_target = False, rule_target = t\<rparr>"

definition allow_any :: "grant \<Rightarrow> grant" where
  "allow_any =
     push_rule \<lparr>any_shape = True, shape_name = [], shape_version = 0, any_target = True, rule_target = 0\<rparr>"

definition with_os_capabilities :: "u32 \<Rightarrow> grant \<Rightarrow> grant" where
  "with_os_capabilities caps g = g\<lparr>g_os := g_os g OR caps\<rparr>"

definition with_filesystem :: "fs_access \<Rightarrow> string \<Rightarrow> grant \<Rightarrow> grant" where
  "with_filesystem level path g = g\<lparr>g_fs := level, g_fs_path := path\<rparr>"

definition with_resources :: "resource_limits \<Rightarrow> grant \<Rightarrow> grant" where
  "with_resources limits g = g\<lparr>g_res := limits\<rparr>"

definition with_unlimited_resources :: "grant \<Rightarrow> grant" where
  "with_unlimited_resources g = g\<lparr>g_res := (g_res g)\<lparr>unlimited := True\<rparr>\<rparr>"

definition rule_matches :: "string \<Rightarrow> u32 \<Rightarrow> shard_id \<Rightarrow> send_rule \<Rightarrow> bool" where
  "rule_matches n v t r \<longleftrightarrow>
     (any_shape r \<or> (shape_name r = n \<and> shape_version r = v)) \<and> (any_target r \<or> rule_target r = t)"

fun permits_loop :: "send_rule list \<Rightarrow> string \<Rightarrow> u32 \<Rightarrow> shard_id \<Rightarrow> bool" where
  "permits_loop [] n v t = False"
| "permits_loop (r # rs) n v t = (if rule_matches n v t r then True else permits_loop rs n v t)"

definition permits :: "grant \<Rightarrow> string \<Rightarrow> u32 \<Rightarrow> shard_id \<Rightarrow> bool" where
  "permits g n v t = permits_loop (g_rules g) n v t"

definition has_os_capability :: "grant \<Rightarrow> u32 \<Rightarrow> bool" where
  "has_os_capability g cap \<longleftrightarrow> cap \<noteq> 0 \<and> g_os g AND cap = cap"

section \<open>The authority a grant carries\<close>

definition authority :: "grant \<Rightarrow> (string \<times> u32 \<times> shard_id) set" where
  "authority g = {(n, v, t). permits g n v t}"

lemma permits_iff: "permits g n v t \<longleftrightarrow> (\<exists>r \<in> set (g_rules g). rule_matches n v t r)"
proof -
  have "permits_loop rs n v t \<longleftrightarrow> (\<exists>r \<in> set rs. rule_matches n v t r)" for rs
    by (induction rs) auto
  then show ?thesis by (simp add: permits_def)
qed

lemma permits_push_rule: "permits (push_rule r g) n v t \<longleftrightarrow> permits g n v t \<or> rule_matches n v t r"
  by (auto simp: permits_iff push_rule_def)

lemmas allow_defs = allow_def allow_to_any_def allow_any_to_def allow_any_def

lemma permits_other [simp]:
  "permits (with_os_capabilities caps g) n v t = permits g n v t"
  "permits (with_filesystem level path g) n v t = permits g n v t"
  "permits (with_resources limits g) n v t = permits g n v t"
  "permits (with_unlimited_resources g) n v t = permits g n v t"
  by (simp_all add: permits_def with_os_capabilities_def with_filesystem_def with_resources_def
      with_unlimited_resources_def)

lemma permits_nothing [simp]: "\<not> permits grant_nothing n v t"
  by (simp add: permits_def grant_nothing_def)

lemma os_nothing [simp]: "\<not> has_os_capability grant_nothing cap"
  by (auto simp: has_os_capability_def grant_nothing_def)

lemma word_subset_bit: "(b :: 'a :: len word) AND c = c \<longleftrightarrow> (\<forall>i. bit c i \<longrightarrow> bit b i)"
proof
  assume "b AND c = c"
  then show "\<forall>i. bit c i \<longrightarrow> bit b i" by (metis bit_and_iff)
next
  assume "\<forall>i. bit c i \<longrightarrow> bit b i"
  then show "b AND c = c" by (intro bit_word_eqI) (auto simp: bit_and_iff)
qed

lemma has_os_capability_with:
  "has_os_capability g cap \<Longrightarrow> has_os_capability (with_os_capabilities caps g) cap"
  by (auto simp: has_os_capability_def with_os_capabilities_def word_subset_bit bit_or_iff)

text \<open>
  A grant carries exactly the authority its builders gave it. The default grant permits no send
  and holds no OS capability. \<open>allow\<close> adds exactly one (shape, target) pair, \<open>allow_to_any\<close> exactly one
  shape to every target, \<open>allow_any_to\<close> every shape to exactly one target, \<open>allow_any\<close> everything; the
  other builders leave the send authority alone. Flags accumulate: after \<open>with_os_capabilities\<close> a
  single-bit capability is held exactly when it was held before or is among the new flags.
\<close>

theorem grant_authority:
  "authority grant_nothing = {} \<and>
   authority (allow n v t g) = insert (n, v, t) (authority g) \<and>
   authority (allow_to_any n v g) = authority g \<union> {(n, v, x) | x. True} \<and>
   authority (allow_any_to t g) = authority g \<union> {(m, w, t) | m w. True} \<and>
   authority (allow_any g) = UNIV \<and>
   authority (with_os_capabilities caps g) = authority g \<and>
   authority (with_filesystem level path g) = authority g \<and>
   authority (with_resources limits g) = authority g \<and>
   authority (with_unlimited_resources g) = authority g \<and>
   \<not> has_os_capability grant_nothing cap \<and>
   has_os_capability (with_os_capabilities caps g) os_Network =
     (has_os_capability g os_Network \<or> bit caps 0) \<and>
   has_os_capability (with_os_capabilities caps g) os_SpawnProcess =
     (has_os_capability g os_SpawnProcess \<or> bit caps 1)"
proof -
  have flag: "has_os_capability (with_os_capabilities caps g) (push_bit i 1) \<longleftrightarrow>
      has_os_capability g (push_bit i 1) \<or> bit caps i" if "i < 32" for i
    using that
    by (auto simp: has_os_capability_def with_os_capabilities_def word_subset_bit bit_or_iff
        bit_exp_iff)
  show ?thesis
    using flag [of 0] flag [of 1]
    by (auto simp: authority_def allow_defs permits_push_rule rule_matches_def os_Network_def
        os_SpawnProcess_def)
qed

end
