(* ===== verification/Zen_Switchboard.thy ===== *)
theory Zen_Switchboard
  imports Zen_Serialize Zen_Grant
begin

text \<open>
  The live boundary: \<open>include/zen/switchboard/switchboard.hpp\<close>, \<open>message.hpp\<close>, \<open>bus.hpp\<close>,
  \<open>shard.hpp\<close> and \<open>src/switchboard/switchboard.cpp\<close>.

  \<^item> The bus is a record of the members of \<open>class Switchboard\<close>, with the process-wide gate counter
    and a ghost trace: which ids were handed out with which grant, which messages reached a handler
    (and whether they came gated), which values were handed to \<open>revive\<close> and which events an
    observer was told. Nothing reads the trace.
  \<^item> \<open>class Shard\<close> is a table of its five virtual methods over an object state \<open>'s\<close>. A handler is an
    interaction tree: it sends and publishes through the bus it was given, may resolve a schema and
    run the gate (both of which library shards do), and finishes normally or throws. That a handler
    reaches the bus only through its \<open>ShardBus\<close> is the trust boundary the header documents.
  \<^item> An observer is host code told of each event; it may ask the bus to stop or throw.
  \<^item> An operation that may throw returns its result and the bus it leaves behind.
  \<^item> \<open>pump\<close> may run for ever (two shards can answer each other), so it is a partial function into
    \<open>option\<close>: \<open>None\<close> is not returning.
\<close>

section \<open>Messages, refusals and events\<close>

record message =
  m_payload :: zvalue
  m_sender :: shard_id
  m_reply_to :: shard_id
  m_correlation :: u64

datatype refusal_reason =
    RR_None | NoSuchTarget | TargetUnavailable | NotAccepted | GateRefused | CapabilityDenied

fun name_of_refusal :: "refusal_reason \<Rightarrow> string" where
  "name_of_refusal RR_None = ''None''"
| "name_of_refusal NoSuchTarget = ''NoSuchTarget''"
| "name_of_refusal TargetUnavailable = ''TargetUnavailable''"
| "name_of_refusal NotAccepted = ''NotAccepted''"
| "name_of_refusal GateRefused = ''GateRefused''"
| "name_of_refusal CapabilityDenied = ''CapabilityDenied''"

record refusal =
  rf_reason :: refusal_reason
  rf_error :: zerror

definition no_error :: zerror where
  "no_error = mk_error EK_None [] [] [] []"

definition bare_refusal :: "refusal_reason \<Rightarrow> refusal" where
  "bare_refusal r = \<lparr>rf_reason = r, rf_error = no_error\<rparr>"

definition refusal_message :: "refusal \<Rightarrow> string" where
  "refusal_message r =
     (case rf_reason r of
        RR_None \<Rightarrow> ''no refusal''
      | NoSuchTarget \<Rightarrow> ''no such target shard''
      | TargetUnavailable \<Rightarrow> ''target shard is dead (awaiting revival)''
      | NotAccepted \<Rightarrow> ''target does not accept this schema''
      | GateRefused \<Rightarrow> ''gate refused: '' @ error_message (rf_error r)
      | CapabilityDenied \<Rightarrow> ''sender'' @ [CHR 39] @ ''s grant does not permit this shape to this target'')"

datatype disposition = Pending | Delivered | Refused

record delivery_outcome =
  d_disposition :: disposition
  d_refusal :: refusal

definition pending_outcome :: delivery_outcome where
  "pending_outcome = \<lparr>d_disposition = Pending, d_refusal = bare_refusal RR_None\<rparr>"

datatype event_kind = EvDelivered | EvRefused | EvDied | EvRevived

record bus_event =
  ev_kind :: event_kind
  ev_seq :: u64
  ev_target :: shard_id
  ev_sender :: shard_id
  ev_schema_name :: string
  ev_schema_version :: u32
  ev_refusal :: refusal
  ev_from_last_known_good :: bool
  ev_payload :: "zvalue option"

definition new_event :: bus_event where
  "new_event =
     \<lparr>ev_kind = EvDelivered, ev_seq = 0, ev_target = 0, ev_sender = 0, ev_schema_name = [],
      ev_schema_version = 0, ev_refusal = bare_refusal RR_None, ev_from_last_known_good = False,
      ev_payload = None\<rparr>"

datatype observer_effect = ObsReturn | ObsStop | ObsThrow exn

type_synonym observer = "bus_event \<Rightarrow> observer_effect"

record revive_outcome =
  ro_revived :: bool
  ro_from_last_known_good :: bool
  ro_reloads_exhausted :: bool
  ro_policy_malformed :: bool
  ro_refusal :: refusal

definition new_revive_outcome :: revive_outcome where
  "new_revive_outcome =
     \<lparr>ro_revived = False, ro_from_last_known_good = False, ro_reloads_exhausted = False,
      ro_policy_malformed = False, ro_refusal = bare_refusal RR_None\<rparr>"

text \<open>The one schema the Switchboard hard-codes.\<close>

definition lifecycle_policy_schema :: "schema result" where
  "lifecycle_policy_schema =
     (case builder_field ''max_reloads'' KInt True (new_builder ''LifecyclePolicy'' 1) of
        Inl e \<Rightarrow> Inl e
      | Inr b1 \<Rightarrow>
          (case builder_field ''revive_from_last_good'' KBool True b1 of
             Inl e \<Rightarrow> Inl e
           | Inr b2 \<Rightarrow> builder_build b2))"

section \<open>Shards\<close>

datatype 's action =
    ADone 's
  | AThrow exn 's
  | ASend shard_id message "u64 \<Rightarrow> 's action"
  | APublish message "nat \<Rightarrow> 's action"
  | AResolve string u32 "schema option \<Rightarrow> 's action"
  | AGate u64 "'s action"

record 's shard_ops =
  vt_accepted_schemas :: "'s \<Rightarrow> schema option list result"
  vt_handle :: "'s \<Rightarrow> message \<Rightarrow> 's action"
  vt_snapshot :: "'s \<Rightarrow> zvalue result"
  vt_policy :: "'s \<Rightarrow> zvalue result"
  vt_revive :: "'s \<Rightarrow> zvalue \<Rightarrow> unit result \<times> 's"

record 's shard_record =
  sr_id :: shard_id
  sr_shard :: 's
  sr_accept :: "schema list"
  sr_state_schema :: schema
  sr_last_known_good :: zvalue
  sr_grant :: grant
  sr_reloads_used :: u64
  sr_alive :: bool

section \<open>The bus\<close>

record envelope =
  env_msg :: message
  env_target :: shard_id
  env_seq :: u64
  env_gated :: bool

datatype trace_item =
    TRegistered shard_id grant
  | THandled shard_id message bool
  | TRevived shard_id zvalue
  | TNotified u64 bus_event

record 's bus =
  b_registry :: registry
  b_shards :: "(u64, 's shard_record) omap"
  b_next_shard_id :: u64
  b_queue :: "envelope list"
  b_journal :: "delivery_outcome list"
  b_next_seq :: u64
  b_observers :: "(u64 \<times> observer option) list"
  b_next_observer_id :: u64
  b_in_dispatch :: bool
  b_stop_requested :: bool
  b_gate_calls :: u64
  b_trace :: "trace_item list"

definition new_bus :: "u64 \<Rightarrow> 's bus" where
  "new_bus g =
     \<lparr>b_registry = new_registry, b_shards = [], b_next_shard_id = 1, b_queue = [],
      b_journal = [pending_outcome], b_next_seq = 1, b_observers = [], b_next_observer_id = 1,
      b_in_dispatch = False, b_stop_requested = False, b_gate_calls = g, b_trace = []\<rparr>"

definition note_trace :: "trace_item \<Rightarrow> 's bus \<Rightarrow> 's bus" where
  "note_trace t b = b\<lparr>b_trace := b_trace b @ [t]\<rparr>"

definition bus_find :: "'s bus \<Rightarrow> shard_id \<Rightarrow> 's shard_record option" where
  "bus_find b i = om_find (b_shards b) i"

text \<open>A member update through the \<open>ShardRecord*\<close> that \<open>find\<close> returned.\<close>

definition put_record :: "shard_id \<Rightarrow> 's shard_record \<Rightarrow> 's bus \<Rightarrow> 's bus" where
  "put_record i r b = b\<lparr>b_shards := om_put i r (b_shards b)\<rparr>"

fun accept_match :: "schema list \<Rightarrow> string \<Rightarrow> u32 \<Rightarrow> schema option" where
  "accept_match [] n v = None"
| "accept_match (s # ss) n v =
     (if s_name s = n \<and> s_version s = v then Some s else accept_match ss n v)"

subsection \<open>Registration\<close>

fun register_accept ::
  "schema option list \<Rightarrow> schema list \<Rightarrow> registry \<Rightarrow> schema list result \<times> registry" where
  "register_accept [] acc r = (Inr acc, r)"
| "register_accept (None # ss) acc r =
     (Inl (Invalid_argument ''register_shard: a declared accept schema is null''), r)"
| "register_accept (Some s # ss) acc r =
     (case register_schema (Some s) r of
        (Inl e, r') \<Rightarrow> (Inl e, r')
      | (Inr (x, _), r') \<Rightarrow> register_accept ss (acc @ [x]) r')"

definition mount_record ::
  "'s \<Rightarrow> schema list \<Rightarrow> schema \<Rightarrow> admission \<Rightarrow> grant \<Rightarrow> 's bus \<Rightarrow> shard_id result \<times> 's bus" where
  "mount_record st acc state_schema seeded gr b =
     (let i = b_next_shard_id b; b1 = b\<lparr>b_next_shard_id := i + 1\<rparr> in
      case adm_value seeded of
        Inl e \<Rightarrow> (Inl e, b1)
      | Inr v \<Rightarrow>
          let rec = \<lparr>sr_id = i, sr_shard = st, sr_accept = acc, sr_state_schema = state_schema,
                     sr_last_known_good = v, sr_grant = gr, sr_reloads_used = 0, sr_alive = True\<rparr>;
              b2 = (if bus_find b1 i = None then put_record i rec b1 else b1)
          in (Inr i, note_trace (TRegistered i gr) b2))"

definition seed_shard ::
  "'s \<Rightarrow> schema list \<Rightarrow> zvalue \<Rightarrow> grant \<Rightarrow> 's bus \<Rightarrow> shard_id result \<times> 's bus" where
  "seed_shard st acc snap gr b =
     (let state_schema = v_schema snap in
      case register_schema (Some state_schema) (b_registry b) of
        (Inl e, r) \<Rightarrow> (Inl e, b\<lparr>b_registry := r\<rparr>)
      | (Inr _, r) \<Rightarrow>
          (case admit snap state_schema FirstError (b_gate_calls b) of
             (seeded, g) \<Rightarrow>
               let b1 = b\<lparr>b_registry := r, b_gate_calls := g\<rparr> in
               if \<not> adm_ok seeded then
                 (case first_error seeded of
                    Inl e \<Rightarrow> (Inl e, b1)
                  | Inr er \<Rightarrow>
                      (Inl (Invalid_argument
                        (''register_shard: initial snapshot does not conform to its own schema: '' @
                         error_message er)), b1))
               else mount_record st acc state_schema seeded gr b1))"

definition register_shard ::
  "'s shard_ops \<Rightarrow> 's option \<Rightarrow> grant \<Rightarrow> 's bus \<Rightarrow> shard_id result \<times> 's bus" where
  "register_shard vt incoming gr b =
     (case incoming of
        None \<Rightarrow> (Inl (Invalid_argument ''register_shard: shard must be non-null''), b)
      | Some st \<Rightarrow>
          (case vt_accepted_schemas vt st of
             Inl e \<Rightarrow> (Inl e, b)
           | Inr declared \<Rightarrow>
               (case register_accept declared [] (b_registry b) of
                  (Inl e, r) \<Rightarrow> (Inl e, b\<lparr>b_registry := r\<rparr>)
                | (Inr acc, r) \<Rightarrow>
                    (case vt_snapshot vt st of
                       Inl e \<Rightarrow> (Inl e, b\<lparr>b_registry := r\<rparr>)
                     | Inr snap \<Rightarrow> seed_shard st acc snap gr (b\<lparr>b_registry := r\<rparr>)))))"

definition register_shard_default ::
  "'s shard_ops \<Rightarrow> 's option \<Rightarrow> 's bus \<Rightarrow> shard_id result \<times> 's bus" where
  "register_shard_default vt incoming b = register_shard vt incoming grant_nothing b"

definition unregister_shard :: "shard_id \<Rightarrow> 's bus \<Rightarrow> 's option \<times> 's bus" where
  "unregister_shard i b =
     (case bus_find b i of
        None \<Rightarrow> (None, b)
      | Some rec \<Rightarrow> (Some (sr_shard rec), b\<lparr>b_shards := om_erase i (b_shards b)\<rparr>))"

subsection \<open>Sending\<close>

definition enqueue_directed :: "shard_id \<Rightarrow> message \<Rightarrow> bool \<Rightarrow> 's bus \<Rightarrow> u64 \<times> 's bus" where
  "enqueue_directed target msg gated b =
     (let seq = b_next_seq b in
      (seq,
       b\<lparr>b_next_seq := seq + 1,
         b_journal := b_journal b @ [pending_outcome],
         b_queue := b_queue b @
           [\<lparr>env_msg = msg, env_target = target, env_seq = seq, env_gated = gated\<rparr>]\<rparr>))"

fun fanout_loop ::
  "(u64 \<times> 's shard_record) list \<Rightarrow> message \<Rightarrow> bool \<Rightarrow> nat \<Rightarrow> 's bus \<Rightarrow> nat \<times> 's bus" where
  "fanout_loop [] msg gated recipients b = (recipients, b)"
| "fanout_loop ((k, rec) # rest) msg gated recipients b =
     (if \<not> sr_alive rec then fanout_loop rest msg gated recipients b
      else if accept_match (sr_accept rec) (s_name (v_schema (m_payload msg)))
                (s_version (v_schema (m_payload msg))) = None
      then fanout_loop rest msg gated recipients b
      else fanout_loop rest msg gated (recipients + 1)
             (snd (enqueue_directed (sr_id rec) msg gated b)))"

definition fanout :: "message \<Rightarrow> bool \<Rightarrow> 's bus \<Rightarrow> nat \<times> 's bus" where
  "fanout msg gated b = fanout_loop (b_shards b) msg gated 0 b"

definition send :: "shard_id \<Rightarrow> message \<Rightarrow> 's bus \<Rightarrow> u64 \<times> 's bus" where
  "send target msg b = enqueue_directed target msg False b"

definition publish :: "message \<Rightarrow> 's bus \<Rightarrow> nat \<times> 's bus" where
  "publish msg b = fanout msg False b"

definition send_as :: "shard_id \<Rightarrow> shard_id \<Rightarrow> message \<Rightarrow> 's bus \<Rightarrow> u64 \<times> 's bus" where
  "send_as as_sender target msg b = enqueue_directed target (msg\<lparr>m_sender := as_sender\<rparr>) True b"

definition publish_as :: "shard_id \<Rightarrow> message \<Rightarrow> 's bus \<Rightarrow> nat \<times> 's bus" where
  "publish_as as_sender msg b = fanout (msg\<lparr>m_sender := as_sender\<rparr>) True b"

text \<open>
  \<open>class Bus\<close>, the abstract send surface: the Switchboard itself (the host's root authority) and the
  \<open>ShardBus\<close> bound to one shard implement it.
\<close>

record 's bus_ops =
  bo_send :: "shard_id \<Rightarrow> message \<Rightarrow> 's bus \<Rightarrow> u64 \<times> 's bus"
  bo_publish :: "message \<Rightarrow> 's bus \<Rightarrow> nat \<times> 's bus"

definition root_bus :: "'s bus_ops" where
  "root_bus = \<lparr>bo_send = send, bo_publish = publish\<rparr>"

definition shard_bus :: "shard_id \<Rightarrow> 's bus_ops" where
  "shard_bus self = \<lparr>bo_send = send_as self, bo_publish = publish_as self\<rparr>"

text \<open>Running a handler against the surface it was given.\<close>

primrec run_action :: "'s action \<Rightarrow> 's bus_ops \<Rightarrow> 's bus \<Rightarrow> (unit result \<times> 's) \<times> 's bus" where
  "run_action (ADone st) ops b = ((Inr (), st), b)"
| "run_action (AThrow e st) ops b = ((Inl e, st), b)"
| "run_action (ASend target msg k) ops b =
     (let r = bo_send ops target msg b in run_action (k (fst r)) ops (snd r))"
| "run_action (APublish msg k) ops b =
     (let r = bo_publish ops msg b in run_action (k (fst r)) ops (snd r))"
| "run_action (AResolve n v k) ops b = run_action (k (reg_lookup (b_registry b) n v)) ops b"
| "run_action (AGate n k) ops b =
     run_action k ops (b\<lparr>b_gate_calls := b_gate_calls b + n\<rparr>)"

subsection \<open>Delivery\<close>

definition record_outcome :: "u64 \<Rightarrow> disposition \<Rightarrow> refusal \<Rightarrow> 's bus \<Rightarrow> 's bus" where
  "record_outcome seq d r b =
     (if unat seq < length (b_journal b)
      then b\<lparr>b_journal := (b_journal b)[unat seq := \<lparr>d_disposition = d, d_refusal = r\<rparr>]\<rparr>
      else b)"

fun emit_loop ::
  "(u64 \<times> observer option) list \<Rightarrow> bus_event \<Rightarrow> 's bus \<Rightarrow> unit result \<times> 's bus" where
  "emit_loop [] ev b = (Inr (), b)"
| "emit_loop ((i, None) # obs) ev b = emit_loop obs ev b"
| "emit_loop ((i, Some f) # obs) ev b =
     (case f ev of
        ObsReturn \<Rightarrow> emit_loop obs ev (note_trace (TNotified i ev) b)
      | ObsStop \<Rightarrow> emit_loop obs ev (note_trace (TNotified i ev) b\<lparr>b_stop_requested := True\<rparr>)
      | ObsThrow e \<Rightarrow> (Inl e, note_trace (TNotified i ev) b))"

definition bus_emit :: "bus_event \<Rightarrow> 's bus \<Rightarrow> unit result \<times> 's bus" where
  "bus_emit ev b = emit_loop (b_observers b) ev b"

text \<open>The refusal tail shared by the five refusing branches of \<open>deliver_one\<close>.\<close>

definition refuse_delivery :: "bus_event \<Rightarrow> refusal \<Rightarrow> 's bus \<Rightarrow> unit result \<times> 's bus" where
  "refuse_delivery ev r b =
     bus_emit (ev\<lparr>ev_kind := EvRefused, ev_refusal := r\<rparr>) (record_outcome (ev_seq ev) Refused r b)"

definition delivery_event :: "envelope \<Rightarrow> bus_event" where
  "delivery_event env =
     new_event\<lparr>ev_seq := env_seq env, ev_target := env_target env,
       ev_sender := m_sender (env_msg env),
       ev_schema_name := s_name (v_schema (m_payload (env_msg env))),
       ev_schema_version := s_version (v_schema (m_payload (env_msg env)))\<rparr>"

definition capability_ok :: "envelope \<Rightarrow> 's bus \<Rightarrow> bool" where
  "capability_ok env b =
     (if env_gated env then
        (case bus_find b (m_sender (env_msg env)) of
           None \<Rightarrow> False
         | Some sender \<Rightarrow>
             permits (sr_grant sender) (s_name (v_schema (m_payload (env_msg env))))
               (s_version (v_schema (m_payload (env_msg env)))) (env_target env))
      else True)"

definition hand_over ::
  "'s shard_ops \<Rightarrow> envelope \<Rightarrow> 's shard_record \<Rightarrow> zvalue \<Rightarrow> 's bus \<Rightarrow> unit result \<times> 's bus" where
  "hand_over vt env rec v b =
     (let trusted = (env_msg env)\<lparr>m_payload := v\<rparr>; target = env_target env in
      case run_action (vt_handle vt (sr_shard rec) trusted) (shard_bus target)
             (note_trace (THandled target trusted (env_gated env)) b) of
        ((res, st), b1) \<Rightarrow>
          let b2 = put_record target (rec\<lparr>sr_shard := st\<rparr>) b1 in
          case res of
            Inl e \<Rightarrow> (Inl e, b2)
          | Inr _ \<Rightarrow>
              bus_emit ((delivery_event env)\<lparr>ev_kind := EvDelivered, ev_payload := Some v\<rparr>)
                (record_outcome (env_seq env) Delivered (bare_refusal RR_None) b2))"

definition gate_delivery ::
  "'s shard_ops \<Rightarrow> envelope \<Rightarrow> 's shard_record \<Rightarrow> schema \<Rightarrow> 's bus \<Rightarrow> unit result \<times> 's bus" where
  "gate_delivery vt env rec door b =
     (case admit (m_payload (env_msg env)) door FirstError (b_gate_calls b) of
        (a, g) \<Rightarrow>
          let b1 = b\<lparr>b_gate_calls := g\<rparr> in
          if \<not> adm_ok a then
            (case first_error a of
               Inl e \<Rightarrow> (Inl e, b1)
             | Inr er \<Rightarrow>
                 refuse_delivery (delivery_event env) \<lparr>rf_reason = GateRefused, rf_error = er\<rparr> b1)
          else
            (case adm_value a of
               Inl e \<Rightarrow> (Inl e, b1)
             | Inr v \<Rightarrow> hand_over vt env rec v b1))"

definition deliver_one :: "'s shard_ops \<Rightarrow> envelope \<Rightarrow> 's bus \<Rightarrow> unit result \<times> 's bus" where
  "deliver_one vt env b =
     (let ev = delivery_event env in
      case bus_find b (env_target env) of
        None \<Rightarrow> refuse_delivery ev (bare_refusal NoSuchTarget) b
      | Some rec \<Rightarrow>
          if \<not> sr_alive rec then refuse_delivery ev (bare_refusal TargetUnavailable) b
          else if \<not> capability_ok env b then refuse_delivery ev (bare_refusal CapabilityDenied) b
          else
            (case accept_match (sr_accept rec) (ev_schema_name ev) (ev_schema_version ev) of
               None \<Rightarrow> refuse_delivery ev (bare_refusal NotAccepted) b
             | Some door \<Rightarrow> gate_delivery vt env rec door b))"

partial_function (option) pump_loop ::
  "'s shard_ops \<Rightarrow> 's bus \<Rightarrow> (unit result \<times> 's bus) option" where
  "pump_loop vt b =
     (case b_queue b of
        [] \<Rightarrow> Some (Inr (), b)
      | env # rest \<Rightarrow>
          if b_stop_requested b then Some (Inr (), b)
          else
            (case deliver_one vt env (b\<lparr>b_queue := rest\<rparr>) of
               (Inl e, b') \<Rightarrow> Some (Inl e, b')
             | (Inr _, b') \<Rightarrow> pump_loop vt b'))"

definition pump :: "'s shard_ops \<Rightarrow> 's bus \<Rightarrow> (unit result \<times> 's bus) option" where
  "pump vt b =
     (if b_in_dispatch b then Some (Inr (), b)
      else
        (case pump_loop vt (b\<lparr>b_in_dispatch := True, b_stop_requested := False\<rparr>) of
           None \<Rightarrow> None
         | Some (Inl e, b') \<Rightarrow> Some (Inl e, b')
         | Some (Inr _, b') \<Rightarrow> Some (Inr (), b'\<lparr>b_in_dispatch := False\<rparr>)))"

definition stop :: "'s bus \<Rightarrow> 's bus" where
  "stop b = b\<lparr>b_stop_requested := True\<rparr>"

definition outcome :: "u64 \<Rightarrow> 's bus \<Rightarrow> delivery_outcome" where
  "outcome t b =
     (if t = 0 \<or> unat t \<ge> length (b_journal b) then pending_outcome else b_journal b ! unat t)"

definition pending :: "'s bus \<Rightarrow> nat" where
  "pending b = length (b_queue b)"

subsection \<open>Observers\<close>

definition add_observer :: "observer option \<Rightarrow> 's bus \<Rightarrow> u64 \<times> 's bus" where
  "add_observer obs b =
     (let i = b_next_observer_id b in
      (i, b\<lparr>b_next_observer_id := i + 1, b_observers := b_observers b @ [(i, obs)]\<rparr>))"

fun remove_first :: "u64 \<Rightarrow> (u64 \<times> 'o) list \<Rightarrow> (u64 \<times> 'o) list" where
  "remove_first i [] = []"
| "remove_first i ((j, f) # obs) = (if j = i then obs else (j, f) # remove_first i obs)"

definition remove_observer :: "u64 \<Rightarrow> 's bus \<Rightarrow> 's bus" where
  "remove_observer i b = b\<lparr>b_observers := remove_first i (b_observers b)\<rparr>"

subsection \<open>Lifecycle\<close>

definition snapshot_bytes :: "'s shard_ops \<Rightarrow> shard_id \<Rightarrow> 's bus \<Rightarrow> string result" where
  "snapshot_bytes vt i b =
     (case bus_find b i of
        None \<Rightarrow> Inl (Invalid_argument ''snapshot_bytes: no such shard'')
      | Some rec \<Rightarrow> (case vt_snapshot vt (sr_shard rec) of Inl e \<Rightarrow> Inl e | Inr v \<Rightarrow> serialize v))"

definition lifecycle_event :: "event_kind \<Rightarrow> shard_id \<Rightarrow> 's shard_record \<Rightarrow> bool \<Rightarrow> refusal \<Rightarrow> bus_event" where
  "lifecycle_event k i rec from_lkg r =
     new_event\<lparr>ev_kind := k, ev_target := i, ev_schema_name := s_name (sr_state_schema rec),
       ev_schema_version := s_version (sr_state_schema rec), ev_from_last_known_good := from_lkg,
       ev_refusal := r\<rparr>"

definition kill :: "shard_id \<Rightarrow> 's bus \<Rightarrow> unit result \<times> 's bus" where
  "kill i b =
     (case bus_find b i of
        None \<Rightarrow> (Inr (), b)
      | Some rec \<Rightarrow>
          bus_emit (lifecycle_event EvDied i rec False (bare_refusal RR_None))
            (put_record i (rec\<lparr>sr_alive := False\<rparr>) b))"

definition announce ::
  "bus_event \<Rightarrow> revive_outcome \<Rightarrow> 's bus \<Rightarrow> revive_outcome result \<times> 's bus" where
  "announce ev out b =
     (case bus_emit ev b of (Inl e, b') \<Rightarrow> (Inl e, b') | (Inr _, b') \<Rightarrow> (Inr out, b'))"

text \<open>
  \<open>shard->revive(v)\<close>, then the member updates that follow it (\<open>upd\<close>), then the announcement. A throw
  from \<open>revive\<close> skips both.
\<close>

definition revive_with ::
  "'s shard_ops \<Rightarrow> shard_id \<Rightarrow> zvalue \<Rightarrow> ('s shard_record \<Rightarrow> 's shard_record) \<Rightarrow> 's shard_record \<Rightarrow>
   bus_event \<Rightarrow> revive_outcome \<Rightarrow> 's bus \<Rightarrow> revive_outcome result \<times> 's bus" where
  "revive_with vt i v upd rec ev out b =
     (case vt_revive vt (sr_shard rec) v of
        (res, st) \<Rightarrow>
          let b1 = note_trace (TRevived i v) b; rec1 = rec\<lparr>sr_shard := st\<rparr> in
          case res of
            Inl e \<Rightarrow> (Inl e, put_record i rec1 b1)
          | Inr _ \<Rightarrow> announce ev out (put_record i (upd rec1) b1))"

definition admit_candidate :: "schema \<Rightarrow> string \<Rightarrow> 's bus \<Rightarrow> admission result \<times> 's bus" where
  "admit_candidate door bytes b =
     (case admit_unverified (\<lambda>_. None) (parse bytes) (Some door) FirstError (b_gate_calls b) of
        (a, g) \<Rightarrow> (a, b\<lparr>b_gate_calls := g\<rparr>))"

definition read_policy :: "zvalue \<Rightarrow> (i64 \<times> bool) result" where
  "read_policy v =
     rbind (deref (value_get v ''max_reloads'')) (\<lambda>c.
     rbind (as_int c) (\<lambda>n.
     rbind (deref (value_get v ''revive_from_last_good'')) (\<lambda>d.
     rbind (as_bool d) (\<lambda>f. Inr (n, f)))))"

definition reload_gated ::
  "'s shard_ops \<Rightarrow> shard_id \<Rightarrow> string \<Rightarrow> 's shard_record \<Rightarrow> bool \<Rightarrow> 's bus \<Rightarrow>
   revive_outcome result \<times> 's bus" where
  "reload_gated vt i bytes rec revive_from_last_good b =
     (case admit_candidate (sr_state_schema rec) bytes b of
        (Inl e, b1) \<Rightarrow> (Inl e, b1)
      | (Inr admitted, b1) \<Rightarrow>
          if adm_ok admitted then
            (case adm_value admitted of
               Inl e \<Rightarrow> (Inl e, b1)
             | Inr state \<Rightarrow>
                 revive_with vt i state
                   (\<lambda>r. r\<lparr>sr_last_known_good := state, sr_reloads_used := sr_reloads_used r + 1,
                          sr_alive := True\<rparr>)
                   rec (lifecycle_event EvRevived i rec False (bare_refusal RR_None))
                   (new_revive_outcome\<lparr>ro_revived := True\<rparr>) b1)
          else
            (case first_error admitted of
               Inl e \<Rightarrow> (Inl e, b1)
             | Inr er \<Rightarrow>
                 let why = \<lparr>rf_reason = GateRefused, rf_error = er\<rparr>;
                     out = new_revive_outcome\<lparr>ro_refusal := why\<rparr> in
                 if revive_from_last_good then
                   revive_with vt i (sr_last_known_good rec)
                     (\<lambda>r. r\<lparr>sr_reloads_used := sr_reloads_used r + 1, sr_alive := True\<rparr>)
                     rec (lifecycle_event EvRevived i rec True why)
                     (out\<lparr>ro_revived := True, ro_from_last_known_good := True\<rparr>) b1
                 else announce (lifecycle_event EvRefused i rec False why) out b1))"

definition reload_policed ::
  "'s shard_ops \<Rightarrow> shard_id \<Rightarrow> string \<Rightarrow> 's shard_record \<Rightarrow> admission \<Rightarrow> 's bus \<Rightarrow>
   revive_outcome result \<times> 's bus" where
  "reload_policed vt i bytes rec pol b =
     (if \<not> adm_ok pol then
        (case first_error pol of
           Inl e \<Rightarrow> (Inl e, b)
         | Inr er \<Rightarrow>
             (Inr (new_revive_outcome\<lparr>ro_policy_malformed := True,
                ro_refusal := \<lparr>rf_reason = GateRefused, rf_error = er\<rparr>\<rparr>), b))
      else
        (case adm_value pol of
           Inl e \<Rightarrow> (Inl e, b)
         | Inr pv \<Rightarrow>
             (case read_policy pv of
                Inl e \<Rightarrow> (Inl e, b)
              | Inr (max_reloads, revive_from_last_good) \<Rightarrow>
                  if sint (sr_reloads_used rec) \<ge> sint max_reloads
                  then (Inr (new_revive_outcome\<lparr>ro_reloads_exhausted := True\<rparr>), b)
                  else reload_gated vt i bytes rec revive_from_last_good b)))"

definition reload ::
  "'s shard_ops \<Rightarrow> shard_id \<Rightarrow> string \<Rightarrow> 's bus \<Rightarrow> revive_outcome result \<times> 's bus" where
  "reload vt i bytes b =
     (case bus_find b i of
        None \<Rightarrow> (Inr (new_revive_outcome\<lparr>ro_refusal := bare_refusal NoSuchTarget\<rparr>), b)
      | Some rec \<Rightarrow>
          (case vt_policy vt (sr_shard rec) of
             Inl e \<Rightarrow> (Inl e, b)
           | Inr policy \<Rightarrow>
               (case lifecycle_policy_schema of
                  Inl e \<Rightarrow> (Inl e, b)
                | Inr grammar \<Rightarrow>
                    (case admit policy grammar FirstError (b_gate_calls b) of
                       (pol, g) \<Rightarrow> reload_policed vt i bytes rec pol (b\<lparr>b_gate_calls := g\<rparr>)))))"

definition swap_state ::
  "'s shard_ops \<Rightarrow> shard_id \<Rightarrow> string \<Rightarrow> 's bus \<Rightarrow> revive_outcome result \<times> 's bus" where
  "swap_state vt i bytes b =
     (case bus_find b i of
        None \<Rightarrow> (Inr (new_revive_outcome\<lparr>ro_refusal := bare_refusal NoSuchTarget\<rparr>), b)
      | Some rec \<Rightarrow>
          (case admit_candidate (sr_state_schema rec) bytes b of
             (Inl e, b1) \<Rightarrow> (Inl e, b1)
           | (Inr admitted, b1) \<Rightarrow>
               if \<not> adm_ok admitted then
                 (case first_error admitted of
                    Inl e \<Rightarrow> (Inl e, b1)
                  | Inr er \<Rightarrow>
                      let why = \<lparr>rf_reason = GateRefused, rf_error = er\<rparr> in
                      announce (lifecycle_event EvRefused i rec False why)
                        (new_revive_outcome\<lparr>ro_refusal := why\<rparr>) b1)
               else
                 (case adm_value admitted of
                    Inl e \<Rightarrow> (Inl e, b1)
                  | Inr state \<Rightarrow>
                      revive_with vt i state
                        (\<lambda>r. r\<lparr>sr_last_known_good := state, sr_alive := True\<rparr>)
                        rec (lifecycle_event EvRevived i rec False (bare_refusal RR_None))
                        (new_revive_outcome\<lparr>ro_revived := True\<rparr>) b1)))"

subsection \<open>Queries\<close>

definition list_shards :: "'s bus \<Rightarrow> shard_id list" where
  "list_shards b = map (\<lambda>(k, rec). sr_id rec) (b_shards b)"

definition accepted_schemas :: "shard_id \<Rightarrow> 's bus \<Rightarrow> schema list" where
  "accepted_schemas i b = (case bus_find b i of None \<Rightarrow> [] | Some rec \<Rightarrow> sr_accept rec)"

definition resolve_schema :: "string \<Rightarrow> u32 \<Rightarrow> 's bus \<Rightarrow> schema option" where
  "resolve_schema n v b = reg_lookup (b_registry b) n v"

definition shard :: "shard_id \<Rightarrow> 's bus \<Rightarrow> 's option" where
  "shard i b = map_option sr_shard (bus_find b i)"

definition alive :: "shard_id \<Rightarrow> 's bus \<Rightarrow> bool" where
  "alive i b = (case bus_find b i of None \<Rightarrow> False | Some rec \<Rightarrow> sr_alive rec)"

end
