(* ===== verification/Zen_Bus.thy ===== *)
theory Zen_Bus
  imports Zen_Switchboard
begin

text \<open>
  What the switchboard keeps: the contract of \<open>class Bus\<close> and its two implementations, the frame of
  every operation, the invariant \<open>bus_ok\<close> and the reachable states of a bus driven by its host.
\<close>

section \<open>The contract of the send surface\<close>

text \<open>
  All a send surface may do to the bus is append pending deliveries with consecutive sequence
  numbers, each satisfying the surface's own law \<open>P\<close>, and run the gate.
\<close>

definition appended :: "(envelope \<Rightarrow> bool) \<Rightarrow> 's bus \<Rightarrow> 's bus \<Rightarrow> bool" where
  "appended P b b' \<longleftrightarrow>
     (\<exists>es g. b' = b\<lparr>b_queue := b_queue b @ es,
                   b_journal := b_journal b @ replicate (length es) pending_outcome,
                   b_next_seq := b_next_seq b + of_nat (length es), b_gate_calls := g\<rparr> \<and>
             (\<forall>e \<in> set es. P e) \<and>
             map env_seq es = map (\<lambda>i. b_next_seq b + of_nat i) [0..<length es])"

lemma appended_refl: "appended P b b"
  unfolding appended_def by (intro exI [of _ "[]"] exI [of _ "b_gate_calls b"]) simp

lemma appended_gate: "appended P b (b\<lparr>b_gate_calls := g\<rparr>)"
  unfolding appended_def by (intro exI [of _ "[]"] exI [of _ g]) simp

lemma appended_trans:
  assumes "appended P b b1" and "appended P b1 b2"
  shows "appended P b b2"
proof -
  obtain es g where b1: "b1 = b\<lparr>b_queue := b_queue b @ es,
      b_journal := b_journal b @ replicate (length es) pending_outcome,
      b_next_seq := b_next_seq b + of_nat (length es), b_gate_calls := g\<rparr>"
    and es: "\<forall>e \<in> set es. P e" "map env_seq es = map (\<lambda>i. b_next_seq b + of_nat i) [0..<length es]"
    using assms(1) unfolding appended_def by blast
  obtain fs h where b2: "b2 = b1\<lparr>b_queue := b_queue b1 @ fs,
      b_journal := b_journal b1 @ replicate (length fs) pending_outcome,
      b_next_seq := b_next_seq b1 + of_nat (length fs), b_gate_calls := h\<rparr>"
    and fs: "\<forall>e \<in> set fs. P e" "map env_seq fs = map (\<lambda>i. b_next_seq b1 + of_nat i) [0..<length fs]"
    using assms(2) unfolding appended_def by blast
  have "map env_seq (es @ fs) = map (\<lambda>i. b_next_seq b + of_nat i) [0..<length (es @ fs)]"
  proof -
    have "[0..<length es + length fs] = [0..<length es] @ map (\<lambda>i. i + length es) [0..<length fs]"
      by (subst upt_add_eq_append) (simp_all add: map_add_upt add.commute)
    then show ?thesis using es(2) fs(2) by (simp add: b1 ac_simps comp_def)
  qed
  then show ?thesis
    unfolding appended_def using es(1) fs(1)
    by (intro exI [of _ "es @ fs"] exI [of _ h]) (auto simp: b1 b2 replicate_add add.assoc)
qed

lemma appended_mono: "appended P b b' \<Longrightarrow> (\<And>e. P e \<Longrightarrow> Q e) \<Longrightarrow> appended Q b b'"
  unfolding appended_def by blast

locale bus_surface =
  fixes ops :: "'s bus_ops" and P :: "envelope \<Rightarrow> bool"
  assumes send_appends: "appended P b (snd (bo_send ops t m b))"
    and send_ticket: "fst (bo_send ops t m b) = b_next_seq b"
    and send_one: "length (b_queue (snd (bo_send ops t m b))) = Suc (length (b_queue b))"
    and publish_appends: "appended P b (snd (bo_publish ops m b))"
    and publish_count:
      "length (b_queue (snd (bo_publish ops m b))) = length (b_queue b) + fst (bo_publish ops m b)"
begin

text \<open>Whatever a handler does with its surface, the bus sees only such deliveries.\<close>

lemma run_action_appends: "appended P b (snd (run_action act ops b))"
proof (induction act arbitrary: b)
  case (ASend t m k)
  show ?case
    using appended_trans [OF send_appends ASend [OF rangeI]] by (simp add: Let_def)
next
  case (APublish m k)
  show ?case
    using appended_trans [OF publish_appends APublish [OF rangeI]] by (simp add: Let_def)
next
  case (AResolve n v k)
  show ?case using AResolve [OF rangeI] by simp
next
  case (AGate n k)
  show ?case
    using appended_trans [OF appended_gate AGate] by simp
qed (simp_all add: appended_refl)

end

lemma appended_enqueue:
  "P \<lparr>env_msg = m, env_target = t, env_seq = b_next_seq b, env_gated = g\<rparr> \<Longrightarrow>
   appended P b (snd (enqueue_directed t m g b))"
  unfolding appended_def
  by (intro exI [of _ "[\<lparr>env_msg = m, env_target = t, env_seq = b_next_seq b, env_gated = g\<rparr>]"]
      exI [of _ "b_gate_calls b"])
     (simp add: enqueue_directed_def Let_def)

lemma fst_enqueue [simp]: "fst (enqueue_directed t m g b) = b_next_seq b"
  by (simp add: enqueue_directed_def Let_def)

lemma queue_enqueue [simp]:
  "b_queue (snd (enqueue_directed t m g b)) =
     b_queue b @ [\<lparr>env_msg = m, env_target = t, env_seq = b_next_seq b, env_gated = g\<rparr>]"
  by (simp add: enqueue_directed_def Let_def)

text \<open>Fan-out is one enqueue per alive accepter, in the order of the shard map.\<close>

definition accepts :: "message \<Rightarrow> 's shard_record \<Rightarrow> bool" where
  "accepts m rec \<longleftrightarrow> sr_alive rec \<and>
     accept_match (sr_accept rec) (s_name (v_schema (m_payload m))) (s_version (v_schema (m_payload m))) \<noteq> None"

lemma fanout_loop_fold:
  "fanout_loop recs m g n b =
     (let ts = map (sr_id \<circ> snd) (filter (accepts m \<circ> snd) recs)
      in (n + length ts, fold (\<lambda>t b. snd (enqueue_directed t m g b)) ts b))"
  by (induction recs arbitrary: n b) (auto simp: accepts_def Let_def)

lemma appended_fold_enqueue:
  assumes "\<And>t s. P \<lparr>env_msg = m, env_target = t, env_seq = s, env_gated = g\<rparr>"
  shows "appended P b (fold (\<lambda>t b. snd (enqueue_directed t m g b)) ts b)"
proof (induction ts arbitrary: b)
  case (Cons t ts)
  have "appended P b (snd (enqueue_directed t m g b))" by (rule appended_enqueue) (rule assms)
  from appended_trans [OF this Cons] show ?case by simp
qed (simp add: appended_refl)

lemma queue_fold_enqueue:
  "b_queue (fold (\<lambda>t b. snd (enqueue_directed t m g b)) ts b) =
     b_queue b @ map (\<lambda>(i, t). \<lparr>env_msg = m, env_target = t, env_seq = b_next_seq b + of_nat i,
       env_gated = g\<rparr>) (enumerate 0 ts)"
proof (induction ts arbitrary: b)
  case (Cons t ts)
  have seq: "b_next_seq (snd (enqueue_directed t m g b)) = b_next_seq b + 1"
    by (simp add: enqueue_directed_def Let_def)
  show ?case
    by (simp add: Cons seq enumerate_Suc_eq [of 0, simplified] case_prod_beta comp_def ac_simps
        map_prod_def split_def)
qed simp

lemma appended_fanout:
  assumes "\<And>t s. P \<lparr>env_msg = m, env_target = t, env_seq = s, env_gated = g\<rparr>"
  shows "appended P b (snd (fanout m g b))"
  unfolding fanout_def fanout_loop_fold Let_def snd_conv by (rule appended_fold_enqueue) (rule assms)

lemma fanout_count: "length (b_queue (snd (fanout m g b))) = length (b_queue b) + fst (fanout m g b)"
  unfolding fanout_def fanout_loop_fold Let_def by (simp add: queue_fold_enqueue)

text \<open>The host's surface enqueues ungated; a shard's surface stamps the shard and enqueues gated.\<close>

interpretation root: bus_surface root_bus "\<lambda>e. \<not> env_gated e"
  by unfold_locales
     (simp_all add: root_bus_def send_def publish_def appended_enqueue appended_fanout fanout_count)

interpretation shard_surface: bus_surface "shard_bus self"
    "\<lambda>e. env_gated e \<and> m_sender (env_msg e) = self"
  for self
  by unfold_locales
     (simp_all add: shard_bus_def send_as_def publish_as_def appended_enqueue appended_fanout fanout_count)

section \<open>The invariant\<close>

text \<open>The (id, grant) pairs handed out so far, oldest first.\<close>

fun item_registration :: "trace_item \<Rightarrow> (shard_id \<times> grant) list" where
  "item_registration (TRegistered i g) = [(i, g)]"
| "item_registration _ = []"

definition registrations :: "trace_item list \<Rightarrow> (shard_id \<times> grant) list" where
  "registrations tr = concat (map item_registration tr)"

lemma registrations_append [simp]: "registrations (tr @ ts) = registrations tr @ registrations ts"
  by (simp add: registrations_def)

lemma registrations_simps [simp]:
  "registrations [] = []"
  "registrations (TRegistered i g # ts) = (i, g) # registrations ts"
  "registrations (THandled i m gt # ts) = registrations ts"
  "registrations (TRevived i v # ts) = registrations ts"
  "registrations (TNotified j ev # ts) = registrations ts"
  by (simp_all add: registrations_def)

definition registry_ok :: "registry \<Rightarrow> bool" where
  "registry_ok r \<longleftrightarrow> reg_ok r \<and> (\<forall>n v s. reg_lookup r n v = Some s \<longrightarrow> wf_schema s)"

definition reg_ext :: "registry \<Rightarrow> registry \<Rightarrow> bool" where
  "reg_ext r r' \<longleftrightarrow> (\<forall>n v s. reg_lookup r n v = Some s \<longrightarrow> reg_lookup r' n v = Some s)"

text \<open>A value that conforms to a schema the system has published under that name and version.\<close>

definition gated_value :: "registry \<Rightarrow> zvalue \<Rightarrow> bool" where
  "gated_value r v \<longleftrightarrow>
     (\<exists>door. reg_lookup r (s_name (v_schema v)) (s_version (v_schema v)) = Some door \<and> wf_schema door \<and>
        s_content_id (v_schema v) = s_content_id door \<and> value_conforms v door)"

definition state_value :: "registry \<Rightarrow> zvalue \<Rightarrow> bool" where
  "state_value r v \<longleftrightarrow> wf_schema (v_schema v) \<and> value_conforms v (v_schema v) \<and>
     (\<exists>x. reg_lookup r (s_name (v_schema v)) (s_version (v_schema v)) = Some x \<and>
          same_identity x (v_schema v))"

definition record_ok ::
  "registry \<Rightarrow> (shard_id \<times> grant) list \<Rightarrow> shard_id \<Rightarrow> 's shard_record \<Rightarrow> bool" where
  "record_ok r regs k rec \<longleftrightarrow>
     sr_id rec = k \<and> (k, sr_grant rec) \<in> set regs \<and>
     (\<forall>s \<in> set (sr_accept rec). reg_lookup r (s_name s) (s_version s) = Some s) \<and>
     v_schema (sr_last_known_good rec) = sr_state_schema rec \<and> state_value r (sr_last_known_good rec)"

definition shards_ok ::
  "registry \<Rightarrow> (shard_id \<times> grant) list \<Rightarrow> (u64, 's shard_record) omap \<Rightarrow> bool" where
  "shards_ok r regs m \<longleftrightarrow>
     om_ok m \<and> (\<forall>k rec. om_find m k = Some rec \<longrightarrow> record_ok r regs k rec)"

text \<open>
  The queue holds exactly the most recent deliveries, in order, and their journal slots are pending.
  (The second clause is about a journal of at most \<open>2^64\<close> slots, where the 64-bit sequence number has
  not wrapped.)
\<close>

definition queue_ok :: "envelope list \<Rightarrow> delivery_outcome list \<Rightarrow> u64 \<Rightarrow> bool" where
  "queue_ok q j n \<longleftrightarrow>
     n = of_nat (length j) \<and> length q < length j \<and>
     map env_seq q = map of_nat [length j - length q..<length j] \<and>
     (length j \<le> 2 ^ 64 \<longrightarrow>
        (\<forall>i. length j - length q \<le> i \<and> i < length j \<longrightarrow> j ! i = pending_outcome))"

definition ids_ok :: "(shard_id \<times> grant) list \<Rightarrow> u64 \<Rightarrow> bool" where
  "ids_ok regs next \<longleftrightarrow>
     map fst regs = map of_nat [1..<Suc (length regs)] \<and> next = of_nat (Suc (length regs))"

fun item_ok :: "registry \<Rightarrow> (shard_id \<times> grant) list \<Rightarrow> trace_item \<Rightarrow> bool" where
  "item_ok r regs (THandled i m gt) =
     (i \<in> fst ` set regs \<and> gated_value r (m_payload m) \<and>
      (gt \<longrightarrow> (\<exists>g. (m_sender m, g) \<in> set regs \<and>
         permits g (s_name (v_schema (m_payload m))) (s_version (v_schema (m_payload m))) i)))"
| "item_ok r regs (TRevived i v) = (i \<in> fst ` set regs \<and> state_value r v)"
| "item_ok r regs _ = True"

definition trace_ok :: "registry \<Rightarrow> trace_item list \<Rightarrow> bool" where
  "trace_ok r tr \<longleftrightarrow> (\<forall>t \<in> set tr. item_ok r (registrations tr) t)"

definition bus_ok :: "'s bus \<Rightarrow> bool" where
  "bus_ok b \<longleftrightarrow>
     registry_ok (b_registry b) \<and>
     shards_ok (b_registry b) (registrations (b_trace b)) (b_shards b) \<and>
     queue_ok (b_queue b) (b_journal b) (b_next_seq b) \<and>
     ids_ok (registrations (b_trace b)) (b_next_shard_id b) \<and>
     trace_ok (b_registry b) (b_trace b)"

lemma bus_ok_new [simp]: "bus_ok (new_bus g)"
  by (simp add: bus_ok_def new_bus_def registry_ok_def shards_ok_def queue_ok_def ids_ok_def
      trace_ok_def new_registry_def reg_lookup_def reg_snapshot_def reg_ok_def)

subsection \<open>Growing the registry and the trace keeps everything established\<close>

lemma reg_ext_refl [simp]: "reg_ext r r"
  by (simp add: reg_ext_def)

lemma reg_ext_trans: "reg_ext r r1 \<Longrightarrow> reg_ext r1 r2 \<Longrightarrow> reg_ext r r2"
  by (simp add: reg_ext_def)

lemma gated_value_mono: "reg_ext r r' \<Longrightarrow> gated_value r v \<Longrightarrow> gated_value r' v"
  unfolding gated_value_def reg_ext_def by blast

lemma state_value_mono: "reg_ext r r' \<Longrightarrow> state_value r v \<Longrightarrow> state_value r' v"
  unfolding state_value_def reg_ext_def by blast

lemma record_ok_mono:
  "reg_ext r r' \<Longrightarrow> set regs \<subseteq> set regs' \<Longrightarrow> record_ok r regs k rec \<Longrightarrow> record_ok r' regs' k rec"
  unfolding record_ok_def by (auto intro: state_value_mono simp: reg_ext_def)

lemma shards_ok_mono:
  "reg_ext r r' \<Longrightarrow> set regs \<subseteq> set regs' \<Longrightarrow> shards_ok r regs m \<Longrightarrow> shards_ok r' regs' m"
  unfolding shards_ok_def by (meson record_ok_mono)

lemma item_ok_mono:
  "reg_ext r r' \<Longrightarrow> set regs \<subseteq> set regs' \<Longrightarrow> item_ok r regs t \<Longrightarrow> item_ok r' regs' t"
  by (cases t) (auto intro: gated_value_mono state_value_mono)

lemma trace_ok_append:
  assumes "trace_ok r tr" and "reg_ext r r'" and "\<forall>t \<in> set ts. item_ok r' (registrations (tr @ ts)) t"
  shows "trace_ok r' (tr @ ts)"
  using assms unfolding trace_ok_def by (auto intro: item_ok_mono)

lemma bus_ok_registry:
  "bus_ok b \<Longrightarrow> registry_ok r \<Longrightarrow> reg_ext (b_registry b) r \<Longrightarrow> bus_ok (b\<lparr>b_registry := r\<rparr>)"
  using trace_ok_append [of "b_registry b" "b_trace b" r "[]"]
  by (auto simp: bus_ok_def intro: shards_ok_mono)

lemma bus_ok_gate_calls [simp]: "bus_ok (b\<lparr>b_gate_calls := g\<rparr>) = bus_ok b"
  by (simp add: bus_ok_def)

lemma bus_ok_flags [simp]:
  "bus_ok (b\<lparr>b_in_dispatch := d\<rparr>) = bus_ok b"
  "bus_ok (b\<lparr>b_stop_requested := d\<rparr>) = bus_ok b"
  "bus_ok (b\<lparr>b_observers := obs\<rparr>) = bus_ok b"
  "bus_ok (b\<lparr>b_next_observer_id := n\<rparr>) = bus_ok b"
  by (simp_all add: bus_ok_def)

text \<open>The ghost trace may grow by any justified item that hands out no id.\<close>

lemma bus_ok_trace:
  assumes "bus_ok b" and "registrations ts = []"
    and "\<forall>t \<in> set ts. item_ok (b_registry b) (registrations (b_trace b)) t"
  shows "bus_ok (b\<lparr>b_trace := b_trace b @ ts\<rparr>)"
  using assms trace_ok_append [of "b_registry b" "b_trace b" "b_registry b" ts]
  by (simp add: bus_ok_def)

lemma bus_ok_put_record:
  assumes "bus_ok b" and "record_ok (b_registry b) (registrations (b_trace b)) i rec"
  shows "bus_ok (put_record i rec b)"
  using assms by (auto simp: bus_ok_def put_record_def shards_ok_def om_ok_put om_find_put)

lemma bus_ok_find:
  "bus_ok b \<Longrightarrow> bus_find b i = Some rec \<Longrightarrow> record_ok (b_registry b) (registrations (b_trace b)) i rec"
  by (simp add: bus_ok_def shards_ok_def bus_find_def)

lemma record_ok_update [simp]:
  "record_ok r regs k (rec\<lparr>sr_shard := st\<rparr>) = record_ok r regs k rec"
  "record_ok r regs k (rec\<lparr>sr_alive := a\<rparr>) = record_ok r regs k rec"
  "record_ok r regs k (rec\<lparr>sr_reloads_used := n\<rparr>) = record_ok r regs k rec"
  by (simp_all add: record_ok_def)

subsection \<open>The queue and the journal\<close>

text \<open>A sequence number whose delivery has left the queue: its journal slot lies below the pending ones.\<close>

definition popped :: "u64 \<Rightarrow> 's bus \<Rightarrow> bool" where
  "popped seq b \<longleftrightarrow>
     (length (b_journal b) \<le> 2 ^ 64 \<longrightarrow> unat seq < length (b_journal b) - length (b_queue b))"

lemma unat_of_nat_u64: "n < 2 ^ 64 \<Longrightarrow> unat (of_nat n :: u64) = n"
  by (simp add: unsigned_of_nat take_bit_nat_eq_self)

lemma queue_ok_append:
  assumes "queue_ok q j n" and "map env_seq es = map (\<lambda>i. n + of_nat i) [0..<length es]"
  shows "queue_ok (q @ es) (j @ replicate (length es) pending_outcome) (n + of_nat (length es))"
proof -
  let ?k = "length es"
  have n: "n = of_nat (length j)" and q: "length q < length j"
    and seqs: "map env_seq q = map of_nat [length j - length q..<length j]"
    using assms(1) by (auto simp: queue_ok_def)
  have "[length j - length q..<length j + ?k] =
      [length j - length q..<length j] @ map (\<lambda>i. i + length j) [0..<?k]"
    by (subst upt_add_eq_append) (simp_all add: map_add_upt add.commute)
  then have "map env_seq (q @ es) = map of_nat [length j - length q..<length j + ?k]"
    using assms(2) seqs by (simp add: n comp_def add.commute)
  then show ?thesis
    using assms(1) q unfolding queue_ok_def by (auto simp: nth_append)
qed

lemma bus_ok_appended: "bus_ok b \<Longrightarrow> appended P b b' \<Longrightarrow> bus_ok b'"
  unfolding appended_def by (auto simp: bus_ok_def queue_ok_append)

lemma popped_appended: "popped seq b \<Longrightarrow> appended P b b' \<Longrightarrow> popped seq b'"
  unfolding appended_def popped_def by auto

lemma bus_ok_pop:
  assumes "bus_ok b" and "b_queue b = env # rest"
  shows "bus_ok (b\<lparr>b_queue := rest\<rparr>)" and "popped (env_seq env) (b\<lparr>b_queue := rest\<rparr>)"
proof -
  let ?j = "b_journal b"
  have q: "queue_ok (env # rest) ?j (b_next_seq b)" using assms by (simp add: bus_ok_def)
  then have len: "Suc (length rest) < length ?j" by (simp add: queue_ok_def)
  have "[length ?j - Suc (length rest)..<length ?j] =
      (length ?j - Suc (length rest)) # [length ?j - length rest..<length ?j]"
    using len by (subst upt_conv_Cons) (auto simp: Suc_diff_Suc)
  then have seqs: "env_seq env = of_nat (length ?j - Suc (length rest))"
    "map env_seq rest = map of_nat [length ?j - length rest..<length ?j]"
    using q by (simp_all add: queue_ok_def)
  then show "bus_ok (b\<lparr>b_queue := rest\<rparr>)"
    using assms(1) q len by (auto simp: bus_ok_def queue_ok_def)
  show "popped (env_seq env) (b\<lparr>b_queue := rest\<rparr>)"
    unfolding popped_def seqs(1)
    using len unat_of_nat_u64 [of "length ?j - Suc (length rest)"]
    by (simp del: of_nat_diff) linarith
qed

lemma bus_ok_record_outcome:
  assumes "bus_ok b" and "popped seq b"
  shows "bus_ok (record_outcome seq d r b)"
proof -
  have "queue_ok (b_queue b) ((b_journal b)[unat seq := x]) (b_next_seq b)" for x
    using assms by (auto simp: bus_ok_def queue_ok_def popped_def nth_list_update)
  then show ?thesis using assms(1) by (simp add: record_outcome_def bus_ok_def)
qed

subsection \<open>Telling the observers\<close>

definition told :: "'s bus \<Rightarrow> 's bus \<Rightarrow> bool" where
  "told b b' \<longleftrightarrow>
     (\<exists>ts s. b' = b\<lparr>b_trace := b_trace b @ ts, b_stop_requested := s\<rparr> \<and>
             (\<forall>t \<in> set ts. \<exists>i ev. t = TNotified i ev))"

lemma told_refl: "told b b"
  unfolding told_def by (intro exI [of _ "[]"] exI [of _ "b_stop_requested b"]) simp

lemma told_trans: "told b b1 \<Longrightarrow> told b1 b2 \<Longrightarrow> told b b2"
  unfolding told_def by (elim exE conjE) (rule exI [of _ "ts @ tsa" for ts tsa], auto)

lemma told_note: "told b (note_trace (TNotified i ev) b)"
  unfolding told_def note_trace_def
  by (intro exI [of _ "[TNotified i ev]"] exI [of _ "b_stop_requested b"]) simp

lemma told_note_stop: "told b (note_trace (TNotified i ev) b\<lparr>b_stop_requested := True\<rparr>)"
  unfolding told_def note_trace_def by (intro exI [of _ "[TNotified i ev]"] exI [of _ True]) simp

lemma told_emit_loop: "told b (snd (emit_loop obs ev b))"
proof (induction obs ev b rule: emit_loop.induct)
  case (3 i f obs ev b)
  then show ?case
    by (cases "f ev") (auto intro: told_trans told_note told_note_stop)
qed (simp_all add: told_refl)

lemma told_emit: "told b (snd (bus_emit ev b))"
  unfolding bus_emit_def by (rule told_emit_loop)

lemma registrations_told: "(\<forall>t \<in> set ts. \<exists>i ev. t = TNotified i ev) \<Longrightarrow> registrations ts = []"
  by (induction ts) auto

lemma bus_ok_told: "bus_ok b \<Longrightarrow> told b b' \<Longrightarrow> bus_ok b'"
proof -
  assume ok: "bus_ok b" and "told b b'"
  then obtain ts st where b': "b' = b\<lparr>b_trace := b_trace b @ ts, b_stop_requested := st\<rparr>"
    and ts: "\<forall>t \<in> set ts. \<exists>i ev. t = TNotified i ev"
    unfolding told_def by blast
  have "bus_ok (b\<lparr>b_trace := b_trace b @ ts\<rparr>)"
    using ts by (intro bus_ok_trace [OF ok registrations_told]) auto
  then show ?thesis by (simp add: b' bus_ok_def)
qed

lemmas bus_ok_emit = bus_ok_told [OF _ told_emit]

subsection \<open>Registration keeps the invariant\<close>

text \<open>
  Every \<open>Schema\<close> object a shard hands to the bus was built by the \<open>Schema\<close> constructor, so it is well
  formed; there is no other way to obtain one.
\<close>

definition schemas_constructed :: "'s shard_ops \<Rightarrow> bool" where
  "schemas_constructed vt \<longleftrightarrow>
     (\<forall>st ss s. vt_accepted_schemas vt st = Inr ss \<longrightarrow> Some s \<in> set ss \<longrightarrow> wf_schema s) \<and>
     (\<forall>st v. vt_snapshot vt st = Inr v \<longrightarrow> wf_schema (v_schema v))"

lemma admit_refused: "\<not> adm_ok (fst (admit v door r g)) \<Longrightarrow> \<exists>e. first_error (fst (admit v door r g)) = Inr e"
  by (auto simp: fst_admit Let_def adm_ok_def accept_def reject_def first_error_def split: list.splits)

lemma admit_accepted:
  assumes "wf_schema door" and "adm_ok (fst (admit v door r g))"
  shows "adm_value (fst (admit v door r g)) = Inr v"
    and "s_content_id (v_schema v) = s_content_id door" and "value_conforms v door"
proof -
  have "fst (validate_into v door (r = Full) g) = []"
    using assms(2) by (auto simp: fst_admit Let_def adm_ok_def reject_def split: if_splits)
  then show "adm_value (fst (admit v door r g)) = Inr v"
    and "s_content_id (v_schema v) = s_content_id door" and "value_conforms v door"
    using validate_into_Nil_iff [OF assms(1)]
    by (auto simp: fst_admit adm_value_def accept_def)
qed

lemma register_schema_ok:
  assumes "registry_ok r" and "wf_schema s" and "register_schema (Some s) r = (res, r')"
  shows "registry_ok r'" and "reg_ext r r'"
    and "res = Inr (x, c) \<Longrightarrow> reg_lookup r' (s_name x) (s_version x) = Some x \<and> same_identity x s"
proof -
  have ok: "reg_ok r" and wf: "\<And>n v t. reg_lookup r n v = Some t \<Longrightarrow> wf_schema t"
    using assms(1) by (auto simp: registry_ok_def)
  have "reg_ok r'" using reg.ok_register [OF ok, of "Some s"] assms(3) by simp
  moreover have "wf_schema t" if "reg_lookup r' n v = Some t" for n v t
    using that wf [of n v t] assms(2,3)
    by (auto simp: register_schema_cases om_find_put split: option.splits if_splits)
  ultimately show "registry_ok r'" by (simp add: registry_ok_def)
  show "reg_ext r r'"
    using reg.published [OF ok, of _ _ _ "Some s"] assms(3) by (auto simp: reg_ext_def)
  show "reg_lookup r' (s_name x) (s_version x) = Some x \<and> same_identity x s" if "res = Inr (x, c)"
    using reg.registered [OF ok, of s x c r'] assms(3) that by (auto simp: same_identity_def)
qed

lemma register_accept_ok:
  assumes "registry_ok r" and "\<forall>s. Some s \<in> set ss \<longrightarrow> wf_schema s"
    and "\<forall>s \<in> set acc. reg_lookup r (s_name s) (s_version s) = Some s"
    and "register_accept ss acc r = (res, r')"
  shows "registry_ok r' \<and> reg_ext r r' \<and>
    (\<forall>acc'. res = Inr acc' \<longrightarrow> (\<forall>s \<in> set acc'. reg_lookup r' (s_name s) (s_version s) = Some s))"
  using assms
proof (induction ss acc r rule: register_accept.induct)
  case (3 s ss acc r)
  obtain res1 r1 where reg: "register_schema (Some s) r = (res1, r1)" by (cases "register_schema (Some s) r")
  have wf: "wf_schema s" using "3.prems"(2) by simp
  note step = register_schema_ok [OF "3.prems"(1) wf reg]
  show ?case
  proof (cases res1)
    case (Inl e)
    then show ?thesis using reg step "3.prems"(4) by auto
  next
    case (Inr p)
    obtain x c where p: "p = (x, c)" by (cases p)
    have keep: "\<forall>t \<in> set (acc @ [x]). reg_lookup r1 (s_name t) (s_version t) = Some t"
      using "3.prems"(3) step(2) step(3) [of x c] Inr p by (auto simp: reg_ext_def)
    have "registry_ok r' \<and> reg_ext r1 r' \<and>
      (\<forall>acc'. res = Inr acc' \<longrightarrow> (\<forall>s \<in> set acc'. reg_lookup r' (s_name s) (s_version s) = Some s))"
      using "3.prems" reg Inr p
      by (intro "3.IH" [OF reg [symmetric] _ p [symmetric] step(1) _ keep]) auto
    then show ?thesis using reg_ext_trans [OF step(2)] by blast
  qed
qed auto

lemma mount_record_ok:
  assumes "bus_ok b" and "\<forall>s \<in> set acc. reg_lookup (b_registry b) (s_name s) (s_version s) = Some s"
    and "adm_value seeded = Inr v" and "v_schema v = state_schema" and "state_value (b_registry b) v"
  shows "bus_ok (snd (mount_record st acc state_schema seeded gr b))"
proof -
  let ?i = "b_next_shard_id b" and ?regs = "registrations (b_trace b)"
  define rec where "rec = \<lparr>sr_id = ?i, sr_shard = st, sr_accept = acc, sr_state_schema = state_schema,
    sr_last_known_good = v, sr_grant = gr, sr_reloads_used = 0, sr_alive = True\<rparr>"
  have rec: "record_ok (b_registry b) (?regs @ [(?i, gr)]) ?i rec"
    using assms by (simp add: record_ok_def rec_def)
  have ids: "ids_ok (?regs @ [(?i, gr)]) (?i + 1)"
    using assms(1) by (auto simp: bus_ok_def ids_ok_def)
  have sh: "shards_ok (b_registry b) (?regs @ [(?i, gr)]) (b_shards b)"
    using assms(1) by (auto simp: bus_ok_def intro: shards_ok_mono [OF reg_ext_refl])
  have tr: "trace_ok (b_registry b) (b_trace b @ [TRegistered ?i gr])"
    using assms(1) by (intro trace_ok_append [OF _ reg_ext_refl]) (auto simp: bus_ok_def)
  have "snd (mount_record st acc state_schema seeded gr b) = note_trace (TRegistered ?i gr)
      (if bus_find (b\<lparr>b_next_shard_id := ?i + 1\<rparr>) ?i = None
       then put_record ?i rec (b\<lparr>b_next_shard_id := ?i + 1\<rparr>) else b\<lparr>b_next_shard_id := ?i + 1\<rparr>)"
    using assms(3) by (simp add: mount_record_def Let_def rec_def)
  then show ?thesis
    using assms(1) rec ids sh tr
    by (auto simp: bus_ok_def note_trace_def put_record_def shards_ok_def om_ok_put om_find_put)
qed

lemma seed_shard_ok:
  assumes "bus_ok b" and "wf_schema (v_schema snap)"
    and "\<forall>s \<in> set acc. reg_lookup (b_registry b) (s_name s) (s_version s) = Some s"
  shows "bus_ok (snd (seed_shard st acc snap gr b))"
proof -
  let ?s = "v_schema snap" and ?a = "fst (admit snap (v_schema snap) FirstError (b_gate_calls b))"
  obtain res r where reg: "register_schema (Some ?s) (b_registry b) = (res, r)"
    by (cases "register_schema (Some ?s) (b_registry b)")
  note step = register_schema_ok [OF _ assms(2) reg]
  have ok: "bus_ok (b\<lparr>b_registry := r\<rparr>)"
    using assms(1) step by (intro bus_ok_registry) (auto simp: bus_ok_def)
  show ?thesis
  proof (cases res)
    case (Inr p)
    obtain x c where p: "p = (x, c)" by (cases p)
    have x: "reg_lookup r (s_name ?s) (s_version ?s) = Some x" "same_identity x ?s"
      using step(3) [of x c] Inr p assms(1) by (auto simp: bus_ok_def same_identity_def)
    have mount: "bus_ok (snd (mount_record st acc ?s ?a gr (b\<lparr>b_registry := r, b_gate_calls := g\<rparr>)))"
      if "adm_ok ?a" for g
      using ok assms(1,3) step(2) x admit_accepted [OF assms(2) that]
      by (intro mount_record_ok) (auto simp: bus_ok_def reg_ext_def state_value_def assms(2))
    have g: "bus_ok (b\<lparr>b_registry := r, b_gate_calls := g\<rparr>)" for g
      using ok by (simp add: bus_ok_def)
    show ?thesis
      using Inr p mount g admit_refused [of snap ?s FirstError "b_gate_calls b"]
      by (auto simp: seed_shard_def reg Let_def case_prod_beta)
  qed (simp add: seed_shard_def reg Let_def ok)
qed

lemma register_shard_ok:
  assumes "bus_ok b" and "schemas_constructed vt"
  shows "bus_ok (snd (register_shard vt incoming gr b))"
proof (cases incoming)
  case (Some st)
  show ?thesis
  proof (cases "vt_accepted_schemas vt st")
    case (Inr declared)
    obtain res r where reg: "register_accept declared [] (b_registry b) = (res, r)"
      by (cases "register_accept declared [] (b_registry b)")
    have acc: "registry_ok r \<and> reg_ext (b_registry b) r \<and>
      (\<forall>acc. res = Inr acc \<longrightarrow> (\<forall>s \<in> set acc. reg_lookup r (s_name s) (s_version s) = Some s))"
      using assms Inr by (intro register_accept_ok [OF _ _ _ reg])
        (auto simp: bus_ok_def schemas_constructed_def)
    then have ok: "bus_ok (b\<lparr>b_registry := r\<rparr>)"
      using assms(1) by (intro bus_ok_registry) auto
    have "bus_ok (snd (seed_shard st a snap gr (b\<lparr>b_registry := r\<rparr>)))"
      if "res = Inr a" "vt_snapshot vt st = Inr snap" for a snap
      using ok acc that assms(2) by (intro seed_shard_ok) (auto simp: schemas_constructed_def)
    then show ?thesis
      using Some Inr reg ok by (auto simp: register_shard_def split: sum.splits)
  qed (simp add: register_shard_def Some assms(1))
qed (simp add: register_shard_def assms(1))

subsection \<open>Delivery keeps the invariant\<close>

lemma bus_fields_note [bus_simps]:
  "b_registry (note_trace t b) = b_registry b" "b_shards (note_trace t b) = b_shards b"
  "b_queue (note_trace t b) = b_queue b" "b_journal (note_trace t b) = b_journal b"
  "b_trace (note_trace t b) = b_trace b @ [t]" "b_gate_calls (note_trace t b) = b_gate_calls b"
  by (simp_all add: note_trace_def)

lemma bus_fields_put [bus_simps]:
  "b_registry (put_record i r b) = b_registry b" "b_queue (put_record i r b) = b_queue b"
  "b_journal (put_record i r b) = b_journal b" "b_trace (put_record i r b) = b_trace b"
  "b_gate_calls (put_record i r b) = b_gate_calls b"
  by (simp_all add: put_record_def)

lemma appended_fields:
  assumes "appended P b b'"
  shows "b_registry b' = b_registry b" "b_shards b' = b_shards b" "b_trace b' = b_trace b"
    "b_observers b' = b_observers b" "b_in_dispatch b' = b_in_dispatch b"
    "b_stop_requested b' = b_stop_requested b" "b_next_shard_id b' = b_next_shard_id b"
  using assms by (auto simp: appended_def)

lemma bus_ok_note:
  "bus_ok b \<Longrightarrow> item_ok (b_registry b) (registrations (b_trace b)) t \<Longrightarrow> item_registration t = [] \<Longrightarrow>
   bus_ok (note_trace t b)"
  unfolding note_trace_def by (rule bus_ok_trace) (simp_all add: registrations_def)

lemma refuse_delivery_ok: "bus_ok b \<Longrightarrow> popped (ev_seq ev) b \<Longrightarrow> bus_ok (snd (refuse_delivery ev r b))"
  unfolding refuse_delivery_def by (intro bus_ok_emit bus_ok_record_outcome)

lemma delivery_event_seq [simp]: "ev_seq (delivery_event env) = env_seq env"
  by (simp add: delivery_event_def)

lemma accept_match_Some:
  "accept_match ss n v = Some s \<Longrightarrow> s \<in> set ss \<and> s_name s = n \<and> s_version s = v"
  by (induction ss) (auto split: if_splits)

lemma hand_over_ok:
  assumes "bus_ok b" and "popped (env_seq env) b" and "bus_find b (env_target env) = Some rec"
    and "item_ok (b_registry b) (registrations (b_trace b))
           (THandled (env_target env) ((env_msg env)\<lparr>m_payload := v\<rparr>) (env_gated env))"
  shows "bus_ok (snd (hand_over vt env rec v b))"
proof -
  let ?t = "env_target env" and ?m = "(env_msg env)\<lparr>m_payload := v\<rparr>"
  let ?b0 = "note_trace (THandled ?t ?m (env_gated env)) b"
  obtain res st b1 where run: "run_action (vt_handle vt (sr_shard rec) ?m) (shard_bus ?t) ?b0 = ((res, st), b1)"
    by (metis surj_pair)
  have b0: "bus_ok ?b0" by (rule bus_ok_note [OF assms(1,4)]) simp
  have p0: "popped (env_seq env) ?b0" using assms(2) by (simp add: popped_def bus_simps)
  have app: "appended (\<lambda>e. env_gated e \<and> m_sender (env_msg e) = ?t) ?b0 b1"
    using shard_surface.run_action_appends [of ?t ?b0 "vt_handle vt (sr_shard rec) ?m"] run by simp
  have rec: "record_ok (b_registry b1) (registrations (b_trace b1)) ?t rec"
    using bus_ok_find [OF assms(1,3)] by (simp add: appended_fields [OF app] bus_simps)
  let ?b2 = "put_record ?t (rec\<lparr>sr_shard := st\<rparr>) b1"
  have b2: "bus_ok ?b2" "popped (env_seq env) ?b2"
    using bus_ok_appended [OF b0 app] popped_appended [OF p0 app] rec
    by (auto intro: bus_ok_put_record simp: popped_def bus_simps)
  then show ?thesis
    using bus_ok_record_outcome [OF b2]
    by (auto simp: hand_over_def run Let_def intro: bus_ok_emit split: sum.splits)
qed

lemma gate_delivery_ok:
  assumes "bus_ok b" and "popped (env_seq env) b" and "bus_find b (env_target env) = Some rec"
    and "capability_ok env b"
    and "accept_match (sr_accept rec) (s_name (v_schema (m_payload (env_msg env))))
           (s_version (v_schema (m_payload (env_msg env)))) = Some door"
  shows "bus_ok (snd (gate_delivery vt env rec door b))"
proof -
  let ?v = "m_payload (env_msg env)" and ?regs = "registrations (b_trace b)"
  let ?a = "fst (admit (m_payload (env_msg env)) door FirstError (b_gate_calls b))"
  have rec: "record_ok (b_registry b) ?regs (env_target env) rec" by (rule bus_ok_find [OF assms(1,3)])
  have door: "reg_lookup (b_registry b) (s_name (v_schema ?v)) (s_version (v_schema ?v)) = Some door"
    "wf_schema door"
    using rec accept_match_Some [OF assms(5)] assms(1)
    by (auto simp: record_ok_def bus_ok_def registry_ok_def)
  have auth: "\<exists>g. (m_sender (env_msg env), g) \<in> set ?regs \<and>
      permits g (s_name (v_schema ?v)) (s_version (v_schema ?v)) (env_target env)" if "env_gated env"
    using assms(4) that bus_ok_find [OF assms(1)]
    by (auto simp: capability_ok_def record_ok_def split: option.splits)
  have item: "item_ok (b_registry b) ?regs
      (THandled (env_target env) ((env_msg env)\<lparr>m_payload := ?v\<rparr>) (env_gated env))" if "adm_ok ?a"
    using admit_accepted [OF door(2) that] door auth rec
    by (auto simp: gated_value_def record_ok_def image_iff split: if_splits) force
  let ?b1 = "b\<lparr>b_gate_calls := snd (admit ?v door FirstError (b_gate_calls b))\<rparr>"
  have b1: "bus_ok ?b1" "popped (env_seq env) ?b1" "bus_find ?b1 (env_target env) = Some rec"
    using assms by (auto simp: popped_def bus_find_def)
  have "bus_ok (snd (hand_over vt env rec ?v ?b1))" if "adm_ok ?a"
    using hand_over_ok [OF b1] item [OF that] by simp
  moreover have "bus_ok (snd (refuse_delivery (delivery_event env) r ?b1))" for r
    using b1 by (intro refuse_delivery_ok) simp_all
  ultimately show ?thesis
    using admit_accepted(1) [OF door(2)] admit_refused b1(1)
    by (auto simp: gate_delivery_def case_prod_beta Let_def split: sum.splits)
qed

lemma deliver_one_ok:
  assumes "bus_ok b" and "popped (env_seq env) b"
  shows "bus_ok (snd (deliver_one vt env b))"
  using assms gate_delivery_ok [OF assms] refuse_delivery_ok [OF assms(1)]
  by (auto simp: deliver_one_def Let_def delivery_event_def split: option.splits)

text \<open>What every delivery keeps, a whole pump keeps: partial correctness of the loop, once for all.\<close>

lemma pump_loop_invariant:
  assumes "pump_loop vt b = Some r" and "I b"
    and step: "\<And>b env rest. I b \<Longrightarrow> b_queue b = env # rest \<Longrightarrow> \<not> b_stop_requested b \<Longrightarrow>
      I (snd (deliver_one vt env (b\<lparr>b_queue := rest\<rparr>)))"
  shows "I (snd r)"
proof -
  have "vt' = vt \<Longrightarrow> I b \<Longrightarrow> I (snd r)" if "pump_loop vt' b = Some r" for vt' b r
    using that
  proof (induction rule: pump_loop.raw_induct [rotated, consumes 1, case_names 1])
    case (1 pl vt' b r)
    show ?case
    proof (cases "b_queue b")
      case Nil
      then show ?thesis using 1 by auto
    next
      case (Cons env rest)
      show ?thesis
      proof (cases "b_stop_requested b")
        case False
        obtain res b' where d: "deliver_one vt env (b\<lparr>b_queue := rest\<rparr>) = (res, b')"
          by (cases "deliver_one vt env (b\<lparr>b_queue := rest\<rparr>)")
        have "I b'" using step [OF "1.prems"(2) Cons False] d by simp
        then show ?thesis
          using 1 Cons False d by (cases res) auto
      qed (use 1 Cons in auto)
    qed
  qed
  with assms(1,2) show ?thesis by blast
qed

lemma pump_loop_ok: "pump_loop vt b = Some r \<Longrightarrow> bus_ok b \<Longrightarrow> bus_ok (snd r)"
  by (erule pump_loop_invariant [where I = bus_ok]) (auto intro: deliver_one_ok bus_ok_pop)

lemma pump_ok: "pump vt b = Some r \<Longrightarrow> bus_ok b \<Longrightarrow> bus_ok (snd r)"
  by (auto simp: pump_def split: if_splits option.splits prod.splits sum.splits dest: pump_loop_ok)

subsection \<open>Lifecycle operations keep the invariant\<close>

lemma admit_candidate_sound:
  assumes "wf_schema door" and "admit_candidate door bytes b = (Inr a, b')" and "a_value a = Some v"
  shows "v_schema v = door" and "value_conforms v door"
  using assms admit_against_sound [OF assms(1), of "\<lambda>_. None" "the (parse bytes)" False "b_gate_calls b" v]
  by (auto simp: admit_candidate_def admit_unverified_def case_prod_beta map_prod_def reject_one_def
      split: if_splits)

lemma announce_ok: "bus_ok b \<Longrightarrow> bus_ok (snd (announce ev out b))"
  using bus_ok_emit [of b ev] by (auto simp: announce_def split: prod.splits sum.splits)

lemma revive_with_ok:
  assumes "bus_ok b" and "state_value (b_registry b) v" and "bus_find b i = Some rec"
    and "\<And>st. record_ok (b_registry b) (registrations (b_trace b)) i (upd (rec\<lparr>sr_shard := st\<rparr>))"
  shows "bus_ok (snd (revive_with vt i v upd rec ev out b))"
proof -
  have rec: "record_ok (b_registry b) (registrations (b_trace b)) i rec"
    by (rule bus_ok_find [OF assms(1,3)])
  then have "bus_ok (note_trace (TRevived i v) b)"
    using assms(1,2) by (intro bus_ok_note) (force simp: record_ok_def)+
  then have "bus_ok (put_record i r (note_trace (TRevived i v) b))"
    if "record_ok (b_registry b) (registrations (b_trace b)) i r" for r
    using that by (intro bus_ok_put_record) (simp_all add: bus_simps)
  then show ?thesis
    using assms(4) rec by (auto simp: revive_with_def Let_def intro: announce_ok split: prod.splits sum.splits)
qed

lemma record_ok_new_good:
  assumes "bus_ok b" and "bus_find b i = Some rec"
    and "admit_candidate (sr_state_schema rec) bytes b = (Inr a, b')" and "a_value a = Some v"
  shows "state_value (b_registry b) v"
    and "record_ok (b_registry b) (registrations (b_trace b)) i (rec\<lparr>sr_last_known_good := v\<rparr>)"
proof -
  have rec: "record_ok (b_registry b) (registrations (b_trace b)) i rec"
    by (rule bus_ok_find [OF assms(1,2)])
  then have "wf_schema (sr_state_schema rec)" by (auto simp: record_ok_def state_value_def)
  from admit_candidate_sound [OF this assms(3,4)] rec
  show "state_value (b_registry b) v"
    and "record_ok (b_registry b) (registrations (b_trace b)) i (rec\<lparr>sr_last_known_good := v\<rparr>)"
    by (auto simp: record_ok_def state_value_def)
qed

lemma adm_value_Inr: "adm_value a = Inr v \<longleftrightarrow> a_value a = Some v"
  by (auto simp: adm_value_def split: option.splits)

text \<open>Both revival paths start by admitting the candidate, which moves only the gate counter.\<close>

lemma after_candidate:
  assumes "bus_ok b" and "bus_find b i = Some rec"
    and "admit_candidate (sr_state_schema rec) bytes b = (res, b')"
  shows "bus_ok b'" and "bus_find b' i = Some rec" and "b_registry b' = b_registry b"
    and "b_trace b' = b_trace b"
  using assms by (auto simp: bus_find_def admit_candidate_def split: prod.splits)

lemma reload_gated_ok:
  assumes "bus_ok b" and "bus_find b i = Some rec"
  shows "bus_ok (snd (reload_gated vt i bytes rec lkg b))"
proof -
  obtain res b' where adm: "admit_candidate (sr_state_schema rec) bytes b = (res, b')"
    by (cases "admit_candidate (sr_state_schema rec) bytes b")
  note b' = after_candidate [OF assms adm]
  have rec: "record_ok (b_registry b') (registrations (b_trace b')) i rec"
    by (rule bus_ok_find [OF b'(1,2)])
  have "bus_ok (snd (revive_with vt i v
      (\<lambda>r. r\<lparr>sr_last_known_good := v, sr_reloads_used := sr_reloads_used r + 1, sr_alive := True\<rparr>)
      rec ev out b'))" if "res = Inr a" "a_value a = Some v" for a v ev out
    using record_ok_new_good [OF assms, of bytes a b' v] adm that b'
    by (intro revive_with_ok [OF b'(1) _ b'(2)]) (auto simp: record_ok_def)
  moreover have "bus_ok (snd (revive_with vt i (sr_last_known_good rec)
      (\<lambda>r. r\<lparr>sr_reloads_used := sr_reloads_used r + 1, sr_alive := True\<rparr>) rec ev out b'))" for ev out
    using rec by (intro revive_with_ok [OF b'(1) _ b'(2)]) (auto simp: record_ok_def)
  ultimately show ?thesis
    using b'(1) by (auto simp: reload_gated_def adm Let_def adm_value_Inr announce_ok split: sum.splits)
qed

lemma reload_ok: "bus_ok b \<Longrightarrow> bus_ok (snd (reload vt i bytes b))"
proof -
  assume ok: "bus_ok b"
  have "bus_ok (snd (reload_policed vt i bytes rec pol (b\<lparr>b_gate_calls := g\<rparr>)))"
    if "bus_find b i = Some rec" for rec pol g
    using ok that reload_gated_ok [of "b\<lparr>b_gate_calls := g\<rparr>" i rec vt bytes]
    by (auto simp: reload_policed_def bus_find_def split: sum.splits)
  then show ?thesis using ok by (auto simp: reload_def split: option.splits sum.splits prod.splits)
qed

lemma swap_state_ok: "bus_ok b \<Longrightarrow> bus_ok (snd (swap_state vt i bytes b))"
proof (cases "bus_find b i")
  case (Some rec)
  assume ok: "bus_ok b"
  obtain res b' where adm: "admit_candidate (sr_state_schema rec) bytes b = (res, b')"
    by (cases "admit_candidate (sr_state_schema rec) bytes b")
  note b' = after_candidate [OF ok Some adm]
  have "bus_ok (snd (revive_with vt i v (\<lambda>r. r\<lparr>sr_last_known_good := v, sr_alive := True\<rparr>) rec ev out b'))"
    if "res = Inr a" "a_value a = Some v" for a v ev out
    using record_ok_new_good [OF ok Some, of bytes a b' v] adm that b'
    by (intro revive_with_ok [OF b'(1) _ b'(2)]) (auto simp: record_ok_def)
  then show ?thesis
    using b'(1) Some by (auto simp: swap_state_def adm Let_def adm_value_Inr announce_ok split: sum.splits)
qed (simp add: swap_state_def)

lemma kill_ok: "bus_ok b \<Longrightarrow> bus_ok (snd (kill i b))"
  by (auto simp: kill_def intro!: bus_ok_emit bus_ok_put_record dest: bus_ok_find split: option.splits)

lemma unregister_ok: "bus_ok b \<Longrightarrow> bus_ok (snd (unregister_shard i b))"
  by (auto simp: unregister_shard_def bus_ok_def shards_ok_def om_ok_erase om_find_erase split: option.splits)

lemma enqueue_ok: "bus_ok b \<Longrightarrow> bus_ok (snd (enqueue_directed t m g b))"
  using bus_ok_appended [OF _ appended_enqueue [of "\<lambda>_. True"]] by blast

lemma fanout_ok: "bus_ok b \<Longrightarrow> bus_ok (snd (fanout m g b))"
  using bus_ok_appended [OF _ appended_fanout [of "\<lambda>_. True"]] by blast

section \<open>Reachable states\<close>

text \<open>
  One step is one call of the host into the bus; a \<open>pump\<close> step is a pump that returns, normally or by
  throwing. Everything a shard does happens inside a pump.
\<close>

inductive bus_step :: "'s shard_ops \<Rightarrow> 's bus \<Rightarrow> 's bus \<Rightarrow> bool" for vt where
  register: "bus_step vt b (snd (register_shard vt incoming gr b))"
| unregister: "bus_step vt b (snd (unregister_shard i b))"
| host_send: "bus_step vt b (snd (send t m b))"
| host_publish: "bus_step vt b (snd (publish m b))"
| host_send_as: "bus_step vt b (snd (send_as s t m b))"
| host_publish_as: "bus_step vt b (snd (publish_as s m b))"
| pump: "pump vt b = Some r \<Longrightarrow> bus_step vt b (snd r)"
| stop: "bus_step vt b (stop b)"
| observe: "bus_step vt b (snd (add_observer obs b))"
| unobserve: "bus_step vt b (remove_observer i b)"
| kill: "bus_step vt b (snd (kill i b))"
| reload: "bus_step vt b (snd (reload vt i bytes b))"
| swap: "bus_step vt b (snd (swap_state vt i bytes b))"

inductive reachable :: "'s shard_ops \<Rightarrow> 's bus \<Rightarrow> bool" for vt where
  start: "reachable vt (new_bus g)"
| step: "reachable vt b \<Longrightarrow> bus_step vt b b' \<Longrightarrow> reachable vt b'"

lemma bus_step_ok: "bus_step vt b b' \<Longrightarrow> schemas_constructed vt \<Longrightarrow> bus_ok b \<Longrightarrow> bus_ok b'"
proof (induction rule: bus_step.induct)
  case (pump b r)
  then show ?case by (auto dest: pump_ok)
qed (simp_all add: register_shard_ok unregister_ok send_def publish_def send_as_def publish_as_def
    enqueue_ok fanout_ok stop_def add_observer_def remove_observer_def Let_def kill_ok reload_ok swap_state_ok)

lemma reachable_ok: "reachable vt b \<Longrightarrow> schemas_constructed vt \<Longrightarrow> bus_ok b"
  by (induction rule: reachable.induct) (simp_all add: bus_step_ok)

end
