(* ===== verification/Zen_Delivery.thy ===== *)
theory Zen_Delivery
  imports Zen_Bus "HOL-Library.Multiset"
begin

text \<open>
  What the switchboard promises its host: gated and authorised delivery, first in first out with one
  final fate per ticket, exact fan-out, a pump that ends when messages run out of hops, bounded
  revival, and what a throwing handler leaves behind.
\<close>

section \<open>Settled deliveries stay settled\<close>

text \<open>Slots below \<open>settled b\<close> belong to deliveries that have left the queue.\<close>

definition settled :: "'s bus \<Rightarrow> nat" where
  "settled b = length (b_journal b) - length (b_queue b)"

definition journal_kept :: "'s bus \<Rightarrow> 's bus \<Rightarrow> bool" where
  "journal_kept b b' \<longleftrightarrow>
     length (b_journal b) \<le> length (b_journal b') \<and> settled b \<le> settled b' \<and>
     (length (b_journal b') \<le> 2 ^ 64 \<longrightarrow> (\<forall>i < settled b. b_journal b' ! i = b_journal b ! i))"

lemma journal_kept_refl [simp]: "journal_kept b b"
  by (simp add: journal_kept_def)

lemma journal_kept_trans: "journal_kept b b1 \<Longrightarrow> journal_kept b1 b2 \<Longrightarrow> journal_kept b b2"
  unfolding journal_kept_def by (auto intro: order_trans dest: less_le_trans)

lemma journal_kept_same:
  "b_journal b' = b_journal b \<Longrightarrow> b_queue b' = b_queue b \<Longrightarrow> journal_kept b b'"
  by (simp add: journal_kept_def settled_def)

lemma journal_kept_appended: "appended P b b' \<Longrightarrow> journal_kept b b'"
  by (auto simp: appended_def journal_kept_def settled_def nth_append)

lemma told_fields:
  assumes "told b b'"
  shows "b_journal b' = b_journal b" "b_queue b' = b_queue b" "b_shards b' = b_shards b"
    "b_registry b' = b_registry b" "b_in_dispatch b' = b_in_dispatch b" "b_next_seq b' = b_next_seq b"
    "b_gate_calls b' = b_gate_calls b" "b_observers b' = b_observers b"
    "b_next_shard_id b' = b_next_shard_id b"
  using assms by (auto simp: told_def)

lemmas emit_fields = told_fields [OF told_emit]

lemma outcome_fields [bus_simps]:
  "b_queue (record_outcome seq d r b) = b_queue b" "b_shards (record_outcome seq d r b) = b_shards b"
  "length (b_journal (record_outcome seq d r b)) = length (b_journal b)"
  "b_registry (record_outcome seq d r b) = b_registry b"
  "b_in_dispatch (record_outcome seq d r b) = b_in_dispatch b"
  "b_gate_calls (record_outcome seq d r b) = b_gate_calls b"
  "b_observers (record_outcome seq d r b) = b_observers b"
  "b_trace (record_outcome seq d r b) = b_trace b"
  "b_next_shard_id (record_outcome seq d r b) = b_next_shard_id b"
  by (simp_all add: record_outcome_def)

text \<open>
  One delivery, just popped with sequence number \<open>of_nat k\<close> where \<open>k\<close> is the first slot no longer in the
  queue: slots below \<open>k\<close> stay as they are, and unless it throws, slot \<open>k\<close> receives a final outcome.
\<close>

definition settles :: "nat \<Rightarrow> 's bus \<Rightarrow> unit result \<times> 's bus \<Rightarrow> bool" where
  "settles k b r \<longleftrightarrow>
     length (b_journal b) \<le> length (b_journal (snd r)) \<and> settled b \<le> settled (snd r) \<and>
     (length (b_journal (snd r)) \<le> 2 ^ 64 \<longrightarrow>
        (\<forall>i < settled b. i \<noteq> k \<longrightarrow> b_journal (snd r) ! i = b_journal b ! i) \<and>
        (fst r = Inr () \<longrightarrow> d_disposition (b_journal (snd r) ! k) \<noteq> Pending))"

lemma settles_emit:
  assumes "k < settled b" and "d \<noteq> Pending"
  shows "settles k b (bus_emit ev (record_outcome (of_nat k) d r b))"
proof -
  let ?b = "record_outcome (of_nat k) d r b"
  have "b_journal ?b = (b_journal b)[k := \<lparr>d_disposition = d, d_refusal = r\<rparr>]"
    if "length (b_journal b) \<le> 2 ^ 64"
    using assms(1) that unat_of_nat_u64 [of k] by (auto simp: record_outcome_def settled_def)
  then show ?thesis
    using assms by (auto simp: settles_def emit_fields settled_def bus_simps)
qed

lemma settles_kept:
  assumes "journal_kept b b1" and "settles k b1 r" and "k < settled b"
  shows "settles k b r"
  using assms unfolding settles_def journal_kept_def
  by (auto intro: le_trans)

lemma settles_throw: "journal_kept b b1 \<Longrightarrow> settles k b (Inl e, b1)"
  by (simp add: settles_def journal_kept_def)

lemma hand_over_settles:
  assumes "k < settled b" and "env_seq env = of_nat k"
  shows "settles k b (hand_over vt env rec v b)"
proof -
  let ?t = "env_target env" and ?m = "(env_msg env)\<lparr>m_payload := v\<rparr>"
  let ?b0 = "note_trace (THandled ?t ?m (env_gated env)) b"
  obtain res st b1 where run: "run_action (vt_handle vt (sr_shard rec) ?m) (shard_bus ?t) ?b0 = ((res, st), b1)"
    by (metis surj_pair)
  let ?b2 = "put_record ?t (rec\<lparr>sr_shard := st\<rparr>) b1"
  have "journal_kept ?b0 b1"
    using shard_surface.run_action_appends [of ?t ?b0 "vt_handle vt (sr_shard rec) ?m"] run
    by (auto intro: journal_kept_appended)
  moreover have "journal_kept b ?b0" "journal_kept b1 ?b2"
    by (simp_all add: journal_kept_same bus_simps)
  ultimately have kept: "journal_kept b ?b2" using journal_kept_trans by metis
  then have "k < settled ?b2" using assms(1) by (auto simp: journal_kept_def)
  then have "settles k b (bus_emit ev (record_outcome (of_nat k) Delivered r ?b2))" for ev r
    using settles_kept [OF kept settles_emit assms(1)] by simp
  then show ?thesis
    using settles_throw [OF kept] by (auto simp: hand_over_def run Let_def assms(2) split: sum.splits)
qed

lemma deliver_one_settles:
  assumes "k < settled b" and "env_seq env = of_nat k"
  shows "settles k b (deliver_one vt env b)"
proof -
  have refuse: "settles k b (refuse_delivery (delivery_event env) r b)" for r
    using settles_emit [OF assms(1)] by (simp add: refuse_delivery_def assms(2))
  have gate: "settles k b (gate_delivery vt env rec door b)" for rec door
  proof -
    let ?b1 = "b\<lparr>b_gate_calls := snd (admit (m_payload (env_msg env)) door FirstError (b_gate_calls b))\<rparr>"
    have kept: "journal_kept b ?b1" by (simp add: journal_kept_same)
    have k1: "k < settled ?b1" using assms(1) by (simp add: settled_def)
    have "settles k b (refuse_delivery (delivery_event env) r ?b1)" for r
      using settles_kept [OF kept settles_emit [OF k1] assms(1)] by (simp add: refuse_delivery_def assms(2))
    moreover have "settles k b (hand_over vt env rec v ?b1)" for v
      using settles_kept [OF kept hand_over_settles [OF k1 assms(2)] assms(1)] .
    ultimately show ?thesis
      using settles_throw [OF kept]
      by (auto simp: gate_delivery_def case_prod_beta Let_def split: sum.splits)
  qed
  show ?thesis
    using refuse gate by (auto simp: deliver_one_def Let_def split: option.splits)
qed

lemma pop_seq:
  assumes "bus_ok b" and "b_queue b = env # rest"
  shows "env_seq env = of_nat (settled b)" and "settled (b\<lparr>b_queue := rest\<rparr>) = Suc (settled b)"
proof -
  have q: "queue_ok (env # rest) (b_journal b) (b_next_seq b)" using assms by (simp add: bus_ok_def)
  then have len: "Suc (length rest) < length (b_journal b)" by (simp add: queue_ok_def)
  then show "settled (b\<lparr>b_queue := rest\<rparr>) = Suc (settled b)" using assms(2) by (simp add: settled_def)
  have "[settled b..<length (b_journal b)] = settled b # [Suc (settled b)..<length (b_journal b)]"
    using len assms(2) by (subst upt_conv_Cons) (auto simp: settled_def)
  then show "env_seq env = of_nat (settled b)"
    using q assms(2) by (simp add: queue_ok_def settled_def del: of_nat_diff)
qed

lemma deliver_pop_settles:
  assumes "bus_ok b" and "b_queue b = env # rest"
  shows "settles (settled b) (b\<lparr>b_queue := rest\<rparr>) (deliver_one vt env (b\<lparr>b_queue := rest\<rparr>))"
  using pop_seq [OF assms] by (intro deliver_one_settles) simp_all

lemma deliver_pop_kept:
  assumes "bus_ok b" and "b_queue b = env # rest"
  shows "journal_kept b (snd (deliver_one vt env (b\<lparr>b_queue := rest\<rparr>)))"
  using deliver_pop_settles [OF assms, of vt] pop_seq(2) [OF assms]
  by (auto simp: settles_def journal_kept_def)

section \<open>A delivery touches nothing but the objects\<close>

text \<open>Two buses whose shard records differ at most in the shard objects' own state.\<close>

definition only_objects :: "'s bus \<Rightarrow> 's bus \<Rightarrow> bool" where
  "only_objects b b' \<longleftrightarrow>
     (\<forall>i x. map_option (\<lambda>r. r\<lparr>sr_shard := x\<rparr>) (bus_find b' i) = map_option (\<lambda>r. r\<lparr>sr_shard := x\<rparr>) (bus_find b i)) \<and>
     b_registry b' = b_registry b \<and> b_observers b' = b_observers b \<and>
     b_next_shard_id b' = b_next_shard_id b \<and> b_in_dispatch b' = b_in_dispatch b"

lemma only_objects_refl [simp]: "only_objects b b"
  by (simp add: only_objects_def)

lemma only_objects_trans: "only_objects b b1 \<Longrightarrow> only_objects b1 b2 \<Longrightarrow> only_objects b b2"
  by (simp add: only_objects_def)

lemma only_objects_same:
  "b_shards b' = b_shards b \<Longrightarrow> b_registry b' = b_registry b \<Longrightarrow> b_observers b' = b_observers b \<Longrightarrow>
   b_next_shard_id b' = b_next_shard_id b \<Longrightarrow> b_in_dispatch b' = b_in_dispatch b \<Longrightarrow> only_objects b b'"
  by (simp add: only_objects_def bus_find_def)

lemma only_objects_appended: "appended P b b' \<Longrightarrow> only_objects b b'"
  by (rule only_objects_same) (simp_all add: appended_fields)

lemma only_objects_emit: "only_objects b (snd (bus_emit ev b))"
  by (rule only_objects_same) (simp_all add: emit_fields)

lemma only_objects_outcome: "only_objects b (record_outcome seq d r b)"
  by (rule only_objects_same) (simp_all add: bus_simps)

lemma only_objects_put:
  "bus_find b i = Some rec \<Longrightarrow> only_objects b (put_record i (rec\<lparr>sr_shard := st\<rparr>) b)"
  by (auto simp: only_objects_def put_record_def bus_find_def om_find_put)

lemma only_objects_finish: "only_objects b (snd (bus_emit ev (record_outcome seq d r b)))"
  by (rule only_objects_trans [OF only_objects_outcome only_objects_emit])

lemma only_objects_hand_over:
  assumes "bus_find b (env_target env) = Some rec"
  shows "only_objects b (snd (hand_over vt env rec v b))"
proof -
  let ?t = "env_target env" and ?m = "(env_msg env)\<lparr>m_payload := v\<rparr>"
  let ?b0 = "note_trace (THandled ?t ?m (env_gated env)) b"
  obtain res st b1 where run: "run_action (vt_handle vt (sr_shard rec) ?m) (shard_bus ?t) ?b0 = ((res, st), b1)"
    by (metis surj_pair)
  have app: "appended (\<lambda>e. env_gated e \<and> m_sender (env_msg e) = ?t) ?b0 b1"
    using shard_surface.run_action_appends [of ?t ?b0 "vt_handle vt (sr_shard rec) ?m"] run by simp
  have "only_objects b ?b0" by (rule only_objects_same) (simp_all add: note_trace_def)
  moreover have "bus_find b1 ?t = Some rec"
    using assms by (simp add: bus_find_def appended_fields [OF app] bus_simps)
  ultimately have "only_objects b (put_record ?t (rec\<lparr>sr_shard := st\<rparr>) b1)"
    using only_objects_trans only_objects_appended [OF app] only_objects_put by metis
  then show ?thesis
    using only_objects_trans [OF _ only_objects_finish]
    by (auto simp: hand_over_def run Let_def split: sum.splits)
qed

lemma only_objects_deliver: "only_objects b (snd (deliver_one vt env b))"
proof -
  have refuse: "only_objects b (snd (refuse_delivery (delivery_event env) r b))" for r
    by (simp add: refuse_delivery_def only_objects_finish)
  have gate: "only_objects b (snd (gate_delivery vt env rec door b))"
    if "bus_find b (env_target env) = Some rec" for rec door
  proof -
    let ?b1 = "b\<lparr>b_gate_calls := snd (admit (m_payload (env_msg env)) door FirstError (b_gate_calls b))\<rparr>"
    have b1: "only_objects b ?b1" by (rule only_objects_same) simp_all
    have "only_objects b (snd (hand_over vt env rec v ?b1))" for v
      using only_objects_trans [OF b1 only_objects_hand_over] that by (simp add: bus_find_def)
    then show ?thesis
      using b1 only_objects_trans [OF b1 only_objects_finish]
      by (auto simp: gate_delivery_def refuse_delivery_def case_prod_beta Let_def split: sum.splits)
  qed
  show ?thesis
    using refuse gate by (auto simp: deliver_one_def Let_def split: option.splits)
qed

lemma only_objects_pump_loop: "pump_loop vt b = Some r \<Longrightarrow> only_objects b (snd r)"
proof (erule pump_loop_invariant [where I = "only_objects b"])
  fix b1 env rest assume "only_objects b b1" "b_queue b1 = env # rest"
  moreover have "only_objects b1 (b1\<lparr>b_queue := rest\<rparr>)" by (rule only_objects_same) simp_all
  ultimately show "only_objects b (snd (deliver_one vt env (b1\<lparr>b_queue := rest\<rparr>)))"
    using only_objects_trans only_objects_deliver by metis
qed simp

section \<open>Running the pump\<close>

lemma pump_loop_unfold:
  "pump_loop vt b =
     (case b_queue b of
        [] \<Rightarrow> Some (Inr (), b)
      | env # rest \<Rightarrow>
          if b_stop_requested b then Some (Inr (), b)
          else case deliver_one vt env (b\<lparr>b_queue := rest\<rparr>) of
                 (Inl e, b') \<Rightarrow> Some (Inl e, b')
               | (Inr _, b') \<Rightarrow> pump_loop vt b')"
  by (rule pump_loop.simps)

text \<open>A pump that returns normally, with an invariant of its successful deliveries.\<close>

lemma pump_loop_normal:
  assumes "pump_loop vt b = Some (Inr (), b')" and "I b"
    and step: "\<And>b env rest b'. I b \<Longrightarrow> b_queue b = env # rest \<Longrightarrow>
      deliver_one vt env (b\<lparr>b_queue := rest\<rparr>) = (Inr (), b') \<Longrightarrow> I b'"
  shows "I b' \<and> (b_queue b' = [] \<or> b_stop_requested b')"
proof -
  have "vt' = vt \<Longrightarrow> I b \<Longrightarrow> fst r = Inr () \<Longrightarrow> I (snd r) \<and> (b_queue (snd r) = [] \<or> b_stop_requested (snd r))"
    if "pump_loop vt' b = Some r" for vt' b r
    using that
  proof (induction rule: pump_loop.raw_induct [rotated, consumes 1, case_names 1])
    case (1 pl vt' b r)
    show ?case
    proof (cases "b_queue b = [] \<or> b_stop_requested b")
      case True
      then show ?thesis using 1 by (auto split: list.splits)
    next
      case False
      then obtain env rest where q: "b_queue b = env # rest" by (cases "b_queue b") auto
      obtain res b' where d: "deliver_one vt env (b\<lparr>b_queue := rest\<rparr>) = (res, b')"
        by (cases "deliver_one vt env (b\<lparr>b_queue := rest\<rparr>)")
      show ?thesis
        using 1 False q d step [OF "1.prems"(2) q] by (cases res) auto
    qed
  qed
  from this [OF assms(1) refl assms(2)] show ?thesis by simp
qed

section \<open>A small system\<close>

text \<open>
  One shard that accepts the empty shape \<open>Ping\<close>, allows two revivals and forwards a ping carrying a
  reply address to that address. It is used to exhibit runs.
\<close>

definition plain_schema :: "string \<Rightarrow> schema" where
  "plain_schema n = Schema n 1 [] (compute_content_id n 1 [])"

definition ping :: "shard_id \<Rightarrow> message" where
  "ping reply = \<lparr>m_payload = Value (plain_schema ''Ping'') [], m_sender = 0, m_reply_to = reply, m_correlation = 7\<rparr>"

definition policy_schema :: schema where
  "policy_schema =
     (let fs = [Field ''max_reloads'' (TypeRef KInt None None) True,
                Field ''revive_from_last_good'' (TypeRef KBool None None) True]
      in Schema ''LifecyclePolicy'' 1 fs (compute_content_id ''LifecyclePolicy'' 1 fs))"

definition relay_ops :: "unit shard_ops" where
  "relay_ops =
     \<lparr>vt_accepted_schemas = (\<lambda>_. Inr [Some (plain_schema ''Ping'')]),
      vt_handle = (\<lambda>st m. if m_reply_to m = 0 then ADone st
                          else ASend (m_reply_to m) (ping 0) (\<lambda>_. ADone st)),
      vt_snapshot = (\<lambda>_. Inr (Value (plain_schema ''S'') [])),
      vt_policy = (\<lambda>_. Inr (Value policy_schema [Some (CInt 2), Some (CBool True)])),
      vt_revive = (\<lambda>st v. (Inr (), st))\<rparr>"

definition relay_grant :: grant where
  "relay_grant = allow ''Ping'' 1 1 grant_nothing"

definition relay_bus :: "unit bus" where
  "relay_bus = snd (send 1 (ping 1) (snd (register_shard relay_ops (Some ()) relay_grant (new_bus 0))))"

lemma plain_schema_wf [simp]: "wf_schema (plain_schema n)"
  by (simp add: plain_schema_def)

lemma relay_constructed [simp]: "schemas_constructed relay_ops"
  by (auto simp: schemas_constructed_def relay_ops_def)

lemma plain_admitted:
  "admit (Value (plain_schema n) []) (plain_schema n) r g = (accept (Value (plain_schema n) []), g + 1)"
proof -
  have "fst (validate_into (Value (plain_schema n) []) (plain_schema n) (r = Full) g) = []"
    by (subst validate_into_Nil_iff) (simp_all add: plain_schema_def value_conforms.simps)
  then show ?thesis by (intro prod_eqI) (simp_all add: fst_admit Let_def)
qed

definition relay_record :: "unit shard_record" where
  "relay_record =
     \<lparr>sr_id = 1, sr_shard = (), sr_accept = [plain_schema ''Ping''], sr_state_schema = plain_schema ''S'',
      sr_last_known_good = Value (plain_schema ''S'') [], sr_grant = relay_grant, sr_reloads_used = 0,
      sr_alive = True\<rparr>"

lemma relay_bus_eq:
  "relay_bus =
     \<lparr>b_registry = [((''Ping'', 1), plain_schema ''Ping''), ((''S'', 1), plain_schema ''S'')],
      b_shards = [(1, relay_record)], b_next_shard_id = 2,
      b_queue = [\<lparr>env_msg = ping 1, env_target = 1, env_seq = 1, env_gated = False\<rparr>],
      b_journal = [pending_outcome, pending_outcome], b_next_seq = 2, b_observers = [],
      b_next_observer_id = 1, b_in_dispatch = False, b_stop_requested = False, b_gate_calls = 1,
      b_trace = [TRegistered 1 relay_grant]\<rparr>"
  by (simp add: relay_bus_def send_def enqueue_directed_def Let_def register_shard_def relay_ops_def
      new_bus_def new_registry_def register_schema_def plain_schema_def seed_shard_def
      plain_admitted [unfolded plain_schema_def] adm_ok_def accept_def mount_record_def adm_value_def
      bus_find_def put_record_def note_trace_def relay_record_def)

definition delivered :: delivery_outcome where
  "delivered = \<lparr>d_disposition = Delivered, d_refusal = bare_refusal RR_None\<rparr>"

definition relay_done :: "unit bus" where
  "relay_done = relay_bus
     \<lparr>b_queue := [], b_journal := [pending_outcome, delivered, delivered], b_next_seq := 3,
      b_gate_calls := 3,
      b_trace := [TRegistered 1 relay_grant, THandled 1 (ping 1) False,
                  THandled 1 (ping 0\<lparr>m_sender := 1\<rparr>) True]\<rparr>"

lemma relay_record_fields [simp]:
  "sr_alive relay_record" "sr_accept relay_record = [plain_schema ''Ping'']" "sr_shard relay_record = ()"
  "sr_grant relay_record = relay_grant" "sr_state_schema relay_record = plain_schema ''S''"
  "sr_reloads_used relay_record = 0" "sr_last_known_good relay_record = Value (plain_schema ''S'') []"
  by (simp_all add: relay_record_def)

lemma plain_schema_fields [simp]: "s_name (plain_schema n) = n" "s_version (plain_schema n) = 1"
  by (simp_all add: plain_schema_def)

lemma relay_deliver:
  assumes "b_shards b = [(1, relay_record)]" and "b_observers b = []"
    and "env_target env = 1" and "m_payload (env_msg env) = Value (plain_schema ''Ping'') []"
    and "env_gated env \<longrightarrow> m_sender (env_msg env) = 1"
  shows "deliver_one relay_ops env b =
    (let b1 = note_trace (THandled 1 (env_msg env) (env_gated env)) (b\<lparr>b_gate_calls := b_gate_calls b + 1\<rparr>);
         b2 = (if m_reply_to (env_msg env) = 0 then b1
               else snd (send_as 1 (m_reply_to (env_msg env)) (ping 0) b1))
     in (Inr (), record_outcome (env_seq env) Delivered (bare_refusal RR_None) b2))"
proof -
  have msg: "(env_msg env)\<lparr>m_payload := Value (plain_schema ''Ping'') []\<rparr> = env_msg env"
    using assms(4) by (cases "env_msg env") simp
  have cap: "capability_ok env b"
    using assms by (simp add: capability_ok_def bus_find_def relay_grant_def
        allow_def permits_push_rule rule_matches_def)
  have put: "put_record 1 (relay_record\<lparr>sr_shard := ()\<rparr>) b' = b'" if "b_shards b' = [(1, relay_record)]"
    for b' :: "unit bus"
    using that by (simp add: put_record_def)
  have sends: "b_shards (snd (send_as 1 t m b')) = b_shards b'" "b_observers (snd (send_as 1 t m b')) = b_observers b'"
    for t m and b' :: "unit bus"
    by (simp_all add: send_as_def enqueue_directed_def Let_def)
  have obs: "b_observers (note_trace t b') = b_observers b'" for t and b' :: "unit bus"
    by (simp add: note_trace_def)
  show ?thesis
    using assms(1-4) cap
    by (simp add: deliver_one_def Let_def bus_find_def delivery_event_def new_event_def
        gate_delivery_def plain_admitted adm_ok_def accept_def adm_value_def hand_over_def msg
        relay_ops_def shard_bus_def put sends obs bus_simps bus_emit_def)
qed

lemma relay_pump: "pump relay_ops relay_bus = Some (Inr (), relay_done)"
proof -
  let ?b = "relay_bus\<lparr>b_in_dispatch := True, b_stop_requested := False\<rparr>"
  let ?e1 = "\<lparr>env_msg = ping 1, env_target = 1, env_seq = 1, env_gated = False\<rparr>"
  let ?e2 = "\<lparr>env_msg = ping 0\<lparr>m_sender := 1\<rparr>, env_target = 1, env_seq = 2, env_gated = True\<rparr>"
  let ?b1 = "?b\<lparr>b_queue := [?e2], b_next_seq := 3, b_gate_calls := 2,
    b_journal := [pending_outcome, delivered, pending_outcome],
    b_trace := [TRegistered 1 relay_grant, THandled 1 (ping 1) False]\<rparr>"
  let ?b2 = "relay_done\<lparr>b_in_dispatch := True\<rparr>"
  have d1: "deliver_one relay_ops ?e1 (?b\<lparr>b_queue := []\<rparr>) = (Inr (), ?b1)"
    by (subst relay_deliver)
       (simp_all add: relay_bus_eq ping_def send_as_def enqueue_directed_def Let_def note_trace_def
        record_outcome_def delivered_def)
  have d2: "deliver_one relay_ops ?e2 (?b1\<lparr>b_queue := []\<rparr>) = (Inr (), ?b2)"
    by (subst relay_deliver)
       (simp_all add: relay_bus_eq ping_def Let_def note_trace_def record_outcome_def delivered_def
        relay_done_def)
  have "pump_loop relay_ops ?b2 = Some (Inr (), ?b2)"
    by (subst pump_loop_unfold) (simp add: relay_done_def)
  moreover have "pump_loop relay_ops ?b1 = pump_loop relay_ops ?b2"
    by (subst pump_loop_unfold) (use d2 in \<open>simp add: relay_bus_eq\<close>)
  moreover have "pump_loop relay_ops ?b = pump_loop relay_ops ?b1"
    by (subst pump_loop_unfold) (use d1 in \<open>simp add: relay_bus_eq\<close>)
  ultimately show ?thesis
    by (simp add: pump_def) (simp add: relay_bus_eq relay_done_def)
qed

lemma relay_reachable: "reachable relay_ops relay_bus"
  unfolding relay_bus_def
  by (rule reachable.step [OF reachable.step [OF reachable.start bus_step.register] bus_step.host_send])

lemma relay_done_reachable: "reachable relay_ops relay_done"
  using reachable.step [OF relay_reachable bus_step.pump [OF relay_pump]] by simp

lemma relay_done_trace:
  "b_trace relay_done = [TRegistered 1 relay_grant, THandled 1 (ping 1) False,
     THandled 1 (ping 0\<lparr>m_sender := 1\<rparr>) True]"
  by (simp add: relay_done_def)

section \<open>Gated and authorised delivery\<close>

text \<open>
  C6: a shard never sees an unvalidated message. In every state the host can bring the bus into,
  whatever shards, grants, messages, observers and lifecycle calls were involved, each message that
  ever reached a handler went to a registered shard and its payload conforms to the schema the bus has
  published under the payload's name and version, with the same content id.
\<close>

theorem handled_messages_gated:
  assumes "reachable vt b" and "schemas_constructed vt" and "THandled i m gated \<in> set (b_trace b)"
  shows "i \<in> fst ` set (registrations (b_trace b)) \<and>
    (\<exists>door. resolve_schema (s_name (v_schema (m_payload m))) (s_version (v_schema (m_payload m))) b = Some door \<and>
       s_content_id (v_schema (m_payload m)) = s_content_id door \<and> value_conforms (m_payload m) door)"
  using reachable_ok [OF assms(1,2)] assms(3)
  by (force simp: bus_ok_def trace_ok_def gated_value_def resolve_schema_def)

theorem handled_messages_gated_witness:
  "reachable relay_ops relay_done \<and>
   (\<exists>door. resolve_schema ''Ping'' 1 relay_done = Some door \<and> value_conforms (m_payload (ping 1)) door)"
  using handled_messages_gated [OF relay_done_reachable relay_constructed, of 1 "ping 1" False]
  by (auto simp: relay_done_trace relay_done_reachable ping_def)

text \<open>
  C7: authority comes only from the host. In every reachable state, each shard-originated message
  that ever reached a handler was sent by a shard that the host registered with a grant permitting
  exactly that shape to exactly that target: no sequence of messages, revivals or reloads ever
  widens what a shard may send.
\<close>

theorem capability_confinement:
  assumes "reachable vt b" and "schemas_constructed vt" and "THandled i m True \<in> set (b_trace b)"
  shows "\<exists>g. (m_sender m, g) \<in> set (registrations (b_trace b)) \<and>
    permits g (s_name (v_schema (m_payload m))) (s_version (v_schema (m_payload m))) i"
  using reachable_ok [OF assms(1,2)] assms(3) by (force simp: bus_ok_def trace_ok_def)

theorem capability_confinement_witness:
  "\<exists>g. (1, g) \<in> set (registrations (b_trace relay_done)) \<and> permits g ''Ping'' 1 1"
  using capability_confinement [OF relay_done_reachable relay_constructed, of 1 "ping 0\<lparr>m_sender := 1\<rparr>"]
  by (auto simp: relay_done_trace ping_def)

text \<open>
  C29: a handler can only send as itself. Whatever a shard's handler does with the bus it is given,
  all that happens to the bus is that deliveries are appended to the queue, each stamped with the
  shard's own id whatever sender the handler wrote, each marked for authorisation, with consecutive
  sequence numbers and pending journal slots; shards, grants, schemas, observers and earlier
  outcomes stay as they are.
\<close>

theorem shard_cannot_impersonate:
  "\<exists>es. let b' = snd (run_action act (shard_bus self) b) in
     b_queue b' = b_queue b @ es \<and>
     list_all (\<lambda>e. env_gated e \<and> m_sender (env_msg e) = self) es \<and>
     map env_seq es = map (\<lambda>i. b_next_seq b + of_nat i) [0..<length es] \<and>
     b_journal b' = b_journal b @ replicate (length es) pending_outcome \<and>
     b_shards b' = b_shards b \<and> b_registry b' = b_registry b \<and> b_observers b' = b_observers b"
proof -
  obtain es g where "snd (run_action act (shard_bus self) b) =
      b\<lparr>b_queue := b_queue b @ es, b_journal := b_journal b @ replicate (length es) pending_outcome,
        b_next_seq := b_next_seq b + of_nat (length es), b_gate_calls := g\<rparr>"
    "\<forall>e \<in> set es. env_gated e \<and> m_sender (env_msg e) = self"
    "map env_seq es = map (\<lambda>i. b_next_seq b + of_nat i) [0..<length es]"
    using shard_surface.run_action_appends [of self b act] unfolding appended_def by blast
  then show ?thesis by (intro exI [of _ es]) (simp add: Let_def list_all_iff)
qed

text \<open>
  C30: a refused delivery is cheap and harmless. When the target is missing or dead, the sender's
  grant does not permit the shape, or the target has no such door, the structural gate is not
  consulted at all; and in these cases nothing changes but the delivery's own journal slot, the
  observers' notifications and a stop they may ask for. The reasons are tried in that order.
\<close>

theorem refused_before_gate:
  assumes "case bus_find b (env_target env) of
      None \<Rightarrow> reason = NoSuchTarget
    | Some rec \<Rightarrow>
        if \<not> sr_alive rec then reason = TargetUnavailable
        else if \<not> capability_ok env b then reason = CapabilityDenied
        else reason = NotAccepted \<and>
          accept_match (sr_accept rec) (s_name (v_schema (m_payload (env_msg env))))
            (s_version (v_schema (m_payload (env_msg env)))) = None"
  shows "let b' = snd (deliver_one vt env b); b1 = record_outcome (env_seq env) Refused (bare_refusal reason) b in
    b_gate_calls b' = b_gate_calls b \<and> b_shards b' = b_shards b \<and> b_queue b' = b_queue b \<and>
    b_registry b' = b_registry b \<and> b_journal b' = b_journal b1 \<and>
    (\<exists>ts. b_trace b' = b_trace b @ ts \<and> list_all (\<lambda>t. \<exists>i ev. t = TNotified i ev) ts)"
proof -
  let ?b1 = "record_outcome (env_seq env) Refused (bare_refusal reason) b"
  let ?ev = "(delivery_event env)\<lparr>ev_kind := EvRefused, ev_refusal := bare_refusal reason\<rparr>"
  have d: "deliver_one vt env b = bus_emit ?ev ?b1"
    using assms
    by (auto simp: deliver_one_def refuse_delivery_def Let_def delivery_event_def new_event_def
        split: option.splits if_splits)
  have "told ?b1 (snd (bus_emit ?ev ?b1))" by (rule told_emit)
  then show ?thesis unfolding d told_def by (auto simp: Let_def list_all_iff bus_simps)
qed

theorem refused_before_gate_witness:
  "b_gate_calls (snd (deliver_one relay_ops
     \<lparr>env_msg = ping 0, env_target = 9, env_seq = 1, env_gated = False\<rparr> relay_bus)) = 1"
  using refused_before_gate [where b = relay_bus and reason = NoSuchTarget and vt = relay_ops and
      env = "\<lparr>env_msg = ping 0, env_target = 9, env_seq = 1, env_gated = False\<rparr>"]
  by (simp add: bus_find_def relay_bus_eq Let_def)

section \<open>Tickets\<close>

text \<open>Host calls other than a pump leave the dispatch flag alone and at most append to the queue.\<close>

definition calm :: "'s bus \<Rightarrow> 's bus \<Rightarrow> bool" where
  "calm b b' \<longleftrightarrow> journal_kept b b' \<and> b_in_dispatch b' = b_in_dispatch b"

lemma calm_same:
  "b_journal b' = b_journal b \<Longrightarrow> b_queue b' = b_queue b \<Longrightarrow> b_in_dispatch b' = b_in_dispatch b \<Longrightarrow> calm b b'"
  by (simp add: calm_def journal_kept_same)

lemma calm_appended: "appended P b b' \<Longrightarrow> calm b b'"
  by (simp add: calm_def journal_kept_appended appended_fields)

lemma calm_register: "calm b (snd (register_shard vt incoming gr b))"
  by (rule calm_same)
     (auto simp: register_shard_def seed_shard_def mount_record_def put_record_def note_trace_def Let_def
       split: option.splits sum.splits prod.splits)

lemma calm_unregister: "calm b (snd (unregister_shard i b))"
  by (rule calm_same) (auto simp: unregister_shard_def split: option.splits)

lemma calm_kill: "calm b (snd (kill i b))"
  by (rule calm_same) (auto simp: kill_def emit_fields put_record_def split: option.splits)

lemma announce_snd: "snd (announce ev out b) = snd (bus_emit ev b)"
  by (simp add: announce_def split: prod.splits sum.splits)

lemma revive_with_same:
  "b_journal (snd (revive_with vt i v upd rec ev out b)) = b_journal b"
  "b_queue (snd (revive_with vt i v upd rec ev out b)) = b_queue b"
  "b_in_dispatch (snd (revive_with vt i v upd rec ev out b)) = b_in_dispatch b"
  by (simp_all add: revive_with_def Let_def announce_snd emit_fields put_record_def note_trace_def
      split: prod.splits sum.splits)

lemma candidate_same:
  assumes "admit_candidate door bytes b = (res, b')"
  shows "b_journal b' = b_journal b" "b_queue b' = b_queue b" "b_in_dispatch b' = b_in_dispatch b"
    "b_shards b' = b_shards b"
  using assms by (auto simp: admit_candidate_def split: prod.splits)

lemma calm_reload_gated: "calm b (snd (reload_gated vt i bytes rec lkg b))"
  by (rule calm_same)
     (simp_all add: reload_gated_def Let_def announce_snd emit_fields revive_with_same
       split: prod.splits sum.splits, simp_all add: candidate_same)

lemma calm_reload: "calm b (snd (reload vt i bytes b))"
proof -
  have "calm b (snd (reload_policed vt i bytes rec pol (b\<lparr>b_gate_calls := g\<rparr>)))" for rec pol g
    using calm_reload_gated [of "b\<lparr>b_gate_calls := g\<rparr>" vt i bytes rec]
    by (auto simp: reload_policed_def calm_def journal_kept_def settled_def split: sum.splits)
  moreover have "calm b b" by (rule calm_same) simp_all
  ultimately show ?thesis
    by (auto simp: reload_def split: option.splits sum.splits prod.splits)
qed

lemma calm_swap: "calm b (snd (swap_state vt i bytes b))"
  by (rule calm_same)
     (simp_all add: swap_state_def Let_def announce_snd emit_fields revive_with_same
       split: option.splits prod.splits sum.splits, simp_all add: candidate_same)

lemma calm_step:
  assumes "bus_step vt b b'"
  shows "calm b b' \<or> (\<exists>r. pump vt b = Some r \<and> b' = snd r)"
  using assms
proof (cases rule: bus_step.cases)
  case (host_send t m)
  then show ?thesis
    using calm_appended [OF root.send_appends, of b t m] by (simp add: root_bus_def)
next
  case (host_publish m)
  then show ?thesis
    using calm_appended [OF root.publish_appends, of b m] by (simp add: root_bus_def)
next
  case (host_send_as s t m)
  then show ?thesis
    using calm_appended [OF shard_surface.send_appends, of b s t m] by (simp add: shard_bus_def)
next
  case (host_publish_as s m)
  then show ?thesis
    using calm_appended [OF shard_surface.publish_appends, of b s m] by (simp add: shard_bus_def)
qed (auto simp: calm_register calm_unregister calm_kill calm_reload calm_swap stop_def add_observer_def
    remove_observer_def Let_def intro: calm_same)

lemma pump_loop_kept: "pump_loop vt b = Some r \<Longrightarrow> bus_ok b \<Longrightarrow> journal_kept b (snd r)"
proof -
  assume run: "pump_loop vt b = Some r" and ok: "bus_ok b"
  have "bus_ok (snd r) \<and> journal_kept b (snd r)"
  proof (rule pump_loop_invariant [OF run, where I = "\<lambda>b1. bus_ok b1 \<and> journal_kept b b1"])
    show "bus_ok b \<and> journal_kept b b" using ok by simp
  next
    fix b1 env rest
    assume I: "bus_ok b1 \<and> journal_kept b b1" and q: "b_queue b1 = env # rest"
    then show "bus_ok (snd (deliver_one vt env (b1\<lparr>b_queue := rest\<rparr>))) \<and>
        journal_kept b (snd (deliver_one vt env (b1\<lparr>b_queue := rest\<rparr>)))"
      using bus_ok_pop [of b1 env rest] deliver_one_ok journal_kept_trans deliver_pop_kept [OF _ q]
      by metis
  qed
  then show ?thesis by simp
qed

lemma pump_kept: "pump vt b = Some r \<Longrightarrow> bus_ok b \<Longrightarrow> journal_kept b (snd r)"
  using pump_loop_kept [of vt "b\<lparr>b_in_dispatch := True, b_stop_requested := False\<rparr>"]
  by (auto simp: pump_def journal_kept_def settled_def split: if_splits option.splits prod.splits sum.splits)

lemma step_kept: "bus_step vt b b' \<Longrightarrow> bus_ok b \<Longrightarrow> journal_kept b b'"
  using calm_step pump_kept by (metis calm_def)

lemma steps_kept:
  assumes "(bus_step vt)\<^sup>*\<^sup>* b b'" and "schemas_constructed vt" and "bus_ok b"
  shows "journal_kept b b' \<and> bus_ok b'"
  using assms by (induction rule: rtranclp_induct) (auto intro: journal_kept_trans step_kept bus_step_ok)

lemma settled_outcome:
  assumes "bus_ok b" and "length (b_journal b) \<le> 2 ^ 64" and "outcome t b \<noteq> pending_outcome"
  shows "unat t < settled b" and "outcome t b = b_journal b ! unat t" and "t \<noteq> 0"
proof -
  show t: "t \<noteq> 0" and out: "outcome t b = b_journal b ! unat t"
    using assms(3) by (auto simp: outcome_def split: if_splits)
  have "unat t < length (b_journal b)" using assms(3) by (auto simp: outcome_def split: if_splits)
  then show "unat t < settled b"
    using assms out unfolding bus_ok_def queue_ok_def settled_def by (metis not_less)
qed

text \<open>
  C10: a fate is final. Once a ticket's outcome is known, no later call of the host, and nothing any
  shard does, ever changes it (for as long as fewer than 2^64 deliveries have been issued).
\<close>

theorem outcome_final:
  assumes "reachable vt b" and "schemas_constructed vt" and "(bus_step vt)\<^sup>*\<^sup>* b b'"
    and "length (b_journal b') \<le> 2 ^ 64" and "outcome t b \<noteq> pending_outcome"
  shows "outcome t b' = outcome t b"
proof -
  have ok: "bus_ok b" by (rule reachable_ok [OF assms(1,2)])
  have kept: "journal_kept b b'" using steps_kept [OF assms(3,2) ok] by simp
  then have "length (b_journal b) \<le> 2 ^ 64" using assms(4) by (simp add: journal_kept_def)
  note t = settled_outcome [OF ok this assms(5)]
  have "unat t < length (b_journal b')" using t(1) kept by (auto simp: journal_kept_def settled_def)
  then show ?thesis
    using t kept assms(4) by (simp add: outcome_def journal_kept_def)
qed

theorem outcome_final_witness:
  "outcome 1 (snd (send 1 (ping 0) relay_done)) = delivered"
  using outcome_final [OF relay_done_reachable relay_constructed
      r_into_rtranclp [of "bus_step relay_ops", OF bus_step.host_send [of relay_ops relay_done 1 "ping 0"]], of 1]
  by (simp add: relay_done_def relay_bus_eq send_def enqueue_directed_def Let_def outcome_def
      delivered_def pending_outcome_def)

section \<open>The pump\<close>

text \<open>All slots from \<open>lo\<close> up to the queue have a final outcome.\<close>

definition fates_known :: "nat \<Rightarrow> 's bus \<Rightarrow> bool" where
  "fates_known lo b \<longleftrightarrow>
     (length (b_journal b) \<le> 2 ^ 64 \<longrightarrow>
        (\<forall>i. lo \<le> i \<and> i < settled b \<longrightarrow> d_disposition (b_journal b ! i) \<noteq> Pending))"

lemma deliver_fates:
  assumes "bus_ok b" and "fates_known lo b" and "b_queue b = env # rest"
    and "deliver_one vt env (b\<lparr>b_queue := rest\<rparr>) = (Inr (), b')"
    and "settled b' = Suc (settled b)"
  shows "fates_known lo b'"
proof -
  have "settles (settled b) (b\<lparr>b_queue := rest\<rparr>) (Inr (), b')"
    using deliver_pop_settles [OF assms(1,3), of vt] assms(4) by simp
  then show ?thesis
    using assms(2,5) pop_seq(2) [OF assms(1,3)]
    by (auto simp: settles_def fates_known_def less_Suc_eq)
qed

lemma deliver_settled:
  fixes b :: "'s bus"
  assumes "bus_ok b" and "b_queue b = env # rest"
  shows "settled (snd (deliver_one vt env (b\<lparr>b_queue := rest\<rparr>))) = Suc (settled b)"
proof -
  define grows where "grows = (\<lambda>(c :: 's bus) (c' :: 's bus). \<exists>es. b_queue c' = b_queue c @ es \<and>
    length (b_journal c') = length (b_journal c) + length es)"
  have emit: "grows c (snd (bus_emit ev (record_outcome q d r c)))" for c :: "'s bus" and ev q d r
    by (simp add: grows_def emit_fields bus_simps)
  have hand: "grows c (snd (hand_over vt env rec v c))" for c :: "'s bus" and rec v
  proof -
    let ?t = "env_target env" and ?m = "(env_msg env)\<lparr>m_payload := v\<rparr>"
    let ?b0 = "note_trace (THandled ?t ?m (env_gated env)) c"
    obtain res st b1 where run: "run_action (vt_handle vt (sr_shard rec) ?m) (shard_bus ?t) ?b0 = ((res, st), b1)"
      by (metis surj_pair)
    have "grows c b1"
      using shard_surface.run_action_appends [of ?t ?b0 "vt_handle vt (sr_shard rec) ?m"] run
      by (auto simp: appended_def grows_def bus_simps)
    then show ?thesis
      by (auto simp: hand_over_def run Let_def grows_def emit_fields bus_simps split: sum.splits)
  qed
  have gate: "grows c (snd (gate_delivery vt env rec door c))" for c :: "'s bus" and rec door
  proof -
    let ?c = "c\<lparr>b_gate_calls := snd (admit (m_payload (env_msg env)) door FirstError (b_gate_calls c))\<rparr>"
    have "grows c x" if "grows ?c x" for x using that by (simp add: grows_def)
    then show ?thesis
      using hand [of ?c rec] emit [of ?c]
      by (auto simp: gate_delivery_def refuse_delivery_def case_prod_beta Let_def grows_def split: sum.splits)
  qed
  have "grows c (snd (deliver_one vt env c))" for c :: "'s bus"
    using gate emit by (auto simp: deliver_one_def refuse_delivery_def Let_def split: option.splits)
  then show ?thesis
    using pop_seq(2) [OF assms] unfolding grows_def settled_def by (metis add_diff_cancel_right length_append)
qed

lemma pump_loop_fates:
  assumes "pump_loop vt b = Some (Inr (), b')" and "bus_ok b"
  shows "fates_known (settled b) b' \<and> (b_queue b' = [] \<or> b_stop_requested b')"
proof -
  have "(bus_ok b' \<and> fates_known (settled b) b') \<and> (b_queue b' = [] \<or> b_stop_requested b')"
  proof (rule pump_loop_normal [OF assms(1)])
    show "bus_ok b \<and> fates_known (settled b) b" using assms(2) by (auto simp: fates_known_def)
  next
    fix b1 env rest b2
    assume I: "bus_ok b1 \<and> fates_known (settled b) b1" and q: "b_queue b1 = env # rest"
      and d: "deliver_one vt env (b1\<lparr>b_queue := rest\<rparr>) = (Inr (), b2)"
    have "bus_ok b2" using deliver_one_ok [OF bus_ok_pop [OF _ q], of vt] I d by simp
    moreover have "settled b2 = Suc (settled b1)" using deliver_settled [OF _ q, of vt] I d by simp
    ultimately show "bus_ok b2 \<and> fates_known (settled b) b2"
      using deliver_fates [OF _ _ q d] I by simp
  qed
  then show ?thesis by simp
qed

text \<open>
  C8: a pump settles what it was given. When \<open>pump\<close> returns normally on a reachable bus that was not
  already dispatching, it is no longer dispatching, and the queue is empty unless a stop was
  requested; in that case every delivery that was queued before, and every one the handlers added
  on the way, has been either delivered or refused.
\<close>

theorem pump_settles:
  assumes "reachable vt b" and "schemas_constructed vt" and "\<not> b_in_dispatch b"
    and "pump vt b = Some (Inr (), b')" and "length (b_journal b') \<le> 2 ^ 64"
  shows "\<not> b_in_dispatch b' \<and> (b_queue b' = [] \<or> b_stop_requested b') \<and>
    (b_queue b' = [] \<longrightarrow> (\<forall>i. settled b \<le> i \<and> i < length (b_journal b') \<longrightarrow>
       d_disposition (outcome (of_nat i) b') \<noteq> Pending))"
proof -
  let ?b = "b\<lparr>b_in_dispatch := True, b_stop_requested := False\<rparr>"
  have ok: "bus_ok b" by (rule reachable_ok [OF assms(1,2)])
  obtain b1 where run: "pump_loop vt ?b = Some (Inr (), b1)" and b': "b' = b1\<lparr>b_in_dispatch := False\<rparr>"
    using assms(3,4) by (auto simp: pump_def split: option.splits prod.splits sum.splits)
  have "bus_ok ?b" using ok by (simp add: bus_ok_def)
  note fates = pump_loop_fates [OF run this]
  have pos: "0 < settled b" using ok by (auto simp: bus_ok_def queue_ok_def settled_def)
  have "d_disposition (outcome (of_nat i) b') \<noteq> Pending"
    if "b_queue b' = []" "settled b \<le> i" "i < length (b_journal b')" for i
  proof -
    have "unat (of_nat i :: u64) = i" using that(3) assms(5) by (intro unat_of_nat_u64) simp
    moreover from this have "(of_nat i :: u64) \<noteq> 0" using that(2) pos by (metis less_le_trans neq0_conv unsigned_0)
    moreover have "d_disposition (b_journal b' ! i) \<noteq> Pending"
      using fates that assms(5) by (simp add: fates_known_def b' settled_def)
    ultimately show ?thesis using that(3) by (simp add: outcome_def)
  qed
  then show ?thesis using fates by (auto simp: b')
qed

theorem pump_settles_witness:
  "d_disposition (outcome (of_nat 1) relay_done) \<noteq> Pending \<and> d_disposition (outcome (of_nat 2) relay_done) \<noteq> Pending"
proof -
  have "\<forall>i. 1 \<le> i \<and> i < 3 \<longrightarrow> d_disposition (outcome (of_nat i) relay_done) \<noteq> Pending"
    using pump_settles [OF relay_reachable relay_constructed _ relay_pump]
    by (simp add: relay_done_def relay_bus_eq settled_def numeral_3_eq_3)
  from this [rule_format, of 1] this [rule_format, of 2] show ?thesis by simp
qed

text \<open>Every message the tree sends has a payload that weighs less than \<open>n\<close>.\<close>

primrec sends_below :: "(zvalue \<Rightarrow> nat) \<Rightarrow> nat \<Rightarrow> 's action \<Rightarrow> bool" where
  "sends_below w n (ADone st) = True"
| "sends_below w n (AThrow e st) = True"
| "sends_below w n (ASend t m k) = (w (m_payload m) < n \<and> (\<forall>x. sends_below w n (k x)))"
| "sends_below w n (APublish m k) = (w (m_payload m) < n \<and> (\<forall>x. sends_below w n (k x)))"
| "sends_below w n (AResolve nm v k) = (\<forall>x. sends_below w n (k x))"
| "sends_below w n (AGate g k) = sends_below w n k"

definition weight :: "(zvalue \<Rightarrow> nat) \<Rightarrow> envelope \<Rightarrow> nat" where
  "weight w e = w (m_payload (env_msg e))"

lemma run_action_below:
  "sends_below w n act \<Longrightarrow> appended (\<lambda>e. weight w e < n) b (snd (run_action act (shard_bus self) b))"
proof (induction act arbitrary: b)
  case (ASend t m k)
  have "appended (\<lambda>e. weight w e < n) b (snd (send_as self t m b))"
    using ASend.prems unfolding send_as_def by (intro appended_enqueue) (simp add: weight_def)
  from appended_trans [OF this ASend.IH [OF rangeI]] ASend.prems
  show ?case by (simp add: Let_def shard_bus_def)
next
  case (APublish m k)
  have "appended (\<lambda>e. weight w e < n) b (snd (publish_as self m b))"
    using APublish.prems unfolding publish_as_def by (intro appended_fanout) (simp add: weight_def)
  from appended_trans [OF this APublish.IH [OF rangeI]] APublish.prems
  show ?case by (simp add: Let_def shard_bus_def)
next
  case (AResolve nm v k)
  then show ?case using AResolve.IH [OF rangeI] by simp
next
  case (AGate g k)
  then show ?case using appended_trans [OF appended_gate AGate.IH] by simp
qed (simp_all add: appended_refl)

definition enqueues_below :: "(zvalue \<Rightarrow> nat) \<Rightarrow> nat \<Rightarrow> 's bus \<Rightarrow> 's bus \<Rightarrow> bool" where
  "enqueues_below w n b b' \<longleftrightarrow> (\<exists>es. b_queue b' = b_queue b @ es \<and> (\<forall>e \<in> set es. weight w e < n))"

lemma deliver_below:
  assumes "\<forall>st m. sends_below w (w (m_payload m)) (vt_handle vt st m)"
  shows "enqueues_below w (weight w env) b (snd (deliver_one vt env b))"
proof -
  have same: "enqueues_below w n c c'" if "b_queue c' = b_queue c" for n and c c' :: "'a bus"
    using that by (simp add: enqueues_below_def)
  have refuse: "enqueues_below w n c (snd (refuse_delivery ev r c))" for n r ev and c :: "'a bus"
    by (rule same) (simp add: refuse_delivery_def emit_fields bus_simps)
  have hand: "enqueues_below w (w v) c (snd (hand_over vt env rec v c))" for rec v and c :: "'a bus"
  proof -
    let ?t = "env_target env" and ?m = "(env_msg env)\<lparr>m_payload := v\<rparr>"
    let ?b0 = "note_trace (THandled ?t ?m (env_gated env)) c"
    obtain res st b1 where run: "run_action (vt_handle vt (sr_shard rec) ?m) (shard_bus ?t) ?b0 = ((res, st), b1)"
      by (metis surj_pair)
    have "sends_below w (w v) (vt_handle vt (sr_shard rec) ?m)"
      using assms [rule_format, of ?m "sr_shard rec"] by simp
    from run_action_below [OF this, of ?b0 ?t] have "enqueues_below w (w v) c b1"
      by (auto simp: run appended_def enqueues_below_def bus_simps)
    then show ?thesis
      by (auto simp: hand_over_def run Let_def enqueues_below_def emit_fields bus_simps split: sum.splits)
  qed
  have gate: "enqueues_below w (weight w env) b (snd (gate_delivery vt env rec door b))" for rec door
  proof -
    let ?v = "m_payload (env_msg env)"
    let ?c = "b\<lparr>b_gate_calls := snd (admit ?v door FirstError (b_gate_calls b))\<rparr>"
    have pull: "enqueues_below w n b x" if "enqueues_below w n ?c x" for n x
      using that by (simp add: enqueues_below_def)
    have "v = ?v" if "adm_value (fst (admit ?v door FirstError (b_gate_calls b))) = Inr v" for v
      using that by (auto simp: fst_admit Let_def adm_value_def accept_def reject_def split: if_splits)
    then show ?thesis
      using pull [OF hand] pull [OF refuse] pull [OF same]
      by (auto simp: gate_delivery_def case_prod_beta Let_def weight_def split: sum.splits)
  qed
  show ?thesis using refuse gate by (auto simp: deliver_one_def Let_def split: option.splits)
qed

lemma pump_loop_returns:
  assumes "\<forall>st m. sends_below w (w (m_payload m)) (vt_handle vt st m)"
  shows "\<exists>r. pump_loop vt b = Some r"
proof (induction "image_mset (weight w) (mset (b_queue b))" arbitrary: b
    rule: wf_induct_rule [OF wf_mult1 [OF wf_less_than]])
  case 1
  show ?case
  proof (cases "b_queue b")
    case (Cons env rest)
    obtain res b' where d: "deliver_one vt env (b\<lparr>b_queue := rest\<rparr>) = (res, b')"
      by (cases "deliver_one vt env (b\<lparr>b_queue := rest\<rparr>)")
    obtain es where es: "b_queue b' = rest @ es" "\<forall>e \<in> set es. weight w e < weight w env"
      using deliver_below [OF assms, of env "b\<lparr>b_queue := rest\<rparr>"] d by (auto simp: enqueues_below_def)
    have "(image_mset (weight w) (mset (b_queue b')), image_mset (weight w) (mset (b_queue b))) \<in> mult1 less_than"
      using es Cons
      by (intro mult1I [of _ "weight w env" "image_mset (weight w) (mset rest)" _
            "image_mset (weight w) (mset es)"]) auto
    from 1 [OF this] obtain r where "pump_loop vt b' = Some r" by blast
    then show ?thesis
      using Cons d by (subst pump_loop_unfold) (auto split: sum.splits)
  qed (subst pump_loop_unfold, simp)
qed

text \<open>
  C9: the pump ends when messages run out of hops. If some weight of payloads strictly decreases from
  the message a handler is given to every message it sends, to one target or to all accepters, then
  \<open>pump\<close> returns on every bus, however many deliveries are queued and however often they fan out.
\<close>

theorem pump_terminates:
  assumes "\<forall>st m. sends_below w (w (m_payload m)) (vt_handle vt st m)"
  shows "\<exists>r. pump vt b = Some r"
proof -
  obtain r where "pump_loop vt (b\<lparr>b_in_dispatch := True, b_stop_requested := False\<rparr>) = Some r"
    using pump_loop_returns [OF assms] by blast
  then show ?thesis by (auto simp: pump_def split: prod.splits sum.splits)
qed

text \<open>A shard that counts down: to a message that carries \<open>k\<close> hops it answers itself with one that carries one less,
  and publishes that one too, until none is left.\<close>

definition hop_schema :: schema where
  "hop_schema =
     (let fs = [Field ''hops'' (TypeRef KInt None None) True] in Schema ''Hop'' 1 fs (compute_content_id ''Hop'' 1 fs))"

definition hop :: "i64 \<Rightarrow> message" where
  "hop k = \<lparr>m_payload = Value hop_schema [Some (CInt k)], m_sender = 0, m_reply_to = 0, m_correlation = 0\<rparr>"

definition hops_left :: "zvalue \<Rightarrow> nat" where
  "hops_left v = (case v_slots v of [Some (CInt k)] \<Rightarrow> nat (sint k) | _ \<Rightarrow> 0)"

definition hop_handle :: "unit \<Rightarrow> message \<Rightarrow> unit action" where
  "hop_handle st m =
     (case v_slots (m_payload m) of
        [Some (CInt k)] \<Rightarrow>
          if 0 < sint k then ASend 1 (hop (k - 1)) (\<lambda>_. APublish (hop (k - 1)) (\<lambda>_. ADone st)) else ADone st
      | _ \<Rightarrow> ADone st)"

definition hop_ops :: "unit shard_ops" where
  "hop_ops = relay_ops\<lparr>vt_accepted_schemas := \<lambda>_. Inr [Some hop_schema], vt_handle := hop_handle\<rparr>"

definition hop_bus :: "unit bus" where
  "hop_bus = snd (send 1 (hop 3) (snd (register_shard hop_ops (Some ()) (allow_to_any ''Hop'' 1 grant_nothing) (new_bus 0))))"

lemma hops_decrease: "sends_below hops_left (hops_left (m_payload m)) (hop_handle st m)"
proof -
  have "nat (sint (k - 1)) < nat (sint k)" if "0 < sint k" for k :: i64
  proof -
    have "sint (k - 1) = sint k - 1"
      using that sint_range_size [of k] signed_take_bit_int_eq_self [of 63 "sint k - 1"]
      by (simp add: sint_word_ariths word_size)
    then show ?thesis using that by simp
  qed
  then show ?thesis
    by (auto simp: hop_handle_def hops_left_def hop_def split: list.splits option.splits cell.splits)
qed

theorem pump_terminates_witness:
  "hop_handle () (hop 3) = ASend 1 (hop 2) (\<lambda>_. APublish (hop 2) (\<lambda>_. ADone ())) \<and> (\<exists>r. pump hop_ops hop_bus = Some r)"
proof
  show "hop_handle () (hop 3) = ASend 1 (hop 2) (\<lambda>_. APublish (hop 2) (\<lambda>_. ADone ()))"
    by (simp add: hop_handle_def hop_def)
  show "\<exists>r. pump hop_ops hop_bus = Some r"
    by (rule pump_terminates [of hops_left]) (simp add: hop_ops_def hops_decrease)
qed

section \<open>Throwing handlers\<close>

lemma pump_throws_dispatching:
  assumes "pump vt b = Some (Inl e, b')"
  shows "b_in_dispatch b'"
proof -
  have "pump_loop vt (b\<lparr>b_in_dispatch := True, b_stop_requested := False\<rparr>) = Some (Inl e, b')"
    using assms by (auto simp: pump_def split: if_splits option.splits prod.splits sum.splits)
  from only_objects_pump_loop [OF this] show ?thesis by (simp add: only_objects_def)
qed

lemma dispatching_stuck: "bus_step vt b b' \<Longrightarrow> b_in_dispatch b \<Longrightarrow> b_in_dispatch b'"
  using calm_step [of vt b b'] by (auto simp: calm_def pump_def)

text \<open>
  C32: an exception that escapes a pump wedges the bus. If a handler or an observer throws out of
  \<open>pump\<close>, the dispatch flag is never reset: in every state reachable from there the bus still believes
  it is dispatching, and every later \<open>pump\<close> returns at once without delivering anything.
\<close>

theorem pump_exception_wedges:
  assumes "pump vt b = Some (Inl e, b')" and "(bus_step vt)\<^sup>*\<^sup>* b' b''"
  shows "b_in_dispatch b'' \<and> pump vt b'' = Some (Inr (), b'')"
proof -
  from assms(2) pump_throws_dispatching [OF assms(1)] have "b_in_dispatch b''"
    by (induction rule: rtranclp_induct) (auto intro: dispatching_stuck)
  then show ?thesis by (simp add: pump_def)
qed

definition faulty_ops :: "unit shard_ops" where
  "faulty_ops = relay_ops\<lparr>vt_handle := \<lambda>st m. AThrow (Runtime_error ''boom'') st\<rparr>"

lemma faulty_pump: "\<exists>b'. pump faulty_ops relay_bus = Some (Inl (Runtime_error ''boom''), b')"
proof -
  let ?b = "relay_bus\<lparr>b_in_dispatch := True, b_stop_requested := False\<rparr>"
  let ?e = "\<lparr>env_msg = ping 1, env_target = 1, env_seq = 1, env_gated = False\<rparr>"
  obtain b' where d: "deliver_one faulty_ops ?e (?b\<lparr>b_queue := []\<rparr>) = (Inl (Runtime_error ''boom''), b')"
    by (simp add: relay_bus_eq deliver_one_def Let_def bus_find_def delivery_event_def new_event_def ping_def
        capability_ok_def gate_delivery_def plain_admitted adm_ok_def accept_def adm_value_def hand_over_def
        faulty_ops_def)
  have "pump_loop faulty_ops ?b = Some (Inl (Runtime_error ''boom''), b')"
    by (subst pump_loop_unfold) (use d in \<open>simp add: relay_bus_eq\<close>)
  then show ?thesis by (simp add: pump_def relay_bus_eq)
qed

theorem pump_exception_wedges_witness:
  "\<exists>b'. pump faulty_ops relay_bus = Some (Inl (Runtime_error ''boom''), b') \<and>
     pump faulty_ops (snd (send 1 (ping 0) b')) = Some (Inr (), snd (send 1 (ping 0) b'))"
proof -
  obtain b' where b': "pump faulty_ops relay_bus = Some (Inl (Runtime_error ''boom''), b')"
    using faulty_pump by blast
  then show ?thesis
    using pump_exception_wedges [OF b' r_into_rtranclp [of "bus_step faulty_ops",
        OF bus_step.host_send [of faulty_ops b' 1 "ping 0"]]] by blast
qed

section \<open>Fan-out and identities\<close>

text \<open>
  C31: publishing reaches exactly the shards it should. On a reachable bus, \<open>publish\<close> returns the number
  of recipients and appends one delivery for each of them, with the message unchanged and consecutive
  sequence numbers; the recipients are exactly the alive shards with a door of the payload's name and
  version, in ascending order of their ids, that is, in registration order.
\<close>

theorem publish_recipients:
  assumes "reachable vt b" and "schemas_constructed vt"
  shows "\<exists>ts. fst (publish msg b) = length ts \<and>
    b_queue (snd (publish msg b)) = b_queue b @
      map (\<lambda>(i, t). \<lparr>env_msg = msg, env_target = t, env_seq = b_next_seq b + of_nat i, env_gated = False\<rparr>)
        (enumerate 0 ts) \<and>
    sorted_wrt (<) ts \<and>
    set ts = {i. \<exists>rec s. bus_find b i = Some rec \<and> sr_alive rec \<and> s \<in> set (sr_accept rec) \<and>
      s_name s = s_name (v_schema (m_payload msg)) \<and> s_version s = s_version (v_schema (m_payload msg))}"
proof -
  let ?ts = "map (sr_id \<circ> snd) (filter (accepts msg \<circ> snd) (b_shards b))"
  have ok: "om_ok (b_shards b)" and ids: "\<And>k rec. (k, rec) \<in> set (b_shards b) \<Longrightarrow> sr_id rec = k"
    using reachable_ok [OF assms]
    by (auto simp: bus_ok_def shards_ok_def record_ok_def om_find_set_iff)
  have keys: "?ts = map fst (filter (accepts msg \<circ> snd) (b_shards b))"
    by (auto simp: ids)
  have match: "accept_match ss n v \<noteq> None \<longleftrightarrow> (\<exists>s \<in> set ss. s_name s = n \<and> s_version s = v)" for ss n v
    by (induction ss) auto
  have "sorted_wrt (<) ?ts"
    unfolding keys using ok by (simp add: om_ok_def sorted_wrt_map sorted_wrt_filter)
  moreover have "set ?ts = {i. \<exists>rec s. bus_find b i = Some rec \<and> sr_alive rec \<and> s \<in> set (sr_accept rec) \<and>
      s_name s = s_name (v_schema (m_payload msg)) \<and> s_version s = s_version (v_schema (m_payload msg))}"
    unfolding keys
    by (force simp: accepts_def bus_find_def om_find_set_iff [OF ok] match simp del: not_None_eq)
  ultimately show ?thesis
    by (intro exI [of _ ?ts])
       (simp add: publish_def fanout_def fanout_loop_fold Let_def queue_fold_enqueue comp_def)
qed

theorem publish_recipients_witness: "fst (publish (ping 0) relay_bus) = 1"
proof -
  have "{i. \<exists>rec s. bus_find relay_bus i = Some rec \<and> sr_alive rec \<and> s \<in> set (sr_accept rec) \<and>
      s_name s = s_name (v_schema (m_payload (ping 0))) \<and> s_version s = s_version (v_schema (m_payload (ping 0)))} = {1}"
    by (auto simp: relay_bus_eq bus_find_def ping_def)
  then obtain ts where "fst (publish (ping 0) relay_bus) = length ts" "sorted_wrt (<) ts" "set ts = {1 :: u64}"
    using publish_recipients [OF relay_reachable relay_constructed, of "ping 0"] by auto
  then show ?thesis using distinct_card [of ts] by (simp add: strict_sorted_iff)
qed

text \<open>
  C33: ids are handed out once. As long as fewer than 2^64 - 1 shards were ever registered, the ids
  handed out are 1, 2, 3, \<dots> in that order, never zero and never twice, even across unregistrations
  and failed registrations, and each shard on the bus holds the grant its registration gave it.
\<close>

theorem shard_ids_unique:
  assumes "reachable vt b" and "schemas_constructed vt"
    and "length (registrations (b_trace b)) < 2 ^ 64 - 1"
  shows "distinct (map fst (registrations (b_trace b))) \<and> 0 \<notin> fst ` set (registrations (b_trace b)) \<and>
    map (unat \<circ> fst) (registrations (b_trace b)) = [1..<Suc (length (registrations (b_trace b)))] \<and>
    (\<forall>i rec. bus_find b i = Some rec \<longrightarrow> sr_id rec = i \<and> (i, sr_grant rec) \<in> set (registrations (b_trace b)))"
proof -
  let ?r = "registrations (b_trace b)"
  have ok: "bus_ok b" by (rule reachable_ok [OF assms(1,2)])
  then have fsts: "map fst ?r = map of_nat [1..<Suc (length ?r)]" by (simp add: bus_ok_def ids_ok_def)
  have "map unat (map fst ?r) = map unat (map (of_nat :: nat \<Rightarrow> u64) [1..<Suc (length ?r)])"
    by (simp only: fsts)
  also have "\<dots> = map id [1..<Suc (length ?r)]"
    unfolding map_map using assms(3) by (intro map_cong) (auto intro: unat_of_nat_u64)
  finally have un: "map unat (map fst ?r) = [1..<Suc (length ?r)]" by simp
  then have "distinct (map fst ?r)" by (metis distinct_map distinct_upt)
  moreover have "0 \<notin> set (map fst ?r)"
  proof
    assume "0 \<in> set (map fst ?r)"
    then have "0 \<in> set (map unat (map fst ?r))" by (force simp del: map_map)
    then show False unfolding un by auto
  qed
  ultimately show ?thesis
    using un bus_ok_find [OF ok] by (auto simp: record_ok_def comp_def)
qed

theorem shard_ids_unique_witness: "map (unat \<circ> fst) (registrations (b_trace relay_done)) = [1..<2]"
  using shard_ids_unique [OF relay_done_reachable relay_constructed]
  by (simp add: relay_done_trace numeral_2_eq_2)

end
