(* ===== verification/Zen_Lifecycle.thy ===== *)
theory Zen_Lifecycle
  imports Zen_Delivery
begin

text \<open>
  Death and revival (\<open>kill\<close>, \<open>reload\<close>, \<open>swap_state\<close> of \<open>src/switchboard/switchboard.cpp\<close>): what each
  outcome of a revival means for the shard, that only conforming state is ever handed to a shard,
  and that crash revivals are bounded by the shard's policy.
\<close>

section \<open>Candidates and policies\<close>

lemma admit_against_accepts:
  assumes "a_value (fst (admit_against fc impl door collect g)) = Some v"
  shows "fst (admit_against fc impl door collect g) = accept v"
proof -
  have fin: "fst (finish c ds fatal door collect g) = accept w"
    if "a_value (fst (finish c ds fatal door collect g)) = Some w" for c ds fatal w
    using finish_accept_or_reject [of c ds fatal door collect g] that
    by (auto simp: accept_def reject_def reject_one_def)
  show ?thesis
    using assms fin
    by (auto simp: admit_against_def reject_one_def Let_def case_prod_beta simp del: jd_fields.simps
        split: if_splits wire_format.splits)
qed

text \<open>The candidate a revival accepts is exactly the value its bytes are the canonical encoding of.\<close>

lemma candidate_accepted:
  assumes "wf_schema door" and "admit_candidate door bytes b = (Inr a, b')" and "a_value a = Some v"
  shows "exact_value door 0 v \<and> value_conforms v door \<and> serialize v = Inr bytes"
proof -
  have "fst (admit_unverified (\<lambda>_. None) (parse bytes) (Some door) FirstError (b_gate_calls b)) = Inr a"
    using assms(2) by (auto simp: admit_candidate_def split: prod.splits)
  moreover from this have "a = accept v"
    using assms(3) admit_against_accepts [of "\<lambda>_. None" "the (parse bytes)" door False "b_gate_calls b" v]
    by (auto simp: admit_unverified_def reject_one_def split: if_splits)
  ultimately show ?thesis using native_admits_iff [OF assms(1)] by blast
qed

lemma lifecycle_policy_schema_eq: "lifecycle_policy_schema = Inr policy_schema"
  by (simp add: lifecycle_policy_schema_def builder_field_def new_builder_def type_of_def builder_add_def
      builder_build_def mk_schema_def policy_schema_def Let_def)

lemma policy_schema_wf: "wf_schema policy_schema"
  by (simp add: policy_schema_def Let_def)

lemma cell_kind_cases:
  "cell_kind c = KInt \<longleftrightarrow> (\<exists>n. c = CInt n)" "cell_kind c = KBool \<longleftrightarrow> (\<exists>f. c = CBool f)"
  by (cases c; simp)+

text \<open>A policy the gate accepted has both fields, with the right kinds: reading it never fails.\<close>

lemma policy_readable:
  assumes "value_conforms v policy_schema"
  shows "\<exists>n f. read_policy v = Inr (n, f)"
proof -
  have "\<exists>n. value_get v ''max_reloads'' = Some (CInt n)" "\<exists>f. value_get v ''revive_from_last_good'' = Some (CBool f)"
    using assms
    by (auto simp: policy_schema_def Let_def value_conforms.simps cell_kind_cases split: option.splits)
  then show ?thesis by (auto simp: read_policy_def)
qed

section \<open>What a revival does to its shard\<close>

lemma bus_find_emit [simp]: "bus_find (snd (bus_emit ev b)) i = bus_find b i"
  by (simp add: bus_find_def emit_fields)

lemma bus_find_put [simp]: "bus_find (put_record i r b) j = (if j = i then Some r else bus_find b j)"
  by (simp add: bus_find_def put_record_def om_find_put)

lemma bus_find_note [simp]: "bus_find (note_trace t b) j = bus_find b j"
  by (simp add: bus_find_def bus_simps)

lemma bus_find_gate [simp]: "bus_find (b\<lparr>b_gate_calls := g\<rparr>) j = bus_find b j"
  by (simp add: bus_find_def)

lemma bus_find_candidate:
  "admit_candidate door bytes b = (res, b') \<Longrightarrow> bus_find b' j = bus_find b j"
  by (simp add: bus_find_def candidate_same)

lemma announce_Inr: "announce ev out b = (Inr out', b') \<Longrightarrow> out' = out \<and> b' = snd (bus_emit ev b)"
  by (auto simp: announce_def split: prod.splits sum.splits)

lemma revive_with_Inr:
  assumes "revive_with vt i v upd rec ev out b = (Inr out', b')"
  shows "out' = out \<and> (\<exists>st. vt_revive vt (sr_shard rec) v = (Inr (), st) \<and>
    bus_find b' i = Some (upd (rec\<lparr>sr_shard := st\<rparr>)))"
  using assms by (auto simp: revive_with_def Let_def split: prod.splits sum.splits dest: announce_Inr)

lemma revive_with_find:
  "bus_find (snd (revive_with vt i v upd rec ev out b)) j =
     (if j = i then
        (case vt_revive vt (sr_shard rec) v of
           (Inl e, st) \<Rightarrow> Some (rec\<lparr>sr_shard := st\<rparr>)
         | (Inr _, st) \<Rightarrow> Some (upd (rec\<lparr>sr_shard := st\<rparr>)))
      else bus_find b j)"
  by (simp add: revive_with_def Let_def announce_snd split: prod.splits sum.splits)

text \<open>Past the policy: the candidate, or the fallback the policy allows, or an unchanged record.\<close>

lemma reload_gated_outcome:
  assumes "wf_schema (sr_state_schema rec)" and "bus_find b i = Some rec"
    and "value_conforms (sr_last_known_good rec) (sr_state_schema rec)"
    and "reload_gated vt i bytes rec f b = (Inr out, b')"
  shows "if ro_revived out
    then \<exists>v st. (if ro_from_last_known_good out then f \<and> v = sr_last_known_good rec
         else exact_value (sr_state_schema rec) 0 v \<and> serialize v = Inr bytes) \<and>
      value_conforms v (sr_state_schema rec) \<and> vt_revive vt (sr_shard rec) v = (Inr (), st) \<and>
      bus_find b' i = Some (rec\<lparr>sr_shard := st, sr_last_known_good := v,
        sr_reloads_used := sr_reloads_used rec + 1, sr_alive := True\<rparr>)
    else bus_find b' i = Some rec"
proof -
  obtain res b2 where cand: "admit_candidate (sr_state_schema rec) bytes b = (res, b2)"
    by (cases "admit_candidate (sr_state_schema rec) bytes b")
  have find: "bus_find b2 i = Some rec" using bus_find_candidate [OF cand] assms(2) by simp
  obtain a where a: "res = Inr a" using assms(4) cand by (auto simp: reload_gated_def split: sum.splits)
  show ?thesis
  proof (cases "a_value a")
    case None
    then obtain er where "first_error a = Inr er"
      using assms(4) cand a by (auto simp: reload_gated_def adm_ok_def split: sum.splits)
    then show ?thesis
      using assms(3,4) cand a None find
      by (cases f) (auto simp: reload_gated_def adm_ok_def Let_def new_revive_outcome_def
          dest!: revive_with_Inr announce_Inr)
  next
    case (Some v)
    then show ?thesis
      using assms(4) cand a candidate_accepted [OF assms(1) _ Some, of bytes b b2]
      by (auto simp: reload_gated_def adm_ok_def adm_value_def new_revive_outcome_def dest!: revive_with_Inr)
  qed
qed

lemma reload_record:
  assumes rec: "record_ok (b_registry b) (registrations (b_trace b)) i rec"
    and "bus_find b i = Some rec"
    and "reload vt i bytes b = (Inr out, b')"
  shows "if ro_revived out
    then \<exists>p n f v st. vt_policy vt (sr_shard rec) = Inr p \<and> value_conforms p policy_schema \<and>
      read_policy p = Inr (n, f) \<and> sint (sr_reloads_used rec) < sint n \<and>
      (if ro_from_last_known_good out then f \<and> v = sr_last_known_good rec
       else exact_value (sr_state_schema rec) 0 v \<and> serialize v = Inr bytes) \<and>
      value_conforms v (sr_state_schema rec) \<and> vt_revive vt (sr_shard rec) v = (Inr (), st) \<and>
      bus_find b' i = Some (rec\<lparr>sr_shard := st, sr_last_known_good := v,
        sr_reloads_used := sr_reloads_used rec + 1, sr_alive := True\<rparr>)
    else bus_find b' i = Some rec"
proof -
  from rec have wf: "wf_schema (sr_state_schema rec)" and
    good: "value_conforms (sr_last_known_good rec) (sr_state_schema rec)"
    by (auto simp: record_ok_def state_value_def)
  obtain p where p: "vt_policy vt (sr_shard rec) = Inr p"
    using assms(2,3) by (auto simp: reload_def split: sum.splits)
  let ?a = "fst (admit p policy_schema FirstError (b_gate_calls b))"
  let ?b1 = "b\<lparr>b_gate_calls := snd (admit p policy_schema FirstError (b_gate_calls b))\<rparr>"
  have run: "reload_policed vt i bytes rec ?a ?b1 = (Inr out, b')"
    using assms(2,3) p by (simp add: reload_def lifecycle_policy_schema_eq case_prod_beta)
  show ?thesis
  proof (cases "adm_ok ?a")
    case False
    then show ?thesis
      using run assms(2) by (auto simp: reload_policed_def new_revive_outcome_def split: sum.splits)
  next
    case True
    note acc = admit_accepted [OF policy_schema_wf True]
    obtain n f where rp: "read_policy p = Inr (n, f)" using policy_readable [OF acc(3)] by blast
    show ?thesis
    proof (cases "sint n \<le> sint (sr_reloads_used rec)")
      case False
      then have "reload_gated vt i bytes rec f ?b1 = (Inr out, b')"
        using run \<open>adm_ok ?a\<close> acc(1) rp by (simp add: reload_policed_def)
      from reload_gated_outcome [OF wf _ good this] show ?thesis
        using assms(2) p acc(3) rp False by (cases "ro_revived out") auto
    qed (use run assms(2) \<open>adm_ok ?a\<close> acc(1) rp in \<open>auto simp: reload_policed_def new_revive_outcome_def\<close>)
  qed
qed


text \<open>
  C11: crash revival, on every outcome. When \<open>reload\<close> returns for a registered shard, then either the
  shard's record is exactly what it was (the policy is malformed, the allowance is used up, or the
  candidate was refused and the policy forbids falling back), or it was revived: the shard's policy is
  well formed and its allowance was not used up, one more reload is counted, the shard is alive, and
  its last known good state is either the old one (a fallback, which the policy allows) or the value
  whose canonical encoding the candidate bytes are; \<open>revive\<close> was called on exactly that value.
\<close>

theorem reload_outcome:
  assumes "reachable vt b" and "schemas_constructed vt" and "bus_find b i = Some rec"
    and "reload vt i bytes b = (Inr out, b')"
  shows "if ro_revived out
    then \<exists>p n f v st. vt_policy vt (sr_shard rec) = Inr p \<and> value_conforms p policy_schema \<and>
      read_policy p = Inr (n, f) \<and> sint (sr_reloads_used rec) < sint n \<and>
      (if ro_from_last_known_good out then f \<and> v = sr_last_known_good rec
       else exact_value (sr_state_schema rec) 0 v \<and> serialize v = Inr bytes) \<and>
      value_conforms v (sr_state_schema rec) \<and> vt_revive vt (sr_shard rec) v = (Inr (), st) \<and>
      bus_find b' i = Some (rec\<lparr>sr_shard := st, sr_last_known_good := v,
        sr_reloads_used := sr_reloads_used rec + 1, sr_alive := True\<rparr>)
    else bus_find b' i = Some rec"
  by (rule reload_record [OF bus_ok_find [OF reachable_ok [OF assms(1,2)] assms(3)] assms(3,4)])

lemma relay_policy_admitted:
  "admit (Value policy_schema [Some (CInt 2), Some (CBool True)]) policy_schema r g =
     (accept (Value policy_schema [Some (CInt 2), Some (CBool True)]), g + 1)"
proof -
  let ?v = "Value policy_schema [Some (CInt 2), Some (CBool True)]"
  have "value_conforms ?v policy_schema"
    by (simp add: policy_schema_def Let_def value_conforms.simps value_get_def)
  then have "fst (validate_into ?v policy_schema (r = Full) g) = []"
    by (subst validate_into_Nil_iff) (simp_all add: policy_schema_wf)
  then show ?thesis by (intro prod_eqI) (simp_all add: fst_admit Let_def)
qed

lemma relay_policy_read:
  "read_policy (Value policy_schema [Some (CInt 2), Some (CBool True)]) = Inr (2, True)"
  by (simp add: read_policy_def value_get_def policy_schema_def Let_def)

lemma relay_reload:
  "\<exists>out b'. reload relay_ops 1 [] relay_bus = (Inr out, b') \<and> ro_revived out \<and> ro_from_last_known_good out"
  by (simp add: reload_def relay_bus_eq bus_find_def relay_ops_def lifecycle_policy_schema_eq
      relay_policy_admitted reload_policed_def adm_ok_def accept_def adm_value_def relay_policy_read
      reload_gated_def admit_candidate_def admit_unverified_def parse_def malformed_def Let_def
      well_formed_def new_impl_def reject_one_def first_error_def revive_with_def announce_def
      bus_emit_def put_record_def note_trace_def new_revive_outcome_def)

theorem reload_outcome_witness:
  "\<exists>out b' st. reload relay_ops 1 [] relay_bus = (Inr out, b') \<and>
     bus_find b' 1 = Some (relay_record\<lparr>sr_shard := st, sr_reloads_used := 1, sr_alive := True\<rparr>)"
proof -
  have find: "bus_find relay_bus 1 = Some relay_record" by (simp add: relay_bus_eq bus_find_def)
  obtain out b' where run: "reload relay_ops 1 [] relay_bus = (Inr out, b')"
    and out: "ro_revived out" "ro_from_last_known_good out" using relay_reload by blast
  from reload_outcome [OF relay_reachable relay_constructed find run] out
  obtain st where "bus_find b' 1 = Some (relay_record\<lparr>sr_shard := st,
      sr_last_known_good := sr_last_known_good relay_record,
      sr_reloads_used := sr_reloads_used relay_record + 1, sr_alive := True\<rparr>)" by auto
  moreover have "relay_record\<lparr>sr_shard := st, sr_last_known_good := sr_last_known_good relay_record,
      sr_reloads_used := sr_reloads_used relay_record + 1, sr_alive := True\<rparr> =
    relay_record\<lparr>sr_shard := st, sr_reloads_used := 1, sr_alive := True\<rparr>"
    by (simp add: relay_record_def)
  ultimately show ?thesis using run by auto
qed

section \<open>Only conforming state is ever revived\<close>

text \<open>
  C12: a shard never returns as something its own schema forbids. In every reachable state, every value
  ever handed to a shard's \<open>revive\<close>, by a crash revival, a fallback or a state swap, conforms to its own
  schema and that schema's identity is published on the bus; and every registered shard's last known
  good state claims exactly its state schema and conforms to it.
\<close>

theorem revived_states_conform:
  assumes "reachable vt b" and "schemas_constructed vt"
  shows "(TRevived i v \<in> set (b_trace b) \<longrightarrow>
      value_conforms v (v_schema v) \<and>
      (\<exists>x. resolve_schema (s_name (v_schema v)) (s_version (v_schema v)) b = Some x \<and> same_identity x (v_schema v))) \<and>
    (bus_find b j = Some rec \<longrightarrow>
      v_schema (sr_last_known_good rec) = sr_state_schema rec \<and>
      value_conforms (sr_last_known_good rec) (sr_state_schema rec))"
  using reachable_ok [OF assms] bus_ok_find [OF reachable_ok [OF assms], of j rec]
  by (auto simp: bus_ok_def trace_ok_def record_ok_def state_value_def resolve_schema_def
      dest!: bspec [of _ _ "TRevived i v"])

theorem revived_states_conform_witness:
  "value_conforms (sr_last_known_good relay_record) (sr_state_schema relay_record)"
  using revived_states_conform [OF relay_reachable relay_constructed, where j = 1 and rec = relay_record]
  by (simp add: relay_bus_eq bus_find_def)

section \<open>Crash revivals are bounded\<close>

text \<open>
  A call of \<open>reload\<close> revives a shard when it calls the shard's \<open>revive\<close> and that returns normally. This looks at
  the call and not at the counter the bus keeps.
\<close>

definition revives :: "'s shard_ops \<Rightarrow> shard_id \<Rightarrow> string \<Rightarrow> 's bus \<Rightarrow> bool" where
  "revives vt i bytes b \<longleftrightarrow>
     (\<exists>rec v st ts. bus_find b i = Some rec \<and> vt_revive vt (sr_shard rec) v = (Inr (), st) \<and>
        b_trace (snd (reload vt i bytes b)) = b_trace b @ TRevived i v # ts)"

text \<open>The other calls of the host, unregistering apart.\<close>

inductive other_call :: "'s shard_ops \<Rightarrow> 's bus \<Rightarrow> 's bus \<Rightarrow> bool" for vt where
  register: "other_call vt b (snd (register_shard vt incoming gr b))"
| host_send: "other_call vt b (snd (send t m b))"
| host_publish: "other_call vt b (snd (publish m b))"
| host_send_as: "other_call vt b (snd (send_as s t m b))"
| host_publish_as: "other_call vt b (snd (publish_as s m b))"
| pump: "pump vt b = Some r \<Longrightarrow> other_call vt b (snd r)"
| stop: "other_call vt b (stop b)"
| observe: "other_call vt b (snd (add_observer obs b))"
| unobserve: "other_call vt b (remove_observer i b)"
| kill: "other_call vt b (snd (kill i b))"
| swap: "other_call vt b (snd (swap_state vt i bytes b))"

text \<open>A run of the host that counts, for each id, the revivals by \<open>reload\<close> since the shard was registered.\<close>

inductive revival_run :: "'s shard_ops \<Rightarrow> (shard_id \<Rightarrow> nat) \<Rightarrow> 's bus \<Rightarrow> bool" for vt where
  start: "revival_run vt (\<lambda>_. 0) (new_bus g)"
| call: "revival_run vt n b \<Longrightarrow> other_call vt b b' \<Longrightarrow> revival_run vt n b'"
| unregister: "revival_run vt n b \<Longrightarrow> revival_run vt (n(i := 0)) (snd (unregister_shard i b))"
| reload: "revival_run vt n b \<Longrightarrow>
    revival_run vt (if revives vt i bytes b then n(i := Suc (n i)) else n) (snd (reload vt i bytes b))"

lemma other_call_step: "other_call vt b b' \<Longrightarrow> bus_step vt b b'"
  by (induction rule: other_call.induct) (rule bus_step.intros; assumption?)+

text \<open>Every reachable state is reached by such a run.\<close>

lemma revival_run_reachable: "revival_run vt n b \<Longrightarrow> reachable vt b"
  by (induction rule: revival_run.induct) (auto intro: reachable.intros bus_step.intros dest: other_call_step)

lemma reachable_revival_run: "reachable vt b \<Longrightarrow> \<exists>n. revival_run vt n b"
proof (induction rule: reachable.induct)
  case (step b b')
  then obtain n where n: "revival_run vt n b" by blast
  from step(2) show ?case
    by (cases rule: bus_step.cases) (use n in \<open>blast intro: revival_run.intros other_call.intros\<close>)+
qed (blast intro: revival_run.intros)

text \<open>The invariant: the 64-bit counter is exactly this count.\<close>

definition tallies :: "(shard_id \<Rightarrow> nat) \<Rightarrow> 's bus \<Rightarrow> bool" where
  "tallies n b \<longleftrightarrow>
     (\<forall>i. case bus_find b i of None \<Rightarrow> n i = 0 | Some rec \<Rightarrow> sint (sr_reloads_used rec) = int (n i))"

lemma tallies_eq:
  assumes "\<And>i. map_option sr_reloads_used (bus_find b' i) = map_option sr_reloads_used (bus_find b i)" and "tallies n b"
  shows "tallies n b'"
  unfolding tallies_def
proof
  fix i
  show "case bus_find b' i of None \<Rightarrow> n i = 0 | Some rec \<Rightarrow> sint (sr_reloads_used rec) = int (n i)"
    using assms(1) [of i] assms(2) unfolding tallies_def
    by (cases "bus_find b' i"; cases "bus_find b i") (auto dest!: spec [of _ i])
qed

lemma tallies_only_objects: "only_objects b b' \<Longrightarrow> tallies n b \<Longrightarrow> tallies n b'"
proof (erule tallies_eq [rotated])
  fix i assume obj: "only_objects b b'"
  have "map_option (\<lambda>r. r\<lparr>sr_shard := undefined\<rparr>) (bus_find b' i) =
      map_option (\<lambda>r. r\<lparr>sr_shard := undefined\<rparr>) (bus_find b i)"
    using obj unfolding only_objects_def by blast
  then have "map_option sr_reloads_used (map_option (\<lambda>r. r\<lparr>sr_shard := undefined\<rparr>) (bus_find b' i)) =
      map_option sr_reloads_used (map_option (\<lambda>r. r\<lparr>sr_shard := undefined\<rparr>) (bus_find b i))"
    by (rule arg_cong)
  then show "map_option sr_reloads_used (bus_find b' i) = map_option sr_reloads_used (bus_find b i)"
    by (simp add: option.map_comp comp_def)
qed

lemma tallies_sends:
  "tallies n b \<Longrightarrow> tallies n (snd (enqueue_directed t m g b))"
  "tallies n b \<Longrightarrow> tallies n (snd (fanout m g b))"
  using tallies_only_objects [OF only_objects_appended [OF appended_enqueue [of "\<lambda>_. True"]]]
    tallies_only_objects [OF only_objects_appended [OF appended_fanout [of "\<lambda>_. True"]]]
  by blast+

lemma tallies_flags [simp]:
  "tallies n (b\<lparr>b_stop_requested := s\<rparr>) = tallies n b"
  "tallies n (b\<lparr>b_in_dispatch := s\<rparr>) = tallies n b"
  "tallies n (b\<lparr>b_observers := obs\<rparr>) = tallies n b"
  "tallies n (b\<lparr>b_next_observer_id := k\<rparr>) = tallies n b"
  by (simp_all add: tallies_def bus_find_def)

lemma tallies_register:
  assumes "tallies n b"
  shows "tallies n (snd (register_shard vt incoming gr b))"
proof -
  have find: "bus_find (snd (register_shard vt incoming gr b)) j = bus_find b j \<or>
      bus_find b j = None \<and> (\<exists>rec. bus_find (snd (register_shard vt incoming gr b)) j = Some rec \<and> sr_reloads_used rec = 0)"
    for j
    by (auto simp: register_shard_def seed_shard_def mount_record_def Let_def bus_find_def put_record_def
        note_trace_def om_find_put split: option.splits sum.splits prod.splits)
  show ?thesis unfolding tallies_def
  proof
    fix j
    show "case bus_find (snd (register_shard vt incoming gr b)) j of None \<Rightarrow> n j = 0
      | Some rec \<Rightarrow> sint (sr_reloads_used rec) = int (n j)"
      using find [of j] assms unfolding tallies_def by (auto dest!: spec [of _ j])
  qed
qed

lemma tallies_swap: "tallies n b \<Longrightarrow> tallies n (snd (swap_state vt i bytes b))"
proof (rule tallies_eq)
  fix j
  show "map_option sr_reloads_used (bus_find (snd (swap_state vt i bytes b)) j) = map_option sr_reloads_used (bus_find b j)"
  proof (cases "bus_find b i")
    case (Some rec)
    obtain res b1 where cand: "admit_candidate (sr_state_schema rec) bytes b = (res, b1)"
      by (cases "admit_candidate (sr_state_schema rec) bytes b")
    note same = bus_find_candidate [OF cand]
    show ?thesis
      using Some same
      by (auto simp: swap_state_def cand Let_def revive_with_find announce_snd split: sum.splits prod.splits)
  qed (simp add: swap_state_def)
qed

lemma tallies_call:
  assumes "other_call vt b b'" and "tallies n b"
  shows "tallies n b'"
  using assms(1)
proof (cases rule: other_call.cases)
  case (pump r)
  let ?b = "b\<lparr>b_in_dispatch := True, b_stop_requested := False\<rparr>"
  have "tallies n ?b" using assms(2) by simp
  then have loop: "tallies n (snd q)" if "pump_loop vt ?b = Some q" for q
    using tallies_only_objects [OF only_objects_pump_loop [OF that]] by simp
  then show ?thesis
    using pump assms(2) by (auto simp: pump_def split: if_splits option.splits prod.splits sum.splits dest: loop)
next
  case (kill i)
  then show ?thesis
    using assms(2) by (intro tallies_eq [of b' b]) (auto simp: kill_def split: option.splits)
qed (use assms in \<open>simp_all add: tallies_register tallies_swap tallies_sends send_def publish_def
      send_as_def publish_as_def stop_def add_observer_def remove_observer_def Let_def\<close>)

lemma tallies_unregister:
  assumes "tallies n b" and "bus_ok b"
  shows "tallies (n(i := 0)) (snd (unregister_shard i b))"
  unfolding tallies_def
proof
  fix j
  have "bus_find (snd (unregister_shard i b)) j = (if j = i then None else bus_find b j)"
    using assms(2)
    by (auto simp: unregister_shard_def bus_find_def bus_ok_def shards_ok_def om_find_erase split: option.splits)
  then show "case bus_find (snd (unregister_shard i b)) j of None \<Rightarrow> (n(i := 0)) j = 0
      | Some rec \<Rightarrow> sint (sr_reloads_used rec) = int ((n(i := 0)) j)"
    using assms(1) unfolding tallies_def by (cases "j = i"; cases "bus_find b j") (auto dest: spec [of _ j])
qed

text \<open>What the announcement adds to the trace is never a revival.\<close>

lemma announce_trace:
  "\<exists>ts. b_trace (snd (announce ev out b)) = b_trace b @ ts \<and> (\<forall>t \<in> set ts. \<exists>i e. t = TNotified i e)"
  using told_emit [of b ev] unfolding told_def announce_snd by auto

lemma announce_after_revival:
  "b_trace c = b_trace b \<Longrightarrow>
   \<exists>ts. b_trace (snd (announce ev out (put_record i r (note_trace (TRevived j v) c)))) = b_trace b @ TRevived j v # ts"
  using announce_trace [of ev out "put_record i r (note_trace (TRevived j v) c)"]
  by (auto simp: note_trace_def put_record_def)

lemma announce_no_revival: "b_trace (snd (announce ev out b)) \<noteq> b_trace b @ TRevived i v # us"
  using announce_trace [of ev out b] by (metis append_same_eq list.set_intros(1) same_append_eq trace_item.distinct(11))

text \<open>A call of \<open>revive\<close> on one shard that returned normally, seen in the trace.\<close>

definition revived_in :: "'s shard_ops \<Rightarrow> shard_id \<Rightarrow> 's \<Rightarrow> 's bus \<Rightarrow> 's bus \<Rightarrow> bool" where
  "revived_in vt i s b b' \<longleftrightarrow>
     (\<exists>v st ts. vt_revive vt s v = (Inr (), st) \<and> b_trace b' = b_trace b @ TRevived i v # ts)"

definition tallied :: "'s shard_ops \<Rightarrow> shard_id \<Rightarrow> 's shard_record \<Rightarrow> 's bus \<Rightarrow> 's bus \<Rightarrow> bool" where
  "tallied vt i rec b b' \<longleftrightarrow>
     (\<forall>j. j \<noteq> i \<longrightarrow> bus_find b' j = bus_find b j) \<and>
     map_option sr_reloads_used (bus_find b' i) =
       Some (if revived_in vt i (sr_shard rec) b b' then sr_reloads_used rec + 1 else sr_reloads_used rec)"

lemma tallied_announce: "bus_find b i = Some rec \<Longrightarrow> tallied vt i rec b (snd (announce ev out b))"
  using announce_no_revival [of ev out b i] by (auto simp: tallied_def revived_in_def announce_snd)

lemma tallied_revive:
  assumes "bus_find b i = Some rec" and "\<And>st. sr_reloads_used (upd (rec\<lparr>sr_shard := st\<rparr>)) = sr_reloads_used rec + 1"
  shows "tallied vt i rec b (snd (revive_with vt i v upd rec ev out b))"
proof -
  obtain res st where rv: "vt_revive vt (sr_shard rec) v = (res, st)" by (metis surj_pair)
  have "\<exists>ts. b_trace (snd (revive_with vt i v upd rec ev out b)) = b_trace b @ TRevived i v # ts"
    using announce_after_revival [of b b ev out i "upd (rec\<lparr>sr_shard := st\<rparr>)" i v]
    by (auto simp: revive_with_def rv Let_def note_trace_def put_record_def split: sum.splits)
  then have "revived_in vt i (sr_shard rec) b (snd (revive_with vt i v upd rec ev out b)) \<longleftrightarrow> res = Inr ()"
    using rv by (auto simp: revived_in_def)
  then show ?thesis
    using assms(2) rv by (auto simp: tallied_def revive_with_find split: sum.splits)
qed

lemma tallied_gate:
  assumes "b_trace b1 = b_trace b" and "\<And>j. bus_find b1 j = bus_find b j" and "tallied vt i rec b1 b'"
  shows "tallied vt i rec b b'"
  using assms by (simp add: tallied_def revived_in_def)

lemma tallied_reload_gated:
  assumes "bus_find b i = Some rec"
  shows "tallied vt i rec b (snd (reload_gated vt i bytes rec f b))"
proof -
  obtain res b1 where cand: "admit_candidate (sr_state_schema rec) bytes b = (res, b1)"
    by (cases "admit_candidate (sr_state_schema rec) bytes b")
  have same: "b_trace b1 = b_trace b" using cand by (auto simp: admit_candidate_def split: prod.splits)
  note find = bus_find_candidate [OF cand]
  have here: "bus_find b1 i = Some rec" using find assms by simp
  have still: "tallied vt i rec b1 b1" using here by (simp add: tallied_def revived_in_def)
  have "tallied vt i rec b1 (snd (reload_gated vt i bytes rec f b))"
    using still
    by (auto simp: reload_gated_def cand Let_def intro!: tallied_announce [OF here] tallied_revive [OF here]
        split: sum.splits)
  then show ?thesis by (rule tallied_gate [rotated 2]) (simp_all add: same find)
qed

lemma reload_cases:
  assumes "bus_find b i = Some rec"
  shows "(\<exists>p m f g. vt_policy vt (sr_shard rec) = Inr p \<and> read_policy p = Inr (m, f) \<and>
      sint (sr_reloads_used rec) < sint m \<and> reload vt i bytes b = reload_gated vt i bytes rec f (b\<lparr>b_gate_calls := g\<rparr>)) \<or>
    b_trace (snd (reload vt i bytes b)) = b_trace b \<and> (\<forall>j. bus_find (snd (reload vt i bytes b)) j = bus_find b j)"
proof (cases "vt_policy vt (sr_shard rec)")
  case (Inr p)
  define a where "a = fst (admit p policy_schema FirstError (b_gate_calls b))"
  have run: "reload vt i bytes b = reload_policed vt i bytes rec a (b\<lparr>b_gate_calls := b_gate_calls b + 1\<rparr>)"
    using assms Inr by (simp add: reload_def lifecycle_policy_schema_eq case_prod_beta a_def)
  show ?thesis
  proof (cases "adm_ok a")
    case True
    then have "adm_value a = Inr p"
      by (auto simp: a_def fst_admit Let_def adm_ok_def adm_value_def accept_def reject_def split: if_splits)
    then show ?thesis
      using True Inr
      by (cases "read_policy p") (auto simp: run reload_policed_def not_le)
  qed (auto simp: run reload_policed_def split: sum.splits)
qed (use assms in \<open>simp add: reload_def\<close>)

text \<open>A reload counts what it did, and revives only within the limit the shard declares.\<close>

lemma tallied_reload:
  assumes "bus_find b i = Some rec"
  shows "tallied vt i rec b (snd (reload vt i bytes b)) \<and>
    (revives vt i bytes b \<longrightarrow> (\<exists>p m f. vt_policy vt (sr_shard rec) = Inr p \<and> read_policy p = Inr (m, f) \<and>
       sint (sr_reloads_used rec) < sint m))"
  using reload_cases [OF assms, of vt bytes]
proof (elim disjE exE conjE)
  fix p m f g
  assume p: "vt_policy vt (sr_shard rec) = Inr p" "read_policy p = Inr (m, f)" "sint (sr_reloads_used rec) < sint m"
    "reload vt i bytes b = reload_gated vt i bytes rec f (b\<lparr>b_gate_calls := g\<rparr>)"
  have "tallied vt i rec (b\<lparr>b_gate_calls := g\<rparr>) (snd (reload vt i bytes b))"
    unfolding p(4) by (rule tallied_reload_gated) (simp add: assms)
  then have "tallied vt i rec b (snd (reload vt i bytes b))" by (rule tallied_gate [rotated 2]) simp_all
  with p show ?thesis by blast
next
  assume "b_trace (snd (reload vt i bytes b)) = b_trace b" "\<forall>j. bus_find (snd (reload vt i bytes b)) j = bus_find b j"
  then show ?thesis using assms by (auto simp: tallied_def revived_in_def revives_def)
qed

lemma tallies_reload:
  assumes "tallies n b"
  shows "tallies (if revives vt i bytes b then n(i := Suc (n i)) else n) (snd (reload vt i bytes b))"
proof (cases "bus_find b i")
  case None
  then show ?thesis using assms by (simp add: revives_def reload_def)
next
  case (Some rec)
  let ?b' = "snd (reload vt i bytes b)" and ?r = "revives vt i bytes b"
  have iff: "?r \<longleftrightarrow> revived_in vt i (sr_shard rec) b ?b'" using Some by (auto simp: revives_def revived_in_def)
  have used: "sint (sr_reloads_used rec) = int (n i)" using assms Some unfolding tallies_def by (auto dest: spec [of _ i])
  have next_used: "sint (sr_reloads_used rec + 1) = int (Suc (n i))" if ?r
    using tallied_reload [OF Some, of vt bytes] that sint_succ_u64 [of "sr_reloads_used rec"] used by auto
  have find: "\<And>j. j \<noteq> i \<Longrightarrow> bus_find ?b' j = bus_find b j"
    "map_option sr_reloads_used (bus_find ?b' i) = Some (if ?r then sr_reloads_used rec + 1 else sr_reloads_used rec)"
    using tallied_reload [OF Some, of vt bytes] by (auto simp: tallied_def iff)
  show ?thesis unfolding tallies_def
  proof
    fix j
    show "case bus_find ?b' j of None \<Rightarrow> (if ?r then n(i := Suc (n i)) else n) j = 0
      | Some rec \<Rightarrow> sint (sr_reloads_used rec) = int ((if ?r then n(i := Suc (n i)) else n) j)"
    proof (cases "j = i")
      case True
      then show ?thesis using find(2) used next_used by (auto split: if_splits)
    next
      case False
      then show ?thesis using find(1) [OF False] assms unfolding tallies_def by (auto dest: spec [of _ j] split: option.split)
    qed
  qed
qed

lemma revival_run_tallies: "revival_run vt n b \<Longrightarrow> schemas_constructed vt \<Longrightarrow> tallies n b"
proof (induction rule: revival_run.induct)
  case (start g)
  then show ?case by (simp add: tallies_def new_bus_def bus_find_def)
next
  case (unregister n b i)
  then show ?case using tallies_unregister reachable_ok [OF revival_run_reachable] by blast
next
  case (reload n b i bytes)
  then show ?case by (intro tallies_reload)
qed (auto intro: tallies_call)

text \<open>Every policy a shard ever declares allows at most \<open>N\<close> reloads.\<close>

definition allowance_at_most :: "'s shard_ops \<Rightarrow> int \<Rightarrow> bool" where
  "allowance_at_most vt N \<longleftrightarrow>
     (\<forall>st p n f. vt_policy vt st = Inr p \<and> read_policy p = Inr (n, f) \<longrightarrow> sint n \<le> N)"

lemma revivals_allowed:
  assumes "revival_run vt n b" and "schemas_constructed vt" and "revives vt i bytes b"
  shows "\<exists>rec p m f. bus_find b i = Some rec \<and> vt_policy vt (sr_shard rec) = Inr p \<and> read_policy p = Inr (m, f) \<and>
    int (n i) < sint m"
proof -
  obtain rec where rec: "bus_find b i = Some rec" using assms(3) by (auto simp: revives_def)
  then have "sint (sr_reloads_used rec) = int (n i)"
    using revival_run_tallies [OF assms(1,2)] unfolding tallies_def by (auto dest: spec [of _ i])
  then show ?thesis using tallied_reload [OF rec, of vt bytes] assms(3) rec by auto
qed

lemma revivals_at_most:
  assumes "revival_run vt n b" and "schemas_constructed vt" and "allowance_at_most vt N" and "0 \<le> N"
  shows "int (n i) \<le> N"
  using assms
proof (induction arbitrary: i rule: revival_run.induct)
  case (reload n b j bytes)
  have "int (Suc (n j)) \<le> N" if "revives vt j bytes b"
    using revivals_allowed [OF reload.hyps reload.prems(1) that] reload.prems(2) unfolding allowance_at_most_def by fastforce
  then show ?case using reload by auto
qed auto

text \<open>
  C13: a crash-thrashing shard cannot be revived for ever. Over every run of the host, however reloads, swaps, kills,
  deliveries and registrations interleave, and counting the calls of \<open>reload\<close> that revived a shard since it was
  registered: the 64-bit counter on the bus is exactly this number, so it never wraps; a call revives a shard only
  when the number of its revivals so far is below the limit the shard's own policy declares at that moment, so a
  shard that has used up its limit is not revived again; and where no policy allows more than \<open>N\<close>, no shard is revived
  more than \<open>N\<close> times.
\<close>

theorem reload_budget:
  assumes "revival_run vt n b" and "schemas_constructed vt"
  shows "(\<forall>rec. bus_find b i = Some rec \<longrightarrow> sint (sr_reloads_used rec) = int (n i)) \<and>
    (revives vt i bytes b \<longrightarrow>
      (\<exists>rec p m f. bus_find b i = Some rec \<and> vt_policy vt (sr_shard rec) = Inr p \<and> read_policy p = Inr (m, f) \<and>
         int (n i) < sint m)) \<and>
    (allowance_at_most vt N \<and> 0 \<le> N \<longrightarrow> int (n i) \<le> N)"
  using revival_run_tallies [OF assms] revivals_allowed [OF assms] revivals_at_most [OF assms]
  unfolding tallies_def by (auto dest: spec [of _ i])

text \<open>The relay's policy allows two reloads: it is revived twice, and not a third time.\<close>

lemma relay_revives:
  assumes "bus_find b 1 = Some rec" and "sint (sr_reloads_used rec) < 2"
  shows "revives relay_ops 1 [] b"
proof -
  have "\<exists>ts. b_trace (snd (reload relay_ops 1 [] b)) = b_trace b @ TRevived 1 (sr_last_known_good rec) # ts"
    using assms
    by (simp add: announce_after_revival reload_def relay_ops_def lifecycle_policy_schema_eq relay_policy_admitted reload_policed_def adm_ok_def
        accept_def adm_value_def relay_policy_read reload_gated_def admit_candidate_def admit_unverified_def parse_def
        malformed_def Let_def well_formed_def new_impl_def reject_one_def first_error_def revive_with_def)
  then show ?thesis using assms(1) by (auto simp: revives_def relay_ops_def)
qed

theorem reload_budget_witness:
  "\<exists>n b. revival_run relay_ops n b \<and> n 1 = 2 \<and> (\<forall>bytes. \<not> revives relay_ops 1 bytes b)"
proof -
  let ?again = "\<lambda>b. snd (reload relay_ops 1 [] b)"
  note budget = reload_budget [OF _ relay_constructed]
  have more: "revival_run relay_ops (n(1 := Suc (n 1))) (?again b) \<and> (\<exists>rec. bus_find (?again b) 1 = Some rec)"
    if run: "revival_run relay_ops n b" and rec: "bus_find b 1 = Some rec" and few: "n 1 < 2" for n b rec
  proof -
    have "sint (sr_reloads_used rec) < 2" using budget [OF run, of 1] rec few by auto
    then have rv: "revives relay_ops 1 [] b" using relay_revives [OF rec] by blast
    then show ?thesis
      using revival_run.reload [OF run, of 1 "[]"] tallied_reload [OF rec, of relay_ops "[]"] by (auto simp: tallied_def)
  qed
  have "revival_run relay_ops (\<lambda>_. 0) relay_bus"
    unfolding relay_bus_def by (intro revival_run.call [OF _ other_call.host_send] revival_run.call [OF _ other_call.register] revival_run.start)
  moreover have "\<exists>rec. bus_find relay_bus 1 = Some rec" by (simp add: relay_bus_eq bus_find_def)
  ultimately have "revival_run relay_ops ((\<lambda>_. 0)(1 := Suc 0)) (?again relay_bus)" "\<exists>rec. bus_find (?again relay_bus) 1 = Some rec"
    using more [of "\<lambda>_. 0" relay_bus] by auto
  then have run: "revival_run relay_ops ((\<lambda>_. 0)(1 := Suc (Suc 0))) (?again (?again relay_bus))"
    using more [of "(\<lambda>_. 0)(1 := Suc 0)" "?again relay_bus"] by auto
  moreover have "\<not> revives relay_ops 1 bytes (?again (?again relay_bus))" for bytes
    using budget [OF run, of 1 bytes] by (auto simp: relay_ops_def relay_policy_read)
  ultimately show ?thesis by (intro exI [of _ "(\<lambda>_. 0)(1 := Suc (Suc 0))"]) auto
qed

end
