(* ===== verification/Zen_Meta.thy ===== *)
theory Zen_Meta
  imports Zen_Gate Zen_Registry
begin

text \<open>
  Schemas as values: \<open>include/zen/kernel/schema_codec.hpp\<close>. A schema crosses the library boundary as
  a value of a fixed meta-schema and is rebuilt by the host against a dependency registry. The
  encoder appends prefix-order type tokens; the decoder walks the token list with an index. A
  pointer dereference is \<open>deref\<close>.
\<close>

section \<open>The meta-schemas\<close>

definition type_token_schema :: "schema result" where
  "type_token_schema =
     rbind (builder_field ''kind'' KInt True (new_builder ''zen.TypeToken'' 1)) (\<lambda>b.
     rbind (builder_field ''ref_name'' KText False b) (\<lambda>b.
     rbind (builder_field ''ref_version'' KInt False b) builder_build))"

definition field_desc_schema :: "schema result" where
  "field_desc_schema =
     rbind (builder_field ''name'' KText True (new_builder ''zen.Field'' 1)) (\<lambda>b.
     rbind (builder_field ''required'' KBool True b) (\<lambda>b.
     rbind type_token_schema (\<lambda>tok.
     rbind (type_message (Some tok)) (\<lambda>t. builder_build (builder_list ''type'' t True b)))))"

definition schema_desc_schema :: "schema result" where
  "schema_desc_schema =
     rbind (builder_field ''name'' KText True (new_builder ''zen.SchemaDesc'' 1)) (\<lambda>b.
     rbind (builder_field ''version'' KInt True b) (\<lambda>b.
     rbind field_desc_schema (\<lambda>fd.
     rbind (type_message (Some fd)) (\<lambda>t. builder_build (builder_list ''fields'' t True b)))))"

definition manifest_schema :: "schema result" where
  "manifest_schema =
     rbind schema_desc_schema (\<lambda>sd.
     rbind (type_message (Some sd)) (\<lambda>t.
     rbind (builder_message ''state'' (Some sd) True
              (builder_list ''accepted'' t True (new_builder ''zen.Manifest'' 1))) builder_build))"

section \<open>Encoding\<close>

definition make_type_token :: "kind \<Rightarrow> schema option \<Rightarrow> zvalue result" where
  "make_type_token k ref =
     rbind type_token_schema (\<lambda>s.
     rbind (new_value (Some s)) (\<lambda>tok.
     rbind (value_set ''kind'' (CInt (ucast (kind_code k))) tok) (\<lambda>tok.
       case ref of
         None \<Rightarrow> Inr tok
       | Some r \<Rightarrow>
           rbind (value_set ''ref_name'' (CText (s_name r)) tok) (\<lambda>tok.
           value_set ''ref_version'' (CInt (ucast (s_version r))) tok))))"

fun encode_type :: "typeref \<Rightarrow> cell list \<Rightarrow> cell list result" where
  "encode_type (TypeRef k m e) tokens =
     (case k of
        KMessage \<Rightarrow> rbind (make_type_token KMessage m) (\<lambda>tok. Inr (tokens @ [CMessage (Some tok)]))
      | KList \<Rightarrow>
          rbind (make_type_token KList None) (\<lambda>tok.
            (case e of
               None \<Rightarrow> Inl (Logic_error ''null pointer'')
             | Some el \<Rightarrow> encode_type el (tokens @ [CMessage (Some tok)])))
      | _ \<Rightarrow> rbind (make_type_token k None) (\<lambda>tok. Inr (tokens @ [CMessage (Some tok)])))"

definition encode_field :: "field \<Rightarrow> zvalue result" where
  "encode_field f =
     rbind field_desc_schema (\<lambda>s.
     rbind (new_value (Some s)) (\<lambda>fd.
     rbind (value_set ''name'' (CText (f_name f)) fd) (\<lambda>fd.
     rbind (value_set ''required'' (CBool (f_required f)) fd) (\<lambda>fd.
     rbind (encode_type (f_type f) []) (\<lambda>tokens.
     value_set ''type'' (CList tokens) fd)))))"

fun encode_fields :: "field list \<Rightarrow> cell list \<Rightarrow> cell list result" where
  "encode_fields [] acc = Inr acc"
| "encode_fields (f # fs) acc =
     rbind (encode_field f) (\<lambda>fd. encode_fields fs (acc @ [CMessage (Some fd)]))"

definition encode_schema :: "schema \<Rightarrow> zvalue result" where
  "encode_schema s =
     rbind schema_desc_schema (\<lambda>sd.
     rbind (new_value (Some sd)) (\<lambda>desc.
     rbind (value_set ''name'' (CText (s_name s)) desc) (\<lambda>desc.
     rbind (value_set ''version'' (CInt (ucast (s_version s))) desc) (\<lambda>desc.
     rbind (encode_fields (s_fields s) []) (\<lambda>fields.
     value_set ''fields'' (CList fields) desc)))))"

fun encode_accepted :: "schema list \<Rightarrow> cell list \<Rightarrow> cell list result" where
  "encode_accepted [] acc = Inr acc"
| "encode_accepted (s # ss) acc =
     rbind (encode_schema s) (\<lambda>d. encode_accepted ss (acc @ [CMessage (Some d)]))"

definition encode_manifest :: "schema list \<Rightarrow> schema \<Rightarrow> zvalue result" where
  "encode_manifest accepted state =
     rbind manifest_schema (\<lambda>ms.
     rbind (new_value (Some ms)) (\<lambda>m.
     rbind (encode_accepted accepted []) (\<lambda>acc.
     rbind (value_set ''accepted'' (CList acc) m) (\<lambda>m.
     rbind (encode_schema state) (\<lambda>d.
     value_set ''state'' (CMessage (Some d)) m)))))"

section \<open>Decoding\<close>

definition kind_of_code :: "u8 \<Rightarrow> kind" where
  "kind_of_code c =
     (if c = 0 then KInt else if c = 1 then KFloat else if c = 2 then KText else if c = 3 then KBool
      else if c = 4 then KBytes else if c = 5 then KMessage else KList)"

text \<open>The branch for a nested message: resolve its reference against the dependencies.\<close>

definition decode_ref :: "zvalue \<Rightarrow> registry \<Rightarrow> typeref result" where
  "decode_ref tok deps =
     (case (value_get tok ''ref_name'', value_get tok ''ref_version'') of
        (Some ref_name, Some ref_version) \<Rightarrow>
          rbind (as_text ref_name) (\<lambda>n.
          rbind (as_int ref_version) (\<lambda>v.
            case reg_lookup deps n (ucast v) of
              None \<Rightarrow>
                Inl (Runtime_error (''schema descriptor: unresolved nested schema '' @ [CHR 39] @ n @ [CHR 39]))
            | Some ref \<Rightarrow> type_message (Some ref)))
      | _ \<Rightarrow> Inl (Runtime_error ''schema descriptor: Message token missing its reference''))"

text \<open>One token: the message it holds and its kind.\<close>

definition decode_token :: "cell \<Rightarrow> (zvalue \<times> kind) result" where
  "decode_token c =
     rbind (as_message c) (\<lambda>p.
     rbind (deref p) (\<lambda>tok.
     rbind (deref (value_get tok ''kind'')) (\<lambda>k.
     rbind (as_int k) (\<lambda>raw.
       if sint raw < 0 \<or> sint raw > 6 then Inl (Runtime_error ''schema descriptor: kind out of range'')
       else Inr (tok, kind_of_code (ucast raw))))))"

function decode_type :: "cell list \<Rightarrow> nat \<Rightarrow> registry \<Rightarrow> (typeref \<times> nat) result" where
  "decode_type tokens i deps =
     (if i \<ge> length tokens then Inl (Runtime_error ''schema descriptor: truncated type-token stream'')
      else
        rbind (decode_token (tokens ! i)) (\<lambda>(tok, k).
          if k = KMessage then rbind (decode_ref tok deps) (\<lambda>t. Inr (t, Suc i))
          else if k = KList then rbind (decode_type tokens (Suc i) deps) (\<lambda>(t, j). Inr (type_list t, j))
          else rbind (type_of k) (\<lambda>t. Inr (t, Suc i))))"
  by pat_completeness auto
termination by (relation "measure (\<lambda>(tokens, i, deps). length tokens - i)") auto

declare decode_type.simps [simp del]

definition decode_field :: "cell \<Rightarrow> registry \<Rightarrow> field result" where
  "decode_field c deps =
     rbind (as_message c) (\<lambda>p.
     rbind (deref p) (\<lambda>fd.
     rbind (deref (value_get fd ''name'')) (\<lambda>n.
     rbind (as_text n) (\<lambda>fname.
     rbind (deref (value_get fd ''required'')) (\<lambda>r.
     rbind (as_bool r) (\<lambda>required.
     rbind (deref (value_get fd ''type'')) (\<lambda>t.
     rbind (as_list t) (\<lambda>tokens.
     rbind (decode_type tokens 0 deps) (\<lambda>(type, i).
       if i \<noteq> length tokens then Inl (Runtime_error ''schema descriptor: trailing type tokens'')
       else Inr (Field fname type required))))))))))"

fun decode_fields :: "cell list \<Rightarrow> registry \<Rightarrow> field list \<Rightarrow> field list result" where
  "decode_fields [] deps rebuilt = Inr rebuilt"
| "decode_fields (c # cs) deps rebuilt =
     rbind (decode_field c deps) (\<lambda>f. decode_fields cs deps (rebuilt @ [f]))"

definition decode_schema :: "zvalue \<Rightarrow> registry \<Rightarrow> schema result" where
  "decode_schema desc deps =
     rbind (deref (value_get desc ''name'')) (\<lambda>n.
     rbind (as_text n) (\<lambda>name.
     rbind (deref (value_get desc ''version'')) (\<lambda>v.
     rbind (as_int v) (\<lambda>ver.
     rbind (deref (value_get desc ''fields'')) (\<lambda>f.
     rbind (as_list f) (\<lambda>fields.
     rbind (decode_fields fields deps []) (\<lambda>rebuilt.
     make_schema name (ucast ver) rebuilt)))))))"

text \<open>Rebuilding an admitted manifest: each schema is decoded against the registry so far and published in
  it, so that a later descriptor may refer to an earlier one.\<close>

fun decode_accepted :: "cell list \<Rightarrow> schema list \<Rightarrow> registry \<Rightarrow> schema list result \<times> registry" where
  "decode_accepted [] acc r = (Inr acc, r)"
| "decode_accepted (c # cs) acc r =
     (case rbind (as_message c) (\<lambda>p. rbind (deref p) (\<lambda>d. decode_schema d r)) of
        Inl e \<Rightarrow> (Inl e, r)
      | Inr s \<Rightarrow>
          (case register_schema (Some s) r of
             (Inl e, r1) \<Rightarrow> (Inl e, r1)
           | (Inr _, r1) \<Rightarrow> decode_accepted cs (acc @ [s]) r1))"

definition decode_manifest :: "zvalue \<Rightarrow> registry \<Rightarrow> (schema list \<times> schema) result \<times> registry" where
  "decode_manifest m r =
     (case rbind (deref (value_get m ''accepted'')) as_list of
        Inl e \<Rightarrow> (Inl e, r)
      | Inr cs \<Rightarrow>
          (case decode_accepted cs [] r of
             (Inl e, r1) \<Rightarrow> (Inl e, r1)
           | (Inr acc, r1) \<Rightarrow>
               (case rbind (deref (value_get m ''state'')) (\<lambda>c. rbind (as_message c) (\<lambda>p.
                      rbind (deref p) (\<lambda>d. decode_schema d r1))) of
                  Inl e \<Rightarrow> (Inl e, r1)
                | Inr state \<Rightarrow>
                    (case register_schema (Some state) r1 of
                       (Inl e, r2) \<Rightarrow> (Inl e, r2)
                     | (Inr _, r2) \<Rightarrow> (Inr (acc, state), r2)))))"

section \<open>The meta-schemas are well formed\<close>

definition token_sch :: schema where
  "token_sch = projr type_token_schema"

definition field_sch :: schema where
  "field_sch = projr field_desc_schema"

definition desc_sch :: schema where
  "desc_sch = projr schema_desc_schema"

definition manifest_sch :: schema where
  "manifest_sch = projr manifest_schema"

lemmas builder_defs = builder_field_def builder_list_def builder_message_def builder_add_def
  builder_build_def new_builder_def type_of_def type_message_def type_list_def mk_schema_Inr_iff

lemma type_token_schema_eq:
  "type_token_schema = Inr token_sch" "s_fields token_sch =
     [Field ''kind'' (TypeRef KInt None None) True, Field ''ref_name'' (TypeRef KText None None) False,
      Field ''ref_version'' (TypeRef KInt None None) False]" "wf_schema token_sch"
  by (simp_all add: token_sch_def type_token_schema_def builder_defs mk_schema_def)

lemma field_desc_schema_eq:
  "field_desc_schema = Inr field_sch" "s_fields field_sch =
     [Field ''name'' (TypeRef KText None None) True, Field ''required'' (TypeRef KBool None None) True,
      Field ''type'' (TypeRef KList None (Some (TypeRef KMessage (Some token_sch) None))) True]"
  "wf_schema field_sch"
  by (simp_all add: field_sch_def field_desc_schema_def builder_defs mk_schema_def type_token_schema_eq)

lemma schema_desc_schema_eq:
  "schema_desc_schema = Inr desc_sch" "s_fields desc_sch =
     [Field ''name'' (TypeRef KText None None) True, Field ''version'' (TypeRef KInt None None) True,
      Field ''fields'' (TypeRef KList None (Some (TypeRef KMessage (Some field_sch) None))) True]"
  "wf_schema desc_sch"
  by (simp_all add: desc_sch_def schema_desc_schema_def builder_defs mk_schema_def field_desc_schema_eq)

lemma manifest_schema_eq:
  "manifest_schema = Inr manifest_sch" "s_fields manifest_sch =
     [Field ''accepted'' (TypeRef KList None (Some (TypeRef KMessage (Some desc_sch) None))) True,
      Field ''state'' (TypeRef KMessage (Some desc_sch) None) True]"
  "wf_schema manifest_sch"
  by (simp_all add: manifest_sch_def manifest_schema_def builder_defs mk_schema_def schema_desc_schema_eq)

section \<open>What the encoder writes\<close>

definition token_value :: "kind \<Rightarrow> schema option \<Rightarrow> zvalue" where
  "token_value k ref =
     Value token_sch [Some (CInt (ucast (kind_code k))), map_option (CText \<circ> s_name) ref,
       map_option (\<lambda>r. CInt (ucast (s_version r))) ref]"

fun type_tokens :: "typeref \<Rightarrow> cell list" where
  "type_tokens (TypeRef k m e) =
     CMessage (Some (token_value k (if k = KMessage then m else None))) #
     (if k = KList then (case e of None \<Rightarrow> [] | Some el \<Rightarrow> type_tokens el) else [])"

definition field_value :: "field \<Rightarrow> zvalue" where
  "field_value f =
     Value field_sch [Some (CText (f_name f)), Some (CBool (f_required f)), Some (CList (type_tokens (f_type f)))]"

definition schema_value :: "schema \<Rightarrow> zvalue" where
  "schema_value s =
     Value desc_sch [Some (CText (s_name s)), Some (CInt (ucast (s_version s))),
       Some (CList (map (\<lambda>f. CMessage (Some (field_value f))) (s_fields s)))]"

definition manifest_value :: "schema list \<Rightarrow> schema \<Rightarrow> zvalue" where
  "manifest_value accepted state =
     Value manifest_sch [Some (CList (map (\<lambda>s. CMessage (Some (schema_value s))) accepted)),
       Some (CMessage (Some (schema_value state)))]"

lemma make_type_token_eq: "make_type_token k ref = Inr (token_value k ref)"
  by (simp add: make_type_token_def type_token_schema_eq new_value_def value_set_def token_value_def
      split: option.split)

lemma encode_type_eq: "wf_typeref t \<Longrightarrow> encode_type t acc = Inr (acc @ type_tokens t)"
proof (induction t acc rule: encode_type.induct)
  case (1 k m e acc)
  then show ?case by (cases k) (auto simp: make_type_token_eq split: option.splits)
qed

lemma encode_field_eq: "wf_typeref (f_type f) \<Longrightarrow> encode_field f = Inr (field_value f)"
  by (simp add: encode_field_def field_desc_schema_eq new_value_def value_set_def encode_type_eq field_value_def)

lemma encode_fields_eq:
  "\<forall>f \<in> set fs. wf_typeref (f_type f) \<Longrightarrow>
   encode_fields fs acc = Inr (acc @ map (\<lambda>f. CMessage (Some (field_value f))) fs)"
  by (induction fs arbitrary: acc) (simp_all add: encode_field_eq)

lemma encode_schema_eq: "wf_schema s \<Longrightarrow> encode_schema s = Inr (schema_value s)"
  by (simp add: encode_schema_def schema_desc_schema_eq new_value_def value_set_def encode_fields_eq
      wf_schema_field schema_value_def)

lemma encode_accepted_eq:
  "\<forall>s \<in> set ss. wf_schema s \<Longrightarrow>
   encode_accepted ss acc = Inr (acc @ map (\<lambda>s. CMessage (Some (schema_value s))) ss)"
  by (induction ss arbitrary: acc) (simp_all add: encode_schema_eq)

lemma encode_manifest_eq:
  "\<forall>s \<in> set ss. wf_schema s \<Longrightarrow> wf_schema state \<Longrightarrow> encode_manifest ss state = Inr (manifest_value ss state)"
  by (simp add: encode_manifest_def manifest_schema_eq new_value_def value_set_def encode_accepted_eq
      encode_schema_eq manifest_value_def)

section \<open>The gate accepts every descriptor\<close>

lemma token_conforms: "value_conforms (token_value k ref) token_sch"
  by (simp add: value_conforms.simps type_token_schema_eq token_value_def value_get_def split: option.splits)

lemma token_value_schema [simp]: "v_schema (token_value k ref) = token_sch"
  by (simp add: token_value_def)

lemma field_value_schema [simp]: "v_schema (field_value f) = field_sch"
  by (simp add: field_value_def)

lemma schema_value_schema [simp]: "v_schema (schema_value s) = desc_sch"
  by (simp add: schema_value_def)

lemma manifest_value_schema [simp]: "v_schema (manifest_value ss s) = manifest_sch"
  by (simp add: manifest_value_def)

lemma conforms_list: "cell_conforms (CList arr) (TypeRef KList None (Some el)) = (\<forall>x \<in> set arr. cell_conforms x el)"
  by simp

lemma type_tokens_conform:
  "list_all (\<lambda>c. cell_conforms c (TypeRef KMessage (Some token_sch) None)) (type_tokens t)"
proof (induction t rule: type_tokens.induct)
  case (1 k m e)
  have "cell_conforms (CMessage (Some (token_value k r))) (TypeRef KMessage (Some token_sch) None)" for r
    by (simp add: token_conforms)
  then show ?case using 1 by (cases e) (simp_all del: cell_conforms.simps)
qed

lemma field_conforms: "value_conforms (field_value f) field_sch"
proof -
  have "cell_conforms (CList (type_tokens (f_type f)))
      (TypeRef KList None (Some (TypeRef KMessage (Some token_sch) None)))"
    unfolding conforms_list using type_tokens_conform [of "f_type f"]
    by (simp add: list_all_iff del: cell_conforms.simps)
  moreover have "cell_conforms (CText (f_name f)) (TypeRef KText None None)"
    "cell_conforms (CBool (f_required f)) (TypeRef KBool None None)" by simp_all
  ultimately show ?thesis
    unfolding field_value_def
    by (subst value_conforms.simps) (simp add: field_desc_schema_eq value_get_def del: cell_conforms.simps)
qed

lemma schema_conforms: "value_conforms (schema_value s) desc_sch"
  unfolding schema_value_def
  by (subst value_conforms.simps) (simp add: schema_desc_schema_eq value_get_def field_conforms)

lemma manifest_conforms: "value_conforms (manifest_value ss s) manifest_sch"
  unfolding manifest_value_def
  by (subst value_conforms.simps) (simp add: manifest_schema_eq value_get_def schema_conforms)

section \<open>Decoding rebuilds the schema\<close>

fun refs_resolve :: "registry \<Rightarrow> typeref \<Rightarrow> bool" where
  "refs_resolve deps (TypeRef k m e) =
     (case k of
        KMessage \<Rightarrow> (case m of None \<Rightarrow> False | Some s \<Rightarrow> reg_lookup deps (s_name s) (s_version s) = Some s)
      | KList \<Rightarrow> (case e of None \<Rightarrow> False | Some el \<Rightarrow> refs_resolve deps el)
      | _ \<Rightarrow> True)"

lemma kind_code_range: "sint (ucast (kind_code k) :: u64) \<ge> 0" "sint (ucast (kind_code k) :: u64) \<le> 6"
  by (cases k; simp)+

lemma kind_of_code_code: "kind_of_code (kind_code k) = k"
  by (cases k) (simp_all add: kind_of_code_def)

lemma decode_token_eq: "decode_token (CMessage (Some (token_value k ref))) = Inr (token_value k ref, k)"
  using kind_code_range [of k]
  by (simp add: decode_token_def token_value_def value_get_def type_token_schema_eq kind_of_code_code not_less)

lemma ucast_u32_round: "(ucast (ucast (v :: u32) :: u64) :: u32) = v"
proof (rule unat_eqI)
  have "unat v < 2 ^ 32" using unsigned_less [of v, where 'a = nat] by simp
  then show "unat (ucast (ucast v :: u64) :: u32) = unat v"
    by (simp add: unsigned_ucast_eq [of "ucast v :: u64"] take_bit_nat_eq_self)
qed

lemma decode_ref_eq:
  "reg_lookup deps (s_name s) (s_version s) = Some s \<Longrightarrow>
   decode_ref (token_value k (Some s)) deps = Inr (TypeRef KMessage (Some s) None)"
  by (simp add: decode_ref_def token_value_def value_get_def type_token_schema_eq ucast_u32_round
      type_message_def)

lemma decode_type_eq:
  "wf_typeref t \<Longrightarrow> refs_resolve deps t \<Longrightarrow>
   decode_type (pre @ type_tokens t @ post) (length pre) deps = Inr (t, length pre + length (type_tokens t))"
proof (induction t arbitrary: pre rule: type_tokens.induct)
  case (1 k m e)
  let ?tok = "CMessage (Some (token_value k (if k = KMessage then m else None)))"
  have step: "decode_type (pre @ ?tok # more) (length pre) deps =
      (if k = KMessage then rbind (decode_ref (token_value k m) deps) (\<lambda>t. Inr (t, Suc (length pre)))
       else if k = KList then rbind (decode_type ((pre @ [?tok]) @ more) (length (pre @ [?tok])) deps)
         (\<lambda>(t, j). Inr (type_list t, j))
       else rbind (type_of k) (\<lambda>t. Inr (t, Suc (length pre))))" for more
    by (subst decode_type.simps) (simp add: decode_token_eq)
  consider (msg) s where "k = KMessage" "m = Some s" | (lst) el where "k = KList" "e = Some el" "wf_typeref el" "m = None"
    | (prim) "primitive_kind k" "m = None" "e = None"
    using "1.prems" by (cases k) (auto simp: primitive_kind_def split: option.splits)
  then show ?case
  proof cases
    case msg
    then show ?thesis using "1.prems" step [of post] by (simp add: decode_ref_eq)
  next
    case lst
    then have "refs_resolve deps el" using "1.prems" by simp
    from "1.IH" [OF _ lst(2,3) this, of "pre @ [?tok]"] lst show ?thesis
      using step [of "type_tokens el @ post"] by (simp add: type_list_def)
  next
    case prim
    then show ?thesis using step [of post] by (auto simp: type_of_def primitive_kind_def)
  qed
qed

lemma decode_field_eq:
  assumes "wf_typeref (f_type f)" and "refs_resolve deps (f_type f)"
  shows "decode_field (CMessage (Some (field_value f))) deps = Inr f"
  using decode_type_eq [OF assms, of "[]" "[]"]
  by (cases f) (simp add: decode_field_def field_value_def value_get_def field_desc_schema_eq)

lemma decode_fields_eq:
  "\<forall>f \<in> set fs. wf_typeref (f_type f) \<and> refs_resolve deps (f_type f) \<Longrightarrow>
   decode_fields (map (\<lambda>f. CMessage (Some (field_value f))) fs) deps acc = Inr (acc @ fs)"
  by (induction fs arbitrary: acc) (simp_all add: decode_field_eq)

lemma mk_schema_rebuild: "wf_schema s \<Longrightarrow> make_schema (s_name s) (s_version s) (s_fields s) = Inr s"
  by (cases s) (auto simp: make_schema_def mk_schema_Inr_iff check_fields_iff wf_field_iff)

lemma decode_schema_eq:
  assumes "wf_schema s" and "\<forall>f \<in> set (s_fields s). refs_resolve deps (f_type f)"
  shows "decode_schema (schema_value s) deps = Inr s"
  using assms decode_fields_eq [of "s_fields s" deps "[]"] wf_schema_field [OF assms(1)]
  by (simp add: decode_schema_def schema_value_def value_get_def schema_desc_schema_eq ucast_u32_round
      mk_schema_rebuild)

text \<open>
  C28: a schema survives the library boundary. Encoding a well-formed schema as a descriptor never
  throws; the descriptor conforms to the meta-schema, so the gate admits it; and decoding it against a
  registry in which every directly nested schema resolves gives back the very same schema, with the
  same content id, field order, flags and nesting.
\<close>

theorem schema_descriptor_roundtrip:
  assumes "wf_schema s" and "\<forall>f \<in> set (s_fields s). refs_resolve deps (f_type f)"
  shows "\<exists>d sd. encode_schema s = Inr d \<and> schema_desc_schema = Inr sd \<and> v_schema d = sd \<and>
    adm_ok (fst (admit d sd r g)) \<and> decode_schema d deps = Inr s"
proof -
  have "fst (validate_into (schema_value s) desc_sch (r = Full) g) = []"
    by (subst validate_into_Nil_iff) (simp_all add: schema_desc_schema_eq schema_conforms)
  then show ?thesis
    by (simp add: encode_schema_eq [OF assms(1)] schema_desc_schema_eq decode_schema_eq [OF assms]
        fst_admit adm_ok_def accept_def)
qed

theorem schema_descriptor_roundtrip_witness:
  "let inner = Schema ''In'' 1 [] (compute_content_id ''In'' 1 []);
       fs = [Field ''xs'' (TypeRef KList None (Some (TypeRef KMessage (Some inner) None))) True];
       s = Schema ''Out'' 2 fs (compute_content_id ''Out'' 2 fs)
   in rbind (encode_schema s) (\<lambda>d. decode_schema d [((''In'', 1), inner)]) = Inr s"
proof -
  let ?inner = "Schema ''In'' 1 [] (compute_content_id ''In'' 1 [])"
  let ?fs = "[Field ''xs'' (TypeRef KList None (Some (TypeRef KMessage (Some ?inner) None))) True]"
  let ?s = "Schema ''Out'' 2 ?fs (compute_content_id ''Out'' 2 ?fs)"
  obtain d where "encode_schema ?s = Inr d" "decode_schema d [((''In'', 1), ?inner)] = Inr ?s"
    using schema_descriptor_roundtrip [of ?s "[((''In'', 1), ?inner)]" FirstError 0]
    by (auto simp: reg_lookup_def reg_snapshot_def)
  then show ?thesis by (simp add: Let_def)
qed

end
