(* ===== verification/Zen_Seam.thy ===== *)
theory Zen_Seam
  imports Zen_Lifecycle Zen_Meta
begin

text \<open>
  The two seams of the system (a loaded library, a child process) hand the host octets, and the host
  admits them through the one gate: what such an admission returns.
\<close>

text \<open>Bytes that pass the gate at a door are the canonical encoding of the value that comes out.\<close>

lemma candidate_returns: "\<exists>a g. admit_candidate door bytes b = (Inr a, b\<lparr>b_gate_calls := g\<rparr>)"
proof -
  have "\<exists>a g. admit_unverified (\<lambda>_. None) (parse bytes) (Some door) FirstError (b_gate_calls b) = (Inr a, g)"
    by (cases "admit_against (\<lambda>_. None) (the (parse bytes)) door (FirstError = Full) (b_gate_calls b)")
      (simp add: admit_unverified_def)
  then show ?thesis by (auto simp: admit_candidate_def)
qed

lemma admission_shape:
  "fst (admit_unverified fc u (Some door) r g) = Inr a \<Longrightarrow> adm_ok a \<Longrightarrow> \<exists>v. a = accept v"
  using finish_accept_or_reject
  by (fastforce simp: admit_unverified_def admit_against_def adm_ok_def reject_def reject_one_def accept_def Let_def
      case_prod_beta split: if_splits wire_format.splits)

lemma candidate_admitted:
  assumes "wf_schema door" and "admit_candidate door bytes b = (Inr a, b1)" and "adm_ok a"
  obtains v g where "adm_value a = Inr v" "v_schema v = door" "value_conforms v door" "serialize v = Inr bytes"
    "b1 = b\<lparr>b_gate_calls := g\<rparr>"
proof -
  have run: "fst (admit_unverified (\<lambda>_. None) (parse bytes) (Some door) FirstError (b_gate_calls b)) = Inr a"
    using assms(2) by (auto simp: admit_candidate_def split: prod.splits)
  then obtain v where v: "a = accept v" using admission_shape assms(3) by blast
  with run have "serialize v = Inr bytes" "value_conforms v door" "v_schema v = door"
    using native_admits_iff [OF assms(1)] by (auto simp: exact_value_slots)
  moreover obtain g where "b1 = b\<lparr>b_gate_calls := g\<rparr>" using assms(2) candidate_returns [of door bytes b] by auto
  ultimately show ?thesis using that v by (simp add: adm_value_def accept_def)
qed

text \<open>A delivery a shard behind a seam may cause: stamped with its id, to be authorised, and carrying a gated value.\<close>

definition stamped_delivery :: "shard_id \<Rightarrow> registry \<Rightarrow> envelope \<Rightarrow> bool" where
  "stamped_delivery i r e \<longleftrightarrow> env_gated e \<and> m_sender (env_msg e) = i \<and> gated_value r (m_payload (env_msg e))"

lemma appended_gate_first: "appended P (b\<lparr>b_gate_calls := g\<rparr>) b' \<Longrightarrow> appended P b b'"
  using appended_trans appended_gate by blast

lemma reg_lookup_key: "registry_ok r \<Longrightarrow> reg_lookup r n v = Some s \<Longrightarrow> wf_schema s \<and> s_name s = n \<and> s_version s = v"
  by (auto simp: registry_ok_def reg_ok_def reg_lookup_def reg_snapshot_def dest!: om_find_set)

section \<open>Values that cross a seam unchanged\<close>

text \<open>A value that one side can write and the other side's gate accepts as the same value.\<close>

definition crosses :: "schema \<Rightarrow> zvalue \<Rightarrow> bool" where
  "crosses door v \<longleftrightarrow> wf_schema door \<and> exact_value door 0 v \<and> value_conforms v door \<and>
     valid_utf8 (s_name door) \<and> length (s_name door) \<le> 65535"

lemma crosses_schema: "crosses door v \<Longrightarrow> v_schema v = door"
  by (simp add: crosses_def exact_value_slots)

lemma crosses_bytes:
  assumes "crosses door v"
  obtains bytes where "serialize v = Inr bytes"
    and "\<And>fc r g. fst (admit_unverified fc (parse bytes) (Some door) r g) = Inr (accept v)"
    and "claimed_name (parse bytes) = s_name door" and "claimed_version (parse bytes) = s_version door"
proof -
  define bytes where "bytes = native_header (s_name door) (s_version door) (s_content_id door) @ value_bytes v"
  have ser: "serialize v = Inr bytes"
    using assms by (simp add: crosses_def serialize_exact [of door v] bytes_def)
  moreover have "fst (admit_unverified fc (parse bytes) (Some door) r g) = Inr (accept v)" for fc r g
    using assms ser by (simp add: crosses_def native_admits_iff)
  moreover have "claimed_name (parse bytes) = s_name door \<and> claimed_version (parse bytes) = s_version door"
  proof -
    have "parse bytes = Some (native_impl (s_name door) (s_version door) (s_content_id door) (value_bytes v))"
      using assms parse_iff [of bytes] unfolding crosses_def bytes_def by blast
    then show ?thesis by (simp add: claimed_name_def claimed_version_def native_impl_def header_done_def)
  qed
  ultimately show ?thesis using that by blast
qed

lemma candidate_crossing:
  assumes "crosses d v" and "serialize v = Inr bytes"
  shows "\<exists>g. admit_candidate d bytes b = (Inr (accept v), b\<lparr>b_gate_calls := g\<rparr>)"
proof -
  have "fst (admit_unverified (\<lambda>_. None) (parse bytes) (Some d) FirstError (b_gate_calls b)) = Inr (accept v)"
    using crosses_bytes [OF assms(1)] assms(2) by (metis sum.inject(2))
  then obtain g where "admit_unverified (\<lambda>_. None) (parse bytes) (Some d) FirstError (b_gate_calls b) = (Inr (accept v), g)"
    by (metis prod.collapse)
  then show ?thesis by (auto simp: admit_candidate_def)
qed

section \<open>A small shard\<close>

text \<open>A shard that accepts nothing and has an empty state, for concrete runs.\<close>

definition demo_manifest :: zvalue where
  "demo_manifest = manifest_value [] (plain_schema ''S'')"

definition demo_policy :: zvalue where
  "demo_policy = Value policy_schema [Some (CInt 2), Some (CBool True)]"

definition demo_snapshot :: zvalue where
  "demo_snapshot = Value (plain_schema ''S'') []"

definition bytes_of :: "zvalue \<Rightarrow> string" where
  "bytes_of v = projr (serialize v)"

lemma serialize_bytes_of:
  assumes "exact_value door 0 v" and "length (s_name door) \<le> 65535"
  shows "serialize v = Inr (bytes_of v) \<and>
    bytes_of v = native_header (s_name door) (s_version door) (s_content_id door) @ value_bytes v"
proof -
  have "serialize v = Inr (native_header (s_name door) (s_version door) (s_content_id door) @ value_bytes v)"
    using assms by (simp add: serialize_exact [OF assms(1)])
  then show ?thesis by (simp add: bytes_of_def)
qed

lemma manifest_sch_name: "s_name manifest_sch = ''zen.Manifest''"
  by (simp add: manifest_sch_def manifest_schema_def builder_defs mk_schema_def schema_desc_schema_eq)

lemma valid_utf8_ascii: "byte_of c < 0x80 \<Longrightarrow> valid_utf8 (c # s) = valid_utf8 s"
  by (simp add: valid_utf8.simps [of "c # s"] utf8_step_def Let_def)

lemma utf8_names [simp]: "valid_utf8 ''S''" "valid_utf8 ''zen.Manifest''" "valid_utf8 ''LifecyclePolicy''"
  by (simp_all add: valid_utf8_ascii byte_of_def valid_utf8.simps [of "[]"])

lemma demo_exact:
  "exact_value manifest_sch 0 demo_manifest" "exact_value policy_schema 0 demo_policy"
  "exact_value (plain_schema ''S'') 0 demo_snapshot"
  by (simp_all add: exact_value_slots demo_manifest_def manifest_value_def manifest_schema_eq schema_value_def
      schema_desc_schema_eq kMaxBinaryDepth_def kMaxListCount_def kMaxFieldBytes_def demo_policy_def
      policy_schema_def demo_snapshot_def plain_schema_def Let_def)

lemma demo_conforms:
  "value_conforms demo_manifest manifest_sch" "value_conforms demo_policy policy_schema"
  "value_conforms demo_snapshot (plain_schema ''S'')"
proof -
  show "value_conforms demo_manifest manifest_sch"
    unfolding demo_manifest_def by (rule manifest_conforms)
qed (simp_all add: demo_policy_def demo_snapshot_def policy_schema_def plain_schema_def value_conforms.simps
    value_get_def Let_def)

lemma demo_serialized:
  "serialize demo_manifest = Inr (bytes_of demo_manifest)" "serialize demo_policy = Inr (bytes_of demo_policy)"
  "serialize demo_snapshot = Inr (bytes_of demo_snapshot)"
  using demo_exact [THEN serialize_bytes_of]
  by (simp_all add: manifest_sch_name policy_schema_def plain_schema_def Let_def)

lemma demo_doors [simp]: "wf_schema policy_schema" "s_name policy_schema = ''LifecyclePolicy''"
  "s_name (plain_schema n) = n" "lifecycle_policy_schema = Inr policy_schema"
  by (simp_all add: policy_schema_def plain_schema_def lifecycle_policy_schema_def builder_defs mk_schema_def Let_def)

lemma demo_decode:
  "decode_manifest demo_manifest new_registry =
     (Inr ([], plain_schema ''S''), om_put (''S'', 1) (plain_schema ''S'') new_registry)"
proof -
  have "decode_schema (schema_value (plain_schema ''S'')) new_registry = Inr (plain_schema ''S'')"
    by (rule decode_schema_eq) (simp_all add: plain_schema_def)
  then show ?thesis
    by (simp add: decode_manifest_def demo_manifest_def manifest_value_def value_get_def manifest_schema_eq
        register_schema_def new_registry_def plain_schema_def)
qed

end
