(* ===== verification/Zen_Channel.thy ===== *)
theory Zen_Channel
  imports Zen_Binary
begin

text \<open>
  The parent-child link: \<open>include/zen/isolation/protocol.hpp\<close>, \<open>include/zen/isolation/channel.hpp\<close> and
  \<open>src/isolation/channel.cpp\<close>. The frame format, the bounds-checked cursor and the non-blocking channel.
  The socket is the environment: each \<open>flush\<close> and \<open>poll\<close> is given the list of results its \<open>::send\<close> and
  \<open>::recv\<close> calls return, in order; a list that ends before the loop does means the call has not
  returned (\<open>None\<close>). \<open>flush\<close> also reports the octets it handed to the socket.
\<close>

section \<open>Protocol\<close>

type_synonym op = u8

definition Op_Hello :: op where "Op_Hello = 1"
definition Op_Emit :: op where "Op_Emit = 2"
definition Op_Snapshot :: op where "Op_Snapshot = 3"
definition Op_Deliver :: op where "Op_Deliver = 16"
definition Op_Revive :: op where "Op_Revive = 17"
definition Op_Shutdown :: op where "Op_Shutdown = 18"

definition kMaxFrameLen :: nat where "kMaxFrameLen = 64 * 1024 * 1024"
definition kEmitSend :: u8 where "kEmitSend = 0"
definition kEmitPublish :: u8 where "kEmitPublish = 1"
definition kMaxBacklog :: nat where "kMaxBacklog = 64 * 1024 * 1024"

definition ipc_put_u8 :: "string \<Rightarrow> u8 \<Rightarrow> string" where
  "ipc_put_u8 out v = out @ [chr v]"

definition ipc_put_u32 :: "string \<Rightarrow> u32 \<Rightarrow> string" where
  "ipc_put_u32 out v = fold (\<lambda>s out. out @ [chr (ucast (drop_bit s v AND 0xFF))]) [0, 8, 16, 24] out"

definition ipc_put_u64 :: "string \<Rightarrow> u64 \<Rightarrow> string" where
  "ipc_put_u64 out v =
     fold (\<lambda>s out. out @ [chr (ucast (drop_bit s v AND 0xFF))]) [0, 8, 16, 24, 32, 40, 48, 56] out"

definition ipc_put_bytes :: "string \<Rightarrow> string \<Rightarrow> string" where
  "ipc_put_bytes out b = ipc_put_u32 out (of_nat (length b)) @ b"

record cursor =
  cu_data :: string
  cu_i :: nat

definition new_cursor :: "string \<Rightarrow> cursor" where
  "new_cursor data = \<lparr>cu_data = data, cu_i = 0\<rparr>"

definition cu_remaining :: "cursor \<Rightarrow> nat" where
  "cu_remaining c = length (cu_data c) - cu_i c"

definition cu_u8 :: "cursor \<Rightarrow> u8 option \<times> cursor" where
  "cu_u8 c =
     (if cu_remaining c < 1 then (None, c)
      else (Some (byte_of (cu_data c ! cu_i c)), c\<lparr>cu_i := cu_i c + 1\<rparr>))"

definition cu_u32 :: "cursor \<Rightarrow> u32 option \<times> cursor" where
  "cu_u32 c =
     (if cu_remaining c < 4 then (None, c)
      else (Some (fold (\<lambda>b v. v OR push_bit (8 * b) (ucast (byte_of (cu_data c ! (cu_i c + b))))) [0..<4] 0),
            c\<lparr>cu_i := cu_i c + 4\<rparr>))"

definition cu_u64 :: "cursor \<Rightarrow> u64 option \<times> cursor" where
  "cu_u64 c =
     (if cu_remaining c < 8 then (None, c)
      else (Some (fold (\<lambda>b v. v OR push_bit (8 * b) (ucast (byte_of (cu_data c ! (cu_i c + b))))) [0..<8] 0),
            c\<lparr>cu_i := cu_i c + 8\<rparr>))"

definition cu_bytes :: "cursor \<Rightarrow> string option \<times> cursor" where
  "cu_bytes c =
     (case cu_u32 c of
        (None, c1) \<Rightarrow> (None, c1)
      | (Some n, c1) \<Rightarrow>
          if cu_remaining c1 < unat n then (None, c1)
          else (Some (take (unat n) (drop (cu_i c1) (cu_data c1))), c1\<lparr>cu_i := cu_i c1 + unat n\<rparr>))"

definition cu_rest :: "cursor \<Rightarrow> string \<times> cursor" where
  "cu_rest c = (drop (cu_i c) (cu_data c), c\<lparr>cu_i := length (cu_data c)\<rparr>)"

section \<open>Channel\<close>

record incoming =
  in_op :: op
  in_payload :: string

record channel =
  ch_fd :: int
  ch_outbox :: string
  ch_out_pos :: nat
  ch_inbox :: string
  ch_failed :: bool
  ch_eof :: bool

definition new_channel :: "int \<Rightarrow> channel" where
  "new_channel fd =
     \<lparr>ch_fd = fd, ch_outbox = [], ch_out_pos = 0, ch_inbox = [], ch_failed = False, ch_eof = False\<rparr>"

definition ch_done :: "channel \<Rightarrow> bool" where
  "ch_done c \<longleftrightarrow> ch_failed c \<or> ch_eof c"

definition ch_queue :: "op \<Rightarrow> string \<Rightarrow> channel \<Rightarrow> channel" where
  "ch_queue op payload c =
     (if ch_failed c then c
      else if length payload > kMaxFrameLen then c\<lparr>ch_failed := True\<rparr>
      else
        let out = ipc_put_u8 (ipc_put_u32 (ch_outbox c) (of_nat (length payload))) op @ payload;
            c1 = c\<lparr>ch_outbox := out\<rparr>
        in if length out - ch_out_pos c > kMaxBacklog then c1\<lparr>ch_failed := True\<rparr> else c1)"

datatype send_result = Sent nat | SendAgain | SendIntr | SendError

fun flush_loop :: "send_result list \<Rightarrow> channel \<Rightarrow> string \<Rightarrow> (channel \<times> string) option" where
  "flush_loop rs c wire =
     (if ch_out_pos c < length (ch_outbox c) then
        (case rs of
           [] \<Rightarrow> None
         | Sent n # rs' \<Rightarrow>
             if n > 0 then
               flush_loop rs' (c\<lparr>ch_out_pos := ch_out_pos c + n\<rparr>)
                 (wire @ take n (drop (ch_out_pos c) (ch_outbox c)))
             else Some (c\<lparr>ch_failed := True\<rparr>, wire)
         | SendAgain # rs' \<Rightarrow> Some (c, wire)
         | SendIntr # rs' \<Rightarrow> flush_loop rs' c wire
         | SendError # rs' \<Rightarrow> Some (c\<lparr>ch_failed := True\<rparr>, wire))
      else Some (c, wire))"

declare flush_loop.simps [simp del]

definition ch_flush :: "send_result list \<Rightarrow> channel \<Rightarrow> (channel \<times> string) option" where
  "ch_flush rs c =
     (if ch_failed c \<or> ch_fd c < 0 then Some (c, [])
      else
        case flush_loop rs c [] of
          None \<Rightarrow> None
        | Some (c1, wire) \<Rightarrow>
            if ch_failed c1 then Some (c1, wire)
            else if ch_out_pos c1 = length (ch_outbox c1)
            then Some (c1\<lparr>ch_outbox := [], ch_out_pos := 0\<rparr>, wire)
            else Some (c1, wire))"

text \<open>\<open>::recv\<close> returns a count (zero octets is end of file) or an error number.\<close>

datatype recv_result = RecvBytes string | RecvAgain | RecvIntr | RecvError

text \<open>The read loop; the flag says whether the call goes on to parse frames or has returned.\<close>

fun recv_loop :: "recv_result list \<Rightarrow> channel \<Rightarrow> (channel \<times> bool) option" where
  "recv_loop [] c = None"
| "recv_loop (RecvBytes bs # rs) c =
     (if bs \<noteq> [] then
        let c1 = c\<lparr>ch_inbox := ch_inbox c @ bs\<rparr> in
        if length (ch_inbox c1) > kMaxBacklog then Some (c1\<lparr>ch_failed := True\<rparr>, False)
        else recv_loop rs c1
      else Some (c\<lparr>ch_eof := True\<rparr>, True))"
| "recv_loop (RecvAgain # rs) c = Some (c, True)"
| "recv_loop (RecvIntr # rs) c = recv_loop rs c"
| "recv_loop (RecvError # rs) c = Some (c\<lparr>ch_failed := True\<rparr>, False)"

text \<open>The frame loop over the inbox: the frames found, the position reached and whether it failed.\<close>

function frames_loop :: "string \<Rightarrow> nat \<Rightarrow> incoming list \<Rightarrow> incoming list \<times> nat \<times> bool" where
  "frames_loop inbox pos out =
     (if length inbox - pos \<ge> 5 then
        (let header = new_cursor (take 5 (drop pos inbox)) in
         case cu_u32 header of
           (len_opt, h1) \<Rightarrow>
             (let len = (case len_opt of None \<Rightarrow> 0 | Some l \<Rightarrow> unat l);
                  op = (case fst (cu_u8 h1) of None \<Rightarrow> 0 | Some o1 \<Rightarrow> o1)
              in
              if len > kMaxFrameLen then (out, pos, True)
              else if length inbox - pos < 5 + len then (out, pos, False)
              else frames_loop inbox (pos + 5 + len)
                     (out @ [\<lparr>in_op = op, in_payload = take len (drop (pos + 5) inbox)\<rparr>])))
      else (out, pos, False))"
  by pat_completeness auto
termination by (relation "measure (\<lambda>(inbox, pos, out). length inbox - pos)") auto

declare frames_loop.simps [simp del]

definition ch_poll :: "recv_result list \<Rightarrow> channel \<Rightarrow> incoming list \<Rightarrow> (channel \<times> incoming list) option" where
  "ch_poll rs c out =
     (if ch_failed c \<or> ch_fd c < 0 then Some (c, out)
      else
        case recv_loop rs c of
          None \<Rightarrow> None
        | Some (c1, False) \<Rightarrow> Some (c1, out)
        | Some (c1, True) \<Rightarrow>
            (case frames_loop (ch_inbox c1) 0 out of
               (out', pos, bad) \<Rightarrow>
                 let c2 = (if bad then c1\<lparr>ch_failed := True\<rparr> else c1) in
                 Some (c2\<lparr>ch_inbox := drop pos (ch_inbox c2)\<rparr>, out')))"

section \<open>Frames as a codec\<close>

lemma ipc_put_u32_le: "ipc_put_u32 out v = put_u32le v out"
  by (simp add: ipc_put_u32_def put_u32le_def put_u8_def)

lemma ipc_put_u64_le: "ipc_put_u64 out v = put_u64le v out"
  by (simp add: ipc_put_u64_def put_u64le_def put_u8_def)

definition frame_bytes :: "incoming \<Rightarrow> string" where
  "frame_bytes f = put_u32le (of_nat (length (in_payload f))) [] @ put_u8 (in_op f) [] @ in_payload f"

definition frame_ok :: "incoming \<Rightarrow> bool" where
  "frame_ok f \<longleftrightarrow> length (in_payload f) \<le> kMaxFrameLen"

text \<open>The first complete frame of a stream, as a reader of the wire format.\<close>

definition read_frame :: "string \<Rightarrow> (incoming \<times> string) option" where
  "read_frame bs =
     (case read_u32le bs of
        None \<Rightarrow> None
      | Some (len, r) \<Rightarrow>
          (case read_u8 r of
             None \<Rightarrow> None
           | Some (op, r1) \<Rightarrow>
               if kMaxFrameLen < unat len then None
               else
                 case take_bytes (unat len) r1 of
                   None \<Rightarrow> None
                 | Some (p, r2) \<Rightarrow> Some (\<lparr>in_op = op, in_payload = p\<rparr>, r2)))"

definition oversized :: "string \<Rightarrow> bool" where
  "oversized bs \<longleftrightarrow> 5 \<le> length bs \<and> kMaxFrameLen < unat (le_word 4 bs :: u32)"

lemma length_put_u32le [simp]: "length (put_u32le v []) = 4"
  by (simp add: put_u32le_octets)

lemma length_frame_bytes [simp]: "length (frame_bytes f) = 5 + length (in_payload f)"
  by (simp add: frame_bytes_def put_u8_def)

lemma unat_frame_len: "n \<le> kMaxFrameLen \<Longrightarrow> unat (of_nat n :: u32) = n"
  by (simp add: unat_of_nat kMaxFrameLen_def)

interpretation frame_codec: wire_codec frame_bytes read_frame frame_ok
proof
  fix f rest assume "frame_ok f"
  then show "read_frame (frame_bytes f @ rest) = Some (f, rest)"
    by (simp add: read_frame_def frame_bytes_def frame_ok_def u32_codec.dec_enc u8_codec.dec_enc
        unat_frame_len take_bytes_def not_less)
next
  fix bs f rest assume "read_frame bs = Some (f, rest)"
  then show "frame_ok f \<and> bs = frame_bytes f @ rest"
    by (auto simp: read_frame_def frame_bytes_def frame_ok_def take_bytes_def not_less
        dest!: u32_codec.enc_dec u8_codec.enc_dec split: option.splits if_splits)
qed

lemma read_u32le_le_word:
  "read_u32le bs = (if length bs < 4 then None else Some (le_word 4 bs, drop 4 bs))"
  by (simp add: read_u32le_def le_word_def)

lemma header_len:
  "5 \<le> length bs \<Longrightarrow>
   cu_u32 (new_cursor (take 5 bs)) = (Some (le_word 4 bs), \<lparr>cu_data = take 5 bs, cu_i = 4\<rparr>)"
  by (simp add: cu_u32_def new_cursor_def cu_remaining_def le_word_def upt_rec)

lemma header_op: "5 \<le> length bs \<Longrightarrow> fst (cu_u8 \<lparr>cu_data = take 5 bs, cu_i = 4\<rparr>) = Some (byte_of (bs ! 4))"
  by (simp add: cu_u8_def cu_remaining_def)

lemma read_frame_alt:
  "read_frame bs =
     (if length bs < 5 \<or> oversized bs \<or> length bs < 5 + unat (le_word 4 bs :: u32) then None
      else let n = unat (le_word 4 bs :: u32)
           in Some (\<lparr>in_op = byte_of (bs ! 4), in_payload = take n (drop 5 bs)\<rparr>, drop (5 + n) bs))"
proof (cases "length bs < 5")
  case True
  then show ?thesis by (cases "length bs = 4") (simp_all add: read_frame_def read_u32le_le_word)
next
  case False
  then have "drop 4 bs = bs ! 4 # drop 5 bs" by (simp add: Cons_nth_drop_Suc [symmetric])
  with False show ?thesis
    by (auto simp: read_frame_def read_u32le_le_word oversized_def take_bytes_def Let_def ac_simps)
qed

lemma frames_loop_step:
  "frames_loop inbox pos out =
     (case read_frame (drop pos inbox) of
        None \<Rightarrow> (out, pos, oversized (drop pos inbox))
      | Some (f, r) \<Rightarrow> frames_loop inbox (pos + length (frame_bytes f)) (out @ [f]))"
  by (subst frames_loop.simps)
     (auto simp: read_frame_alt header_len header_op oversized_def Let_def less_diff_conv ac_simps)

lemma frames_loop_frames:
  assumes "drop pos inbox = concat (map frame_bytes fs) @ part" and "\<forall>f \<in> set fs. frame_ok f"
    and "read_frame part = None"
  shows "frames_loop inbox pos out =
     (out @ fs, pos + length (concat (map frame_bytes fs)), oversized part)"
  using assms
proof (induction fs arbitrary: pos out)
  case Nil
  then show ?case by (subst frames_loop_step) simp
next
  case (Cons f fs)
  have at_f: "read_frame (drop pos inbox) = Some (f, concat (map frame_bytes fs) @ part)"
    using Cons.prems by (simp add: frame_codec.dec_enc)
  have "drop (pos + length (frame_bytes f)) inbox = drop (length (frame_bytes f)) (drop pos inbox)"
    by (simp add: ac_simps)
  then have "drop (pos + length (frame_bytes f)) inbox = concat (map frame_bytes fs) @ part"
    using Cons.prems(1) by simp
  then show ?case
    using Cons.IH Cons.prems(2,3) at_f by (subst frames_loop_step) (simp add: ac_simps)
qed

lemma header_of_frame:
  assumes "frame_ok f" and "5 \<le> length bs" and "bs @ r = frame_bytes f @ s"
  shows "\<not> oversized bs"
proof -
  have "le_word 4 bs = (of_nat (length (in_payload f)) :: u32)"
  proof (rule le_word_octets [of 4])
    fix b :: nat assume "b < 4"
    then have "bs ! b = (frame_bytes f @ s) ! b"
      using assms(2) by (subst assms(3) [symmetric]) (simp add: nth_append)
    with \<open>b < 4\<close> show "bs ! b = chr (octet (of_nat (length (in_payload f)) :: u32) b)"
      by (simp add: frame_bytes_def nth_append put_u32le_octets)
  qed simp
  then show ?thesis using assms(1) by (simp add: oversized_def frame_ok_def unat_frame_len)
qed

text \<open>Whatever part of a stream of frames has arrived is some of the frames, complete, and an
  unfinished one.\<close>

lemma stream_split:
  assumes "concat (map frame_bytes fs) = bs @ later" and "\<forall>f \<in> set fs. frame_ok f"
  shows "\<exists>got rest part. fs = got @ rest \<and> bs = concat (map frame_bytes got) @ part \<and>
     concat (map frame_bytes rest) = part @ later \<and> read_frame part = None \<and> \<not> oversized part"
  using assms
proof (induction fs arbitrary: bs)
  case Nil
  then show ?case by (simp add: read_frame_alt oversized_def)
next
  case (Cons f fs)
  show ?case
  proof (cases "length (frame_bytes f) \<le> length bs")
    case True
    define bs' where "bs' = drop (length (frame_bytes f)) bs"
    have "frame_bytes f = take (length (frame_bytes f)) (bs @ later)"
      by (metis Cons.prems(1) append_eq_conv_conj concat.simps(2) list.simps(9))
    then have "take (length (frame_bytes f)) bs = frame_bytes f"
      using True by (metis append_Nil2 diff_is_0_eq take_0 take_append)
    then have bs: "bs = frame_bytes f @ bs'" by (metis append_take_drop_id bs'_def)
    then have "concat (map frame_bytes fs) = bs' @ later" using Cons.prems(1) by simp
    from Cons.IH [OF this] Cons.prems(2) obtain got rest part where
      "fs = got @ rest" "bs' = concat (map frame_bytes got) @ part"
      "concat (map frame_bytes rest) = part @ later" "read_frame part = None" "\<not> oversized part"
      by auto
    with bs show ?thesis by (intro exI [of _ "f # got"] exI [of _ rest] exI [of _ part]) simp
  next
    case False
    have f: "frame_ok f" using Cons.prems(2) by simp
    have stream: "bs @ later = frame_bytes f @ concat (map frame_bytes fs)" using Cons.prems(1) by simp
    have none: "read_frame bs = None"
    proof (rule ccontr)
      assume "read_frame bs \<noteq> None"
      then obtain g r where "read_frame bs = Some (g, r)" by fastforce
      then have g: "frame_ok g" "bs = frame_bytes g @ r" by (auto dest: frame_codec.enc_dec)
      then have "g = f" using frame_codec.enc_inject [OF g(1) f, of "r @ later"] stream by auto
      with g(2) False show False by simp
    qed
    have "\<not> oversized bs"
      using header_of_frame [OF f _ stream] by (cases "5 \<le> length bs") (auto simp: oversized_def)
    with none stream show ?thesis
      by (intro exI [of _ "[]"] exI [of _ "f # fs"] exI [of _ bs]) simp
  qed
qed

section \<open>Two channels and a socket\<close>

definition unsent :: "channel \<Rightarrow> string" where
  "unsent c = drop (ch_out_pos c) (ch_outbox c)"

lemma unsent_update [simp]:
  "unsent (c\<lparr>ch_failed := b\<rparr>) = unsent c" "unsent (c\<lparr>ch_inbox := i\<rparr>) = unsent c"
  by (simp_all add: unsent_def)

text \<open>\<open>::send\<close> accepts at most the octets it is offered.\<close>

fun sent_count :: "send_result \<Rightarrow> nat" where
  "sent_count (Sent n) = n"
| "sent_count _ = 0"

definition sends_within :: "send_result list \<Rightarrow> channel \<Rightarrow> bool" where
  "sends_within rs c \<longleftrightarrow> sum_list (map sent_count rs) \<le> length (unsent c)"

text \<open>The octets a poll takes from the socket.\<close>

fun received :: "nat \<Rightarrow> recv_result list \<Rightarrow> string" where
  "received n (RecvBytes bs # rs) =
     (if bs = [] \<or> kMaxBacklog < n + length bs then bs else bs @ received (n + length bs) rs)"
| "received n (RecvIntr # rs) = received n rs"
| "received n _ = []"

definition polled :: "channel \<Rightarrow> recv_result list \<Rightarrow> string" where
  "polled c rs = (if ch_failed c \<or> ch_fd c < 0 then [] else received (length (ch_inbox c)) rs)"

text \<open>A sender, the octets in flight and a receiver; the frames queued and delivered so far.\<close>

record conn =
  cn_from :: channel
  cn_wire :: string
  cn_to :: channel
  cn_queued :: "incoming list"
  cn_delivered :: "incoming list"

definition new_conn :: "int \<Rightarrow> int \<Rightarrow> conn" where
  "new_conn fd1 fd2 =
     \<lparr>cn_from = new_channel fd1, cn_wire = [], cn_to = new_channel fd2, cn_queued = [], cn_delivered = []\<rparr>"

definition accepts_frame :: "channel \<Rightarrow> string \<Rightarrow> bool" where
  "accepts_frame c payload \<longleftrightarrow> \<not> ch_failed c \<and> length payload \<le> kMaxFrameLen"

inductive conn_step :: "conn \<Rightarrow> conn \<Rightarrow> bool" where
  conn_queue:
    "conn_step s (s\<lparr>cn_from := ch_queue op payload (cn_from s),
       cn_queued := cn_queued s @
         (if accepts_frame (cn_from s) payload then [\<lparr>in_op = op, in_payload = payload\<rparr>] else [])\<rparr>)"
| conn_flush:
    "ch_flush rs (cn_from s) = Some (c, sent) \<Longrightarrow> sends_within rs (cn_from s) \<Longrightarrow>
     conn_step s (s\<lparr>cn_from := c, cn_wire := cn_wire s @ sent\<rparr>)"
| conn_poll:
    "ch_poll rs (cn_to s) (cn_delivered s) = Some (c, fs) \<Longrightarrow> cn_wire s = polled (cn_to s) rs @ rest \<Longrightarrow>
     conn_step s (s\<lparr>cn_to := c, cn_wire := rest, cn_delivered := fs\<rparr>)"

definition conn_ok :: "conn \<Rightarrow> bool" where
  "conn_ok s \<longleftrightarrow>
     ch_out_pos (cn_from s) \<le> length (ch_outbox (cn_from s)) \<and>
     (\<forall>f \<in> set (cn_queued s). frame_ok f) \<and>
     (\<exists>rest. cn_queued s = cn_delivered s @ rest \<and>
        concat (map frame_bytes rest) = ch_inbox (cn_to s) @ cn_wire s @ unsent (cn_from s)) \<and>
     (\<not> ch_failed (cn_to s) \<longrightarrow> read_frame (ch_inbox (cn_to s)) = None)"

lemma ch_queue_bytes:
  "accepts_frame c payload \<Longrightarrow>
   ch_outbox (ch_queue op payload c) = ch_outbox c @ frame_bytes \<lparr>in_op = op, in_payload = payload\<rparr>"
  by (auto simp: ch_queue_def accepts_frame_def frame_bytes_def ipc_put_u8_def put_u8_def ipc_put_u32_le
      put_u32le_append [of _ "ch_outbox c"] Let_def)

lemma ch_queue_refused: "\<not> accepts_frame c payload \<Longrightarrow> ch_outbox (ch_queue op payload c) = ch_outbox c"
  by (auto simp: ch_queue_def accepts_frame_def)

lemma ch_queue_frame [simp]:
  "ch_out_pos (ch_queue op payload c) = ch_out_pos c" "ch_inbox (ch_queue op payload c) = ch_inbox c"
  "ch_fd (ch_queue op payload c) = ch_fd c"
  by (auto simp: ch_queue_def Let_def)

lemma unsent_queue:
  assumes "ch_out_pos c \<le> length (ch_outbox c)"
  shows "unsent (ch_queue op payload c) = unsent c @
     (if accepts_frame c payload then frame_bytes \<lparr>in_op = op, in_payload = payload\<rparr> else [])"
  using assms by (simp add: unsent_def ch_queue_bytes ch_queue_refused)

lemma flush_loop_sends:
  assumes "flush_loop rs c w = Some (c', w')" and "ch_out_pos c \<le> length (ch_outbox c)" and "sends_within rs c"
  shows "ch_out_pos c' \<le> length (ch_outbox c') \<and> (\<exists>sent. w' = w @ sent \<and> unsent c = sent @ unsent c') \<and>
     ch_outbox c' = ch_outbox c \<and> ch_inbox c' = ch_inbox c \<and> ch_fd c' = ch_fd c"
  using assms
proof (induction rs c w rule: flush_loop.induct)
  case (1 rs c w)
  have step: "unsent c = take n (drop (ch_out_pos c) (ch_outbox c)) @ unsent (c\<lparr>ch_out_pos := ch_out_pos c + n\<rparr>)" for n
    by (simp add: unsent_def add.commute [of _ n] drop_drop [symmetric] del: drop_drop)
  show ?case
  proof (cases "ch_out_pos c < length (ch_outbox c)")
    case False
    then show ?thesis using 1(3-) by (subst (asm) flush_loop.simps) auto
  next
    case True
    show ?thesis
    proof (cases rs)
      case Nil
      then show ?thesis using 1(3-) True by (subst (asm) flush_loop.simps) simp
    next
      case (Cons r rs')
      show ?thesis
      proof (cases r)
        case (Sent n)
        have "sends_within rs' (c\<lparr>ch_out_pos := ch_out_pos c + n\<rparr>)" "ch_out_pos c + n \<le> length (ch_outbox c)"
          using 1(5) True Cons Sent by (auto simp: sends_within_def unsent_def)
        moreover have "if 0 < n
            then flush_loop rs' (c\<lparr>ch_out_pos := ch_out_pos c + n\<rparr>)
                   (w @ take n (drop (ch_out_pos c) (ch_outbox c))) = Some (c', w')
            else c' = c\<lparr>ch_failed := True\<rparr> \<and> w' = w"
          using 1(3) True Cons Sent by (auto simp: flush_loop.simps [of "Sent n # rs'" c w])
        ultimately show ?thesis
          using 1(1) [OF True Cons Sent] 1(4) True step [of n]
          by (cases "0 < n") (auto simp del: length_drop)
      qed (use 1 True Cons in \<open>auto simp: flush_loop.simps [of "_ # rs'" c w] sends_within_def\<close>)
    qed
  qed
qed

lemma ch_flush_sends:
  assumes "ch_flush rs c = Some (c', w)" and "ch_out_pos c \<le> length (ch_outbox c)" and "sends_within rs c"
  shows "ch_out_pos c' \<le> length (ch_outbox c') \<and> unsent c = w @ unsent c' \<and>
     ch_inbox c' = ch_inbox c \<and> ch_fd c' = ch_fd c"
proof (cases "ch_failed c \<or> ch_fd c < 0")
  case True
  with assms show ?thesis by (simp add: ch_flush_def)
next
  case False
  then obtain c1 where loop: "flush_loop rs c [] = Some (c1, w)"
    and c': "c' = (if \<not> ch_failed c1 \<and> ch_out_pos c1 = length (ch_outbox c1)
      then c1\<lparr>ch_outbox := [], ch_out_pos := 0\<rparr> else c1)"
    using assms(1) by (auto simp: ch_flush_def split: option.splits if_splits)
  from flush_loop_sends [OF loop assms(2,3)] c' show ?thesis by (auto simp: unsent_def)
qed

lemma recv_loop_takes:
  assumes "recv_loop rs c = Some (c', go)"
  shows "ch_inbox c' = ch_inbox c @ received (length (ch_inbox c)) rs \<and> ch_outbox c' = ch_outbox c \<and>
     ch_out_pos c' = ch_out_pos c \<and> ch_fd c' = ch_fd c \<and> (ch_failed c' \<longleftrightarrow> ch_failed c \<or> \<not> go) \<and>
     (go \<longrightarrow> ch_inbox c' = ch_inbox c \<or> length (ch_inbox c') \<le> kMaxBacklog)"
  using assms by (induction rs c rule: recv_loop.induct) (auto simp: Let_def split: if_splits)

lemma ch_poll_frames:
  assumes "ch_poll rs c out = Some (c', out')"
    and "concat (map frame_bytes fs) = ch_inbox c @ polled c rs @ later" and "\<forall>f \<in> set fs. frame_ok f"
    and "\<not> ch_failed c \<longrightarrow> read_frame (ch_inbox c) = None"
  shows "\<exists>got rest. fs = got @ rest \<and> out' = out @ got \<and>
     concat (map frame_bytes rest) = ch_inbox c' @ later \<and>
     (\<not> ch_failed c' \<longrightarrow> read_frame (ch_inbox c') = None)"
proof (cases "ch_failed c \<or> ch_fd c < 0")
  case True
  with assms show ?thesis by (auto simp: ch_poll_def polled_def)
next
  case False
  then obtain c1 go where loop: "recv_loop rs c = Some (c1, go)"
    using assms(1) by (auto simp: ch_poll_def split: option.splits)
  note takes = recv_loop_takes [OF loop]
  have stream: "concat (map frame_bytes fs) = ch_inbox c1 @ later"
    using assms(2) False takes by (simp add: polled_def)
  show ?thesis
  proof (cases go)
    case False
    then show ?thesis using \<open>\<not> (ch_failed c \<or> ch_fd c < 0)\<close> loop assms(1) stream takes
      by (auto simp: ch_poll_def)
  next
    case True
    from stream_split [OF stream assms(3)] obtain got rest part where split:
      "fs = got @ rest" "ch_inbox c1 = concat (map frame_bytes got) @ part"
      "concat (map frame_bytes rest) = part @ later" "read_frame part = None" "\<not> oversized part"
      by blast
    have "frames_loop (ch_inbox c1) 0 out = (out @ got, length (concat (map frame_bytes got)), False)"
      using frames_loop_frames [of 0 "ch_inbox c1" got part out] split assms(3) by auto
    then show ?thesis
      using True \<open>\<not> (ch_failed c \<or> ch_fd c < 0)\<close> loop assms(1) split
      by (auto simp: ch_poll_def)
  qed
qed

lemma conn_step_ok:
  assumes "conn_step s s'" and "conn_ok s"
  shows "conn_ok s'"
  using assms
proof (induction rule: conn_step.induct)
  case (conn_queue s payload op)
  then have "unsent (ch_queue op payload (cn_from s)) = unsent (cn_from s) @
     (if accepts_frame (cn_from s) payload then frame_bytes \<lparr>in_op = op, in_payload = payload\<rparr> else [])"
    and "length (ch_outbox (cn_from s)) \<le> length (ch_outbox (ch_queue op payload (cn_from s)))"
    by (simp_all add: conn_ok_def unsent_queue ch_queue_bytes ch_queue_refused
        split: if_splits) (metis ch_queue_bytes ch_queue_refused le_add1 length_append order_refl)
  with conn_queue show ?case
    by (auto simp: conn_ok_def accepts_frame_def frame_ok_def)
next
  case (conn_flush rs s c sent)
  then show ?case using ch_flush_sends [OF conn_flush(1)] by (auto simp: conn_ok_def)
next
  case (conn_poll rs s c fs rest)
  then obtain todo where todo: "cn_queued s = cn_delivered s @ todo"
    "concat (map frame_bytes todo) = ch_inbox (cn_to s) @ cn_wire s @ unsent (cn_from s)"
    and ok: "\<forall>f \<in> set (cn_queued s). frame_ok f"
      "\<not> ch_failed (cn_to s) \<longrightarrow> read_frame (ch_inbox (cn_to s)) = None"
    by (auto simp: conn_ok_def)
  obtain got rest' where "todo = got @ rest'" "fs = cn_delivered s @ got"
    "concat (map frame_bytes rest') = ch_inbox c @ rest @ unsent (cn_from s)"
    "\<not> ch_failed c \<longrightarrow> read_frame (ch_inbox c) = None"
    using ch_poll_frames [OF conn_poll(1), of todo "rest @ unsent (cn_from s)"] todo ok conn_poll(2)
    by auto
  with conn_poll(3) todo show ?case by (auto simp: conn_ok_def)
qed

lemma reachable_conn_ok:
  assumes "conn_step\<^sup>*\<^sup>* (new_conn fd1 fd2) s"
  shows "conn_ok s"
  using assms
proof (induction rule: rtranclp_induct)
  case base
  then show ?case
    by (simp add: conn_ok_def new_conn_def new_channel_def unsent_def read_frame_alt)
qed (rule conn_step_ok)

lemma all_delivered:
  assumes "conn_ok s" and "cn_wire s = []" and "unsent (cn_from s) = []" and "\<not> ch_failed (cn_to s)"
  shows "cn_delivered s = cn_queued s"
proof -
  obtain rest where rest: "cn_queued s = cn_delivered s @ rest"
    "concat (map frame_bytes rest) = ch_inbox (cn_to s)" and none: "read_frame (ch_inbox (cn_to s)) = None"
    and ok: "\<forall>f \<in> set (cn_queued s). frame_ok f"
    using assms by (auto simp: conn_ok_def)
  then have "rest = []"
    by (cases rest) (auto simp: frame_codec.dec_enc simp flip: rest(2))
  with rest(1) show ?thesis by simp
qed

section \<open>A channel whose peer may do anything\<close>

text \<open>\<open>poll\<close> reads into a buffer of 8192 octets.\<close>

definition kRecvBuf :: nat where "kRecvBuf = 8192"

fun recv_fits :: "recv_result \<Rightarrow> bool" where
  "recv_fits (RecvBytes bs) \<longleftrightarrow> length bs \<le> kRecvBuf"
| "recv_fits _ \<longleftrightarrow> True"

inductive channel_step :: "channel \<Rightarrow> channel \<Rightarrow> bool" where
  step_queue: "channel_step c (ch_queue op payload c)"
| step_flush: "ch_flush rs c = Some (c', w) \<Longrightarrow> sends_within rs c \<Longrightarrow> channel_step c c'"
| step_poll: "ch_poll rs c out = Some (c', out') \<Longrightarrow> list_all recv_fits rs \<Longrightarrow> channel_step c c'"

definition channel_ok :: "channel \<Rightarrow> bool" where
  "channel_ok c \<longleftrightarrow>
     ch_out_pos c \<le> length (ch_outbox c) \<and>
     length (ch_inbox c) \<le> kMaxBacklog + kRecvBuf \<and>
     length (unsent c) \<le> kMaxBacklog + 5 + kMaxFrameLen \<and>
     (\<not> ch_failed c \<longrightarrow> length (ch_inbox c) \<le> kMaxBacklog \<and> length (unsent c) \<le> kMaxBacklog)"

lemma ch_queue_ok: "channel_ok c \<Longrightarrow> channel_ok (ch_queue op payload c)"
  by (auto simp: channel_ok_def ch_queue_def unsent_def ipc_put_u8_def ipc_put_u32_le
      put_u32le_append [of _ "ch_outbox c"] Let_def)

lemma flush_loop_failed: "flush_loop rs c w = Some (c', w') \<Longrightarrow> ch_failed c \<Longrightarrow> ch_failed c'"
proof (induction rs c w rule: flush_loop.induct)
  case (1 rs c w)
  then show ?case
    by (subst (asm) (3) flush_loop.simps) (auto split: if_splits list.splits send_result.splits)
qed

lemma ch_flush_failed: "ch_flush rs c = Some (c', w) \<Longrightarrow> ch_failed c \<Longrightarrow> c' = c \<and> w = []"
  by (simp add: ch_flush_def)

lemma ch_flush_ok:
  assumes "ch_flush rs c = Some (c', w)" and "sends_within rs c" and "channel_ok c"
  shows "channel_ok c'"
  using ch_flush_sends [OF assms(1) _ assms(2)] ch_flush_failed [OF assms(1)] assms(3)
  by (auto simp: channel_ok_def)

lemma received_bound:
  "list_all recv_fits rs \<Longrightarrow> n \<le> kMaxBacklog \<Longrightarrow> n + length (received n rs) \<le> kMaxBacklog + kRecvBuf"
  by (induction n rs rule: received.induct) auto

lemma ch_poll_cases:
  assumes "ch_poll rs c out = Some (c', out')"
  obtains (quiet) "c' = c" "ch_failed c \<or> ch_fd c < 0"
  | (reads) pos where "\<not> ch_failed c" "ch_inbox c' = drop pos (ch_inbox c @ received (length (ch_inbox c)) rs)"
      "unsent c' = unsent c" "ch_out_pos c' = ch_out_pos c" "ch_outbox c' = ch_outbox c"
      "\<not> ch_failed c' \<Longrightarrow> length (ch_inbox c) \<le> kMaxBacklog \<Longrightarrow>
         length (ch_inbox c @ received (length (ch_inbox c)) rs) \<le> kMaxBacklog"
proof (cases "ch_failed c \<or> ch_fd c < 0")
  case True
  with assms quiet show ?thesis by (auto simp: ch_poll_def)
next
  case False
  then obtain c1 go where loop: "recv_loop rs c = Some (c1, go)"
    using assms(1) by (auto simp: ch_poll_def split: option.splits)
  note takes = recv_loop_takes [OF loop]
  show ?thesis
  proof (cases go)
    case True
    then obtain pos where "ch_inbox c' = drop pos (ch_inbox c1)" "ch_outbox c' = ch_outbox c1"
      "ch_out_pos c' = ch_out_pos c1"
      using assms False loop by (auto simp: ch_poll_def Let_def split: prod.splits if_splits)
    with takes True False show ?thesis by (intro reads [of pos]) (auto simp: unsent_def)
  next
    assume "\<not> go"
    with assms False loop have "c' = c1" by (auto simp: ch_poll_def)
    with takes \<open>\<not> go\<close> False show ?thesis by (intro reads [of 0]) (auto simp: unsent_def)
  qed
qed

lemma ch_poll_ok:
  assumes "ch_poll rs c out = Some (c', out')" and "list_all recv_fits rs" and "channel_ok c"
  shows "channel_ok c'"
  using assms(1)
proof (cases rule: ch_poll_cases)
  case (reads pos)
  then show ?thesis
    using received_bound [OF assms(2), of "length (ch_inbox c)"] assms(3) by (auto simp: channel_ok_def)
qed (use assms(3) in simp)

lemma reachable_channel_ok:
  assumes "channel_step\<^sup>*\<^sup>* (new_channel fd) c"
  shows "channel_ok c"
  using assms
proof (induction rule: rtranclp_induct)
  case base
  show ?case by (simp add: channel_ok_def new_channel_def unsent_def)
next
  case (step c c')
  from step.hyps(2) step.IH show ?case
    by (cases rule: channel_step.cases) (auto intro: ch_queue_ok ch_flush_ok ch_poll_ok)
qed

text \<open>Neither loop can be kept going: every result but an interruption moves it on.\<close>

lemma recv_loop_returns:
  "kMaxBacklog < length (ch_inbox c) + length (filter (\<lambda>r. r \<noteq> RecvIntr) rs) \<Longrightarrow> rs \<noteq> [] \<Longrightarrow>
   length (ch_inbox c) \<le> kMaxBacklog \<Longrightarrow> recv_loop rs c \<noteq> None"
proof (induction rs c rule: recv_loop.induct)
  case (2 bs rs c)
  show ?case
  proof (cases "bs = [] \<or> kMaxBacklog < length (ch_inbox c) + length bs")
    case False
    then have "1 \<le> length bs" by (cases bs) auto
    then have "kMaxBacklog < length (ch_inbox c) + length bs + length (filter (\<lambda>r. r \<noteq> RecvIntr) rs)"
      using 2(2) by simp
    with False 2 show ?thesis by (cases "rs = []") (auto simp: Let_def)
  qed (auto simp: Let_def)
next
  case (4 rs c)
  then show ?case by (cases "rs = []") auto
qed auto

lemma flush_loop_returns:
  "length (unsent c) \<le> length (filter (\<lambda>r. r \<noteq> SendIntr) rs) \<Longrightarrow> flush_loop rs c w \<noteq> None"
proof (induction rs c w rule: flush_loop.induct)
  case (1 rs c w)
  show ?case
  proof (cases "ch_out_pos c < length (ch_outbox c)")
    case False
    then show ?thesis by (subst flush_loop.simps) simp
  next
    case True
    then obtain r rs' where rs: "rs = r # rs'" using 1(3) by (cases rs) (auto simp: unsent_def)
    show ?thesis
    proof (cases r)
      case (Sent n)
      have "length (unsent (c\<lparr>ch_out_pos := ch_out_pos c + n\<rparr>)) \<le>
          length (filter (\<lambda>r. r \<noteq> SendIntr) rs')" if "0 < n"
        using 1(3) rs Sent that by (simp add: unsent_def)
      then show ?thesis
        using 1(1) [OF True rs Sent] True rs Sent
        by (auto simp: flush_loop.simps [of "Sent n # rs'" c w])
    qed (use 1 True rs in \<open>auto simp: flush_loop.simps [of "_ # rs'" c w]\<close>)
  qed
qed

section \<open>A short exchange\<close>

lemmas channel_eval =
  ch_flush_def flush_loop.simps ch_queue_def ch_poll_def new_channel_def ipc_put_u8_def ipc_put_u32_def
  kMaxFrameLen_def kMaxBacklog_def unsent_def sends_within_def polled_def byte_of_def chr_def char_of_def bit_Suc_0_iff

definition demo_frame :: incoming where
  "demo_frame = \<lparr>in_op = Op_Emit, in_payload = ''a''\<rparr>"

definition demo_out :: "nat \<Rightarrow> channel" where
  "demo_out n = (ch_queue Op_Emit ''a'' (new_channel 3))\<lparr>ch_out_pos := n\<rparr>"

definition demo_conn :: conn where
  "demo_conn =
     \<lparr>cn_from = new_channel 3, cn_wire = [], cn_to = new_channel 4,
      cn_queued = [demo_frame], cn_delivered = [demo_frame]\<rparr>"

lemma demo_queue:
  "conn_step (new_conn 3 4) (new_conn 3 4\<lparr>cn_from := demo_out 0, cn_queued := [demo_frame]\<rparr>)"
  using conn_queue [where s = "new_conn 3 4" and op = Op_Emit and payload = "''a''"]
  by (simp add: new_conn_def demo_out_def demo_frame_def accepts_frame_def channel_eval)

lemma demo_flush:
  "ch_flush [Sent 3, SendIntr, SendAgain] (demo_out 0) =
     Some (demo_out 3, [CHR 0x01, CHR 0x00, CHR 0x00])"
  "ch_flush [Sent 3] (demo_out 3) = Some (new_channel 3, [CHR 0x00, CHR 0x02, CHR ''a''])"
  "sends_within [Sent 3, SendIntr, SendAgain] (demo_out 0)" "sends_within [Sent 3] (demo_out 3)"
  by (simp_all add: demo_out_def Op_Emit_def channel_eval)

lemma demo_frames:
  "frames_loop [CHR 0x01, CHR 0x00, CHR 0x00] 0 [] = ([], 0, False)"
  "frames_loop [CHR 0x01, CHR 0x00, CHR 0x00, CHR 0x00, CHR 0x02, CHR ''a''] 0 [] = ([demo_frame], 6, False)"
proof -
  show "frames_loop [CHR 0x01, CHR 0x00, CHR 0x00] 0 [] = ([], 0, False)"
    by (simp add: frames_loop.simps)
  have "[CHR 0x01, CHR 0x00, CHR 0x00, CHR 0x00, CHR 0x02, CHR ''a''] = frame_bytes demo_frame"
    by (simp add: demo_frame_def frame_bytes_def Op_Emit_def put_u32le_def put_u8_def channel_eval)
  then show "frames_loop [CHR 0x01, CHR 0x00, CHR 0x00, CHR 0x00, CHR 0x02, CHR ''a''] 0 [] =
      ([demo_frame], 6, False)"
    using frames_loop_frames [of 0 "frame_bytes demo_frame" "[demo_frame]" "[]" "[]"]
    by (simp add: demo_frame_def frame_ok_def kMaxFrameLen_def read_frame_alt oversized_def)
qed

lemma demo_poll:
  "ch_poll [RecvBytes [CHR 0x01, CHR 0x00, CHR 0x00], RecvAgain] (new_channel 4) [] =
     Some ((new_channel 4)\<lparr>ch_inbox := [CHR 0x01, CHR 0x00, CHR 0x00]\<rparr>, [])"
  "polled (new_channel 4) [RecvBytes [CHR 0x01, CHR 0x00, CHR 0x00], RecvAgain] =
     [CHR 0x01, CHR 0x00, CHR 0x00]"
  "ch_poll [RecvBytes [CHR 0x00], RecvBytes [CHR 0x02, CHR ''a''], RecvAgain]
      ((new_channel 4)\<lparr>ch_inbox := [CHR 0x01, CHR 0x00, CHR 0x00]\<rparr>) [] = Some (new_channel 4, [demo_frame])"
  "polled ((new_channel 4)\<lparr>ch_inbox := [CHR 0x01, CHR 0x00, CHR 0x00]\<rparr>)
     [RecvBytes [CHR 0x00], RecvBytes [CHR 0x02, CHR ''a''], RecvAgain] = [CHR 0x00, CHR 0x02, CHR ''a'']"
  by (simp_all add: demo_frames channel_eval)

lemma demo_conn_reachable: "conn_step\<^sup>*\<^sup>* (new_conn 3 4) demo_conn"
proof -
  define s1 where "s1 = new_conn 3 4\<lparr>cn_from := demo_out 0, cn_queued := [demo_frame]\<rparr>"
  define s2 where "s2 = s1\<lparr>cn_from := demo_out 3, cn_wire := [CHR 0x01, CHR 0x00, CHR 0x00]\<rparr>"
  define s3 where "s3 = s2\<lparr>cn_wire := [], cn_to := (new_channel 4)\<lparr>ch_inbox := [CHR 0x01, CHR 0x00, CHR 0x00]\<rparr>\<rparr>"
  define s4 where "s4 = s3\<lparr>cn_from := new_channel 3, cn_wire := [CHR 0x00, CHR 0x02, CHR ''a'']\<rparr>"
  have "conn_step s1 s2"
    using conn_flush [of "[Sent 3, SendIntr, SendAgain]" s1] demo_flush(1,3)
    by (simp add: s1_def s2_def new_conn_def)
  moreover have "conn_step s2 s3"
    using conn_poll [where s = s2 and rest = "[]", OF _ _] demo_poll(1,2)
    by (fastforce simp: s1_def s2_def s3_def new_conn_def)
  moreover have "conn_step s3 s4"
    using conn_flush [of "[Sent 3]" s3] demo_flush(2,4)
    by (simp add: s1_def s2_def s3_def s4_def new_conn_def)
  moreover have "conn_step s4 demo_conn"
    using conn_poll [where s = s4 and rest = "[]", OF _ _] demo_poll(3,4)
    by (fastforce simp: s1_def s2_def s3_def s4_def new_conn_def demo_conn_def)
  moreover have "conn_step (new_conn 3 4) s1" unfolding s1_def by (rule demo_queue)
  ultimately show ?thesis by (meson converse_rtranclp_into_rtranclp rtranclp.rtrancl_refl)
qed

section \<open>Properties\<close>

text \<open>
  C26: The link is a first-in first-out queue of frames, however the socket cuts the octets up. In every
  state two channels reach by queueing, flushing and polling, what the receiver has delivered is a
  prefix of what the sender accepted (no frame lost, repeated, altered or out of order), and once
  nothing is pending or in flight and the receiver has not failed, everything has been delivered.
\<close>

theorem channel_fifo:
  assumes "conn_step\<^sup>*\<^sup>* (new_conn fd1 fd2) s"
  shows "(\<exists>rest. cn_queued s = cn_delivered s @ rest) \<and>
    (cn_wire s = [] \<and> unsent (cn_from s) = [] \<and> \<not> ch_failed (cn_to s) \<longrightarrow> cn_delivered s = cn_queued s)"
proof -
  have ok: "conn_ok s" using assms by (rule reachable_conn_ok)
  then have "\<exists>rest. cn_queued s = cn_delivered s @ rest" by (auto simp: conn_ok_def)
  with ok show ?thesis using all_delivered by blast
qed

theorem channel_fifo_witness:
  "conn_step\<^sup>*\<^sup>* (new_conn 3 4) demo_conn \<and> cn_delivered demo_conn = cn_queued demo_conn \<and>
   cn_queued demo_conn = [demo_frame]"
  using channel_fifo [OF demo_conn_reachable] demo_conn_reachable
  by (simp add: demo_conn_def new_channel_def unsent_def)

text \<open>
  C27: A peer cannot make a channel wait for ever, nor fill its inbox or its backlog. Whatever the peer sends, the inbox
  stays within the backlog cap and one read, the octets awaiting transmission within the cap and one
  frame (both within the cap while the channel has not failed), and a poll or a flush returns after
  finitely many results of its socket calls other than interruptions. The octets already sent that the outbox
  still holds are not bounded.
\<close>

theorem channel_bounds:
  assumes "channel_step\<^sup>*\<^sup>* (new_channel fd) c"
  shows "length (ch_inbox c) \<le> kMaxBacklog + kRecvBuf \<and>
    length (unsent c) \<le> kMaxBacklog + 5 + kMaxFrameLen \<and>
    (\<not> ch_failed c \<longrightarrow> length (ch_inbox c) \<le> kMaxBacklog \<and> length (unsent c) \<le> kMaxBacklog) \<and>
    (kMaxBacklog < length (filter (\<lambda>r. r \<noteq> RecvIntr) rs) \<longrightarrow> (\<exists>c' fs. ch_poll rs c [] = Some (c', fs))) \<and>
    (length (unsent c) \<le> length (filter (\<lambda>r. r \<noteq> SendIntr) ws) \<longrightarrow> (\<exists>c' w. ch_flush ws c = Some (c', w)))"
proof -
  have ok: "channel_ok c" using assms by (rule reachable_channel_ok)
  have "\<exists>c' fs. ch_poll rs c [] = Some (c', fs)"
    if "kMaxBacklog < length (filter (\<lambda>r. r \<noteq> RecvIntr) rs)"
    using recv_loop_returns [of c rs] ok that
    by (cases "rs = []")
      (auto simp: ch_poll_def channel_ok_def Let_def split: option.splits prod.splits bool.splits)
  moreover have "\<exists>c' w. ch_flush ws c = Some (c', w)"
    if "length (unsent c) \<le> length (filter (\<lambda>r. r \<noteq> SendIntr) ws)"
    using flush_loop_returns [of c ws "[]"] that by (auto simp: ch_flush_def split: option.splits)
  ultimately show ?thesis using ok unfolding channel_ok_def by blast
qed

theorem channel_bounds_witness:
  "channel_step\<^sup>*\<^sup>* (new_channel 3) (ch_queue Op_Hello ''hi'' (new_channel 3)) \<and>
   (\<exists>c' w. ch_flush [SendIntr, Sent 4, SendAgain, SendAgain, SendAgain, SendAgain, SendAgain, SendAgain]
      (ch_queue Op_Hello ''hi'' (new_channel 3)) = Some (c', w))"
proof -
  have "channel_step\<^sup>*\<^sup>* (new_channel 3) (ch_queue Op_Hello ''hi'' (new_channel 3))"
    by (rule r_into_rtranclp) (rule step_queue)
  then show ?thesis
    using channel_bounds [of 3 "ch_queue Op_Hello ''hi'' (new_channel 3)" "[]"
        "[SendIntr, Sent 4, SendAgain, SendAgain, SendAgain, SendAgain, SendAgain, SendAgain]"]
    by (simp add: channel_eval)
qed

lemma outbox_grows:
  "\<exists>c. channel_step\<^sup>*\<^sup>* (new_channel 3) c \<and> \<not> ch_failed c \<and> ch_fd c = 3 \<and>
     ch_out_pos c + 5 = length (ch_outbox c) \<and> length (ch_outbox c) = 5 * Suc k"
proof (induction k)
  case 0
  have "channel_step (new_channel 3) (ch_queue Op_Deliver [] (new_channel 3))" by (rule step_queue)
  then show ?case
    by (intro exI [of _ "ch_queue Op_Deliver [] (new_channel 3)"]) (auto simp: channel_eval)
next
  case (Suc k)
  then obtain c where c: "channel_step\<^sup>*\<^sup>* (new_channel 3) c" "\<not> ch_failed c" "ch_fd c = 3"
    "ch_out_pos c + 5 = length (ch_outbox c)" "length (ch_outbox c) = 5 * Suc k" by blast
  define q where "q = ch_queue Op_Deliver [] c"
  have q: "\<not> ch_failed q" "ch_fd q = 3" "ch_out_pos q = ch_out_pos c" "length (ch_outbox q) = 5 * Suc k + 5"
    using c by (auto simp: q_def ch_queue_def ipc_put_u32_le put_u32le_append [of _ "ch_outbox c"]
        ipc_put_u8_def kMaxFrameLen_def kMaxBacklog_def Let_def)
  define c' where "c' = q\<lparr>ch_out_pos := ch_out_pos q + 5\<rparr>"
  have "ch_flush [Sent 5, SendAgain] q = Some (c', take 5 (unsent q))"
    using q c by (simp add: ch_flush_def flush_loop.simps c'_def unsent_def)
  moreover have "sends_within [Sent 5, SendAgain] q"
    using q c by (simp add: sends_within_def unsent_def)
  ultimately have "channel_step q c'" by (rule step_flush)
  moreover have "channel_step c q" unfolding q_def by (rule step_queue)
  ultimately have "channel_step\<^sup>*\<^sup>* (new_channel 3) c'" using c(1) by simp
  with q c show ?case by (intro exI [of _ c']) (simp add: c'_def)
qed

text \<open>
  The outbox is only cleared when it drains completely, so its size is not bounded by the backlog cap:
  a peer that reads one frame per flush, always leaving a few octets, lets the buffer grow with the
  total traffic while the channel never counts as backlogged.
\<close>

theorem outbox_not_bounded:
  "\<exists>c. channel_step\<^sup>*\<^sup>* (new_channel 3) c \<and> \<not> ch_failed c \<and> length (unsent c) = 5 \<and>
     n \<le> length (ch_outbox c)"
proof -
  obtain c where "channel_step\<^sup>*\<^sup>* (new_channel 3) c" "\<not> ch_failed c"
    "ch_out_pos c + 5 = length (ch_outbox c)" "length (ch_outbox c) = 5 * Suc n"
    using outbox_grows by blast
  then show ?thesis by (intro exI [of _ c]) (simp add: unsent_def)
qed

end
