(* ===== verification/Zen_Sandbox.thy ===== *)
theory Zen_Sandbox
  imports Zen_Grant
begin

text \<open>
  What the host can impose on a child process, and how: \<open>include/zen/isolation/sandbox.hpp\<close>,
  \<open>src/isolation/sandbox.cpp\<close> and the view-plan builder of \<open>src/isolation/host.cpp\<close>.

  \<^item> A mount plan is the list of steps the parent computes; the flag words of \<open>mount(2)\<close> are kept as
    lists of the flags that are or-ed together.
  \<^item> The operating system is a parameter: a record of the calls the code makes, over an abstract world
    \<open>'w\<close>. Nothing is assumed about it.
\<close>

section \<open>Capabilities and the enforcement report\<close>

datatype capability = Cap_Network | Cap_Filesystem | Cap_Resources

fun capability_name :: "capability \<Rightarrow> string" where
  "capability_name Cap_Network = ''Network''"
| "capability_name Cap_Filesystem = ''Filesystem''"
| "capability_name Cap_Resources = ''Resources''"

record capability_status =
  cs_capability :: capability
  cs_enforceable :: bool
  cs_mechanism :: string
  cs_detail :: string

type_synonym enforcement_report = "capability_status list"

fun report_find :: "enforcement_report \<Rightarrow> capability \<Rightarrow> capability_status option" where
  "report_find [] c = None"
| "report_find (s # ss) c = (if cs_capability s = c then Some s else report_find ss c)"

definition enforceable :: "enforcement_report \<Rightarrow> capability \<Rightarrow> bool" where
  "enforceable r c = (case report_find r c of None \<Rightarrow> False | Some s \<Rightarrow> cs_enforceable s)"

section \<open>Mount plans\<close>

datatype mount_flag = MS_BIND | MS_REC | MS_REMOUNT | MS_RDONLY | MS_NOEXEC | MS_PRIVATE | MNT_DETACH

datatype mount_kind =
  MakeRPrivate | Mkdir | Mount | RemountRO | SetattrRecRO | PivotRoot | Chdir | Umount

record mount_op =
  mo_kind :: mount_kind
  mo_a :: string
  mo_b :: string
  mo_fstype :: string
  mo_flags :: "mount_flag list"

type_synonym mount_plan = "mount_op list"

definition mk_op :: "mount_kind \<Rightarrow> string \<Rightarrow> string \<Rightarrow> string \<Rightarrow> mount_flag list \<Rightarrow> mount_op" where
  "mk_op k a b fstype flags = \<lparr>mo_kind = k, mo_a = a, mo_b = b, mo_fstype = fstype, mo_flags = flags\<rparr>"

definition find_last_of :: "char \<Rightarrow> string \<Rightarrow> nat option" where
  "find_last_of c s =
     (let k = length (takeWhile (\<lambda>x. x \<noteq> c) (rev s)) in
      if k = length s then None else Some (length s - 1 - k))"

definition dirname_of :: "string \<Rightarrow> string" where
  "dirname_of path =
     (case find_last_of (CHR ''/'') path of
        None \<Rightarrow> ''.''
      | Some pos \<Rightarrow> if pos = 0 then ''/'' else take pos path)"

definition mkdir_p_ops :: "mount_plan \<Rightarrow> string \<Rightarrow> string \<Rightarrow> mount_plan" where
  "mkdir_p_ops p root abs_path =
     fold (\<lambda>i p. if i = length abs_path \<or> abs_path ! i = CHR ''/''
                 then p @ [mk_op Mkdir (root @ take i abs_path) [] [] []] else p)
       [1..<Suc (length abs_path)] p"

definition bind_ro_ops :: "mount_plan \<Rightarrow> string \<Rightarrow> string \<Rightarrow> mount_plan" where
  "bind_ro_ops p root src =
     mkdir_p_ops p root src @
       [mk_op Mount src (root @ src) [] [MS_BIND, MS_REC], mk_op SetattrRecRO [] (root @ src) [] []]"

definition loader_dirs :: "string list" where
  "loader_dirs = [''/usr'', ''/lib'', ''/lib64'', ''/bin'', ''/etc'']"

definition so_under_exe :: "string \<Rightarrow> string \<Rightarrow> bool" where
  "so_under_exe so_dir exe_dir \<longleftrightarrow>
     so_dir = exe_dir \<or> take (length exe_dir + 1) so_dir = exe_dir @ ''/''"

text \<open>\<open>is_dir\<close> is the answer of \<open>::stat\<close> for a loader directory.\<close>

definition build_view_plan ::
  "(string \<Rightarrow> bool) \<Rightarrow> fs_access \<Rightarrow> string \<Rightarrow> string \<Rightarrow> string \<Rightarrow> string \<Rightarrow> mount_plan" where
  "build_view_plan is_dir level scoped_path exe_path so_path root =
     (let p1 = [mk_op MakeRPrivate [] [] [] [],
                mk_op Mount ''tmpfs'' root ''tmpfs'' [],
                mk_op Mkdir (root @ ''/oldroot'') [] [] []];
          p2 = fold (\<lambda>d p. if is_dir d then bind_ro_ops p root d else p) loader_dirs p1;
          exe_dir = dirname_of exe_path;
          p3 = bind_ro_ops p2 root exe_dir;
          so_dir = dirname_of so_path;
          p4 = (if so_dir \<noteq> [] \<and> \<not> so_under_exe so_dir exe_dir then bind_ro_ops p3 root so_dir else p3);
          p5 = (if level = Fs_ReadOnly \<and> scoped_path \<noteq> [] then bind_ro_ops p4 root scoped_path else p4);
          p6 = (if level = Fs_WriteScoped \<or> level = Fs_WriteNoExec
                then p5 @ [mk_op Mkdir (root @ ''/scratch'') [] [] [],
                           mk_op Mount ''tmpfs'' (root @ ''/scratch'') ''tmpfs''
                             (if level = Fs_WriteNoExec then [MS_NOEXEC] else [])]
                else p5)
      in p6 @
         [mk_op Mount root root [] [MS_REMOUNT, MS_RDONLY],
          mk_op PivotRoot root (root @ ''/oldroot'') [] [],
          mk_op Chdir ''/'' [] [] [],
          mk_op Umount ''/oldroot'' [] [] [MNT_DETACH]])"

definition build_probe_plan :: "string \<Rightarrow> mount_plan" where
  "build_probe_plan root =
     [mk_op MakeRPrivate [] [] [] [],
      mk_op Mount ''tmpfs'' root ''tmpfs'' [],
      mk_op Mkdir (root @ ''/usr'') [] [] [],
      mk_op Mkdir (root @ ''/oldroot'') [] [] [],
      mk_op Mount ''/usr'' (root @ ''/usr'') [] [MS_BIND, MS_REC],
      mk_op RemountRO [] (root @ ''/usr'') [] [],
      mk_op PivotRoot root (root @ ''/oldroot'') [] [],
      mk_op Chdir ''/'' [] [] [],
      mk_op Umount ''/oldroot'' [] [] [MNT_DETACH]]"

section \<open>The operating system\<close>

datatype errno = EEXIST | EOTHER

datatype sys_call =
    Sys_mount "string option" string "string option" "mount_flag list"
  | Sys_mkdir string nat
  | Sys_open_path string
  | Sys_mount_setattr_rdonly int
  | Sys_close int
  | Sys_pivot_root string string
  | Sys_chdir string
  | Sys_umount2 string "mount_flag list"
  | Sys_unshare bool bool bool
  | Sys_rmdir string

datatype sys_ret = Ret int | Fail errno

text \<open>The calls the code makes: system calls, whole-file reads (an unreadable file is empty) and
  writes, \<open>stat\<close> (the device and the inode of what a path names), and the question whether
  \<open>/sys/fs/cgroup\<close> is a cgroup-v2 mount.\<close>

record 'w os =
  os_sys :: "sys_call \<Rightarrow> 'w \<Rightarrow> sys_ret \<times> 'w"
  os_read_text :: "string \<Rightarrow> 'w \<Rightarrow> string"
  os_write_text :: "string \<Rightarrow> string \<Rightarrow> 'w \<Rightarrow> bool \<times> 'w"
  os_stat :: "string \<Rightarrow> 'w \<Rightarrow> (nat \<times> nat) option"
  os_cgroup2_mounted :: "'w \<Rightarrow> bool"

definition sys_ok :: "sys_ret \<Rightarrow> bool" where
  "sys_ok r = (case r of Ret n \<Rightarrow> n = 0 | Fail _ \<Rightarrow> False)"

definition opt_str :: "string \<Rightarrow> string option" where
  "opt_str s = (if s = [] then None else Some s)"

fun run_mount_op :: "'w os \<Rightarrow> mount_op \<Rightarrow> 'w \<Rightarrow> bool \<times> 'w" where
  "run_mount_op os op w =
     (case mo_kind op of
        MakeRPrivate \<Rightarrow> apfst sys_ok (os_sys os (Sys_mount None ''/'' None [MS_REC, MS_PRIVATE]) w)
      | Mkdir \<Rightarrow>
          (case os_sys os (Sys_mkdir (mo_a op) 493) w of
             (Fail EEXIST, w') \<Rightarrow> (True, w')
           | (r, w') \<Rightarrow> (sys_ok r, w'))
      | Mount \<Rightarrow>
          apfst sys_ok (os_sys os (Sys_mount (Some (mo_a op)) (mo_b op) (opt_str (mo_fstype op)) (mo_flags op)) w)
      | RemountRO \<Rightarrow>
          apfst sys_ok (os_sys os (Sys_mount None (mo_b op) None [MS_REMOUNT, MS_BIND, MS_RDONLY]) w)
      | SetattrRecRO \<Rightarrow>
          (case os_sys os (Sys_open_path (mo_b op)) w of
             (Fail _, w1) \<Rightarrow> (False, w1)
           | (Ret fd, w1) \<Rightarrow>
               if fd < 0 then (False, w1)
               else
                 (case os_sys os (Sys_mount_setattr_rdonly fd) w1 of
                    (r, w2) \<Rightarrow> (sys_ok r, snd (os_sys os (Sys_close fd) w2))))
      | PivotRoot \<Rightarrow> apfst sys_ok (os_sys os (Sys_pivot_root (mo_a op) (mo_b op)) w)
      | Chdir \<Rightarrow> apfst sys_ok (os_sys os (Sys_chdir (mo_a op)) w)
      | Umount \<Rightarrow> apfst sys_ok (os_sys os (Sys_umount2 (mo_a op) (mo_flags op)) w))"

fun run_mount_plan :: "'w os \<Rightarrow> mount_plan \<Rightarrow> 'w \<Rightarrow> bool \<times> 'w" where
  "run_mount_plan os [] w = (True, w)"
| "run_mount_plan os (op # plan) w =
     (case run_mount_op os op w of
        (False, w') \<Rightarrow> (False, w')
      | (True, w') \<Rightarrow> run_mount_plan os plan w')"

definition unshare_isolation :: "'w os \<Rightarrow> bool \<Rightarrow> bool \<Rightarrow> 'w \<Rightarrow> bool \<times> 'w" where
  "unshare_isolation os network filesystem w =
     apfst sys_ok (os_sys os (Sys_unshare True network filesystem) w)"

definition write_proc :: "'w os \<Rightarrow> string \<Rightarrow> string \<Rightarrow> 'w \<Rightarrow> bool \<times> 'w" where
  "write_proc os path data w = os_write_text os path data w"

text \<open>The digits of \<open>v\<close>, least significant first, as the loop collects them.\<close>

function uint_digits :: "nat \<Rightarrow> string \<Rightarrow> string" where
  "uint_digits v tmp = (if v > 0 then uint_digits (v div 10) (tmp @ [digit_char (v mod 10)]) else tmp)"
  by pat_completeness auto
termination by (relation "measure fst") auto

declare uint_digits.simps [simp del]

definition write_uint :: "nat \<Rightarrow> string" where
  "write_uint v = rev (uint_digits v (if v = 0 then ''0'' else []))"

definition write_single_map :: "'w os \<Rightarrow> string \<Rightarrow> nat \<Rightarrow> 'w \<Rightarrow> bool \<times> 'w" where
  "write_single_map os path i w = write_proc os path (''0 '' @ write_uint i @ '' 1'' @ [CHR 10]) w"

definition write_isolation_id_maps ::
  "'w os \<Rightarrow> nat \<Rightarrow> nat \<Rightarrow> nat \<Rightarrow> 'w \<Rightarrow> bool \<times> 'w" where
  "write_isolation_id_maps os uid gid child w =
     (let dir = ''/proc/'' @ to_string child;
          w1 = snd (write_proc os (dir @ ''/setgroups'') ''deny'' w)
      in case write_single_map os (dir @ ''/uid_map'') uid w1 of
           (False, w2) \<Rightarrow> (False, w2)
         | (True, w2) \<Rightarrow> write_single_map os (dir @ ''/gid_map'') gid w2)"

text \<open>Whether the child's namespace is another than the host's; not being able to compare counts as the same.\<close>

definition ns_distinct :: "'w os \<Rightarrow> nat \<Rightarrow> string \<Rightarrow> 'w \<Rightarrow> bool" where
  "ns_distinct os child kind w =
     (case (os_stat os (''/proc/self/ns/'' @ kind) w, os_stat os (''/proc/'' @ to_string child @ ''/ns/'' @ kind) w) of
        (Some (self_dev, self_ino), Some (child_dev, child_ino)) \<Rightarrow> \<not> (self_dev = child_dev \<and> self_ino = child_ino)
      | _ \<Rightarrow> False)"

definition child_netns_is_isolated :: "'w os \<Rightarrow> nat \<Rightarrow> 'w \<Rightarrow> bool" where
  "child_netns_is_isolated os child w = ns_distinct os child ''net'' w"

definition child_mountns_is_isolated :: "'w os \<Rightarrow> nat \<Rightarrow> 'w \<Rightarrow> bool" where
  "child_mountns_is_isolated os child w = ns_distinct os child ''mnt'' w"

section \<open>Control groups\<close>

record resource_caps =
  memory_max :: int
  pids_max :: int
  cpu_share :: int

definition is_space :: "char \<Rightarrow> bool" where
  "is_space c \<longleftrightarrow> c \<in> {CHR '' '', CHR 9, CHR 10, CHR 11, CHR 12, CHR 13}"

definition ascii_digit :: "char \<Rightarrow> bool" where
  "ascii_digit c \<longleftrightarrow> 48 \<le> (of_char c :: nat) \<and> (of_char c :: nat) \<le> 57"

text \<open>\<open>std::stoll\<close>; a throw is turned into \<open>-2\<close>.\<close>

definition parse_ll :: "string \<Rightarrow> int" where
  "parse_ll s =
     (let s1 = dropWhile is_space s;
          neg = (case s1 of c # _ \<Rightarrow> c = CHR ''-'' | [] \<Rightarrow> False);
          signed = (case s1 of c # _ \<Rightarrow> c = CHR ''-'' \<or> c = CHR ''+'' | [] \<Rightarrow> False);
          ds = takeWhile ascii_digit (if signed then tl s1 else s1);
          n = fold (\<lambda>c v. 10 * v + (int (of_char c) - 48)) ds 0;
          v = (if neg then - n else n)
      in if ds = [] \<or> v < - (2 ^ 63) \<or> v \<ge> 2 ^ 63 then -2 else v)"

text \<open>\<open>while (ss >> t)\<close>.\<close>

function has_token :: "string \<Rightarrow> string \<Rightarrow> bool" where
  "has_token s tok =
     (let s1 = dropWhile is_space s in
      if s1 = [] then False
      else if takeWhile (\<lambda>c. \<not> is_space c) s1 = tok then True
      else has_token (dropWhile (\<lambda>c. \<not> is_space c) s1) tok)"
  by pat_completeness auto
termination
proof (relation "measure (\<lambda>(s, tok). length s)", goal_cases)
  case (2 s tok s1)
  then obtain c r where s1: "s1 = c # r" by (metis neq_Nil_conv)
  then have "\<not> is_space c" using 2 by (metis hd_dropWhile list.discI list.sel(1))
  then have "length (dropWhile (\<lambda>c. \<not> is_space c) s1) \<le> length r"
    by (simp add: s1 length_dropWhile_le)
  also have "length r < length s1" by (simp add: s1)
  also have "length s1 \<le> length s" using 2 by (simp add: length_dropWhile_le)
  finally show ?case by simp
qed simp

declare has_token.simps [simp del]

text \<open>\<open>while (std::getline(f, line))\<close>.\<close>

function get_lines :: "string \<Rightarrow> string list" where
  "get_lines s =
     (if s = [] then []
      else takeWhile (\<lambda>c. c \<noteq> CHR 10) s # get_lines (drop 1 (dropWhile (\<lambda>c. c \<noteq> CHR 10) s)))"
  by pat_completeness auto
termination
proof (relation "measure length", goal_cases)
  case (2 s)
  then show ?case using length_dropWhile_le [of "\<lambda>c. c \<noteq> CHR 10" s] by (cases s) auto
qed simp

declare get_lines.simps [simp del]

fun first_v2_line :: "string list \<Rightarrow> string" where
  "first_v2_line [] = []"
| "first_v2_line (l # ls) = (if take 3 l = ''0::'' then drop 3 l else first_v2_line ls)"

definition self_cgroup_v2_rel :: "'w os \<Rightarrow> 'w \<Rightarrow> string" where
  "self_cgroup_v2_rel os w = first_v2_line (get_lines (os_read_text os ''/proc/self/cgroup'' w))"

definition drain_procs :: "'w os \<Rightarrow> string \<Rightarrow> string \<Rightarrow> 'w \<Rightarrow> 'w" where
  "drain_procs os from_path to_path w =
     fold (\<lambda>p w. snd (os_write_text os to_path p w))
       (filter (\<lambda>l. l \<noteq> []) (get_lines (os_read_text os from_path w))) w"

text \<open>\<open>f >> key >> val >> unit\<close>: a token, a decimal number (its end need not be the end of a token) and a
  token; \<open>None\<close> when one of them cannot be read.\<close>

definition read_token :: "string \<Rightarrow> (string \<times> string) option" where
  "read_token s =
     (let s1 = dropWhile is_space s in
      if s1 = [] then None else Some (takeWhile (\<lambda>c. \<not> is_space c) s1, dropWhile (\<lambda>c. \<not> is_space c) s1))"

definition read_ll :: "string \<Rightarrow> (int \<times> string) option" where
  "read_ll s =
     (let s1 = dropWhile is_space s;
          neg = (case s1 of c # _ \<Rightarrow> c = CHR ''-'' | [] \<Rightarrow> False);
          signed = (case s1 of c # _ \<Rightarrow> c = CHR ''-'' \<or> c = CHR ''+'' | [] \<Rightarrow> False);
          s2 = (if signed then tl s1 else s1);
          ds = takeWhile ascii_digit s2;
          n = fold (\<lambda>c v. 10 * v + (int (of_char c) - 48)) ds 0;
          v = (if neg then - n else n)
      in if ds = [] \<or> v < - (2 ^ 63) \<or> v \<ge> 2 ^ 63 then None else Some (v, dropWhile ascii_digit s2))"

definition read_meminfo_entry :: "string \<Rightarrow> ((string \<times> int) \<times> string) option" where
  "read_meminfo_entry s =
     Option.bind (read_token s) (\<lambda>(key, r1).
     Option.bind (read_ll r1) (\<lambda>(val, r2).
     Option.bind (read_token r2) (\<lambda>(unit, r3). Some ((key, val), r3))))"

lemma read_token_shorter: "read_token s = Some (t, r) \<Longrightarrow> length r < length s"
proof -
  assume read: "read_token s = Some (t, r)"
  then obtain c u where s1: "dropWhile is_space s = c # u"
    by (cases "dropWhile is_space s") (auto simp: read_token_def)
  then have "\<not> is_space c" by (metis hd_dropWhile list.discI list.sel(1))
  then have "r = dropWhile (\<lambda>c. \<not> is_space c) u" using read s1 by (simp add: read_token_def)
  then have "length r \<le> length u" by (simp add: length_dropWhile_le)
  also have "length u < length s" using length_dropWhile_le [of is_space s] by (simp add: s1)
  finally show ?thesis .
qed

lemma read_ll_shorter: "read_ll s = Some (v, r) \<Longrightarrow> length r \<le> length s"
  using length_dropWhile_le [of is_space s] length_dropWhile_le [of ascii_digit "dropWhile is_space s"]
    length_dropWhile_le [of ascii_digit "tl (dropWhile is_space s)"]
  by (auto simp: read_ll_def Let_def split: if_splits)

lemma read_meminfo_entry_shorter: "read_meminfo_entry s = Some (kv, r) \<Longrightarrow> length r < length s"
  by (auto simp: read_meminfo_entry_def bind_eq_Some_conv dest!: read_token_shorter read_ll_shorter)

text \<open>The \<open>MemTotal\<close> figure of \<open>/proc/meminfo\<close> in bytes, zero when it is not found. The multiplication is on
  mathematical integers: the figure is of the kernel's making and far from overflow.\<close>

function mem_total :: "string \<Rightarrow> int" where
  "mem_total s =
     (case read_meminfo_entry s of
        None \<Rightarrow> 0
      | Some ((key, val), r) \<Rightarrow> if key = ''MemTotal:'' then val * 1024 else mem_total r)"
  by pat_completeness auto
termination by (relation "measure length") (auto dest: read_meminfo_entry_shorter)

declare mem_total.simps [simp del]

lemma mem_total_Nil [simp]: "mem_total [] = 0"
  by (simp add: mem_total.simps [of "[]"] read_meminfo_entry_def read_token_def)

text \<open>The argument is what \<open>/proc/meminfo\<close> holds.\<close>

definition cgroup_default_caps :: "string \<Rightarrow> resource_caps" where
  "cgroup_default_caps meminfo =
     (let ram = mem_total meminfo;
          mem = (if ram > 0 then ram div 8 else 512 * 1024 * 1024);
          ceiling = 1024 * 1024 * 1024;
          floor = 128 * 1024 * 1024
      in \<lparr>memory_max = (if mem > ceiling then ceiling else if mem < floor then floor else mem),
          pids_max = 512, cpu_share = 100\<rparr>)"

text \<open>The process-wide result of \<open>cgroup_base()\<close>: the base path (empty: not enforceable) and which
  controllers the leaves have.\<close>

record cgroups =
  cg_base :: string
  cg_memory :: bool
  cg_pids :: bool
  cg_cpu :: bool

definition no_cgroups :: cgroups where
  "no_cgroups = \<lparr>cg_base = [], cg_memory = False, cg_pids = False, cg_cpu = False\<rparr>"

definition wanted_controllers :: "string \<Rightarrow> string" where
  "wanted_controllers ctrls =
     (if has_token ctrls ''memory'' then ''+memory '' else []) @
     (if has_token ctrls ''pids'' then ''+pids '' else []) @
     (if has_token ctrls ''cpu'' then ''+cpu'' else [])"

definition cgroup_base :: "'w os \<Rightarrow> 'w \<Rightarrow> cgroups \<times> 'w" where
  "cgroup_base os w =
     (let rel = self_cgroup_v2_rel os w in
      if \<not> os_cgroup2_mounted os w \<or> rel = [] then (no_cgroups, w)
      else
        let b = ''/sys/fs/cgroup'' @ (if rel = ''/'' then [] else rel);
            sup = b @ ''/zen-supervisor''
        in case os_sys os (Sys_mkdir sup 493) w of
             (r, w1) \<Rightarrow>
               if \<not> sys_ok r \<and> r \<noteq> Fail EEXIST then (no_cgroups, w1)
               else
                 let w2 = drain_procs os (b @ ''/cgroup.procs'') (sup @ ''/cgroup.procs'') w1;
                     want = wanted_controllers (os_read_text os (b @ ''/cgroup.controllers'') w2);
                     (written, w3) =
                       (if want = [] then (False, w2)
                        else os_write_text os (b @ ''/cgroup.subtree_control'') want w2)
                 in if \<not> written then (no_cgroups, snd (os_sys os (Sys_rmdir sup) w3))
                    else
                      let enabled = os_read_text os (b @ ''/cgroup.subtree_control'') w3
                      in (\<lparr>cg_base = b, cg_memory = has_token enabled ''memory'',
                           cg_pids = has_token enabled ''pids'', cg_cpu = has_token enabled ''cpu''\<rparr>, w3))"

text \<open>One limit file, written only when its controller is on and the cap is set; a failed write ends
  the function.\<close>

definition write_limit :: "'w os \<Rightarrow> bool \<Rightarrow> string \<Rightarrow> int \<Rightarrow> 'w \<Rightarrow> bool \<times> 'w" where
  "write_limit os on path v w = (if on then os_write_text os path (ll_to_string v) w else (True, w))"

definition cgroup_create_leaf :: "'w os \<Rightarrow> cgroups \<Rightarrow> string \<Rightarrow> resource_caps \<Rightarrow> 'w \<Rightarrow> bool \<times> 'w" where
  "cgroup_create_leaf os cg name caps w =
     (if cg_base cg = [] then (False, w)
      else
        let leaf = cg_base cg @ ''/'' @ name in
        case os_sys os (Sys_mkdir leaf 493) w of
          (r, w1) \<Rightarrow>
            if \<not> sys_ok r \<and> r \<noteq> Fail EEXIST then (False, w1)
            else
              let mem = cg_memory cg \<and> memory_max caps \<ge> 0 in
              case write_limit os mem (leaf @ ''/memory.max'') (memory_max caps) w1 of
                (False, w2) \<Rightarrow> (False, w2)
              | (True, w2) \<Rightarrow>
                  let w3 = (if mem then snd (os_write_text os (leaf @ ''/memory.swap.max'') ''0'' w2) else w2) in
                  case write_limit os (cg_pids cg \<and> pids_max caps \<ge> 0) (leaf @ ''/pids.max'') (pids_max caps) w3 of
                    (False, w4) \<Rightarrow> (False, w4)
                  | (True, w4) \<Rightarrow>
                      write_limit os (cg_cpu cg \<and> cpu_share caps > 0) (leaf @ ''/cpu.weight'') (cpu_share caps) w4)"

definition cgroup_move_pid :: "'w os \<Rightarrow> cgroups \<Rightarrow> string \<Rightarrow> nat \<Rightarrow> 'w \<Rightarrow> bool \<times> 'w" where
  "cgroup_move_pid os cg name pid w =
     (if cg_base cg = [] then (False, w)
      else os_write_text os (cg_base cg @ ''/'' @ name @ ''/cgroup.procs'') (to_string pid) w)"

text \<open>\<open>s.find(sub) != npos\<close>.\<close>

fun str_contains :: "string \<Rightarrow> string \<Rightarrow> bool" where
  "str_contains [] sub = (sub = [])"
| "str_contains (c # s) sub = (take (length sub) (c # s) = sub \<or> str_contains s sub)"

definition cgroup_confirm :: "'w os \<Rightarrow> cgroups \<Rightarrow> string \<Rightarrow> nat \<Rightarrow> resource_caps \<Rightarrow> 'w \<Rightarrow> bool" where
  "cgroup_confirm os cg name pid caps w =
     (if cg_base cg = [] then False
      else
        let leaf = cg_base cg @ ''/'' @ name;
            pc = os_read_text os (''/proc/'' @ to_string pid @ ''/cgroup'') w
        in if \<not> str_contains pc (''/'' @ name) then False
           else if cg_memory cg \<and> memory_max caps \<ge> 0 \<and>
                   parse_ll (os_read_text os (leaf @ ''/memory.max'') w) \<noteq> memory_max caps then False
           else if cg_pids cg \<and> pids_max caps \<ge> 0 \<and>
                   parse_ll (os_read_text os (leaf @ ''/pids.max'') w) \<noteq> pids_max caps then False
           else if cg_cpu cg \<and> cpu_share caps > 0 \<and>
                   parse_ll (os_read_text os (leaf @ ''/cpu.weight'') w) \<noteq> cpu_share caps then False
           else True)"

definition cgroup_remove_leaf :: "'w os \<Rightarrow> cgroups \<Rightarrow> string \<Rightarrow> 'w \<Rightarrow> 'w" where
  "cgroup_remove_leaf os cg name w =
     (if cg_base cg \<noteq> [] then snd (os_sys os (Sys_rmdir (cg_base cg @ ''/'' @ name)) w) else w)"

definition cgroup_memory_available :: "'w os \<Rightarrow> 'w \<Rightarrow> bool" where
  "cgroup_memory_available os w = cg_memory (fst (cgroup_base os w))"

definition cgroup_pids_available :: "'w os \<Rightarrow> 'w \<Rightarrow> bool" where
  "cgroup_pids_available os w = cg_pids (fst (cgroup_base os w))"

definition cgroup_cpu_available :: "'w os \<Rightarrow> 'w \<Rightarrow> bool" where
  "cgroup_cpu_available os w = cg_cpu (fst (cgroup_base os w))"

section \<open>Detection\<close>

text \<open>
  A probe forks a throwaway child that enters the namespaces and, once mapped by the parent, runs a
  plan. Whether the pipes and the fork succeeded is the environment's; the child's calls run in its
  own world \<open>wc\<close>, the parent's in \<open>wp\<close>.
\<close>

definition probe_isolation ::
  "'w os \<Rightarrow> bool \<Rightarrow> nat option \<Rightarrow> nat \<Rightarrow> nat \<Rightarrow> bool \<Rightarrow> bool \<Rightarrow> mount_plan option \<Rightarrow> 'w \<Rightarrow> 'w \<Rightarrow> bool" where
  "probe_isolation os pipes forked uid gid network filesystem plan wc wp =
     (if \<not> pipes then False
      else
        case forked of
          None \<Rightarrow> False
        | Some pid \<Rightarrow>
            (case unshare_isolation os network filesystem wc of
               (False, _) \<Rightarrow> False
             | (True, wc1) \<Rightarrow>
                 if \<not> fst (write_isolation_id_maps os uid gid pid wp) then False
                 else
                   (case plan of
                      None \<Rightarrow> True
                    | Some p \<Rightarrow> if filesystem then fst (run_mount_plan os p wc1) else True)))"

definition status :: "capability \<Rightarrow> bool \<Rightarrow> string \<Rightarrow> string \<Rightarrow> capability_status" where
  "status c on mechanism detail =
     \<lparr>cs_capability = c, cs_enforceable = on, cs_mechanism = mechanism, cs_detail = detail\<rparr>"

text \<open>The arguments are the outcome of the network probe, the probe root \<open>mkdtemp\<close> made, the
  filesystem probe, and the control groups.\<close>

definition detect_enforcement ::
  "bool \<Rightarrow> string option \<Rightarrow> (mount_plan \<Rightarrow> bool) \<Rightarrow> cgroups \<Rightarrow> enforcement_report" where
  "detect_enforcement net_probe fs_root fs_probe cg =
     [if net_probe then status Cap_Network True ''user+net namespace (no interface)'' []
      else status Cap_Network False [] ''unprivileged user+net namespace unavailable on this host'',
      case fs_root of
        None \<Rightarrow> status Cap_Filesystem False [] ''filesystem probe could not create a root''
      | Some root \<Rightarrow>
          if fs_probe (build_probe_plan root)
          then status Cap_Filesystem True ''user+mount namespace (pivot_root allow-list)'' []
          else status Cap_Filesystem False [] ''unprivileged mount-namespace view unavailable on this host'',
      if cg_base cg \<noteq> [] \<and> (cg_memory cg \<or> cg_pids cg)
      then status Cap_Resources True
             (''cgroup-v2 leaf ('' @ (if cg_memory cg then ''memory '' else []) @
              (if cg_pids cg then ''pids '' else []) @ (if cg_cpu cg then ''cpu'' else []) @ '')'') []
      else status Cap_Resources False []
             ''no cgroup-v2 delegated subtree (run the host under a delegated scope)'']"

section \<open>What the plan builder emits\<close>

definition is_bind :: "mount_op \<Rightarrow> bool" where
  "is_bind op \<longleftrightarrow> mo_kind op = Mount \<and> MS_BIND \<in> set (mo_flags op)"

text \<open>The host directories that may appear in the view of a shard.\<close>

definition view_sources :: "(string \<Rightarrow> bool) \<Rightarrow> fs_access \<Rightarrow> string \<Rightarrow> string \<Rightarrow> string \<Rightarrow> string set" where
  "view_sources is_dir level scoped_path exe_path so_path =
     {d \<in> set loader_dirs. is_dir d} \<union> {dirname_of exe_path, dirname_of so_path} \<union>
     (if level = Fs_ReadOnly then {scoped_path} else {})"

text \<open>A stretch of a plan that only makes directories under the root and binds allowed sources, each
  made read-only before anything else happens.\<close>

inductive view_part :: "string \<Rightarrow> string set \<Rightarrow> mount_plan \<Rightarrow> bool" for root S where
  vp_Nil: "view_part root S []"
| vp_mkdir: "view_part root S p \<Longrightarrow> view_part root S (mk_op Mkdir (root @ d) [] [] [] # p)"
| vp_bind: "view_part root S p \<Longrightarrow> src \<in> S \<Longrightarrow>
    view_part root S (mk_op Mount src (root @ src) [] [MS_BIND, MS_REC] #
      mk_op SetattrRecRO [] (root @ src) [] [] # p)"

lemma view_part_append: "view_part root S p \<Longrightarrow> view_part root S q \<Longrightarrow> view_part root S (p @ q)"
  by (induction rule: view_part.induct) (auto intro: view_part.intros)

lemma view_part_mono: "view_part root S p \<Longrightarrow> S \<subseteq> T \<Longrightarrow> view_part root T p"
  by (induction rule: view_part.induct) (auto intro: view_part.intros)

lemma fold_append_ops: "fold (\<lambda>x p. if P x then p @ f x else p) xs p = p @ concat (map f (filter P xs))"
  by (induction xs arbitrary: p) auto

lemma mkdir_p_ops_eq:
  "mkdir_p_ops p root a =
     p @ map (\<lambda>i. mk_op Mkdir (root @ take i a) [] [] [])
       (filter (\<lambda>i. i = length a \<or> a ! i = CHR ''/'') [1..<Suc (length a)])"
  unfolding mkdir_p_ops_def fold_append_ops by simp

definition bind_part :: "string \<Rightarrow> string \<Rightarrow> mount_plan" where
  "bind_part root src = bind_ro_ops [] root src"

lemma bind_ro_ops_eq: "bind_ro_ops p root src = p @ bind_part root src"
  by (simp add: bind_part_def bind_ro_ops_def mkdir_p_ops_eq)

lemma view_part_mkdirs: "view_part root S (map (\<lambda>i. mk_op Mkdir (root @ f i) [] [] []) is)"
  by (induction "is") (auto intro: view_part.intros)

lemma bind_part_view: "view_part root {src} (bind_part root src)"
  unfolding bind_part_def bind_ro_ops_def mkdir_p_ops_eq append_Nil
  by (intro view_part_append view_part_mkdirs vp_bind vp_Nil) simp

lemma bind_parts_view: "view_part root (set ds) (concat (map (bind_part root) ds))"
  by (induction ds) (auto intro: view_part.intros view_part_append view_part_mono [OF bind_part_view]
      elim: view_part_mono)

definition scratch_part :: "fs_access \<Rightarrow> string \<Rightarrow> mount_plan" where
  "scratch_part level root =
     (if level = Fs_WriteScoped \<or> level = Fs_WriteNoExec
      then [mk_op Mkdir (root @ ''/scratch'') [] [] [],
            mk_op Mount ''tmpfs'' (root @ ''/scratch'') ''tmpfs''
              (if level = Fs_WriteNoExec then [MS_NOEXEC] else [])]
      else [])"

definition closing_part :: "string \<Rightarrow> mount_plan" where
  "closing_part root =
     [mk_op Mount root root [] [MS_REMOUNT, MS_RDONLY],
      mk_op PivotRoot root (root @ ''/oldroot'') [] [],
      mk_op Chdir ''/'' [] [] [],
      mk_op Umount ''/oldroot'' [] [] [MNT_DETACH]]"

definition bound_dirs :: "(string \<Rightarrow> bool) \<Rightarrow> fs_access \<Rightarrow> string \<Rightarrow> string \<Rightarrow> string \<Rightarrow> string list" where
  "bound_dirs is_dir level scoped exe so =
     filter is_dir loader_dirs @ [dirname_of exe] @
     (if dirname_of so \<noteq> [] \<and> \<not> so_under_exe (dirname_of so) (dirname_of exe) then [dirname_of so] else []) @
     (if level = Fs_ReadOnly \<and> scoped \<noteq> [] then [scoped] else [])"

lemma build_view_plan_eq:
  "build_view_plan is_dir level scoped exe so root =
     [mk_op MakeRPrivate [] [] [] [], mk_op Mount ''tmpfs'' root ''tmpfs'' []] @
     (mk_op Mkdir (root @ ''/oldroot'') [] [] [] #
      concat (map (bind_part root) (bound_dirs is_dir level scoped exe so))) @
     scratch_part level root @ closing_part root"
proof -
  have "fold (\<lambda>d p. if is_dir d then bind_ro_ops p root d else p) loader_dirs p =
      p @ concat (map (bind_part root) (filter is_dir loader_dirs))" for p
    unfolding bind_ro_ops_eq by (rule fold_append_ops)
  then show ?thesis
    by (auto simp: build_view_plan_def bind_ro_ops_eq bound_dirs_def scratch_part_def closing_part_def Let_def)
qed

lemma view_part_bound:
  "view_part root (view_sources is_dir level scoped exe so)
     (mk_op Mkdir (root @ ''/oldroot'') [] [] [] #
      concat (map (bind_part root) (bound_dirs is_dir level scoped exe so)))"
  by (intro vp_mkdir view_part_mono [OF bind_parts_view]) (auto simp: bound_dirs_def view_sources_def)

lemma mk_op_sel [simp]:
  "mo_kind (mk_op k a b t f) = k" "mo_a (mk_op k a b t f) = a" "mo_b (mk_op k a b t f) = b"
  "mo_fstype (mk_op k a b t f) = t" "mo_flags (mk_op k a b t f) = f"
  by (simp_all add: mk_op_def)

lemma view_part_nth:
  "view_part root S p \<Longrightarrow> i < length p \<Longrightarrow> is_bind (p ! i) \<Longrightarrow>
   mo_a (p ! i) \<in> S \<and> mo_b (p ! i) = root @ mo_a (p ! i) \<and> Suc i < length p \<and>
   p ! Suc i = mk_op SetattrRecRO [] (mo_b (p ! i)) [] []"
proof (induction arbitrary: i rule: view_part.induct)
  case (vp_mkdir p d)
  then show ?case by (cases i) (auto simp: is_bind_def)
next
  case (vp_bind p src)
  consider "i = 0" | "i = 1" | k where "i = Suc (Suc k)" by (metis One_nat_def not0_implies_Suc)
  then show ?case using vp_bind.prems vp_bind.hyps vp_bind.IH by cases (auto simp: is_bind_def)
qed simp

lemma view_part_kinds:
  "view_part root S p \<Longrightarrow> op \<in> set p \<Longrightarrow>
   mo_kind op \<in> {Mkdir, SetattrRecRO} \<or> is_bind op"
  by (induction rule: view_part.induct) (auto simp: is_bind_def)

lemma scratch_closing_not_bind: "op \<in> set (scratch_part level root @ closing_part root) \<Longrightarrow> \<not> is_bind op"
  by (auto simp: scratch_part_def closing_part_def is_bind_def split: if_splits)

lemma plan_binds_sealed:
  assumes plan: "plan = [mk_op MakeRPrivate [] [] [] [], mk_op Mount ''tmpfs'' root ''tmpfs'' []] @
      binds @ scratch_part level root @ closing_part root"
    and part: "view_part root S binds" and i: "i < length plan" and bind: "is_bind (plan ! i)"
  shows "mo_a (plan ! i) \<in> S \<and> mo_b (plan ! i) = root @ mo_a (plan ! i) \<and> Suc i < length plan \<and>
      plan ! Suc i = mk_op SetattrRecRO [] (mo_b (plan ! i)) [] []"
proof -
  define k where "k = i - 2"
  have "i \<noteq> 0" "i \<noteq> 1" using bind by (auto simp: plan is_bind_def intro: ccontr)
  then have ik: "i = Suc (Suc k)" by (simp add: k_def)
  have k: "k < length binds"
  proof (rule ccontr)
    assume "\<not> k < length binds"
    with i ik have "plan ! i = (scratch_part level root @ closing_part root) ! (k - length binds)"
      and "k - length binds < length (scratch_part level root @ closing_part root)"
      by (auto simp: plan nth_append)
    then have "plan ! i \<in> set (scratch_part level root @ closing_part root)" by (metis nth_mem)
    with bind scratch_closing_not_bind show False by blast
  qed
  then have at: "plan ! i = binds ! k" by (simp add: plan ik nth_append)
  note here = view_part_nth [OF part k bind [unfolded at]]
  then have "plan ! Suc i = binds ! Suc k" by (simp add: plan ik nth_append)
  with here at show ?thesis by (simp add: plan ik)
qed

lemma plan_other_mounts:
  assumes "view_part root S binds"
  shows "{op \<in> set ([mk_op MakeRPrivate [] [] [] [], mk_op Mount ''tmpfs'' root ''tmpfs'' []] @
      binds @ scratch_part level root @ closing_part root). mo_kind op = Mount \<and> \<not> is_bind op} =
      {mk_op Mount ''tmpfs'' root ''tmpfs'' [], mk_op Mount root root [] [MS_REMOUNT, MS_RDONLY]} \<union>
      (case level of
         Fs_WriteScoped \<Rightarrow> {mk_op Mount ''tmpfs'' (root @ ''/scratch'') ''tmpfs'' []}
       | Fs_WriteNoExec \<Rightarrow> {mk_op Mount ''tmpfs'' (root @ ''/scratch'') ''tmpfs'' [MS_NOEXEC]}
       | _ \<Rightarrow> {})"
proof -
  have "{op \<in> set binds. mo_kind op = Mount \<and> \<not> is_bind op} = {}"
    using view_part_kinds [OF assms] by fastforce
  then have none: "op \<in> set binds \<Longrightarrow> mo_kind op = Mount \<Longrightarrow> is_bind op" for op by blast
  show ?thesis
    by (cases level) (auto simp: scratch_part_def closing_part_def is_bind_def [of "mk_op _ _ _ _ _"] dest: none)
qed

text \<open>
  C16: The view a shard is confined to is an allow-list. The plan makes the mount tree private before
  anything else; every host directory it binds is one of the loader directories, the directory of the
  executable or of the library, or (at the read-only level alone) the granted path, and is made
  recursively read-only by the very next step; every other mount is the root, or the scratch area that
  exists exactly at the two write levels and is mounted noexec exactly at the write-no-exec level; and the
  root becomes read-only before the pivot, after which nothing is mounted or created.
\<close>

theorem view_plan_confines:
  fixes is_dir level scoped exe so root
  defines "plan \<equiv> build_view_plan is_dir level scoped exe so root"
  shows "hd plan = mk_op MakeRPrivate [] [] [] [] \<and>
    (\<forall>i < length plan. is_bind (plan ! i) \<longrightarrow>
       mo_a (plan ! i) \<in> view_sources is_dir level scoped exe so \<and>
       mo_b (plan ! i) = root @ mo_a (plan ! i) \<and>
       Suc i < length plan \<and> plan ! Suc i = mk_op SetattrRecRO [] (mo_b (plan ! i)) [] []) \<and>
    {op \<in> set plan. mo_kind op = Mount \<and> \<not> is_bind op} =
      {mk_op Mount ''tmpfs'' root ''tmpfs'' [], mk_op Mount root root [] [MS_REMOUNT, MS_RDONLY]} \<union>
      (case level of
         Fs_WriteScoped \<Rightarrow> {mk_op Mount ''tmpfs'' (root @ ''/scratch'') ''tmpfs'' []}
       | Fs_WriteNoExec \<Rightarrow> {mk_op Mount ''tmpfs'' (root @ ''/scratch'') ''tmpfs'' [MS_NOEXEC]}
       | _ \<Rightarrow> {}) \<and>
    (\<exists>early. plan = early @
       [mk_op Mount root root [] [MS_REMOUNT, MS_RDONLY], mk_op PivotRoot root (root @ ''/oldroot'') [] [],
        mk_op Chdir ''/'' [] [] [], mk_op Umount ''/oldroot'' [] [] [MNT_DETACH]] \<and>
       (\<forall>op \<in> set early. mo_kind op \<notin> {PivotRoot, Chdir, Umount}))"
proof -
  define S where "S = view_sources is_dir level scoped exe so"
  obtain binds where plan: "plan = [mk_op MakeRPrivate [] [] [] [], mk_op Mount ''tmpfs'' root ''tmpfs'' []] @
      binds @ scratch_part level root @ closing_part root" and part: "view_part root S binds"
    using build_view_plan_eq view_part_bound unfolding plan_def S_def by blast
  have "\<forall>op \<in> set binds. mo_kind op \<notin> {PivotRoot, Chdir, Umount}"
    using view_part_kinds [OF part] by (fastforce simp: is_bind_def)
  then have "\<exists>early. plan = early @ closing_part root \<and>
      (\<forall>op \<in> set early. mo_kind op \<notin> {PivotRoot, Chdir, Umount})"
    by (intro exI [of _ "[mk_op MakeRPrivate [] [] [] [], mk_op Mount ''tmpfs'' root ''tmpfs'' []] @ binds @
        scratch_part level root"]) (auto simp: plan scratch_part_def)
  moreover have "hd plan = mk_op MakeRPrivate [] [] [] []" by (simp add: plan)
  moreover have "{op \<in> set plan. mo_kind op = Mount \<and> \<not> is_bind op} =
      {mk_op Mount ''tmpfs'' root ''tmpfs'' [], mk_op Mount root root [] [MS_REMOUNT, MS_RDONLY]} \<union>
      (case level of
         Fs_WriteScoped \<Rightarrow> {mk_op Mount ''tmpfs'' (root @ ''/scratch'') ''tmpfs'' []}
       | Fs_WriteNoExec \<Rightarrow> {mk_op Mount ''tmpfs'' (root @ ''/scratch'') ''tmpfs'' [MS_NOEXEC]}
       | _ \<Rightarrow> {})"
    unfolding plan by (rule plan_other_mounts [OF part])
  ultimately show ?thesis
    using plan_binds_sealed [OF plan part] unfolding S_def closing_part_def by (intro conjI) simp_all
qed

definition demo_plan :: mount_plan where
  "demo_plan =
     build_view_plan (\<lambda>d. d = ''/usr'') Fs_WriteNoExec [] ''/opt/z/host'' ''/opt/z/a.so'' ''/tmp/r''"

theorem view_plan_confines_witness:
  "is_bind (demo_plan ! 4) \<and> mo_a (demo_plan ! 4) = ''/usr'' \<and>
   demo_plan ! 5 = mk_op SetattrRecRO [] ''/tmp/r/usr'' [] []"
proof -
  have "is_bind (demo_plan ! 4)" "4 < length demo_plan" "mo_a (demo_plan ! 4) = ''/usr''" by code_simp+
  then show ?thesis
    using view_plan_confines [of "\<lambda>d. d = ''/usr''" Fs_WriteNoExec "[]" "''/opt/z/host''" "''/opt/z/a.so''" "''/tmp/r''"]
    unfolding demo_plan_def [symmetric] by (elim conjE allE [of _ 4]) simp
qed

text \<open>The comments say nothing of the host home is bound; a library that lives there brings its whole
  directory along.\<close>

lemma home_library_is_bound:
  "mk_op Mount ''/home/u'' ''/tmp/r/home/u'' [] [MS_BIND, MS_REC] \<in>
     set (build_view_plan (\<lambda>_. True) Fs_None [] ''/opt/z/host'' ''/home/u/a.so'' ''/tmp/r'')"
  by code_simp

lemma root_executable_binds_everything:
  "mk_op Mount ''/'' ''/tmp/r/'' [] [MS_BIND, MS_REC] \<in>
     set (build_view_plan (\<lambda>_. True) Fs_None [] ''/host'' ''/lib/a.so'' ''/tmp/r'')"
  by code_simp

section \<open>Helpers of the control-group code\<close>

lemma uint_digits_to_string: "0 < v \<Longrightarrow> uint_digits v tmp = tmp @ rev (to_string v)"
proof (induction v arbitrary: tmp rule: less_induct)
  case (less v)
  show ?case
  proof (cases "v < 10")
    case True
    then show ?thesis using less.prems
      by (simp add: uint_digits.simps [of v] uint_digits.simps [of 0] to_string.simps [of v])
  next
    case False
    then show ?thesis using less.IH [of "v div 10"] less.prems
      by (simp add: uint_digits.simps [of v] to_string.simps [of v])
  qed
qed

lemma write_uint_eq: "write_uint v = to_string v"
proof (cases "v = 0")
  case True
  then show ?thesis by (simp add: write_uint_def uint_digits.simps to_string.simps digit_char_def char_of_def bit_Suc_0_iff)
next
  case False
  then show ?thesis by (simp add: write_uint_def uint_digits_to_string)
qed

lemma default_caps_bounds:
  "128 * 1024 * 1024 \<le> memory_max (cgroup_default_caps meminfo) \<and> memory_max (cgroup_default_caps meminfo) \<le> 1024 * 1024 * 1024"
  by (simp add: cgroup_default_caps_def Let_def)

text \<open>The scan of \<open>/proc/meminfo\<close> steps over entries before the total, and gives up at one it cannot read.\<close>

lemma mem_total_scan:
  "mem_total ''Foo: 1 kB MemTotal:  16318440 kB MemFree: 3 kB'' = 16318440 * 1024"
  "mem_total ''Foo: x kB MemTotal: 16318440 kB'' = 0"
proof -
  have "read_meminfo_entry ''Foo: 1 kB MemTotal:  16318440 kB MemFree: 3 kB'' =
      Some ((''Foo:'', 1), '' MemTotal:  16318440 kB MemFree: 3 kB'')"
    "read_meminfo_entry '' MemTotal:  16318440 kB MemFree: 3 kB'' = Some ((''MemTotal:'', 16318440), '' MemFree: 3 kB'')"
    "read_meminfo_entry ''Foo: x kB MemTotal: 16318440 kB'' = None"
    by code_simp+
  then show "mem_total ''Foo: 1 kB MemTotal:  16318440 kB MemFree: 3 kB'' = 16318440 * 1024"
    "mem_total ''Foo: x kB MemTotal: 16318440 kB'' = 0"
    by (simp_all add: mem_total.simps [of "''Foo: 1 kB MemTotal:  16318440 kB MemFree: 3 kB''"]
        mem_total.simps [of "'' MemTotal:  16318440 kB MemFree: 3 kB''"]
        mem_total.simps [of "''Foo: x kB MemTotal: 16318440 kB''"])
qed

text \<open>A controller is reported only where \<open>cgroup_base\<close> found a delegated subtree.\<close>

lemma cgroup_base_or_none: "cg_base (fst (cgroup_base os w)) \<noteq> [] \<or> fst (cgroup_base os w) = no_cgroups"
proof -
  define b where "b = ''/sys/fs/cgroup'' @ (if self_cgroup_v2_rel os w = ''/'' then [] else self_cgroup_v2_rel os w)"
  have "b \<noteq> []" by (simp add: b_def)
  then show ?thesis unfolding cgroup_base_def Let_def b_def [symmetric] by (simp split: prod.split)
qed

lemma available_has_base:
  assumes "cgroup_memory_available os w \<or> cgroup_pids_available os w \<or> cgroup_cpu_available os w"
  shows "cg_base (fst (cgroup_base os w)) \<noteq> []"
  using assms cgroup_base_or_none [of os w]
  by (auto simp: cgroup_memory_available_def cgroup_pids_available_def cgroup_cpu_available_def no_cgroups_def)

text \<open>Whole tokens only: \<open>cpu\<close> is not found in \<open>cpuset\<close>.\<close>

lemma has_token_cpuset: "\<not> has_token ''cpuset memory'' ''cpu'' \<and> has_token ''cpuset cpu memory'' ''cpu''"
  by code_simp

text \<open>Where the memory controller is not delegated, neither the creation of a leaf nor its confirmation
  looks at the memory cap, while the resolution's note names it.\<close>

lemma memory_cap_not_imposed:
  assumes "\<not> cg_memory cg"
  shows "cgroup_create_leaf os cg name (caps\<lparr>memory_max := m\<rparr>) w = cgroup_create_leaf os cg name caps w"
    and "cgroup_confirm os cg name pid (caps\<lparr>memory_max := m\<rparr>) w = cgroup_confirm os cg name pid caps w"
  using assms
  by (simp_all add: cgroup_create_leaf_def cgroup_confirm_def write_limit_def Let_def case_prod_beta split: bool.split)

text \<open>The confirmation looks for the leaf's name anywhere in the child's cgroup path, so a child that sits
  in leaf 12 is confirmed for leaf 1.\<close>

lemma confirm_by_prefix:
  "str_contains ''0::/user.slice/zen-shard-12'' (''/'' @ ''zen-shard-1'')"
  by code_simp

end
