(* ===== verification/Zen_Host.thy ===== *)
theory Zen_Host
  imports Zen_Delivery Zen_Meta Zen_Channel Zen_Sandbox
begin

text \<open>
  Out-of-process shards: \<open>include/zen/isolation/host.hpp\<close> and \<open>src/isolation/host.cpp\<close>.

  \<^item> A \<open>Link\<close> is shared by the host's map and the proxy on the bus. The model keeps the one copy in the
    proxy's shard record; the host maps a mounted name to the shard id.
  \<^item> The bus carries native shards (of any type \<open>'n\<close>, with any method table) beside the proxies.
  \<^item> Each spawn of a child is given what the environment answers: the sockets and pipes, the fork, the
    worlds in which the child's and the parent's system calls run, the frames the child sends before
    the deadline and the namespace checks. A link carries the answers for its future spawns.
  \<^item> Reaping the process, removing the mount point and the log lines on \<open>stderr\<close> are left out.
\<close>

section \<open>Capability resolution\<close>

datatype cap_outcome = Enforced | Granted | Uncontained

record capability_resolution =
  cr_capability :: capability
  cr_outcome :: cap_outcome
  cr_confirmed :: bool
  cr_note :: string

definition resolution :: "capability \<Rightarrow> cap_outcome \<Rightarrow> string \<Rightarrow> capability_resolution" where
  "resolution c out note = \<lparr>cr_capability = c, cr_outcome = out, cr_confirmed = False, cr_note = note\<rparr>"

text \<open>An em dash, as the source file encodes it.\<close>

definition dash :: string where
  "dash = [CHR 0xE2, CHR 0x80, CHR 0x94]"

fun describe_resolution :: "capability_resolution \<Rightarrow> string" where
  "describe_resolution r =
     (case cr_capability r of
        Cap_Network \<Rightarrow>
          (case cr_outcome r of
             Enforced \<Rightarrow>
               ''network: contained '' @ dash @ '' private user+net namespace, no external '' @
               ''interface, so new outbound connections fail at the syscall level'' @
               (if cr_confirmed r then '' (confirmed: child netns distinct from host)'' else []) @
               ''; the inherited host-control fd and filesystem-path sockets remain by '' @
               ''design, so '' @ [CHR 39] @ ''contained'' @ [CHR 39] @
               '' means no external reachability, not no-IPC''
           | Granted \<Rightarrow>
               ''network: granted '' @ dash @ '' child shares the host network by the grant (not '' @
               ''contained)''
           | Uncontained \<Rightarrow>
               ''network: NOT CONTAINED '' @ dash @ '' requested but unenforceable on this host, '' @
               ''running under dev-mode override'')
      | Cap_Filesystem \<Rightarrow>
          (case cr_outcome r of
             Enforced \<Rightarrow>
               ''filesystem: contained at level '' @ cr_note r @
               '' '' @ dash @ '' private mount namespace, allow-list view (pivot_root into a minimal '' @
               ''read-only root; the host home and its secrets are absent, not merely '' @
               ''hidden)'' @
               (if cr_confirmed r then '' (confirmed: child mountns distinct from host)'' else []) @
               ''; honest scope: a writable mount is noexec only at WriteNoExec and even '' @
               ''then blocks native execve, not code run by an interpreter already in the '' @
               ''view; PIDs are not namespaced, so /proc is deliberately not mounted''
           | Granted \<Rightarrow>
               ''filesystem: WriteAnywhere '' @ dash @ '' unrestricted host filesystem by the grant '' @
               ''(not contained)''
           | Uncontained \<Rightarrow>
               ''filesystem: NOT CONTAINED '' @ dash @ '' requested but unenforceable on this host, '' @
               ''running under dev-mode override'')
      | Cap_Resources \<Rightarrow>
          (case cr_outcome r of
             Enforced \<Rightarrow>
               ''resources: contained (cgroup-v2: '' @ cr_note r @ '')'' @
               (if cr_confirmed r then '' (confirmed: pid in leaf, limits read back)'' else []) @
               ''; honest scope: a memory cap OOM-kills within the cgroup (the host '' @
               ''survives and reloads-then-quarantines), pids.max stops a fork-bomb; '' @
               ''cpu.weight is a fair-share weight (set-and-confirmed where the cpu '' @
               ''controller is delegated, absent otherwise), not a hard cap''
           | Granted \<Rightarrow>
               ''resources: unlimited '' @ dash @ '' no limits, by grant (not contained)''
           | Uncontained \<Rightarrow>
               ''resources: NOT CONTAINED '' @ dash @ '' requested but unenforceable on this host, '' @
               ''running under dev-mode override''))"

section \<open>State\<close>

text \<open>What happens when the host waits for a child to say Hello: the results of the reads of one poll, and
  then how the wait for more ends.\<close>

datatype wait_ret = WaitReadable | WaitIntr | WaitTimeout

record 'w spawn_env =
  se_socket :: "int option"
  se_pipes :: bool
  se_pid :: "nat option"
  se_child_world :: 'w
  se_parent_world :: 'w
  se_child_execs :: bool
  se_waits :: "(recv_result list \<times> wait_ret) list"

record 'w link =
  lk_name :: string
  lk_so_path :: string
  lk_id :: shard_id
  lk_channel :: "channel option"
  lk_pid :: int
  lk_accept :: "schema list"
  lk_state_schema :: "schema option"
  lk_snapshot_value :: "zvalue option"
  lk_snapshot_bytes :: string
  lk_policy_value :: "zvalue option"
  lk_resolutions :: "capability_resolution list"
  lk_fs_plan :: mount_plan
  lk_fs_root :: string
  lk_cg_leaf :: string
  lk_cg_caps :: resource_caps
  lk_dead :: bool
  lk_death_signaled :: bool
  lk_quarantined :: bool
  lk_spawns :: "'w spawn_env list"

definition new_link :: "string \<Rightarrow> string \<Rightarrow> 'w spawn_env list \<Rightarrow> 'w link" where
  "new_link name so_path envs =
     \<lparr>lk_name = name, lk_so_path = so_path, lk_id = 0, lk_channel = None, lk_pid = -1, lk_accept = [],
      lk_state_schema = None, lk_snapshot_value = None, lk_snapshot_bytes = [], lk_policy_value = None,
      lk_resolutions = [], lk_fs_plan = [], lk_fs_root = [], lk_cg_leaf = [],
      lk_cg_caps = \<lparr>memory_max = -1, pids_max = -1, cpu_share = 0\<rparr>, lk_dead = False,
      lk_death_signaled = False, lk_quarantined = False, lk_spawns = envs\<rparr>"

text \<open>The members of \<open>IsolationHost\<close> that do not change, and the process-wide facts it uses.\<close>

record 'w host_cfg =
  hc_exe :: string
  hc_os :: "'w os"
  hc_cgroups :: cgroups
  hc_meminfo :: string
  hc_uid :: nat
  hc_gid :: nat
  hc_is_dir :: "string \<Rightarrow> bool"
  hc_enforcement :: enforcement_report
  hc_dev_mode :: bool
  hc_force_entry_failure :: bool

datatype ('n, 'w) hosted = NativeShard 'n | ProxyShard "'w link"

record ('n, 'w) host =
  h_bus :: "('n, 'w) hosted bus"
  h_registry :: registry
  h_links :: "(string, shard_id) omap"
  h_leaf_counter :: u64

fun resolved_enforced :: "capability \<Rightarrow> capability_resolution list \<Rightarrow> bool" where
  "resolved_enforced c [] = False"
| "resolved_enforced c (r # rs) =
     (if cr_capability r = c then cr_outcome r = Enforced else resolved_enforced c rs)"

definition network_sandboxed :: "'w link \<Rightarrow> bool" where
  "network_sandboxed l = resolved_enforced Cap_Network (lk_resolutions l)"

definition filesystem_sandboxed :: "'w link \<Rightarrow> bool" where
  "filesystem_sandboxed l = resolved_enforced Cap_Filesystem (lk_resolutions l)"

definition resources_contained :: "'w link \<Rightarrow> bool" where
  "resources_contained l = resolved_enforced Cap_Resources (lk_resolutions l)"

section \<open>Spawning a child\<close>

text \<open>The list of rounds ends at the deadline.\<close>

fun wait_for_hello :: "(recv_result list \<times> wait_ret) list \<Rightarrow> channel \<Rightarrow> incoming option \<times> channel" where
  "wait_for_hello [] ch = (None, ch)"
| "wait_for_hello ((rs, ended) # rounds) ch =
     (case ch_poll rs ch [] of
        None \<Rightarrow> (None, ch)
      | Some (ch1, frames) \<Rightarrow>
          (case List.find (\<lambda>f. in_op f = Op_Hello) frames of
             Some f \<Rightarrow> (Some f, ch1)
           | None \<Rightarrow>
               if ch_done ch1 then (None, ch1)
               else if ended = WaitTimeout then (None, ch1)
               else wait_for_hello rounds ch1))"

definition read_hello :: "string \<Rightarrow> (string \<times> string \<times> string) option" where
  "read_hello payload =
     (case cu_bytes (new_cursor payload) of
        (None, _) \<Rightarrow> None
      | (Some m, c1) \<Rightarrow>
          (case cu_bytes c1 of
             (None, _) \<Rightarrow> None
           | (Some p, c2) \<Rightarrow>
               (case cu_bytes c2 of (None, _) \<Rightarrow> None | (Some s, c3) \<Rightarrow> Some (m, p, s))))"

definition mark_confirmed :: "'w link \<Rightarrow> capability_resolution \<Rightarrow> capability_resolution" where
  "mark_confirmed l r =
     (if cr_outcome r \<noteq> Enforced then r
      else if (cr_capability r = Cap_Network \<and> network_sandboxed l) \<or>
              (cr_capability r = Cap_Filesystem \<and> filesystem_sandboxed l) \<or>
              (cr_capability r = Cap_Resources \<and> resources_contained l)
      then r\<lparr>cr_confirmed := True\<rparr> else r)"

text \<open>The child between \<open>fork\<close> and its signal, and the parent's preparation of it; the two worlds go on.\<close>

definition child_enters :: "'w host_cfg \<Rightarrow> 'w link \<Rightarrow> 'w \<Rightarrow> bool \<times> 'w" where
  "child_enters cfg l wc =
     (if hc_force_entry_failure cfg then (False, wc)
      else if network_sandboxed l \<or> filesystem_sandboxed l
      then unshare_isolation (hc_os cfg) (network_sandboxed l) (filesystem_sandboxed l) wc
      else (True, wc))"

definition prepare_child :: "'w host_cfg \<Rightarrow> 'w link \<Rightarrow> nat \<Rightarrow> bool \<Rightarrow> 'w \<Rightarrow> bool \<times> 'w" where
  "prepare_child cfg l pid signaled wp =
     (let (mapped, wp1) =
            (if signaled \<and> (network_sandboxed l \<or> filesystem_sandboxed l)
             then write_isolation_id_maps (hc_os cfg) (hc_uid cfg) (hc_gid cfg) pid wp
             else (signaled, wp))
      in if mapped \<and> resources_contained l
         then cgroup_move_pid (hc_os cfg) (hc_cgroups cfg) (lk_cg_leaf l) pid wp1
         else (mapped, wp1))"

text \<open>A child that did not get as far as running the executable has exited: its end of the socket is
  closed, and the host reads end of file.\<close>

definition child_rounds :: "bool \<Rightarrow> 'w spawn_env \<Rightarrow> (recv_result list \<times> wait_ret) list" where
  "child_rounds running env = (if running then se_waits env else [([RecvBytes []], WaitReadable)])"

text \<open>From the socket to the confirmed sandbox.\<close>

definition handshake ::
  "'w host_cfg \<Rightarrow> 'w link \<Rightarrow> 'w spawn_env \<Rightarrow> nat \<Rightarrow> int \<Rightarrow> bool \<Rightarrow> 'w \<Rightarrow>
   (string + string \<times> string \<times> string) \<times> 'w link" where
  "handshake cfg l env pid fd running wp =
     (case wait_for_hello (child_rounds running env) (new_channel fd) of
        (hello, ch) \<Rightarrow>
          let l1 = l\<lparr>lk_pid := int pid, lk_channel := Some ch\<rparr> in
          case hello of
            None \<Rightarrow> (Inl ''child did not complete the handshake'', l1)
          | Some f \<Rightarrow>
              (case read_hello (in_payload f) of
                 None \<Rightarrow> (Inl ''malformed Hello frame'', l1)
               | Some mps \<Rightarrow>
                   if network_sandboxed l \<and> \<not> child_netns_is_isolated (hc_os cfg) pid wp
                   then (Inl ''network sandbox not confirmed: child shares the host network namespace'', l1)
                   else if filesystem_sandboxed l \<and> \<not> child_mountns_is_isolated (hc_os cfg) pid wp
                   then (Inl ''filesystem sandbox not confirmed: child shares the host mount namespace'', l1)
                   else if resources_contained l \<and>
                     \<not> cgroup_confirm (hc_os cfg) (hc_cgroups cfg) (lk_cg_leaf l) pid (lk_cg_caps l) wp
                   then (Inl (''resource sandbox not confirmed: child not in its cgroup leaf or limits '' @
                              ''not applied''), l1)
                   else (Inr mps, l1\<lparr>lk_resolutions := map (mark_confirmed l) (lk_resolutions l)\<rparr>)))"

text \<open>The forked branch, for a child that is to be sandboxed.\<close>

definition spawn_sandboxed ::
  "'w host_cfg \<Rightarrow> 'w link \<Rightarrow> 'w spawn_env \<Rightarrow> int \<Rightarrow> 'w \<Rightarrow>
   (string + string \<times> string \<times> string) \<times> 'w link" where
  "spawn_sandboxed cfg l env fd wp =
     (if \<not> se_pipes env then (Inl ''sandbox sync pipe failed'', l)
      else
        case se_pid env of
          None \<Rightarrow> (Inl ''fork (sandboxed spawn) failed'', l)
        | Some pid \<Rightarrow>
            (case child_enters cfg l (se_child_world env) of
               (signaled, wc) \<Rightarrow>
                 (case prepare_child cfg l pid signaled wp of
                    (prepared, wp1) \<Rightarrow>
                      if \<not> prepared
                      then (Inl ''could not prepare the sandboxed child (id-map or cgroup move failed)'',
                            l\<lparr>lk_pid := int pid\<rparr>)
                      else
                        let viewed = (if filesystem_sandboxed l
                                      then fst (run_mount_plan (hc_os cfg) (lk_fs_plan l) wc) else True)
                        in handshake cfg l env pid fd (viewed \<and> se_child_execs env) wp1)))"

definition spawn_and_handshake ::
  "'w host_cfg \<Rightarrow> 'w link \<Rightarrow> (string + string \<times> string \<times> string) \<times> 'w link" where
  "spawn_and_handshake cfg l =
     (case lk_spawns l of
        [] \<Rightarrow> (Inl ''socketpair failed'', l)
      | env # envs \<Rightarrow>
          let l1 = l\<lparr>lk_spawns := envs\<rparr> in
          (case se_socket env of
             None \<Rightarrow> (Inl ''socketpair failed'', l1)
           | Some fd \<Rightarrow>
               let wp0 = (if filesystem_sandboxed l \<and> lk_fs_root l \<noteq> []
                          then snd (os_sys (hc_os cfg) (Sys_mkdir (lk_fs_root l) 448) (se_parent_world env))
                          else se_parent_world env);
                   (leaf_ok, wp) =
                     (if resources_contained l
                      then cgroup_create_leaf (hc_os cfg) (hc_cgroups cfg) (lk_cg_leaf l) (lk_cg_caps l) wp0
                      else (True, wp0))
               in if \<not> leaf_ok then (Inl ''resource sandbox: could not create/limit the cgroup leaf'', l1)
                  else if network_sandboxed l \<or> filesystem_sandboxed l \<or> resources_contained l
                  then spawn_sandboxed cfg l1 env fd wp
                  else
                    (case se_pid env of
                       None \<Rightarrow> (Inl ''posix_spawn failed'', l1)
                     | Some pid \<Rightarrow> handshake cfg l1 env pid fd (se_child_execs env) wp)))"

definition teardown_child :: "'w link \<Rightarrow> 'w link" where
  "teardown_child l = l\<lparr>lk_channel := None, lk_pid := (if lk_pid l > 0 then -1 else lk_pid l)\<rparr>"

text \<open>
  What the teardown does outside the link, for a socket that takes \<open>sends\<close>, a child whose \<open>waitpid\<close> polls answer
  \<open>polls\<close> (true: reaped, or no such child), and the world \<open>w\<close>: the octets the child is sent last, whether it had to
  be killed, and the world without its mount point and its leaf. Nothing of it flows back into the host.
\<close>

definition kReapPolls :: nat where "kReapPolls = 200"

definition teardown_outside ::
  "'w os \<Rightarrow> cgroups \<Rightarrow> send_result list \<Rightarrow> (nat \<Rightarrow> bool) \<Rightarrow> 'w link \<Rightarrow> 'w \<Rightarrow> string option \<times> bool \<times> 'w" where
  "teardown_outside os cg sends polls l w =
     (let last = (case lk_channel l of
                    None \<Rightarrow> Some []
                  | Some ch \<Rightarrow>
                      if \<not> ch_done ch then map_option snd (ch_flush sends (ch_queue Op_Shutdown [] ch)) else Some []);
          killed = (lk_pid l > 0 \<and> \<not> list_ex polls [0..<kReapPolls]);
          w1 = (if lk_fs_root l \<noteq> [] then snd (os_sys os (Sys_rmdir (lk_fs_root l)) w) else w)
      in (last, killed, if lk_cg_leaf l \<noteq> [] then cgroup_remove_leaf os cg (lk_cg_leaf l) w1 else w1))"

text \<open>An idle channel sends the child exactly one Shutdown frame; the mount point goes before the leaf.\<close>

lemma teardown_says_shutdown:
  assumes "lk_channel l = Some (new_channel fd)" and "0 \<le> fd"
  shows "fst (teardown_outside os cg [Sent 5] polls l w) = Some (frame_bytes \<lparr>in_op = Op_Shutdown, in_payload = []\<rparr>)"
proof -
  let ?f = "frame_bytes \<lparr>in_op = Op_Shutdown, in_payload = []\<rparr>"
  have len: "length ?f = 5" by simp
  have "ch_queue Op_Shutdown [] (new_channel fd) = (new_channel fd)\<lparr>ch_outbox := ?f\<rparr>"
    using len ch_queue_bytes [of "new_channel fd" "[]" Op_Shutdown]
    by (simp add: accepts_frame_def ch_queue_def new_channel_def kMaxBacklog_def Let_def split: if_splits)
  then show ?thesis using assms len
    by (simp add: teardown_outside_def ch_done_def ch_flush_def flush_loop.simps new_channel_def Let_def)
qed

lemma teardown_cleans:
  assumes "lk_fs_root l \<noteq> []" and "lk_cg_leaf l \<noteq> []" and "cg_base cg \<noteq> []"
  shows "snd (snd (teardown_outside os cg sends polls l w)) =
    snd (os_sys os (Sys_rmdir (cg_base cg @ ''/'' @ lk_cg_leaf l)) (snd (os_sys os (Sys_rmdir (lk_fs_root l)) w)))"
  using assms by (simp add: teardown_outside_def cgroup_remove_leaf_def)

section \<open>The proxy\<close>

definition ship_deliver :: "'w link \<Rightarrow> message \<Rightarrow> 'w link result" where
  "ship_deliver l m =
     (case lk_channel l of
        None \<Rightarrow> Inr l
      | Some ch \<Rightarrow>
          rbind (serialize (m_payload m)) (\<lambda>bytes.
            let frame = ipc_put_u64 (ipc_put_u64 (ipc_put_u64 [] (m_sender m)) (m_reply_to m))
                          (m_correlation m) @ bytes
            in Inr (l\<lparr>lk_channel := Some (ch_queue Op_Deliver frame ch)\<rparr>)))"

definition respawn_and_revive :: "'w host_cfg \<Rightarrow> 'w link \<Rightarrow> zvalue \<Rightarrow> unit result \<times> 'w link" where
  "respawn_and_revive cfg l state =
     (let l1 = (if lk_channel l \<noteq> None then teardown_child l else l) in
      case spawn_and_handshake cfg l1 of
        (Inl _, l2) \<Rightarrow> (Inr (), teardown_child l2)
      | (Inr _, l2) \<Rightarrow>
          (case serialize state of
             Inl e \<Rightarrow> (Inl e, l2)
           | Inr bytes \<Rightarrow>
               (Inr (), l2\<lparr>lk_channel := map_option (ch_queue Op_Revive bytes) (lk_channel l2)\<rparr>)))"

definition proxy_handle :: "'w link \<Rightarrow> message \<Rightarrow> ('n, 'w) hosted action" where
  "proxy_handle l m =
     (case ship_deliver l m of
        Inl e \<Rightarrow> AThrow e (ProxyShard l)
      | Inr l' \<Rightarrow> ADone (ProxyShard l'))"

text \<open>The native shards keep their own methods, whose handlers run on their own state.\<close>

primrec lift_action :: "'n action \<Rightarrow> ('n, 'w) hosted action" where
  "lift_action (ADone st) = ADone (NativeShard st)"
| "lift_action (AThrow e st) = AThrow e (NativeShard st)"
| "lift_action (ASend t m k) = ASend t m (\<lambda>n. lift_action (k n))"
| "lift_action (APublish m k) = APublish m (\<lambda>n. lift_action (k n))"
| "lift_action (AResolve n v k) = AResolve n v (\<lambda>s. lift_action (k s))"
| "lift_action (AGate n k) = AGate n (lift_action k)"

definition host_ops :: "'w host_cfg \<Rightarrow> 'n shard_ops \<Rightarrow> ('n, 'w) hosted shard_ops" where
  "host_ops cfg nv =
     \<lparr>vt_accepted_schemas = (\<lambda>s. case s of
          NativeShard n \<Rightarrow> vt_accepted_schemas nv n
        | ProxyShard l \<Rightarrow> Inr (map Some (lk_accept l))),
      vt_handle = (\<lambda>s m. case s of
          NativeShard n \<Rightarrow> lift_action (vt_handle nv n m)
        | ProxyShard l \<Rightarrow> proxy_handle l m),
      vt_snapshot = (\<lambda>s. case s of
          NativeShard n \<Rightarrow> vt_snapshot nv n
        | ProxyShard l \<Rightarrow> deref (lk_snapshot_value l)),
      vt_policy = (\<lambda>s. case s of
          NativeShard n \<Rightarrow> vt_policy nv n
        | ProxyShard l \<Rightarrow> deref (lk_policy_value l)),
      vt_revive = (\<lambda>s v. case s of
          NativeShard n \<Rightarrow> map_prod id NativeShard (vt_revive nv n v)
        | ProxyShard l \<Rightarrow> map_prod id ProxyShard (respawn_and_revive cfg l v))\<rparr>"

section \<open>Mounting\<close>

record oop_result =
  or_ok :: bool
  or_id :: shard_id
  or_error :: string

definition oop_refused :: "string \<Rightarrow> oop_result" where
  "oop_refused e = \<lparr>or_ok = False, or_id = 0, or_error = e\<rparr>"

text \<open>Bytes from a child, admitted through the gate against a door or thrown out.\<close>

definition admit_child :: "string \<Rightarrow> schema \<Rightarrow> string \<Rightarrow> 's bus \<Rightarrow> zvalue result \<times> 's bus" where
  "admit_child what door bytes b =
     (case admit_candidate door bytes b of
        (Inl e, b1) \<Rightarrow> (Inl e, b1)
      | (Inr a, b1) \<Rightarrow>
          if adm_ok a then (adm_value a, b1)
          else
            (case first_error a of
               Inl e \<Rightarrow> (Inl e, b1)
             | Inr er \<Rightarrow> (Inl (Runtime_error (what @ '' refused: '' @ error_message er)), b1)))"

text \<open>The child's accept-set and state schema, its policy and its first snapshot.\<close>

definition cache_values ::
  "string \<Rightarrow> string \<Rightarrow> 'w link \<Rightarrow> schema \<Rightarrow> 's bus \<Rightarrow> 'w link result \<times> 's bus" where
  "cache_values policy snapshot l state b =
     (case lifecycle_policy_schema of
        Inl e \<Rightarrow> (Inl e, b)
      | Inr grammar \<Rightarrow>
          (case admit_child ''policy'' grammar policy b of
             (Inl e, b1) \<Rightarrow> (Inl e, b1)
           | (Inr pv, b1) \<Rightarrow>
               (case admit_child ''snapshot'' state snapshot b1 of
                  (Inl e, b2) \<Rightarrow> (Inl e, b2)
                | (Inr sv, b2) \<Rightarrow>
                    (Inr (l\<lparr>lk_policy_value := Some pv, lk_snapshot_value := Some sv,
                            lk_snapshot_bytes := snapshot\<rparr>), b2))))"

definition reconstruct_and_cache ::
  "'w link \<Rightarrow> string \<times> string \<times> string \<Rightarrow> ('n, 'w) host \<Rightarrow> 'w link result \<times> ('n, 'w) host" where
  "reconstruct_and_cache l mps h =
     (case mps of (manifest, policy, snapshot) \<Rightarrow>
      case manifest_schema of
        Inl e \<Rightarrow> (Inl e, h)
      | Inr meta \<Rightarrow>
          (case admit_child ''manifest'' meta manifest (h_bus h) of
             (Inl e, b1) \<Rightarrow> (Inl e, h\<lparr>h_bus := b1\<rparr>)
           | (Inr mv, b1) \<Rightarrow>
               (case decode_manifest mv (h_registry h) of
                  (Inl e, r) \<Rightarrow> (Inl e, h\<lparr>h_bus := b1, h_registry := r\<rparr>)
                | (Inr (acc, state), r) \<Rightarrow>
                    (case cache_values policy snapshot (l\<lparr>lk_accept := acc, lk_state_schema := Some state\<rparr>)
                            state b1 of
                       (res, b2) \<Rightarrow> (res, h\<lparr>h_bus := b2, h_registry := r\<rparr>)))))"

definition resolve_network :: "'w host_cfg \<Rightarrow> grant \<Rightarrow> string \<Rightarrow> string + capability_resolution" where
  "resolve_network cfg gr name =
     (if has_os_capability gr os_Network then Inr (resolution Cap_Network Granted [])
      else if enforceable (hc_enforcement cfg) Cap_Network then Inr (resolution Cap_Network Enforced [])
      else if hc_dev_mode cfg then Inr (resolution Cap_Network Uncontained [])
      else Inl (''refused (fail-safe): cannot enforce network isolation for '' @ [CHR 39] @ name @ [CHR 39] @
                '' on this host (no unprivileged network namespace). Grant '' @
                ''os_cap::Network to allow the network intentionally, or enable dev-mode '' @
                ''to run it network-uncontained.''))"

text \<open>\<open>root\<close> is what \<open>mkdtemp\<close> returns.\<close>

definition resolve_filesystem ::
  "'w host_cfg \<Rightarrow> grant \<Rightarrow> string \<Rightarrow> string option \<Rightarrow> 'w link \<Rightarrow> string + capability_resolution \<times> 'w link" where
  "resolve_filesystem cfg gr name root l =
     (let level = g_fs gr; note = fs_access_name level in
      if level = Fs_WriteAnywhere then Inr (resolution Cap_Filesystem Granted note, l)
      else if enforceable (hc_enforcement cfg) Cap_Filesystem then
        (case root of
           None \<Rightarrow> Inl (''filesystem sandbox: could not create a view root for '' @ [CHR 39] @ name @ [CHR 39])
         | Some dir \<Rightarrow>
             Inr (resolution Cap_Filesystem Enforced note,
                  l\<lparr>lk_fs_root := dir,
                    lk_fs_plan := build_view_plan (hc_is_dir cfg) level (g_fs_path gr) (hc_exe cfg)
                                    (lk_so_path l) dir\<rparr>))
      else if hc_dev_mode cfg then Inr (resolution Cap_Filesystem Uncontained note, l)
      else Inl (''refused (fail-safe): cannot enforce filesystem isolation for '' @ [CHR 39] @ name @ [CHR 39] @
                '' on this host (no unprivileged mount namespace). Grant '' @
                ''FsAccess::WriteAnywhere to opt out intentionally, or enable dev-mode to '' @
                ''run it filesystem-uncontained.''))"

definition limited_caps :: "string \<Rightarrow> resource_limits \<Rightarrow> resource_caps" where
  "limited_caps meminfo lim =
     (let c0 = cgroup_default_caps meminfo;
          c1 = (if sint (memory_bytes lim) > 0 then c0\<lparr>memory_max := sint (memory_bytes lim)\<rparr> else c0);
          c2 = (if sint (pids lim) > 0 then c1\<lparr>pids_max := sint (pids lim)\<rparr> else c1)
      in if sint (cpu_weight lim) > 0 then c2\<lparr>cpu_share := sint (cpu_weight lim)\<rparr> else c2)"

definition resolve_resources ::
  "'w host_cfg \<Rightarrow> grant \<Rightarrow> string \<Rightarrow> u64 \<Rightarrow> 'w link \<Rightarrow> string + capability_resolution \<times> 'w link \<times> u64" where
  "resolve_resources cfg gr name counter l =
     (if unlimited (g_res gr) then Inr (resolution Cap_Resources Granted [], l, counter)
      else if enforceable (hc_enforcement cfg) Cap_Resources then
        let caps = limited_caps (hc_meminfo cfg) (g_res gr) in
        Inr (resolution Cap_Resources Enforced
               (''memory<='' @ ll_to_string (memory_max caps div (1024 * 1024)) @
                ''MiB, pids<='' @ ll_to_string (pids_max caps)),
             l\<lparr>lk_cg_caps := caps, lk_cg_leaf := ''zen-shard-'' @ to_string (unat counter)\<rparr>, counter + 1)
      else if hc_dev_mode cfg then Inr (resolution Cap_Resources Uncontained [], l, counter)
      else Inl (''refused (fail-safe): cannot enforce resource limits for '' @ [CHR 39] @ name @ [CHR 39] @
                '' on this host (no cgroup-v2 delegation '' @ dash @ '' run the host under a delegated '' @
                ''scope). Grant unlimited resources to opt out, or enable dev-mode to run '' @
                ''it resource-uncontained.''))"

text \<open>The three resolutions of a mount, in order; the first refusal ends it.\<close>

definition resolve_capabilities ::
  "'w host_cfg \<Rightarrow> grant \<Rightarrow> string option \<Rightarrow> u64 \<Rightarrow> 'w link \<Rightarrow> string + 'w link \<times> u64" where
  "resolve_capabilities cfg gr root counter l =
     (case resolve_network cfg gr (lk_name l) of
        Inl e \<Rightarrow> Inl e
      | Inr net \<Rightarrow>
          (case resolve_filesystem cfg gr (lk_name l) root l of
             Inl e \<Rightarrow> Inl e
           | Inr (fs, l1) \<Rightarrow>
               (case resolve_resources cfg gr (lk_name l) counter l1 of
                  Inl e \<Rightarrow> Inl e
                | Inr (rc, l2, counter') \<Rightarrow> Inr (l2\<lparr>lk_resolutions := [net, fs, rc]\<rparr>, counter'))))"

definition register_proxy ::
  "'w host_cfg \<Rightarrow> 'n shard_ops \<Rightarrow> grant \<Rightarrow> 'w link \<Rightarrow> ('n, 'w) host \<Rightarrow> oop_result \<times> ('n, 'w) host" where
  "register_proxy cfg nv gr l h =
     (case register_shard (host_ops cfg nv) (Some (ProxyShard l)) gr (h_bus h) of
        (Inl e, b) \<Rightarrow> (oop_refused (''register refused: '' @ exn_what e), h\<lparr>h_bus := b\<rparr>)
      | (Inr i, b) \<Rightarrow>
          let b1 = (case bus_find b i of
                      None \<Rightarrow> b
                    | Some rec \<Rightarrow> put_record i (rec\<lparr>sr_shard := ProxyShard (l\<lparr>lk_id := i\<rparr>)\<rparr>) b)
          in (\<lparr>or_ok = True, or_id = i, or_error = []\<rparr>,
              h\<lparr>h_bus := b1, h_links := om_put (lk_name l) i (h_links h)\<rparr>))"

definition mount ::
  "'w host_cfg \<Rightarrow> 'n shard_ops \<Rightarrow> string \<Rightarrow> string \<Rightarrow> grant \<Rightarrow> string option \<Rightarrow> 'w spawn_env list \<Rightarrow>
   ('n, 'w) host \<Rightarrow> oop_result \<times> ('n, 'w) host" where
  "mount cfg nv name so_path gr root envs h =
     (if om_find (h_links h) name \<noteq> None then (oop_refused (''already mounted: '' @ name), h)
      else
        case resolve_capabilities cfg gr root (h_leaf_counter h) (new_link name so_path envs) of
          Inl e \<Rightarrow> (oop_refused e, h)
        | Inr (l, counter) \<Rightarrow>
            let h1 = h\<lparr>h_leaf_counter := counter\<rparr> in
            (case spawn_and_handshake cfg l of
               (Inl e, _) \<Rightarrow> (oop_refused (''spawn/handshake failed: '' @ e), h1)
             | (Inr mps, l1) \<Rightarrow>
                 (case reconstruct_and_cache l1 mps h1 of
                    (Inl e, h2) \<Rightarrow> (oop_refused (''handshake refused by the gate: '' @ exn_what e), h2)
                  | (Inr l2, h2) \<Rightarrow> register_proxy cfg nv gr l2 h2)))"

section \<open>The host loop\<close>

text \<open>The link of a shard id, and an update of it in place.\<close>

definition link_of :: "shard_id \<Rightarrow> ('n, 'w) hosted bus \<Rightarrow> 'w link option" where
  "link_of i b =
     (case bus_find b i of
        Some rec \<Rightarrow> (case sr_shard rec of ProxyShard l \<Rightarrow> Some l | NativeShard _ \<Rightarrow> None)
      | None \<Rightarrow> None)"

definition put_link :: "shard_id \<Rightarrow> 'w link \<Rightarrow> ('n, 'w) hosted bus \<Rightarrow> ('n, 'w) hosted bus" where
  "put_link i l b =
     (case bus_find b i of
        None \<Rightarrow> b
      | Some rec \<Rightarrow> put_record i (rec\<lparr>sr_shard := ProxyShard l\<rparr>) b)"

text \<open>The header of an \<open>Emit\<close> frame.\<close>

definition read_emit :: "string \<Rightarrow> (u8 \<times> u64 \<times> u64 \<times> u64 \<times> string) option" where
  "read_emit payload =
     (case cu_u8 (new_cursor payload) of
        (None, _) \<Rightarrow> None
      | (Some kind, c1) \<Rightarrow>
          (case cu_u64 c1 of
             (None, _) \<Rightarrow> None
           | (Some target, c2) \<Rightarrow>
               (case cu_u64 c2 of
                  (None, _) \<Rightarrow> None
                | (Some reply_to, c3) \<Rightarrow>
                    (case cu_u64 c3 of
                       (None, _) \<Rightarrow> None
                     | (Some correlation, c4) \<Rightarrow>
                         Some (kind, target, reply_to, correlation, fst (cu_rest c4))))))"

definition child_emits :: "shard_id \<Rightarrow> string \<Rightarrow> 's bus \<Rightarrow> unit result \<times> 's bus" where
  "child_emits i payload b =
     (case read_emit payload of
        None \<Rightarrow> (Inr (), b)
      | Some (kind, target, reply_to, correlation, bytes) \<Rightarrow>
          (case resolve_schema (claimed_name (parse bytes)) (claimed_version (parse bytes)) b of
             None \<Rightarrow> (Inr (), b)
           | Some door \<Rightarrow>
               (case admit_candidate door bytes b of
                  (Inl e, b1) \<Rightarrow> (Inl e, b1)
                | (Inr a, b1) \<Rightarrow>
                    if \<not> adm_ok a then (Inr (), b1)
                    else
                      (case adm_value a of
                         Inl e \<Rightarrow> (Inl e, b1)
                       | Inr v \<Rightarrow>
                           let msg = \<lparr>m_payload = v, m_sender = 0, m_reply_to = reply_to,
                                      m_correlation = correlation\<rparr>
                           in if kind = kEmitPublish then (Inr (), snd (publish_as i msg b1))
                              else (Inr (), snd (send_as i target msg b1))))))"

definition child_snapshot ::
  "shard_id \<Rightarrow> 'w link \<Rightarrow> string \<Rightarrow> ('n, 'w) hosted bus \<Rightarrow> unit result \<times> ('n, 'w) hosted bus" where
  "child_snapshot i l payload b =
     (case lk_state_schema l of
        None \<Rightarrow> (Inl (Invalid_argument ''admit(Unverified, door): door must be non-null''), b)
      | Some door \<Rightarrow>
          (case admit_candidate door payload b of
             (Inl e, b1) \<Rightarrow> (Inl e, b1)
           | (Inr a, b1) \<Rightarrow>
               if \<not> adm_ok a then (Inr (), b1)
               else
                 (case adm_value a of
                    Inl e \<Rightarrow> (Inl e, b1)
                  | Inr v \<Rightarrow>
                      (Inr (), put_link i (l\<lparr>lk_snapshot_value := Some v, lk_snapshot_bytes := payload\<rparr>) b1))))"

definition handle_child_frame ::
  "shard_id \<Rightarrow> incoming \<Rightarrow> ('n, 'w) hosted bus \<Rightarrow> unit result \<times> ('n, 'w) hosted bus" where
  "handle_child_frame i f b =
     (case link_of i b of
        None \<Rightarrow> (Inr (), b)
      | Some l \<Rightarrow>
          if in_op f = Op_Emit then child_emits (lk_id l) (in_payload f) b
          else if in_op f = Op_Snapshot then child_snapshot i l (in_payload f) b
          else (Inr (), b))"

fun handle_frames ::
  "shard_id \<Rightarrow> incoming list \<Rightarrow> ('n, 'w) hosted bus \<Rightarrow> unit result \<times> ('n, 'w) hosted bus" where
  "handle_frames i [] b = (Inr (), b)"
| "handle_frames i (f # fs) b =
     (case handle_child_frame i f b of
        (Inl e, b1) \<Rightarrow> (Inl e, b1)
      | (Inr _, b1) \<Rightarrow> handle_frames i fs b1)"

text \<open>Phase one: flush to each child and drain it. \<open>io\<close> gives the results of the socket calls for each
  link; \<open>None\<close> is a call that does not return.\<close>

fun drain_links ::
  "(shard_id \<Rightarrow> send_result list \<times> recv_result list) \<Rightarrow> shard_id list \<Rightarrow> ('n, 'w) hosted bus \<Rightarrow>
   (unit result \<times> ('n, 'w) hosted bus) option" where
  "drain_links io [] b = Some (Inr (), b)"
| "drain_links io (i # is) b =
     (case link_of i b of
        None \<Rightarrow> drain_links io is b
      | Some l \<Rightarrow>
          (case lk_channel l of
             None \<Rightarrow> drain_links io is b
           | Some ch \<Rightarrow>
               (case ch_flush (fst (io i)) ch of
                  None \<Rightarrow> None
                | Some (ch1, _) \<Rightarrow>
                    (case ch_poll (snd (io i)) ch1 [] of
                       None \<Rightarrow> None
                     | Some (ch2, frames) \<Rightarrow>
                         (case handle_frames i frames (put_link i (l\<lparr>lk_channel := Some ch2\<rparr>) b) of
                            (Inl e, b1) \<Rightarrow> Some (Inl e, b1)
                          | (Inr _, b1) \<Rightarrow> drain_links io is b1)))))"

definition recover ::
  "'w host_cfg \<Rightarrow> 'n shard_ops \<Rightarrow> shard_id \<Rightarrow> 'w link \<Rightarrow> ('n, 'w) hosted bus \<Rightarrow>
   unit result \<times> ('n, 'w) hosted bus" where
  "recover cfg nv i l b =
     (case reload (host_ops cfg nv) (lk_id l) (lk_snapshot_bytes l) (put_link i (teardown_child l) b) of
        (Inl e, b1) \<Rightarrow> (Inl e, b1)
      | (Inr ro, b1) \<Rightarrow>
          (case link_of i b1 of
             None \<Rightarrow> (Inr (), b1)
           | Some l1 \<Rightarrow>
               if ro_revived ro \<and> lk_channel l1 \<noteq> None
               then (Inr (), put_link i (l1\<lparr>lk_dead := False, lk_death_signaled := False\<rparr>) b1)
               else (Inr (), put_link i (teardown_child (l1\<lparr>lk_quarantined := True, lk_dead := True\<rparr>)) b1)))"

definition dead_now :: "'w link \<Rightarrow> bool" where
  "dead_now l = (case lk_channel l of None \<Rightarrow> True | Some ch \<Rightarrow> ch_done ch)"

text \<open>Phase three for one link.\<close>

definition supervise ::
  "'w host_cfg \<Rightarrow> 'n shard_ops \<Rightarrow> shard_id \<Rightarrow> ('n, 'w) hosted bus \<Rightarrow> unit result \<times> ('n, 'w) hosted bus" where
  "supervise cfg nv i b =
     (case link_of i b of
        None \<Rightarrow> (Inr (), b)
      | Some l \<Rightarrow>
          if lk_quarantined l then (Inr (), b)
          else
            (case (if dead_now l \<and> \<not> lk_death_signaled l
                   then kill (lk_id l) (put_link i (l\<lparr>lk_dead := True, lk_death_signaled := True\<rparr>) b)
                   else (Inr (), b)) of
               (Inl e, b1) \<Rightarrow> (Inl e, b1)
             | (Inr _, b1) \<Rightarrow>
                 (case link_of i b1 of
                    None \<Rightarrow> (Inr (), b1)
                  | Some l1 \<Rightarrow> if lk_dead l1 then recover cfg nv i l1 b1 else (Inr (), b1))))"

fun supervise_links ::
  "'w host_cfg \<Rightarrow> 'n shard_ops \<Rightarrow> shard_id list \<Rightarrow> ('n, 'w) hosted bus \<Rightarrow> unit result \<times> ('n, 'w) hosted bus" where
  "supervise_links cfg nv [] b = (Inr (), b)"
| "supervise_links cfg nv (i # is) b =
     (case supervise cfg nv i b of
        (Inl e, b1) \<Rightarrow> (Inl e, b1)
      | (Inr _, b1) \<Rightarrow> supervise_links cfg nv is b1)"

definition host_step ::
  "'w host_cfg \<Rightarrow> 'n shard_ops \<Rightarrow> (shard_id \<Rightarrow> send_result list \<times> recv_result list) \<Rightarrow> ('n, 'w) host \<Rightarrow>
   (unit result \<times> ('n, 'w) host) option" where
  "host_step cfg nv io h =
     (case drain_links io (map snd (h_links h)) (h_bus h) of
        None \<Rightarrow> None
      | Some (Inl e, b1) \<Rightarrow> Some (Inl e, h\<lparr>h_bus := b1\<rparr>)
      | Some (Inr _, b1) \<Rightarrow>
          (case pump (host_ops cfg nv) b1 of
             None \<Rightarrow> None
           | Some (Inl e, b2) \<Rightarrow> Some (Inl e, h\<lparr>h_bus := b2\<rparr>)
           | Some (Inr _, b2) \<Rightarrow>
               (case supervise_links cfg nv (map snd (h_links h)) b2 of
                  (res, b3) \<Rightarrow> Some (res, h\<lparr>h_bus := b3\<rparr>))))"

definition unmount :: "string \<Rightarrow> ('n, 'w) host \<Rightarrow> ('n, 'w) host" where
  "unmount name h =
     (case om_find (h_links h) name of
        None \<Rightarrow> h
      | Some i \<Rightarrow>
          h\<lparr>h_bus := snd (unregister_shard i (h_bus h)), h_links := om_erase name (h_links h)\<rparr>)"

definition unmount_all :: "('n, 'w) host \<Rightarrow> ('n, 'w) host" where
  "unmount_all h = fold unmount (map fst (h_links h)) h"

definition is_mounted :: "string \<Rightarrow> ('n, 'w) host \<Rightarrow> bool" where
  "is_mounted name h \<longleftrightarrow> om_find (h_links h) name \<noteq> None"

definition mounted_link :: "string \<Rightarrow> ('n, 'w) host \<Rightarrow> 'w link option" where
  "mounted_link name h =
     (case om_find (h_links h) name of None \<Rightarrow> None | Some i \<Rightarrow> link_of i (h_bus h))"

definition quarantined :: "string \<Rightarrow> ('n, 'w) host \<Rightarrow> bool" where
  "quarantined name h = (case mounted_link name h of None \<Rightarrow> False | Some l \<Rightarrow> lk_quarantined l)"

definition containment :: "string \<Rightarrow> ('n, 'w) host \<Rightarrow> string" where
  "containment name h =
     (case mounted_link name h of
        None \<Rightarrow> ''not mounted''
      | Some l \<Rightarrow>
          (if lk_quarantined l
           then ''isolated (process boundary); quarantined: dead after exhausting reloads.''
           else ''isolated (process boundary): crash-contained, cannot corrupt host memory.'') @
          fold (\<lambda>r body. body @ '' '' @ describe_resolution r @ ''.'') (lk_resolutions l) [] @
          '' syscalls: not enforced (seccomp is a separate, later decision).'')"

end
