(* ===== verification/Zen_Isolation.thy ===== *)
theory Zen_Isolation
  imports Zen_Host Zen_Seam
begin

text \<open>
  What the isolation host guarantees: a shard only runs with each capability granted, enforced and
  confirmed, or visibly uncontained in dev mode; whatever octets a child sends, the bus sees only gated
  deliveries stamped with the child's own id; and a dead child is revived or quarantined.
\<close>

section \<open>A spawn that succeeds was confirmed\<close>

lemma dead_child_says_nothing: "fst (wait_for_hello (child_rounds False env) (new_channel fd)) = None"
  by (auto simp: child_rounds_def ch_poll_def new_channel_def frames_loop.simps ch_done_def Let_def)

lemma handshake_Inr:
  assumes "handshake cfg l env pid fd running wp = (Inr mps, l')"
  shows "running \<and> (network_sandboxed l \<longrightarrow> child_netns_is_isolated (hc_os cfg) pid wp) \<and>
    (filesystem_sandboxed l \<longrightarrow> child_mountns_is_isolated (hc_os cfg) pid wp) \<and>
    (resources_contained l \<longrightarrow>
       cgroup_confirm (hc_os cfg) (hc_cgroups cfg) (lk_cg_leaf l) pid (lk_cg_caps l) wp) \<and>
    lk_resolutions l' = map (mark_confirmed l) (lk_resolutions l) \<and> lk_name l' = lk_name l"
proof -
  have "running"
  proof (rule ccontr)
    assume "\<not> running"
    then show False
      using assms dead_child_says_nothing [of env fd]
      by (auto simp: handshake_def Let_def split: prod.splits option.splits)
  qed
  with assms show ?thesis
    by (auto simp: handshake_def Let_def split: prod.splits option.splits if_splits)
qed

text \<open>What the child and the host did before the shard's code could run.\<close>

definition entered :: "'w host_cfg \<Rightarrow> 'w link \<Rightarrow> 'w spawn_env \<Rightarrow> bool" where
  "entered cfg l env \<longleftrightarrow>
     (network_sandboxed l \<or> filesystem_sandboxed l \<longrightarrow>
        fst (unshare_isolation (hc_os cfg) (network_sandboxed l) (filesystem_sandboxed l) (se_child_world env))) \<and>
     (filesystem_sandboxed l \<longrightarrow>
        fst (run_mount_plan (hc_os cfg) (lk_fs_plan l)
          (snd (unshare_isolation (hc_os cfg) (network_sandboxed l) True (se_child_world env))))) \<and>
     (network_sandboxed l \<or> filesystem_sandboxed l \<or> resources_contained l \<longrightarrow>
        (\<exists>pid w. se_pid env = Some pid \<and>
           (network_sandboxed l \<longrightarrow> child_netns_is_isolated (hc_os cfg) pid w) \<and>
           (filesystem_sandboxed l \<longrightarrow> child_mountns_is_isolated (hc_os cfg) pid w) \<and>
           (resources_contained l \<longrightarrow>
              cgroup_confirm (hc_os cfg) (hc_cgroups cfg) (lk_cg_leaf l) pid (lk_cg_caps l) w)))"

lemma sandboxed_spawns [simp]:
  "network_sandboxed (l\<lparr>lk_spawns := e\<rparr>) = network_sandboxed l"
  "filesystem_sandboxed (l\<lparr>lk_spawns := e\<rparr>) = filesystem_sandboxed l"
  "resources_contained (l\<lparr>lk_spawns := e\<rparr>) = resources_contained l"
  by (simp_all add: network_sandboxed_def filesystem_sandboxed_def resources_contained_def)

lemma mark_confirmed_spawns [simp]: "mark_confirmed (l\<lparr>lk_spawns := e\<rparr>) = mark_confirmed l"
  by (simp add: mark_confirmed_def fun_eq_iff)

lemma spawn_sandboxed_Inr:
  assumes "spawn_sandboxed cfg l env fd wp = (Inr mps, l')"
  shows "entered cfg l env \<and> lk_resolutions l' = map (mark_confirmed l) (lk_resolutions l) \<and>
    lk_name l' = lk_name l"
proof -
  obtain pid wc wp1 where pid: "se_pid env = Some pid"
    and enters: "child_enters cfg l (se_child_world env) = (True, wc)"
    and shake: "handshake cfg l env pid fd
      ((if filesystem_sandboxed l then fst (run_mount_plan (hc_os cfg) (lk_fs_plan l) wc) else True) \<and>
       se_child_execs env) wp1 = (Inr mps, l')"
  proof -
    obtain pid where pid: "se_pid env = Some pid" and pipes: "se_pipes env"
      using assms by (auto simp: spawn_sandboxed_def split: if_splits option.splits)
    obtain s wc where enters: "child_enters cfg l (se_child_world env) = (s, wc)" by fastforce
    obtain p wp1 where prep: "prepare_child cfg l pid s wp = (p, wp1)" by fastforce
    have "p" using assms pid pipes enters prep by (auto simp: spawn_sandboxed_def split: if_splits)
    then have "s" using prep by (auto simp: prepare_child_def Let_def split: if_splits prod.splits)
    with that [of pid wc wp1] \<open>p\<close> assms pid pipes enters prep show ?thesis
      by (auto simp: spawn_sandboxed_def Let_def split: if_splits)
  qed
  have "entered cfg l env"
    using handshake_Inr [OF shake] enters pid
    by (auto simp: entered_def child_enters_def split: if_splits)
  with handshake_Inr [OF shake] show ?thesis by simp
qed

lemma spawn_Inr:
  assumes "spawn_and_handshake cfg l = (Inr mps, l')"
  shows "\<exists>env envs. lk_spawns l = env # envs \<and> entered cfg l env \<and>
    lk_resolutions l' = map (mark_confirmed l) (lk_resolutions l) \<and> lk_name l' = lk_name l"
proof -
  obtain env envs where envs: "lk_spawns l = env # envs"
    using assms by (auto simp: spawn_and_handshake_def split: list.splits)
  obtain fd where fd: "se_socket env = Some fd"
    using assms envs by (auto simp: spawn_and_handshake_def Let_def split: option.splits)
  define l1 where "l1 = l\<lparr>lk_spawns := envs\<rparr>"
  consider wp where "spawn_sandboxed cfg l1 env fd wp = (Inr mps, l')"
    | pid wp where "\<not> (network_sandboxed l \<or> filesystem_sandboxed l \<or> resources_contained l)"
        "handshake cfg l1 env pid fd (se_child_execs env) wp = (Inr mps, l')"
    using assms envs fd
    by (auto simp: spawn_and_handshake_def Let_def l1_def split: prod.splits if_splits option.splits)
  then show ?thesis
  proof cases
    case 1
    then show ?thesis using spawn_sandboxed_Inr [OF 1] envs by (auto simp: l1_def entered_def)
  next
    case 2
    then show ?thesis using handshake_Inr [OF 2(2)] envs by (auto simp: l1_def entered_def)
  qed
qed

section \<open>A mount that succeeds\<close>

fun cap_granted :: "grant \<Rightarrow> capability \<Rightarrow> bool" where
  "cap_granted gr Cap_Network \<longleftrightarrow> has_os_capability gr os_Network"
| "cap_granted gr Cap_Filesystem \<longleftrightarrow> g_fs gr = Fs_WriteAnywhere"
| "cap_granted gr Cap_Resources \<longleftrightarrow> unlimited (g_res gr)"

text \<open>How a capability must have been resolved.\<close>

definition decided :: "'w host_cfg \<Rightarrow> grant \<Rightarrow> capability_resolution \<Rightarrow> bool" where
  "decided cfg gr r \<longleftrightarrow>
     cr_outcome r =
       (if cap_granted gr (cr_capability r) then Granted
        else if enforceable (hc_enforcement cfg) (cr_capability r) then Enforced else Uncontained) \<and>
     (cr_outcome r = Uncontained \<longrightarrow> hc_dev_mode cfg)"

lemma resolve_capabilities_Inr:
  assumes "resolve_capabilities cfg gr root counter l = Inr (l', counter')"
  shows "map cr_capability (lk_resolutions l') = [Cap_Network, Cap_Filesystem, Cap_Resources] \<and>
    list_all (decided cfg gr) (lk_resolutions l') \<and> lk_name l' = lk_name l \<and> lk_spawns l' = lk_spawns l"
proof -
  have net: "cr_capability net = Cap_Network \<and> decided cfg gr net"
    if "resolve_network cfg gr n = Inr net" for n net
    using that by (auto simp: resolve_network_def decided_def resolution_def split: if_splits)
  have fs: "cr_capability fs = Cap_Filesystem \<and> decided cfg gr fs \<and> lk_name l2 = lk_name l1 \<and> lk_spawns l2 = lk_spawns l1"
    if "resolve_filesystem cfg gr n root l1 = Inr (fs, l2)" for n fs l1 l2
    using that
    by (auto simp: resolve_filesystem_def decided_def resolution_def Let_def split: if_splits option.splits)
  have rc: "cr_capability rc = Cap_Resources \<and> decided cfg gr rc \<and> lk_name l2 = lk_name l1 \<and> lk_spawns l2 = lk_spawns l1"
    if "resolve_resources cfg gr n counter l1 = Inr (rc, l2, c)" for n rc l1 l2 c
    using that by (auto simp: resolve_resources_def decided_def resolution_def Let_def split: if_splits)
  show ?thesis
    using assms
    by (auto simp: resolve_capabilities_def split: sum.splits prod.splits dest!: net fs rc)
qed

lemma resolved_enforced_three:
  assumes "map cr_capability rs = [Cap_Network, Cap_Filesystem, Cap_Resources]" and "r \<in> set rs"
  shows "resolved_enforced (cr_capability r) rs \<longleftrightarrow> cr_outcome r = Enforced"
proof -
  obtain a b c where "rs = [a, b, c]" "cr_capability a = Cap_Network" "cr_capability b = Cap_Filesystem"
    "cr_capability c = Cap_Resources"
    using assms(1) by (auto simp: map_eq_Cons_conv)
  with assms(2) show ?thesis by auto
qed

lemma mark_confirmed_all:
  assumes "map cr_capability (lk_resolutions l) = [Cap_Network, Cap_Filesystem, Cap_Resources]"
    and "r \<in> set (lk_resolutions l)"
  shows "mark_confirmed l r = (if cr_outcome r = Enforced then r\<lparr>cr_confirmed := True\<rparr> else r)"
  using resolved_enforced_three [OF assms]
  by (cases "cr_capability r") (auto simp: mark_confirmed_def network_sandboxed_def
      filesystem_sandboxed_def resources_contained_def)

lemma decided_confirmed [simp]: "decided cfg gr (r\<lparr>cr_confirmed := b\<rparr>) = decided cfg gr r"
  by (simp add: decided_def)

lemma reconstruct_links:
  "reconstruct_and_cache l mps h = (res, h') \<Longrightarrow>
     h_links h' = h_links h \<and> h_leaf_counter h' = h_leaf_counter h \<and>
     b_shards (h_bus h') = b_shards (h_bus h) \<and>
     (\<forall>l'. res = Inr l' \<longrightarrow> lk_resolutions l' = lk_resolutions l \<and> lk_name l' = lk_name l \<and>
        lk_spawns l' = lk_spawns l)"
  by (auto simp: reconstruct_and_cache_def cache_values_def admit_child_def admit_candidate_def Let_def
      split: prod.splits sum.splits if_splits)

lemma register_shard_result:
  "register_shard vt (Some st) gr b = (Inr i, b') \<Longrightarrow> bus_find b' i \<noteq> None"
  "register_shard vt (Some st) gr b = (Inl e, b') \<Longrightarrow> b_shards b' = b_shards b"
  by (auto simp: register_shard_def seed_shard_def mount_record_def Let_def bus_simps
      split: sum.splits prod.splits if_splits)

lemma register_proxy_result:
  assumes "register_proxy cfg nv gr l h = (r, h')"
  shows "if or_ok r then link_of (or_id r) (h_bus h') = Some (l\<lparr>lk_id := or_id r\<rparr>) \<and>
            h_links h' = om_put (lk_name l) (or_id r) (h_links h)
         else h_links h' = h_links h \<and> b_shards (h_bus h') = b_shards (h_bus h)"
  using assms register_shard_result [of "host_ops cfg nv" "ProxyShard l" gr "h_bus h"]
  by (fastforce simp: register_proxy_def oop_refused_def link_of_def Let_def
      split: prod.splits sum.splits option.splits)

section \<open>A child that mounts\<close>

text \<open>A child whose shard has an empty state and accepts nothing, on a host that can enforce everything, with
  the pids controller but not the memory controller.\<close>

lemma admit_child_serialized:
  assumes "wf_schema door" and "exact_value door 0 v" and "value_conforms v door"
    and "valid_utf8 (s_name door)" and "serialize v = Inr bytes"
  shows "\<exists>g. admit_child what door bytes b = (Inr v, b\<lparr>b_gate_calls := g\<rparr>)"
proof -
  have "fst (admit_unverified (\<lambda>_. None) (parse bytes) (Some door) FirstError (b_gate_calls b)) = Inr (accept v)"
    using assms by (simp add: native_admits_iff)
  then obtain g where "admit_unverified (\<lambda>_. None) (parse bytes) (Some door) FirstError (b_gate_calls b) =
      (Inr (accept v), g)" by (metis prod.collapse)
  then show ?thesis
    by (auto simp: admit_child_def admit_candidate_def adm_ok_def adm_value_def accept_def)
qed

definition demo_link_values :: "'w link \<Rightarrow> 'w link" where
  "demo_link_values l =
     l\<lparr>lk_accept := [], lk_state_schema := Some (plain_schema ''S''), lk_policy_value := Some demo_policy,
       lk_snapshot_value := Some demo_snapshot, lk_snapshot_bytes := bytes_of demo_snapshot\<rparr>"

lemma demo_reconstruct:
  fixes h :: "('n, 'w) host"
  assumes "h_registry h = new_registry"
  shows "\<exists>g r. reconstruct_and_cache l (bytes_of demo_manifest, bytes_of demo_policy, bytes_of demo_snapshot) h =
     (Inr (demo_link_values l), h\<lparr>h_bus := (h_bus h)\<lparr>b_gate_calls := g\<rparr>, h_registry := r\<rparr>)"
proof -
  obtain g1 where m: "admit_child ''manifest'' manifest_sch (bytes_of demo_manifest) (h_bus h) =
      (Inr demo_manifest, (h_bus h)\<lparr>b_gate_calls := g1\<rparr>)"
    using admit_child_serialized [OF _ demo_exact(1) demo_conforms(1) _ demo_serialized(1)]
    by (auto simp: manifest_schema_eq manifest_sch_name)
  obtain g2 where p: "admit_child ''policy'' policy_schema (bytes_of demo_policy) ((h_bus h)\<lparr>b_gate_calls := g1\<rparr>) =
      (Inr demo_policy, (h_bus h)\<lparr>b_gate_calls := g2\<rparr>)"
    using admit_child_serialized [OF _ demo_exact(2) demo_conforms(2) _ demo_serialized(2),
        where b = "(h_bus h)\<lparr>b_gate_calls := g1\<rparr>"] by auto
  obtain g3 where s: "admit_child ''snapshot'' (plain_schema ''S'') (bytes_of demo_snapshot) ((h_bus h)\<lparr>b_gate_calls := g2\<rparr>) =
      (Inr demo_snapshot, (h_bus h)\<lparr>b_gate_calls := g3\<rparr>)"
    using admit_child_serialized [OF _ demo_exact(3) demo_conforms(3) _ demo_serialized(3),
        where b = "(h_bus h)\<lparr>b_gate_calls := g2\<rparr>"] by auto
  show ?thesis
    using m p s demo_decode assms
    by (auto simp: reconstruct_and_cache_def cache_values_def manifest_schema_eq demo_link_values_def)
qed

definition demo_os :: "unit os" where
  "demo_os =
     \<lparr>os_sys = (\<lambda>_ w. (Ret 0, w)),
      os_read_text = (\<lambda>p w. if p = ''/proc/7/cgroup'' then ''0::/z/zen-shard-0''
                            else if p = ''/cg/zen-shard-0/pids.max'' then ''512'' else []),
      os_write_text = (\<lambda>_ _ w. (True, w)),
      os_stat = (\<lambda>p _. Some (4, if take 11 p = ''/proc/self/'' then 1 else 2)), os_cgroup2_mounted = (\<lambda>_. True)\<rparr>"

definition demo_cfg :: "unit host_cfg" where
  "demo_cfg =
     \<lparr>hc_exe = ''/opt/z/host'', hc_os = demo_os,
      hc_cgroups = \<lparr>cg_base = ''/cg'', cg_memory = False, cg_pids = True, cg_cpu = False\<rparr>, hc_meminfo = [],
      hc_uid = 1000, hc_gid = 1000, hc_is_dir = (\<lambda>_. True),
      hc_enforcement =
        [status Cap_Network True [] [], status Cap_Filesystem True [] [], status Cap_Resources True [] []],
      hc_dev_mode = False, hc_force_entry_failure = False\<rparr>"

definition demo_hello :: incoming where
  "demo_hello =
     \<lparr>in_op = Op_Hello,
      in_payload = ipc_put_bytes (ipc_put_bytes (ipc_put_bytes [] (bytes_of demo_manifest)) (bytes_of demo_policy))
        (bytes_of demo_snapshot)\<rparr>"

definition demo_env :: "unit spawn_env" where
  "demo_env =
     \<lparr>se_socket = Some 5, se_pipes = True, se_pid = Some 7, se_child_world = (), se_parent_world = (),
      se_child_execs = True, se_waits = [([RecvBytes (frame_bytes demo_hello), RecvAgain], WaitTimeout)]\<rparr>"

lemma run_plan_all_ok: "(\<And>c w. os_sys os c w = (Ret 0, w)) \<Longrightarrow> run_mount_plan os plan w = (True, w)"
proof (induction plan)
  case (Cons op plan)
  then have "run_mount_op os op w = (True, w)" by (cases "mo_kind op") (auto simp: sys_ok_def)
  with Cons show ?case by simp
qed simp

lemma demo_plan_runs: "run_mount_plan demo_os plan w = (True, w)"
  by (rule run_plan_all_ok) (simp add: demo_os_def)

text \<open>The sizes of the three values are small.\<close>

lemma cu_bytes_put:
  assumes "length b < 2 ^ 32" and "drop i data = put_u32le (of_nat (length b)) [] @ b @ rest"
  shows "cu_bytes \<lparr>cu_data = data, cu_i = i\<rparr> =
     (Some b, \<lparr>cu_data = data, cu_i = i + 4 + length b\<rparr>)"
proof -
  have len: "4 + length b + length rest = length data - i"
    using arg_cong [OF assms(2), of length] by simp
  then have "i + 4 + length b \<le> length data" by linarith
  moreover have "le_word 4 (drop i data) = (of_nat (length b) :: u32)"
    using u32_codec.dec_enc [of "of_nat (length b)" "b @ rest"] len
    by (simp add: assms(2) [symmetric] read_u32le_le_word split: if_splits)
  then have "fold (\<lambda>k v. v OR push_bit (8 * k) (ucast (byte_of (data ! (i + k))))) [0..<4] 0 = (of_nat (length b) :: u32)"
    using len by (simp add: le_word_def upt_rec)
  moreover have "drop (i + 4) data = b @ rest"
    using arg_cong [OF assms(2), of "drop 4"] by (simp add: add.commute)
  moreover have "unat (of_nat (length b) :: u32) = length b" using assms(1) by (simp add: unat_of_nat)
  ultimately show ?thesis
    using len by (simp add: cu_bytes_def cu_u32_def cu_remaining_def not_less)
qed

lemma ipc_put_bytes_append: "ipc_put_bytes out b = out @ put_u32le (of_nat (length b)) [] @ b"
  by (simp add: ipc_put_bytes_def ipc_put_u32_le put_u32le_append [of _ out])

lemma read_hello_put:
  assumes "length m < 2 ^ 32" and "length p < 2 ^ 32" and "length s < 2 ^ 32"
  shows "read_hello (ipc_put_bytes (ipc_put_bytes (ipc_put_bytes [] m) p) s) = Some (m, p, s)"
proof -
  let ?d = "ipc_put_bytes (ipc_put_bytes (ipc_put_bytes [] m) p) s"
  have d: "?d = (put_u32le (of_nat (length m)) [] @ m) @ (put_u32le (of_nat (length p)) [] @ p) @
      put_u32le (of_nat (length s)) [] @ s @ []"
    by (simp add: ipc_put_bytes_append)
  have "cu_bytes \<lparr>cu_data = ?d, cu_i = 0\<rparr> = (Some m, \<lparr>cu_data = ?d, cu_i = 4 + length m\<rparr>)"
    using cu_bytes_put [OF assms(1), of 0 ?d] by (simp add: d)
  moreover have "cu_bytes \<lparr>cu_data = ?d, cu_i = 4 + length m\<rparr> =
      (Some p, \<lparr>cu_data = ?d, cu_i = 4 + length m + 4 + length p\<rparr>)"
    by (rule cu_bytes_put [OF assms(2)]) (simp add: d)
  moreover have "cu_bytes \<lparr>cu_data = ?d, cu_i = 4 + length m + 4 + length p\<rparr> =
      (Some s, \<lparr>cu_data = ?d, cu_i = 4 + length m + 4 + length p + 4 + length s\<rparr>)"
    by (rule cu_bytes_put [OF assms(3)]) (simp add: d)
  ultimately show ?thesis by (simp add: read_hello_def new_cursor_def)
qed

lemma native_header_length: "length (native_header n v c) = 17 + length n"
  by (simp add: native_header_def put_u8_def put_u16le_octets put_u64le_octets)

lemma zigzag_length: "length (put_zigzag i []) \<le> 10"
  by (simp add: put_zigzag_zigzag length_put_uvarint)

lemma demo_body_lengths:
  "length (value_bytes demo_manifest) \<le> 100" "length (value_bytes demo_policy) \<le> 100"
  "length (value_bytes demo_snapshot) \<le> 100"
proof -
  show "length (value_bytes demo_snapshot) \<le> 100"
    by (simp add: value_bytes_slots demo_snapshot_def plain_schema_def slots_of_def mask_of_def)
  show "length (value_bytes demo_policy) \<le> 100"
    using zigzag_length [of 2]
    by (simp add: value_bytes_slots demo_policy_def policy_schema_def slots_of_def mask_of_def value_at_def
        opt_bytes_def put_u8_def Let_def upt_rec)
  show "length (value_bytes demo_manifest) \<le> 100"
    using zigzag_length [of 1] length_put_uvarint [of 0] length_put_uvarint [of 1]
    by (simp add: value_bytes_slots demo_manifest_def manifest_value_def schema_value_def plain_schema_def
        slots_of_def mask_of_def value_at_def opt_bytes_def Let_def upt_rec manifest_schema_eq schema_desc_schema_eq)
qed

lemma demo_lengths:
  "length (bytes_of demo_manifest) \<le> 200" "length (bytes_of demo_policy) \<le> 200"
  "length (bytes_of demo_snapshot) \<le> 200"
  using demo_exact [THEN serialize_bytes_of] demo_body_lengths
  by (simp_all add: native_header_length manifest_sch_name)

lemma demo_hello_read:
  "read_hello (in_payload demo_hello) = Some (bytes_of demo_manifest, bytes_of demo_policy, bytes_of demo_snapshot)"
  using demo_lengths by (simp add: demo_hello_def read_hello_put)

lemma demo_hello_arrives:
  "\<exists>ch. wait_for_hello (child_rounds True demo_env) (new_channel 5) = (Some demo_hello, ch)"
proof -
  have "length (frame_bytes demo_hello) \<le> 1000"
    using demo_lengths by (simp add: demo_hello_def ipc_put_bytes_append)
  then have small: "frame_ok demo_hello" "length (frame_bytes demo_hello) \<le> kMaxBacklog" "frame_bytes demo_hello \<noteq> []"
    by (auto simp: frame_ok_def kMaxFrameLen_def kMaxBacklog_def frame_bytes_def put_u8_def)
  then have "frames_loop (frame_bytes demo_hello) 0 [] = ([demo_hello], length (frame_bytes demo_hello), False)"
    using frames_loop_frames [of 0 "frame_bytes demo_hello" "[demo_hello]" "[]" "[]"]
    by (simp add: read_frame_alt oversized_def)
  with small show ?thesis
    by (auto simp: child_rounds_def demo_env_def ch_poll_def new_channel_def Let_def demo_hello_def)
qed

definition new_host :: "('n, 'w) host" where
  "new_host = \<lparr>h_bus = new_bus 0, h_registry = new_registry, h_links = [], h_leaf_counter = 0\<rparr>"

lemma demo_resolved:
  "\<exists>l. resolve_capabilities demo_cfg grant_nothing (Some ''/tmp/r'') 0 (new_link ''a'' ''/opt/z/a.so'' [demo_env]) = Inr (l, 1) \<and>
     lk_spawns l = [demo_env] \<and> lk_cg_leaf l = ''zen-shard-0'' \<and> lk_cg_caps l = cgroup_default_caps [] \<and>
     lk_resolutions l = [resolution Cap_Network Enforced [], resolution Cap_Filesystem Enforced ''none'',
       resolution Cap_Resources Enforced ''memory<=512MiB, pids<=512'']"
  by (auto simp: resolve_capabilities_def resolve_network_def resolve_filesystem_def resolve_resources_def
      has_os_capability_def grant_nothing_def os_Network_def enforceable_def demo_cfg_def status_def
      new_link_def limited_caps_def cgroup_default_caps_def ll_to_string_def to_string.simps digit_char_def
      char_of_def bit_Suc_0_iff Let_def)

lemma demo_spawns:
  assumes "lk_spawns l = [demo_env]" and "lk_cg_leaf l = ''zen-shard-0''" and "lk_cg_caps l = cgroup_default_caps []"
    and "lk_resolutions l = [resolution Cap_Network Enforced a, resolution Cap_Filesystem Enforced b,
       resolution Cap_Resources Enforced c]"
  shows "\<exists>l'. spawn_and_handshake demo_cfg l =
     (Inr (bytes_of demo_manifest, bytes_of demo_policy, bytes_of demo_snapshot), l')"
proof -
  have on: "network_sandboxed l" "filesystem_sandboxed l" "resources_contained l"
    using assms(4) by (simp_all add: network_sandboxed_def filesystem_sandboxed_def resources_contained_def resolution_def)
  have confirm: "cgroup_confirm demo_os (hc_cgroups demo_cfg) ''zen-shard-0'' 7 (cgroup_default_caps []) ()"
    "child_netns_is_isolated demo_os 7 ()" "child_mountns_is_isolated demo_os 7 ()"
    by code_simp+
  obtain ch where hello: "wait_for_hello (child_rounds True demo_env) (new_channel 5) = (Some demo_hello, ch)"
    using demo_hello_arrives by blast
  have shake: "\<exists>l'. handshake demo_cfg (l\<lparr>lk_spawns := []\<rparr>) demo_env 7 5 True () =
      (Inr (bytes_of demo_manifest, bytes_of demo_policy, bytes_of demo_snapshot), l')"
    using hello on assms(2,3) confirm
    by (simp add: handshake_def demo_hello_read demo_cfg_def [THEN arg_cong, of hc_os])
  have leaf: "cgroup_create_leaf demo_os (hc_cgroups demo_cfg) n caps () = (True, ())" for n caps
    by (auto simp: cgroup_create_leaf_def write_limit_def demo_os_def demo_cfg_def sys_ok_def Let_def)
  have enters: "child_enters demo_cfg l' () = (True, ())" for l' :: "unit link"
    by (simp add: child_enters_def demo_cfg_def unshare_isolation_def demo_os_def sys_ok_def)
  have prepare: "prepare_child demo_cfg l' pid True () = (True, ())" for l' :: "unit link" and pid
    by (simp add: prepare_child_def demo_cfg_def write_isolation_id_maps_def write_single_map_def write_proc_def
        cgroup_move_pid_def demo_os_def)
  have fields: "hc_os demo_cfg = demo_os" "se_socket demo_env = Some 5" "se_pipes demo_env" "se_pid demo_env = Some 7"
    "se_child_execs demo_env"
    by (simp_all add: demo_cfg_def demo_env_def)
  show ?thesis
    using shake on assms(1)
    by (simp add: spawn_and_handshake_def spawn_sandboxed_def leaf enters prepare fields demo_plan_runs)
qed

lemma demo_registers:
  assumes "lk_accept l = []" and "lk_snapshot_value l = Some demo_snapshot"
  shows "\<exists>i b'. register_shard (host_ops cfg nv) (Some (ProxyShard l)) gr (b\<lparr>b_registry := new_registry\<rparr>) = (Inr i, b')"
  using assms plain_admitted [of "''S''" FirstError]
  by (simp add: register_shard_def host_ops_def seed_shard_def demo_snapshot_def register_schema_def new_registry_def
      mount_record_def accept_def adm_ok_def adm_value_def Let_def)

text \<open>
  C14: A shard never runs with more power than its grant gives, unless dev mode says so visibly. When
  \<open>mount\<close> succeeds, its link records exactly one resolution for the network, the filesystem and the
  resources; a capability is recorded as granted exactly when the grant opts out of its confinement;
  otherwise it is enforced and confirmed when this host can enforce it, and left uncontained only in dev
  mode. For what is enforced the child really entered its namespaces and ran the whole mount plan before
  the shard's code, its namespaces were seen to differ from the host's, and its limits were read back.
  When \<open>mount\<close> refuses, no proxy is on the bus and no name is taken.
\<close>

theorem mount_fail_safe:
  assumes "mount cfg nv name so_path gr root envs h = (r, h')"
  shows "if or_ok r then
     (\<exists>l l0 env. link_of (or_id r) (h_bus h') = Some l \<and> lk_name l = name \<and>
        om_find (h_links h') name = Some (or_id r) \<and>
        map cr_capability (lk_resolutions l) = [Cap_Network, Cap_Filesystem, Cap_Resources] \<and>
        list_all (decided cfg gr) (lk_resolutions l) \<and>
        list_all (\<lambda>x. cr_outcome x = Enforced \<longrightarrow> cr_confirmed x) (lk_resolutions l) \<and>
        (\<exists>c. resolve_capabilities cfg gr root (h_leaf_counter h) (new_link name so_path envs) = Inr (l0, c)) \<and>
        env = hd envs \<and> entered cfg l0 env)
   else h_links h' = h_links h \<and> b_shards (h_bus h') = b_shards (h_bus h)"
proof (cases "\<exists>l0 c l1 mps h2 l2. om_find (h_links h) name = None \<and>
    resolve_capabilities cfg gr root (h_leaf_counter h) (new_link name so_path envs) = Inr (l0, c) \<and>
    spawn_and_handshake cfg l0 = (Inr mps, l1) \<and>
    reconstruct_and_cache l1 mps (h\<lparr>h_leaf_counter := c\<rparr>) = (Inr l2, h2)")
  case False
  then show ?thesis
    using assms
    by (auto simp: mount_def oop_refused_def Let_def dest: reconstruct_links
        split: if_splits sum.splits prod.splits)
next
  case True
  then obtain l0 c l1 mps h2 l2 where free: "om_find (h_links h) name = None"
    and res: "resolve_capabilities cfg gr root (h_leaf_counter h) (new_link name so_path envs) = Inr (l0, c)"
    and spawn: "spawn_and_handshake cfg l0 = (Inr mps, l1)"
    and rec: "reconstruct_and_cache l1 mps (h\<lparr>h_leaf_counter := c\<rparr>) = (Inr l2, h2)" by blast
  have reg: "register_proxy cfg nv gr l2 h2 = (r, h')"
    using assms free res spawn rec by (simp add: mount_def Let_def)
  note l0 = resolve_capabilities_Inr [OF res]
  obtain env rest where env: "lk_spawns l0 = env # rest" "entered cfg l0 env"
    "lk_resolutions l1 = map (mark_confirmed l0) (lk_resolutions l0)" "lk_name l1 = lk_name l0"
    using spawn_Inr [OF spawn] by blast
  have l2: "lk_resolutions l2 = map (\<lambda>r. if cr_outcome r = Enforced then r\<lparr>cr_confirmed := True\<rparr> else r) (lk_resolutions l0)"
    "lk_name l2 = name" "h_links h2 = h_links h" "b_shards (h_bus h2) = b_shards (h_bus h)"
    using reconstruct_links [OF rec] env l0 mark_confirmed_all [of l0]
    by (auto simp: new_link_def)
  have "map cr_capability (lk_resolutions l2) = map cr_capability (lk_resolutions l0)"
    by (auto simp: l2 comp_def)
  moreover have "list_all (decided cfg gr) (lk_resolutions l2)"
    using l0 by (auto simp: l2 list_all_iff)
  moreover have "list_all (\<lambda>x. cr_outcome x = Enforced \<longrightarrow> cr_confirmed x) (lk_resolutions l2)"
    by (auto simp: l2 list_all_iff)
  moreover have "env = hd envs" using l0 env(1) by (metis list.sel(1) new_link_def link.select_convs(19))
  ultimately show ?thesis
    using register_proxy_result [OF reg] res l0 env(2) l2
    by (auto simp: om_find_put intro!: exI [of _ l0] split: if_splits)
qed

lemma demo_mounts:
  fixes nv :: "'n shard_ops"
  shows "\<exists>r h'. mount demo_cfg nv ''a'' ''/opt/z/a.so'' grant_nothing (Some ''/tmp/r'') [demo_env] new_host = (r, h') \<and> or_ok r"
proof -
  obtain l where l: "resolve_capabilities demo_cfg grant_nothing (Some ''/tmp/r'') 0
      (new_link ''a'' ''/opt/z/a.so'' [demo_env]) = Inr (l, 1)"
    and "\<exists>l'. spawn_and_handshake demo_cfg l =
     (Inr (bytes_of demo_manifest, bytes_of demo_policy, bytes_of demo_snapshot), l')"
    using demo_resolved demo_spawns by blast
  then obtain l' where spawn: "spawn_and_handshake demo_cfg l =
     (Inr (bytes_of demo_manifest, bytes_of demo_policy, bytes_of demo_snapshot), l')" by blast
  obtain g r where rec: "reconstruct_and_cache l' (bytes_of demo_manifest, bytes_of demo_policy, bytes_of demo_snapshot)
      ((new_host :: ('n, unit) host)\<lparr>h_leaf_counter := 1\<rparr>) = (Inr (demo_link_values l'),
        new_host\<lparr>h_leaf_counter := 1, h_bus := (new_bus 0)\<lparr>b_gate_calls := g\<rparr>, h_registry := r\<rparr>)"
    using demo_reconstruct [of "(new_host :: ('n, unit) host)\<lparr>h_leaf_counter := 1\<rparr>" l'] by (auto simp: new_host_def)
  obtain i b' where "register_shard (host_ops demo_cfg nv) (Some (ProxyShard (demo_link_values l'))) grant_nothing
      ((new_bus 0)\<lparr>b_gate_calls := g\<rparr>) = (Inr i, b')"
    using demo_registers [of "demo_link_values l'" demo_cfg nv grant_nothing "(new_bus 0)\<lparr>b_gate_calls := g\<rparr>"]
    by (auto simp: demo_link_values_def new_bus_def)
  then show ?thesis
    using l spawn rec by (simp add: mount_def new_host_def register_proxy_def Let_def)
qed

theorem mount_fail_safe_witness:
  "\<exists>r h' l. mount demo_cfg relay_ops ''a'' ''/opt/z/a.so'' grant_nothing (Some ''/tmp/r'') [demo_env] new_host = (r, h') \<and>
     link_of (or_id r) (h_bus h') = Some l \<and> map cr_outcome (lk_resolutions l) = [Enforced, Enforced, Enforced] \<and>
     map cr_confirmed (lk_resolutions l) = [True, True, True]"
proof -
  obtain r h' where run: "mount demo_cfg relay_ops ''a'' ''/opt/z/a.so'' grant_nothing (Some ''/tmp/r'') [demo_env]
      new_host = (r, h')" and ok: "or_ok r"
    using demo_mounts by blast
  from mount_fail_safe [OF run] ok obtain l where l: "link_of (or_id r) (h_bus h') = Some l"
    "map cr_capability (lk_resolutions l) = [Cap_Network, Cap_Filesystem, Cap_Resources]"
    "list_all (decided demo_cfg grant_nothing) (lk_resolutions l)"
    "list_all (\<lambda>x. cr_outcome x = Enforced \<longrightarrow> cr_confirmed x) (lk_resolutions l)" by auto
  have "cr_outcome x = Enforced" if "decided demo_cfg grant_nothing x" for x
    using that by (cases "cr_capability x") (auto simp: decided_def grant_nothing_def has_os_capability_def os_Network_def
        enforceable_def demo_cfg_def status_def)
  with l show ?thesis using run by (intro exI [of _ r] exI [of _ h'] exI [of _ l]) (auto simp: map_eq_Cons_conv)
qed

section \<open>Whatever a child sends\<close>

lemma child_emits_confined:
  assumes "bus_ok b" and "child_emits i payload b = (res, b')"
  shows "res = Inr () \<and> appended (stamped_delivery i (b_registry b)) b b'"
proof (cases "read_emit payload")
  case None
  with assms show ?thesis by (simp add: child_emits_def appended_refl)
next
  case (Some hdr)
  obtain kind target reply correlation bytes where hdr: "hdr = (kind, target, reply, correlation, bytes)"
    by (cases hdr) auto
  define look where "look = resolve_schema (claimed_name (parse bytes)) (claimed_version (parse bytes)) b"
  show ?thesis
  proof (cases look)
    case None
    with assms Some hdr show ?thesis by (simp add: child_emits_def look_def appended_refl)
  next
    case (Some door)
    then have door: "wf_schema door" "reg_lookup (b_registry b) (s_name door) (s_version door) = Some door"
      using assms(1) reg_lookup_key by (auto simp: look_def resolve_schema_def bus_ok_def)
    obtain a g where cand: "admit_candidate door bytes b = (Inr a, b\<lparr>b_gate_calls := g\<rparr>)"
      using candidate_returns by blast
    show ?thesis
    proof (cases "adm_ok a")
      case False
      with assms \<open>read_emit payload = Some hdr\<close> hdr Some cand show ?thesis
        using appended_gate [of _ b g] by (auto simp: child_emits_def look_def)
    next
      case True
      then obtain v where v: "adm_value a = Inr v" "v_schema v = door" "value_conforms v door"
        using candidate_admitted [OF door(1) cand] by metis
      then have gated: "gated_value (b_registry b) v" using door by (auto simp: gated_value_def)
      let ?msg = "\<lparr>m_payload = v, m_sender = 0, m_reply_to = reply, m_correlation = correlation\<rparr>"
      let ?b = "b\<lparr>b_gate_calls := g\<rparr>"
      have "appended (stamped_delivery i (b_registry b)) ?b (snd (publish_as i ?msg ?b))"
        unfolding publish_as_def by (rule appended_fanout) (simp add: stamped_delivery_def gated)
      moreover have "appended (stamped_delivery i (b_registry b)) ?b (snd (send_as i target ?msg ?b))"
        unfolding send_as_def by (rule appended_enqueue) (simp add: stamped_delivery_def gated)
      ultimately show ?thesis
        using assms(2) \<open>read_emit payload = Some hdr\<close> hdr Some cand True v(1) appended_gate_first
        by (auto simp: child_emits_def look_def Let_def split: if_splits)
    qed
  qed
qed

lemma bus_ok_put_link: "bus_ok b \<Longrightarrow> bus_ok (put_link i l b)"
  by (auto simp: put_link_def bus_ok_put_record bus_ok_find split: option.splits)

text \<open>
  C15: A child cannot reach the bus except as itself and through the gate. Whatever octets a frame from a
  child holds, handling it never throws, keeps the invariant of the bus, and does one of three things:
  nothing but count a gate call; append deliveries that are stamped with the child's own id, are to be
  authorised against its grant, and carry a value that conforms to a published schema; or replace the
  cached snapshot by a value that conforms to the child's state schema, of which the frame is the
  canonical encoding.
\<close>

theorem child_output_confined:
  fixes b :: "('n, 'w) hosted bus"
  assumes "bus_ok b" and "link_of i b = Some l" and "lk_id l = i"
    and "lk_state_schema l = Some st" and "wf_schema st"
    and "handle_child_frame i f b = (res, b')"
  shows "res = Inr () \<and> bus_ok b' \<and>
    (appended (stamped_delivery i (b_registry b)) b b' \<or>
     (\<exists>v g. value_conforms v st \<and> v_schema v = st \<and> serialize v = Inr (in_payload f) \<and>
        b' = put_link i (l\<lparr>lk_snapshot_value := Some v, lk_snapshot_bytes := in_payload f\<rparr>)
               (b\<lparr>b_gate_calls := g\<rparr>)))"
proof -
  consider "in_op f = Op_Emit" | "in_op f = Op_Snapshot" "in_op f \<noteq> Op_Emit"
    | "in_op f \<noteq> Op_Emit" "in_op f \<noteq> Op_Snapshot" by blast
  then show ?thesis
  proof cases
    case 1
    then show ?thesis
      using assms child_emits_confined [OF assms(1), of i "in_payload f" res b']
        bus_ok_appended [OF assms(1), of "stamped_delivery i (b_registry b)" b']
      by (simp add: handle_child_frame_def)
  next
    case 2
    obtain a g where cand: "admit_candidate st (in_payload f) b = (Inr a, b\<lparr>b_gate_calls := g\<rparr>)"
      using candidate_returns by blast
    show ?thesis
    proof (cases "adm_ok a")
      case True
      from candidate_admitted [OF assms(5) cand True] obtain v where v: "adm_value a = Inr v" "v_schema v = st"
        "value_conforms v st" "serialize v = Inr (in_payload f)" by metis
      then show ?thesis
        using assms 2 cand True by (auto simp: handle_child_frame_def child_snapshot_def bus_ok_put_link)
    next
      case False
      then show ?thesis
        using assms 2 cand by (auto simp: handle_child_frame_def child_snapshot_def appended_gate)
    qed
  next
    case 3
    then show ?thesis using assms by (simp add: handle_child_frame_def appended_refl)
  qed
qed

definition demo_link :: "unit link" where
  "demo_link = demo_link_values (new_link ''a'' ''/opt/z/a.so'' [])\<lparr>lk_id := 1\<rparr>"

definition demo_bus :: "(unit, unit) hosted bus" where
  "demo_bus = snd (seed_shard (ProxyShard demo_link) [] demo_snapshot grant_nothing (new_bus 0))"

lemma demo_bus_ok: "bus_ok demo_bus"
  unfolding demo_bus_def by (rule seed_shard_ok) (simp_all add: demo_snapshot_def)

lemma demo_bus_find: "\<exists>rec. bus_find demo_bus 1 = Some rec \<and> sr_shard rec = ProxyShard demo_link \<and>
   sr_state_schema rec = plain_schema ''S'' \<and> sr_reloads_used rec = 0"
  using plain_admitted [of "''S''" FirstError]
  by (simp add: demo_bus_def seed_shard_def demo_snapshot_def register_schema_def new_bus_def new_registry_def
      mount_record_def accept_def adm_ok_def adm_value_def Let_def bus_find_def put_record_def note_trace_def)

lemma demo_link_of: "link_of 1 demo_bus = Some demo_link"
  using demo_bus_find by (auto simp: link_of_def)

theorem child_output_confined_witness:
  "\<exists>b'. handle_child_frame 1 \<lparr>in_op = Op_Snapshot, in_payload = ''garbage''\<rparr> demo_bus = (Inr (), b') \<and> bus_ok b'"
proof -
  obtain res b' where run: "handle_child_frame 1 \<lparr>in_op = Op_Snapshot, in_payload = ''garbage''\<rparr> demo_bus = (res, b')"
    by fastforce
  have "lk_id demo_link = 1" "lk_state_schema demo_link = Some (plain_schema ''S'')"
    by (simp_all add: demo_link_def demo_link_values_def)
  from child_output_confined [OF demo_bus_ok demo_link_of this plain_schema_wf run] run show ?thesis by auto
qed

section \<open>Supervision\<close>

lemma link_of_put_link: "link_of i b = Some l0 \<Longrightarrow> link_of i (put_link i l b) = Some l"
  by (auto simp: link_of_def put_link_def split: option.splits)

lemma bus_find_put_link:
  "bus_find b i = Some rec \<Longrightarrow> bus_find (put_link i l b) i = Some (rec\<lparr>sr_shard := ProxyShard l\<rparr>)"
  by (simp add: put_link_def)

lemma link_of_find: "link_of i b = Some l \<Longrightarrow> \<exists>rec. bus_find b i = Some rec \<and> sr_shard rec = ProxyShard l"
  by (auto simp: link_of_def split: option.splits hosted.splits)

definition same_link :: "'w link \<Rightarrow> 'w link \<Rightarrow> bool" where
  "same_link l l' \<longleftrightarrow> lk_id l' = lk_id l \<and> lk_quarantined l' = lk_quarantined l"

lemma handshake_keeps: "same_link l (snd (handshake cfg l env pid fd running wp))"
  by (simp add: handshake_def same_link_def Let_def split: prod.split option.split)

lemma spawn_sandboxed_keeps: "same_link l (snd (spawn_sandboxed cfg l env fd wp))"
  by (simp add: spawn_sandboxed_def same_link_def handshake_keeps [unfolded same_link_def] Let_def
      split: prod.split option.split)

lemma spawn_keeps: "same_link l (snd (spawn_and_handshake cfg l))"
proof (cases "lk_spawns l")
  case (Cons env envs)
  then show ?thesis
    by (simp add: spawn_and_handshake_def same_link_def handshake_keeps [unfolded same_link_def]
        spawn_sandboxed_keeps [unfolded same_link_def] Let_def split: option.split prod.split)
qed (simp add: spawn_and_handshake_def same_link_def)

lemma same_link_teardown: "same_link l (teardown_child l')  \<longleftrightarrow> same_link l l'" "same_link (teardown_child l) l' \<longleftrightarrow> same_link l l'"
  by (simp_all add: same_link_def teardown_child_def)

lemma same_link_channel: "same_link l (l'\<lparr>lk_channel := c\<rparr>) \<longleftrightarrow> same_link l l'"
  by (simp add: same_link_def)

lemma respawn_keeps: "same_link l (snd (respawn_and_revive cfg l v))"
proof -
  define l1 where "l1 = (if lk_channel l \<noteq> None then teardown_child l else l)"
  obtain r l2 where spawn: "spawn_and_handshake cfg l1 = (r, l2)" by fastforce
  then have "same_link l l2" using spawn_keeps [of l1 cfg] by (auto simp: l1_def same_link_teardown split: if_splits)
  with spawn show ?thesis
    unfolding respawn_and_revive_def Let_def l1_def [symmetric]
    by (cases r; cases "serialize v") (simp_all add: same_link_teardown same_link_channel)
qed

text \<open>What supervision leaves of a link: quarantined with no child, or live again.\<close>

definition link_settled :: "'w link \<Rightarrow> bool" where
  "link_settled l \<longleftrightarrow>
     (if lk_quarantined l then lk_dead l \<and> lk_channel l = None \<and> lk_pid l \<le> 0
      else \<not> lk_dead l \<and> \<not> lk_death_signaled l \<and> lk_channel l \<noteq> None)"

text \<open>A revival was allowed by the shard's own policy and counted.\<close>

definition charged :: "'s shard_record \<Rightarrow> 's shard_record \<Rightarrow> zvalue option \<Rightarrow> bool" where
  "charged rec rec' policy \<longleftrightarrow>
     sr_alive rec' \<and> sr_reloads_used rec' = sr_reloads_used rec + 1 \<and>
     (\<exists>p n f. policy = Some p \<and> read_policy p = Inr (n, f) \<and> sint (sr_reloads_used rec) < sint n)"

lemma recover_settles:
  fixes b :: "('n, 'w) hosted bus"
  assumes ok: "bus_ok b" and find: "bus_find b i = Some rec" and "sr_shard rec = ProxyShard l" and "lk_id l = i"
    and "\<not> lk_quarantined l" and run: "recover cfg nv i l b = (Inr (), b')"
  shows "\<exists>l' rec'. bus_find b' i = Some rec' \<and> sr_shard rec' = ProxyShard l' \<and> lk_id l' = i \<and> link_settled l' \<and>
    (\<not> lk_quarantined l' \<longrightarrow> charged rec rec' (lk_policy_value l))"
proof -
  define b0 where "b0 = put_link i (teardown_child l) b"
  define rec0 where "rec0 = rec\<lparr>sr_shard := ProxyShard (teardown_child l)\<rparr>"
  have b0: "bus_ok b0" "bus_find b0 i = Some rec0"
    using ok find by (simp_all add: b0_def rec0_def bus_ok_put_link bus_find_put_link)
  obtain ro b1 where re: "reload (host_ops cfg nv) i (lk_snapshot_bytes l) b0 = (Inr ro, b1)"
    using run assms(4) by (auto simp: recover_def b0_def split: prod.splits sum.splits)
  note out = reload_record [OF bus_ok_find [OF b0] b0(2) re]
  obtain l1 rec1 where l1: "bus_find b1 i = Some rec1" "sr_shard rec1 = ProxyShard l1" "lk_id l1 = i" "\<not> lk_quarantined l1"
    and ch: "ro_revived ro \<Longrightarrow> charged rec rec1 (lk_policy_value l)"
  proof (cases "ro_revived ro")
    case True
    then obtain p n f v st where r: "vt_policy (host_ops cfg nv) (sr_shard rec0) = Inr p" "read_policy p = Inr (n, f)"
      "sint (sr_reloads_used rec0) < sint n" "vt_revive (host_ops cfg nv) (sr_shard rec0) v = (Inr (), st)"
      "bus_find b1 i = Some (rec0\<lparr>sr_shard := st, sr_last_known_good := v,
        sr_reloads_used := sr_reloads_used rec0 + 1, sr_alive := True\<rparr>)"
      using out by auto
    define l1 where "l1 = snd (respawn_and_revive cfg (teardown_child l) v)"
    have st: "st = ProxyShard l1"
      using r(4) by (auto simp: host_ops_def rec0_def l1_def map_prod_def split: prod.splits)
    have "same_link (teardown_child l) l1" unfolding l1_def by (rule respawn_keeps)
    with that [OF r(5)] st r(1-3) assms(4,5) show ?thesis
      by (auto simp: same_link_def teardown_child_def charged_def host_ops_def rec0_def)
  next
    case False
    then show ?thesis using that [of rec0] out assms(4,5) by (auto simp: rec0_def teardown_child_def)
  qed
  then have link: "link_of i b1 = Some l1" by (simp add: link_of_def)
  show ?thesis
  proof (cases "ro_revived ro \<and> lk_channel l1 \<noteq> None")
    case True
    then have "b' = put_link i (l1\<lparr>lk_dead := False, lk_death_signaled := False\<rparr>) b1"
      using run re link assms(4) by (auto simp: recover_def b0_def)
    with l1 ch True show ?thesis
      by (auto simp: bus_find_put_link link_settled_def charged_def)
  next
    case False
    then have "b' = put_link i (teardown_child (l1\<lparr>lk_quarantined := True, lk_dead := True\<rparr>)) b1"
      using run re link assms(4) by (auto simp: recover_def b0_def)
    with l1 show ?thesis by (auto simp: bus_find_put_link link_settled_def teardown_child_def)
  qed
qed

text \<open>
  C17: A dead child is revived within its allowance or quarantined, never left in between. When supervision of a
  link that is not quarantined returns, then: a link whose child is alive is untouched, and so is the bus;
  otherwise the link is either live again (a fresh child, the death forgotten, the shard alive on the bus, one
  more reload counted, and the policy it declared at the handshake allowed it), or quarantined with no
  channel and no process.
\<close>

theorem supervision_settles:
  fixes b :: "('n, 'w) hosted bus"
  assumes "bus_ok b" and "bus_find b i = Some rec" and "sr_shard rec = ProxyShard l" and "lk_id l = i"
    and "\<not> lk_quarantined l" and "lk_death_signaled l = lk_dead l" and "supervise cfg nv i b = (Inr (), b')"
  shows "if \<not> dead_now l \<and> \<not> lk_dead l then b' = b
    else \<exists>l' rec'. bus_find b' i = Some rec' \<and> sr_shard rec' = ProxyShard l' \<and> lk_id l' = i \<and> link_settled l' \<and>
      (\<not> lk_quarantined l' \<longrightarrow> charged rec rec' (lk_policy_value l))"
proof (cases "dead_now l \<and> \<not> lk_dead l")
  case False
  have link: "link_of i b = Some l" using assms(2,3) by (simp add: link_of_def)
  show ?thesis
  proof (cases "lk_dead l")
    case True
    then have "recover cfg nv i l b = (Inr (), b')"
      using False assms(5-7) link by (simp add: supervise_def)
    with recover_settles [OF assms(1-5)] True show ?thesis by auto
  next
    case alive: False
    then show ?thesis using False assms(5-7) link by (simp add: supervise_def)
  qed
next
  case True
  define l1 where "l1 = l\<lparr>lk_dead := True, lk_death_signaled := True\<rparr>"
  define rec1 where "rec1 = rec\<lparr>sr_shard := ProxyShard l1, sr_alive := False\<rparr>"
  define b1 where "b1 = snd (kill i (put_link i l1 b))"
  have find1: "bus_find b1 i = Some rec1"
    using assms(2) by (simp add: b1_def kill_def bus_find_put_link rec1_def)
  have ok1: "bus_ok b1" unfolding b1_def by (intro kill_ok bus_ok_put_link assms(1))
  have "link_of i b = Some l" using assms(2,3) by (simp add: link_of_def)
  moreover have "lk_dead l1" by (simp add: l1_def)
  ultimately have "recover cfg nv i l1 b1 = (Inr (), b')"
    using True assms(4-7) find1
    by (auto simp: supervise_def l1_def [symmetric] b1_def link_of_def rec1_def split: prod.splits sum.splits)
  from recover_settles [OF ok1 find1 _ _ _ this] show ?thesis
    using True assms(4,5) by (auto simp: l1_def rec1_def charged_def)
qed

lemma demo_policy_values: "lk_policy_value demo_link = Some demo_policy" "lk_channel demo_link = None"
  "lk_snapshot_bytes demo_link = bytes_of demo_snapshot" "lk_spawns demo_link = []" "lk_id demo_link = 1"
  "\<not> lk_quarantined demo_link" "\<not> lk_dead demo_link" "\<not> lk_death_signaled demo_link"
  by (simp_all add: demo_link_def demo_link_values_def new_link_def)

lemma demo_candidate: "\<exists>g. admit_candidate (plain_schema ''S'') (bytes_of demo_snapshot) b = (Inr (accept demo_snapshot), b\<lparr>b_gate_calls := g\<rparr>)"
proof -
  have "fst (admit_unverified (\<lambda>_. None) (parse (bytes_of demo_snapshot)) (Some (plain_schema ''S'')) FirstError
      (b_gate_calls b)) = Inr (accept demo_snapshot)"
    using demo_exact(3) demo_conforms(3) demo_serialized(3) by (simp add: native_admits_iff)
  then show ?thesis by (auto simp: admit_candidate_def split: prod.splits)
qed

lemma demo_reload:
  assumes "bus_find b i = Some rec" and "vt_policy vt (sr_shard rec) = Inr demo_policy"
    and "sr_reloads_used rec = 0" and "sr_state_schema rec = plain_schema ''S''" and "b_observers b = []"
    and "vt_revive vt (sr_shard rec) demo_snapshot = (Inr (), st)"
  shows "\<exists>ro b'. reload vt i (bytes_of demo_snapshot) b = (Inr ro, b') \<and> ro_revived ro \<and>
    bus_find b' i = Some (rec\<lparr>sr_shard := st, sr_last_known_good := demo_snapshot, sr_reloads_used := 1, sr_alive := True\<rparr>)"
proof -
  obtain g where "admit_candidate (plain_schema ''S'') (bytes_of demo_snapshot) (b\<lparr>b_gate_calls := b_gate_calls b + 1\<rparr>) =
      (Inr (accept demo_snapshot), b\<lparr>b_gate_calls := g\<rparr>)"
    using demo_candidate [of "b\<lparr>b_gate_calls := b_gate_calls b + 1\<rparr>"] by auto
  then show ?thesis
    using assms relay_policy_admitted relay_policy_read
    by (simp add: reload_def demo_policy_def [symmetric] reload_policed_def accept_def adm_ok_def adm_value_def
        reload_gated_def revive_with_def announce_def bus_emit_def put_record_def note_trace_def
        new_revive_outcome_def bus_find_def om_find_put)
qed

lemma demo_supervised:
  "\<exists>b' rec' l'. supervise demo_cfg relay_ops 1 demo_bus = (Inr (), b') \<and> bus_find b' 1 = Some rec' \<and>
     sr_shard rec' = ProxyShard l' \<and> lk_quarantined l' \<and> lk_channel l' = None \<and> sr_alive rec'"
proof -
  obtain rec where rec: "bus_find demo_bus 1 = Some rec" "sr_shard rec = ProxyShard demo_link"
    "sr_state_schema rec = plain_schema ''S''" "sr_reloads_used rec = 0"
    using demo_bus_find by blast
  have obs: "b_observers demo_bus = []"
    using plain_admitted [of "''S''" FirstError]
    by (simp add: demo_bus_def seed_shard_def demo_snapshot_def register_schema_def new_bus_def new_registry_def
      mount_record_def accept_def adm_ok_def adm_value_def Let_def put_record_def note_trace_def)
  define l1 where "l1 = demo_link\<lparr>lk_dead := True, lk_death_signaled := True\<rparr>"
  define b1 where "b1 = snd (kill 1 (put_link 1 l1 demo_bus))"
  have kill: "kill 1 (put_link 1 l1 demo_bus) = (Inr (), b1)"
    using rec obs by (simp add: b1_def kill_def put_link_def bus_emit_def put_record_def note_trace_def bus_find_def om_find_put)
  define b2 where "b2 = put_link 1 (teardown_child l1) b1"
  define rec2 where "rec2 = rec\<lparr>sr_shard := ProxyShard (teardown_child l1), sr_alive := False\<rparr>"
  have find1: "bus_find b1 1 = Some (rec\<lparr>sr_shard := ProxyShard l1, sr_alive := False\<rparr>)" and obs1: "b_observers b1 = []"
    using rec obs by (simp_all add: b1_def kill_def bus_find_put_link put_link_def bus_emit_def put_record_def
        bus_find_def om_find_put)
  have find2: "bus_find b2 1 = Some rec2" "b_observers b2 = []"
    using find1 obs1 by (simp_all add: b2_def rec2_def put_link_def put_record_def bus_find_def om_find_put)
  have vals: "lk_policy_value (teardown_child l1) = Some demo_policy" "lk_spawns (teardown_child l1) = []"
    "lk_channel (teardown_child l1) = None" "lk_snapshot_bytes l1 = bytes_of demo_snapshot" "lk_id l1 = 1"
    by (simp_all add: l1_def teardown_child_def demo_policy_values)
  define l3 where "l3 = teardown_child (teardown_child l1)"
  have "\<exists>ro b3. reload (host_ops demo_cfg relay_ops) 1 (bytes_of demo_snapshot) b2 = (Inr ro, b3) \<and> ro_revived ro \<and>
    bus_find b3 1 = Some (rec2\<lparr>sr_shard := ProxyShard l3, sr_last_known_good := demo_snapshot, sr_reloads_used := 1,
      sr_alive := True\<rparr>)"
    by (rule demo_reload [OF find2(1) _ _ _ find2(2)])
      (use rec vals in \<open>simp_all add: rec2_def host_ops_def respawn_and_revive_def spawn_and_handshake_def l3_def\<close>)
  then obtain ro b3 where re: "reload (host_ops demo_cfg relay_ops) 1 (bytes_of demo_snapshot) b2 = (Inr ro, b3)"
    and find3: "bus_find b3 1 = Some (rec2\<lparr>sr_shard := ProxyShard l3, sr_last_known_good := demo_snapshot,
      sr_reloads_used := 1, sr_alive := True\<rparr>)" by blast
  have "lk_channel l3 = None" by (simp add: l3_def teardown_child_def)
  then have "recover demo_cfg relay_ops 1 l1 b1 =
      (Inr (), put_link 1 (teardown_child (l3\<lparr>lk_quarantined := True, lk_dead := True\<rparr>)) b3)"
    using re find3 vals by (simp add: recover_def b2_def link_of_def)
  moreover have "supervise demo_cfg relay_ops 1 demo_bus = recover demo_cfg relay_ops 1 l1 b1"
    using demo_link_of demo_policy_values kill find1
    by (simp add: supervise_def dead_now_def l1_def link_of_def)
  ultimately show ?thesis
    using find3 by (simp add: bus_find_put_link teardown_child_def)
qed

text \<open>
  A child that cannot be started again is quarantined by the host but stays alive on the bus: \<open>revive\<close> swallows
  the failed spawn, so the bus counts the shard as revived and keeps delivering to it, and every such
  delivery is dropped by the proxy.
\<close>

theorem quarantined_stays_alive:
  "\<exists>b' l'. supervise demo_cfg relay_ops 1 demo_bus = (Inr (), b') \<and> link_of 1 b' = Some l' \<and>
     lk_quarantined l' \<and> alive 1 b' \<and> ship_deliver l' m = Inr l'"
  using demo_supervised by (auto simp: link_of_def alive_def ship_deliver_def)

theorem supervision_settles_witness:
  "\<exists>b' l' rec'. supervise demo_cfg relay_ops 1 demo_bus = (Inr (), b') \<and> bus_find b' 1 = Some rec' \<and>
     sr_shard rec' = ProxyShard l' \<and> link_settled l'"
proof -
  obtain b' where run: "supervise demo_cfg relay_ops 1 demo_bus = (Inr (), b')" using demo_supervised by blast
  obtain rec where "bus_find demo_bus 1 = Some rec" "sr_shard rec = ProxyShard demo_link"
    using demo_bus_find by blast
  from supervision_settles [OF demo_bus_ok this _ _ _ run] show ?thesis
    using run by (auto simp: demo_policy_values dead_now_def)
qed

end
