(* ===== verification/Zen_Abi.thy ===== *)
theory Zen_Abi
  imports Zen_Switchboard Zen_Meta
begin

text \<open>
  The library boundary: \<open>include/zen/kernel/abi.h\<close> and the thunks that \<open>include/zen/kernel/export.hpp\<close>
  generates for a shard class.

  \<^item> A library is whatever stands behind a descriptor: its methods work on an instance of any type \<open>'i\<close>
    and on octets, and return status codes. The octets written to a \<open>ZenByteSink\<close> are the second
    component of the result. \<open>describe\<close>, \<open>snapshot\<close> and \<open>policy\<close> read the instance.
  \<^item> What \<open>handle\<close> does is a tree of calls back into the host, each continued with the status the host
    returns; \<open>create\<close> yields the instance, or nothing for a null pointer.
\<close>

section \<open>The C ABI\<close>

type_synonym zen_status = "32 word"

definition ZEN_ABI_VERSION :: u32 where
  "ZEN_ABI_VERSION = 1"

definition ZEN_OK :: zen_status where
  "ZEN_OK = 0"

definition ZEN_ERR :: zen_status where
  "ZEN_ERR = -1"

definition ZEN_ERR_REFUSED :: zen_status where
  "ZEN_ERR_REFUSED = -2"

definition ZEN_ERR_UNKNOWN_SCHEMA :: zen_status where
  "ZEN_ERR_UNKNOWN_SCHEMA = -3"

lemmas status_defs = ZEN_OK_def ZEN_ERR_def ZEN_ERR_REFUSED_def ZEN_ERR_UNKNOWN_SCHEMA_def

definition status_string :: "zen_status \<Rightarrow> string" where
  "status_string st = ll_to_string (sint st)"

text \<open>The calls a library makes on the \<open>ZenHostApi\<close> while it handles a message: \<open>send\<close> with target,
  reply address, correlation and payload, and \<open>publish\<close> without a target.\<close>

datatype 'i lib_action =
    LReturn zen_status 'i
  | LSend u64 u64 u64 string "zen_status \<Rightarrow> 'i lib_action"
  | LPublish u64 u64 string "zen_status \<Rightarrow> 'i lib_action"

record 'i shard_abi =
  abi_version :: u32
  abi_create :: "'i option"
  abi_describe :: "'i \<Rightarrow> zen_status \<times> string"
  abi_snapshot :: "'i \<Rightarrow> zen_status \<times> string"
  abi_policy :: "'i \<Rightarrow> zen_status \<times> string"
  abi_revive :: "'i \<Rightarrow> string \<Rightarrow> zen_status \<times> 'i"
  abi_handle :: "'i \<Rightarrow> u64 \<Rightarrow> u64 \<Rightarrow> u64 \<Rightarrow> string \<Rightarrow> 'i lib_action"

section \<open>Shard classes\<close>

text \<open>
  A shard as its author writes it: a class whose handler sees nothing but the abstract \<open>Bus\<close>. A call on
  the bus may throw, so the handler goes on with a result.
\<close>

datatype 's handler =
    HDone 's
  | HThrow exn 's
  | HSend shard_id message "u64 result \<Rightarrow> 's handler"
  | HPublish message "nat result \<Rightarrow> 's handler"

record 's shard_class =
  sc_create :: "'s option"
  sc_accepted_schemas :: "'s \<Rightarrow> schema list result"
  sc_handle :: "'s \<Rightarrow> message \<Rightarrow> 's handler"
  sc_snapshot :: "'s \<Rightarrow> zvalue result"
  sc_policy :: "'s \<Rightarrow> zvalue result"
  sc_revive :: "'s \<Rightarrow> zvalue \<Rightarrow> unit result \<times> 's"

text \<open>The class compiled into the host: the calls of the switchboard's surface do not throw.\<close>

primrec native_action :: "'s handler \<Rightarrow> 's action" where
  "native_action (HDone s) = ADone s"
| "native_action (HThrow e s) = AThrow e s"
| "native_action (HSend t m k) = ASend t m (\<lambda>n. native_action (k (Inr n)))"
| "native_action (HPublish m k) = APublish m (\<lambda>n. native_action (k (Inr n)))"

definition native_ops :: "'s shard_class \<Rightarrow> 's shard_ops" where
  "native_ops C =
     \<lparr>vt_accepted_schemas = (\<lambda>s. rbind (sc_accepted_schemas C s) (\<lambda>ss. Inr (map Some ss))),
      vt_handle = (\<lambda>s m. native_action (sc_handle C s m)),
      vt_snapshot = sc_snapshot C, vt_policy = sc_policy C, vt_revive = sc_revive C\<rparr>"

section \<open>The exported thunks\<close>

text \<open>The gate inside the library, with the library's own copy of the core.\<close>

definition lib_admit :: "string \<Rightarrow> schema \<Rightarrow> admission result" where
  "lib_admit bytes door = fst (admit_unverified (\<lambda>_. None) (parse bytes) (Some door) FirstError 0)"

text \<open>\<open>HostApiBus\<close>: serialize and forward; the ticket and the count are not meaningful.\<close>

primrec thunk_action :: "'s handler \<Rightarrow> 's lib_action" where
  "thunk_action (HDone s) = LReturn ZEN_OK s"
| "thunk_action (HThrow e s) = LReturn ZEN_ERR s"
| "thunk_action (HSend t m k) =
     (case serialize (m_payload m) of
        Inl e \<Rightarrow> thunk_action (k (Inl e))
      | Inr bytes \<Rightarrow> LSend t (m_reply_to m) (m_correlation m) bytes (\<lambda>_. thunk_action (k (Inr 0))))"
| "thunk_action (HPublish m k) =
     (case serialize (m_payload m) of
        Inl e \<Rightarrow> thunk_action (k (Inl e))
      | Inr bytes \<Rightarrow> LPublish (m_reply_to m) (m_correlation m) bytes (\<lambda>_. thunk_action (k (Inr 0))))"

text \<open>\<open>try { sink_write(...); return ZEN_OK; } catch (...) { return ZEN_ERR; }\<close>\<close>

definition sink_result :: "string result \<Rightarrow> zen_status \<times> string" where
  "sink_result r = (case r of Inl _ \<Rightarrow> (ZEN_ERR, []) | Inr bytes \<Rightarrow> (ZEN_OK, bytes))"

definition do_describe :: "'s shard_class \<Rightarrow> 's \<Rightarrow> zen_status \<times> string" where
  "do_describe C s =
     sink_result
       (rbind (sc_accepted_schemas C s) (\<lambda>accepted.
        rbind (sc_snapshot C s) (\<lambda>state.
        rbind (encode_manifest accepted (v_schema state)) serialize)))"

definition do_snapshot :: "'s shard_class \<Rightarrow> 's \<Rightarrow> zen_status \<times> string" where
  "do_snapshot C s = sink_result (rbind (sc_snapshot C s) serialize)"

definition do_policy :: "'s shard_class \<Rightarrow> 's \<Rightarrow> zen_status \<times> string" where
  "do_policy C s = sink_result (rbind (sc_policy C s) serialize)"

definition do_revive :: "'s shard_class \<Rightarrow> 's \<Rightarrow> string \<Rightarrow> zen_status \<times> 's" where
  "do_revive C s bytes =
     (case rbind (sc_snapshot C s) (\<lambda>probe. lib_admit bytes (v_schema probe)) of
        Inl _ \<Rightarrow> (ZEN_ERR, s)
      | Inr a \<Rightarrow>
          if \<not> adm_ok a then (ZEN_ERR_REFUSED, s)
          else
            (case adm_value a of
               Inl _ \<Rightarrow> (ZEN_ERR, s)
             | Inr v \<Rightarrow>
                 (case sc_revive C s v of
                    (Inl _, s') \<Rightarrow> (ZEN_ERR, s')
                  | (Inr _, s') \<Rightarrow> (ZEN_OK, s'))))"

definition do_handle ::
  "'s shard_class \<Rightarrow> 's \<Rightarrow> u64 \<Rightarrow> u64 \<Rightarrow> u64 \<Rightarrow> string \<Rightarrow> 's lib_action" where
  "do_handle C s sender reply_to correlation payload =
     (case sc_accepted_schemas C s of
        Inl _ \<Rightarrow> LReturn ZEN_ERR s
      | Inr accepted \<Rightarrow>
          (case accept_match accepted (claimed_name (parse payload)) (claimed_version (parse payload)) of
             None \<Rightarrow> LReturn ZEN_ERR_UNKNOWN_SCHEMA s
           | Some door \<Rightarrow>
               (case lib_admit payload door of
                  Inl _ \<Rightarrow> LReturn ZEN_ERR s
                | Inr a \<Rightarrow>
                    if \<not> adm_ok a then LReturn ZEN_ERR_REFUSED s
                    else
                      (case adm_value a of
                         Inl _ \<Rightarrow> LReturn ZEN_ERR s
                       | Inr v \<Rightarrow>
                           thunk_action (sc_handle C s
                             \<lparr>m_payload = v, m_sender = sender, m_reply_to = reply_to,
                              m_correlation = correlation\<rparr>)))))"

text \<open>The descriptor \<open>ZEN_EXPORT_SHARD\<close> builds.\<close>

definition export_abi :: "'s shard_class \<Rightarrow> 's shard_abi" where
  "export_abi C =
     \<lparr>abi_version = ZEN_ABI_VERSION, abi_create = sc_create C, abi_describe = do_describe C,
      abi_snapshot = do_snapshot C, abi_policy = do_policy C, abi_revive = do_revive C,
      abi_handle = do_handle C\<rparr>"

end
