(* ===== verification/Zen_Kernel.thy ===== *)
theory Zen_Kernel
  imports Zen_Abi Zen_Grant
begin

text \<open>
  Loaded shards: \<open>include/zen/kernel/kernel.hpp\<close> and \<open>src/kernel/kernel.cpp\<close>.

  \<^item> The bus carries shards compiled into the host (of any type \<open>'n\<close>, with any method table) beside the
    adapters of loaded libraries. An adapter belongs to the bus; the kernel's entry finds it by shard id.
  \<^item> What \<open>dlopen\<close>, \<open>dlsym\<close> and \<open>zen_shard_abi()\<close> answer is an argument of each load. Each successful open
    is a reference of its own, numbered in order.
  \<^item> The kernel's own calls into a library, and its opens and closes, are kept in a log; an adapter records
    the library its descriptor and instance live in. Neither exists in the code.
  \<^item> The gate calls made by an adapter's \<open>snapshot\<close> and \<open>policy\<close> are not added to the gate counter.
\<close>

section \<open>State\<close>

type_synonym lib_handle = nat

datatype lib_event =
    LibOpen lib_handle
  | LibCreate lib_handle
  | LibDescribe lib_handle
  | LibDestroy lib_handle
  | LibClose lib_handle

record 'i adapter =
  ad_abi :: "'i shard_abi"
  ad_instance :: 'i
  ad_accepted :: "schema list"
  ad_state_schema :: schema
  ad_self :: shard_id
  ad_lib :: lib_handle

datatype ('n, 'i) mounted = LocalShard 'n | AdapterShard "'i adapter"

record loaded =
  ld_lib :: lib_handle
  ld_id :: shard_id

record ('n, 'i) kernel =
  k_bus :: "('n, 'i) mounted bus"
  k_registry :: registry
  k_libs :: "(string, loaded) omap"
  k_opens :: nat
  k_log :: "lib_event list"

text \<open>The answers of the platform to one load.\<close>

record 'i lib_env =
  le_opens :: bool
  le_error :: string
  le_symbol :: bool
  le_abi :: "'i shard_abi option"

record load_result =
  lr_ok :: bool
  lr_id :: shard_id
  lr_error :: string

record reload_result =
  rr_ok :: bool
  rr_reloaded :: bool
  rr_version_mismatch :: bool
  rr_error :: string

definition new_kernel :: "('n, 'i) mounted bus \<Rightarrow> ('n, 'i) kernel" where
  "new_kernel b = \<lparr>k_bus = b, k_registry = new_registry, k_libs = [], k_opens = 0, k_log = []\<rparr>"

definition load_refused :: "string \<Rightarrow> load_result" where
  "load_refused e = \<lparr>lr_ok = False, lr_id = 0, lr_error = e\<rparr>"

definition reload_failed :: "string \<Rightarrow> reload_result" where
  "reload_failed e = \<lparr>rr_ok = False, rr_reloaded = False, rr_version_mismatch = False, rr_error = e\<rparr>"

definition note_lib :: "lib_event \<Rightarrow> ('n, 'i) kernel \<Rightarrow> ('n, 'i) kernel" where
  "note_lib ev k = k\<lparr>k_log := k_log k @ [ev]\<rparr>"

definition lib_open :: "('n, 'i) kernel \<Rightarrow> lib_handle \<times> ('n, 'i) kernel" where
  "lib_open k = (k_opens k, note_lib (LibOpen (k_opens k)) (k\<lparr>k_opens := k_opens k + 1\<rparr>))"

definition lib_close :: "lib_handle \<Rightarrow> ('n, 'i) kernel \<Rightarrow> ('n, 'i) kernel" where
  "lib_close h k = note_lib (LibClose h) k"

text \<open>\<open>abi->destroy(instance)\<close>.\<close>

definition lib_destroy :: "lib_handle \<Rightarrow> ('n, 'i) kernel \<Rightarrow> ('n, 'i) kernel" where
  "lib_destroy h k = note_lib (LibDestroy h) k"

definition fetch_abi :: "'i lib_env \<Rightarrow> string + 'i shard_abi" where
  "fetch_abi env =
     (if \<not> le_symbol env then Inl ''library does not export zen_shard_abi''
      else
        (case le_abi env of
           None \<Rightarrow> Inl ''zen_shard_abi returned null''
         | Some abi \<Rightarrow>
             if abi_version abi \<noteq> ZEN_ABI_VERSION
             then Inl (''unsupported abi_version '' @ to_string (unat (abi_version abi)) @ '' (host supports '' @
                       to_string (unat ZEN_ABI_VERSION) @ '')'')
             else Inr abi))"

section \<open>The host adapter\<close>

text \<open>
  The callbacks \<open>zen_host_send\<close> and \<open>zen_host_publish\<close>: resolve the claimed schema, admit the octets,
  route. (\<open>admit\<close> throws only for a null door.)
\<close>

definition host_emit ::
  "string \<Rightarrow> (zvalue \<Rightarrow> 's action) \<Rightarrow> (zen_status \<Rightarrow> 's action) \<Rightarrow> 's action" where
  "host_emit payload route return =
     AResolve (claimed_name (parse payload)) (claimed_version (parse payload)) (\<lambda>door.
       case door of
         None \<Rightarrow> return ZEN_ERR_UNKNOWN_SCHEMA
       | Some d \<Rightarrow>
           (case admit_unverified (\<lambda>_. None) (parse payload) (Some d) FirstError 0 of
              (a, n) \<Rightarrow>
                AGate n
                  (case rbind a (\<lambda>ad. if adm_ok ad then adm_value ad else Inl Bad_variant_access) of
                     Inl _ \<Rightarrow> return ZEN_ERR_REFUSED
                   | Inr v \<Rightarrow> route v)))"

text \<open>Running a library's handler against the callbacks; \<open>f\<close> puts the instance back into its adapter.\<close>

primrec run_library :: "'i lib_action \<Rightarrow> ('i \<Rightarrow> 's) \<Rightarrow> 's action" where
  "run_library (LReturn st i) f = ADone (f i)"
| "run_library (LSend target reply_to correlation payload k) f =
     host_emit payload
       (\<lambda>v. ASend target \<lparr>m_payload = v, m_sender = 0, m_reply_to = reply_to, m_correlation = correlation\<rparr>
              (\<lambda>_. run_library (k ZEN_OK) f))
       (\<lambda>st. run_library (k st) f)"
| "run_library (LPublish reply_to correlation payload k) f =
     host_emit payload
       (\<lambda>v. APublish \<lparr>m_payload = v, m_sender = 0, m_reply_to = reply_to, m_correlation = correlation\<rparr>
              (\<lambda>_. run_library (k ZEN_OK) f))
       (\<lambda>st. run_library (k st) f)"

definition adapter_handle :: "'i adapter \<Rightarrow> message \<Rightarrow> ('n, 'i) mounted action" where
  "adapter_handle a m =
     (case serialize (m_payload m) of
        Inl e \<Rightarrow> AThrow e (AdapterShard a)
      | Inr bytes \<Rightarrow>
          run_library (abi_handle (ad_abi a) (ad_instance a) (m_sender m) (m_reply_to m) (m_correlation m) bytes)
            (\<lambda>i. AdapterShard (a\<lparr>ad_instance := i\<rparr>)))"

definition admit_bytes :: "string \<Rightarrow> schema \<Rightarrow> string \<Rightarrow> zvalue result" where
  "admit_bytes bytes door what =
     rbind (fst (admit_unverified (\<lambda>_. None) (parse bytes) (Some door) FirstError 0)) (\<lambda>a.
       if adm_ok a then adm_value a
       else rbind (first_error a) (\<lambda>er.
         Inl (Runtime_error (''library '' @ what @ '' refused by the gate: '' @ error_message er))))"

definition status_failed :: "string \<Rightarrow> zen_status \<Rightarrow> exn" where
  "status_failed what st = Runtime_error (''library '' @ what @ ''() failed with status '' @ status_string st)"

definition adapter_snapshot :: "'i adapter \<Rightarrow> zvalue result" where
  "adapter_snapshot a =
     (case abi_snapshot (ad_abi a) (ad_instance a) of
        (st, bytes) \<Rightarrow>
          if st \<noteq> ZEN_OK then Inl (status_failed ''snapshot'' st)
          else admit_bytes bytes (ad_state_schema a) ''snapshot'')"

definition adapter_policy :: "'i adapter \<Rightarrow> zvalue result" where
  "adapter_policy a =
     (case abi_policy (ad_abi a) (ad_instance a) of
        (st, bytes) \<Rightarrow>
          if st \<noteq> ZEN_OK then Inl (status_failed ''policy'' st)
          else rbind lifecycle_policy_schema (\<lambda>door. admit_bytes bytes door ''policy''))"

definition adapter_revive :: "'i adapter \<Rightarrow> zvalue \<Rightarrow> unit result \<times> 'i adapter" where
  "adapter_revive a state =
     (case serialize state of
        Inl e \<Rightarrow> (Inl e, a)
      | Inr bytes \<Rightarrow>
          (case abi_revive (ad_abi a) (ad_instance a) bytes of
             (st, i) \<Rightarrow>
               (if st \<noteq> ZEN_OK then Inl (status_failed ''revive'' st) else Inr (), a\<lparr>ad_instance := i\<rparr>)))"

definition kernel_ops :: "'n shard_ops \<Rightarrow> ('n, 'i) mounted shard_ops" where
  "kernel_ops nv =
     \<lparr>vt_accepted_schemas = (\<lambda>s. case s of
          LocalShard n \<Rightarrow> vt_accepted_schemas nv n
        | AdapterShard a \<Rightarrow> Inr (map Some (ad_accepted a))),
      vt_handle = (\<lambda>s m. case s of
          LocalShard n \<Rightarrow> map_action LocalShard (vt_handle nv n m)
        | AdapterShard a \<Rightarrow> adapter_handle a m),
      vt_snapshot = (\<lambda>s. case s of
          LocalShard n \<Rightarrow> vt_snapshot nv n
        | AdapterShard a \<Rightarrow> adapter_snapshot a),
      vt_policy = (\<lambda>s. case s of
          LocalShard n \<Rightarrow> vt_policy nv n
        | AdapterShard a \<Rightarrow> adapter_policy a),
      vt_revive = (\<lambda>s v. case s of
          LocalShard n \<Rightarrow> map_prod id LocalShard (vt_revive nv n v)
        | AdapterShard a \<Rightarrow> map_prod id AdapterShard (adapter_revive a v))\<rparr>"

section \<open>Loading\<close>

definition reconstruct ::
  "'i shard_abi \<Rightarrow> 'i \<Rightarrow> lib_handle \<Rightarrow> ('n, 'i) kernel \<Rightarrow> (schema list \<times> schema) result \<times> ('n, 'i) kernel" where
  "reconstruct abi inst h k =
     (let k1 = note_lib (LibDescribe h) k in
      case abi_describe abi inst of
        (st, bytes) \<Rightarrow>
          if st \<noteq> ZEN_OK then (Inl (status_failed ''describe'' st), k1)
          else
            (case manifest_schema of
               Inl e \<Rightarrow> (Inl e, k1)
             | Inr meta \<Rightarrow>
                 (case admit_candidate meta bytes (k_bus k1) of
                    (Inl e, b1) \<Rightarrow> (Inl e, k1\<lparr>k_bus := b1\<rparr>)
                  | (Inr a, b1) \<Rightarrow>
                      let k2 = k1\<lparr>k_bus := b1\<rparr> in
                      if \<not> adm_ok a then
                        (rbind (first_error a) (\<lambda>er. Inl (Runtime_error
                           (''library manifest refused by the gate: '' @ error_message er))), k2)
                      else
                        (case adm_value a of
                           Inl e \<Rightarrow> (Inl e, k2)
                         | Inr manifest \<Rightarrow>
                             (case decode_manifest manifest (k_registry k2) of
                                (res, r) \<Rightarrow> (res, k2\<lparr>k_registry := r\<rparr>))))))"

text \<open>Open a library, fetch its descriptor and create an instance; every failure closes it again.\<close>

definition open_instance ::
  "'i lib_env \<Rightarrow> ('n, 'i) kernel \<Rightarrow> (string + lib_handle \<times> 'i shard_abi \<times> 'i) \<times> ('n, 'i) kernel" where
  "open_instance env k =
     (if \<not> le_opens env then (Inl (''open failed: '' @ le_error env), k)
      else
        (case lib_open k of
           (h, k1) \<Rightarrow>
             (case fetch_abi env of
                Inl e \<Rightarrow> (Inl e, lib_close h k1)
              | Inr abi \<Rightarrow>
                  (case abi_create abi of
                     None \<Rightarrow> (Inl ''library create() returned null'', lib_close h k1)
                   | Some inst \<Rightarrow> (Inr (h, abi, inst), note_lib (LibCreate h) k1)))))"

definition new_adapter ::
  "'i shard_abi \<Rightarrow> 'i \<Rightarrow> schema list \<Rightarrow> schema \<Rightarrow> lib_handle \<Rightarrow> 'i adapter" where
  "new_adapter abi inst accepted state h =
     \<lparr>ad_abi = abi, ad_instance = inst, ad_accepted = accepted, ad_state_schema = state, ad_self = 0,
      ad_lib = h\<rparr>"

definition set_self :: "shard_id \<Rightarrow> ('n, 'i) mounted bus \<Rightarrow> ('n, 'i) mounted bus" where
  "set_self i b =
     (case bus_find b i of
        Some rec \<Rightarrow>
          (case sr_shard rec of
             AdapterShard a \<Rightarrow> put_record i (rec\<lparr>sr_shard := AdapterShard (a\<lparr>ad_self := i\<rparr>)\<rparr>) b
           | LocalShard _ \<Rightarrow> b)
      | None \<Rightarrow> b)"

definition load ::
  "'n shard_ops \<Rightarrow> string \<Rightarrow> 'i lib_env \<Rightarrow> ('n, 'i) kernel \<Rightarrow> load_result \<times> ('n, 'i) kernel" where
  "load nv name env k =
     (if om_find (k_libs k) name \<noteq> None then (load_refused (''already loaded: '' @ name), k)
      else
        (case open_instance env k of
           (Inl e, k1) \<Rightarrow> (load_refused e, k1)
         | (Inr (h, abi, inst), k1) \<Rightarrow>
             (case reconstruct abi inst h k1 of
                (Inl e, k2) \<Rightarrow>
                  (load_refused (''load refused: '' @ exn_what e), lib_close h (lib_destroy h k2))
              | (Inr (accepted, state), k2) \<Rightarrow>
                  (case register_shard (kernel_ops nv) (Some (AdapterShard (new_adapter abi inst accepted state h)))
                          (allow_any grant_nothing) (k_bus k2) of
                     (Inl e, b) \<Rightarrow>
                       (load_refused (''load refused: '' @ exn_what e),
                        lib_close h (lib_destroy h (k2\<lparr>k_bus := b\<rparr>)))
                   | (Inr i, b) \<Rightarrow>
                       (\<lparr>lr_ok = True, lr_id = i, lr_error = []\<rparr>,
                        k2\<lparr>k_bus := set_self i b,
                           k_libs := om_put name \<lparr>ld_lib = h, ld_id = i\<rparr> (k_libs k2)\<rparr>)))))"

text \<open>The adapter behind a shard id.\<close>

definition adapter_at :: "shard_id \<Rightarrow> ('n, 'i) mounted bus \<Rightarrow> 'i adapter option" where
  "adapter_at i b =
     (case bus_find b i of
        Some rec \<Rightarrow> (case sr_shard rec of AdapterShard a \<Rightarrow> Some a | LocalShard _ \<Rightarrow> None)
      | None \<Rightarrow> None)"

definition rebind ::
  "shard_id \<Rightarrow> 'i shard_abi \<Rightarrow> 'i \<Rightarrow> lib_handle \<Rightarrow> ('n, 'i) kernel \<Rightarrow> ('n, 'i) kernel" where
  "rebind i abi inst h k =
     (case bus_find (k_bus k) i of
        None \<Rightarrow> k
      | Some rec \<Rightarrow>
          (case sr_shard rec of
             LocalShard _ \<Rightarrow> k
           | AdapterShard a \<Rightarrow>
               (lib_destroy (ad_lib a) k)\<lparr>k_bus :=
                  put_record i (rec\<lparr>sr_shard := AdapterShard (a\<lparr>ad_abi := abi, ad_instance := inst, ad_lib := h\<rparr>)\<rparr>)
                    (k_bus k)\<rparr>))"

text \<open>From the commit on: an exception out of \<open>swap_state\<close> leaves the function before the old library is
  closed.\<close>

definition commit_reload ::
  "'n shard_ops \<Rightarrow> string \<Rightarrow> loaded \<Rightarrow> string \<Rightarrow> lib_handle \<Rightarrow> 'i shard_abi \<Rightarrow> 'i \<Rightarrow> ('n, 'i) kernel \<Rightarrow>
   reload_result result \<times> ('n, 'i) kernel" where
  "commit_reload nv name rec snapshot h abi inst k =
     (let k1 = rebind (ld_id rec) abi inst h k;
          k2 = k1\<lparr>k_libs := om_put name (rec\<lparr>ld_lib := h\<rparr>) (k_libs k1)\<rparr>
      in case swap_state (kernel_ops nv) (ld_id rec) snapshot (k_bus k2) of
           (Inl e, b) \<Rightarrow> (Inl e, k2\<lparr>k_bus := b\<rparr>)
         | (Inr ro, b) \<Rightarrow>
             let k3 = lib_close (ld_lib rec) (k2\<lparr>k_bus := b\<rparr>) in
             if \<not> ro_revived ro
             then (Inr \<lparr>rr_ok = True, rr_reloaded = False, rr_version_mismatch = False,
                        rr_error = ''revive after swap was refused''\<rparr>, k3)
             else (Inr \<lparr>rr_ok = True, rr_reloaded = True, rr_version_mismatch = False, rr_error = []\<rparr>, k3))"

definition same_state_schema :: "schema \<Rightarrow> schema \<Rightarrow> bool" where
  "same_state_schema new old \<longleftrightarrow>
     s_name new = s_name old \<and> s_version new = s_version old \<and> s_content_id new = s_content_id old"

definition reload_from ::
  "'n shard_ops \<Rightarrow> string \<Rightarrow> 'i lib_env \<Rightarrow> ('n, 'i) kernel \<Rightarrow> reload_result result \<times> ('n, 'i) kernel" where
  "reload_from nv name env k =
     (case om_find (k_libs k) name of
        None \<Rightarrow> (Inr (reload_failed (''not loaded: '' @ name)), k)
      | Some rec \<Rightarrow>
          (case snapshot_bytes (kernel_ops nv) (ld_id rec) (k_bus k) of
             Inl e \<Rightarrow> (Inr (reload_failed (''snapshot of the live shard failed: '' @ exn_what e)), k)
           | Inr snapshot \<Rightarrow>
               (case open_instance env k of
                  (Inl e, k1) \<Rightarrow> (Inr (reload_failed e), k1)
                | (Inr (h, abi, inst), k1) \<Rightarrow>
                    (case reconstruct abi inst h k1 of
                       (Inl e, k2) \<Rightarrow>
                         (Inr (reload_failed (''new library refused: '' @ exn_what e)),
                          lib_close h (lib_destroy h k2))
                     | (Inr (_, new_state), k2) \<Rightarrow>
                         (case adapter_at (ld_id rec) (k_bus k2) of
                            None \<Rightarrow> (Inl Bad_variant_access, k2)
                          | Some a \<Rightarrow>
                              if \<not> same_state_schema new_state (ad_state_schema a)
                              then (Inr \<lparr>rr_ok = True, rr_reloaded = False, rr_version_mismatch = True,
                                         rr_error = ''state schema version mismatch; reload refused''\<rparr>,
                                    lib_close h (lib_destroy h k2))
                              else commit_reload nv name rec snapshot h abi inst k2)))))"

text \<open>The adapter is taken off the bus and destroyed (its destructor destroys the instance), then the
  library is closed.\<close>

definition unload :: "string \<Rightarrow> ('n, 'i) kernel \<Rightarrow> bool \<times> ('n, 'i) kernel" where
  "unload name k =
     (case om_find (k_libs k) name of
        None \<Rightarrow> (False, k)
      | Some rec \<Rightarrow>
          (case unregister_shard (ld_id rec) (k_bus k) of
             (taken, b) \<Rightarrow>
               let k1 = k\<lparr>k_libs := om_erase name (k_libs k), k_bus := b\<rparr>;
                   k2 = (case taken of Some (AdapterShard a) \<Rightarrow> lib_destroy (ad_lib a) k1 | _ \<Rightarrow> k1)
               in (True, lib_close (ld_lib rec) k2)))"

definition unload_all :: "('n, 'i) kernel \<Rightarrow> ('n, 'i) kernel" where
  "unload_all k = fold (\<lambda>n k. snd (unload n k)) (map fst (k_libs k)) k"

definition kernel_shard_id :: "string \<Rightarrow> ('n, 'i) kernel \<Rightarrow> shard_id" where
  "kernel_shard_id name k = (case om_find (k_libs k) name of None \<Rightarrow> 0 | Some rec \<Rightarrow> ld_id rec)"

definition is_loaded :: "string \<Rightarrow> ('n, 'i) kernel \<Rightarrow> bool" where
  "is_loaded name k \<longleftrightarrow> om_find (k_libs k) name \<noteq> None"

definition loaded_names :: "('n, 'i) kernel \<Rightarrow> string list" where
  "loaded_names k = map fst (k_libs k)"

end
