(* ===== verification/Zen_Library.thy ===== *)
theory Zen_Library
  imports Zen_Kernel Zen_Seam
begin

text \<open>
  What the kernel guarantees about loaded libraries: no call ever lands in a closed library and none is
  left open, throwing reloads apart.
\<close>

section \<open>What the bus leaves alone in a shard\<close>

text \<open>A part of a shard's state that its own methods never change; the bus then never changes it either.\<close>

definition tags :: "('s \<Rightarrow> 't) \<Rightarrow> 's bus \<Rightarrow> (shard_id, 't) omap" where
  "tags tag b = map (\<lambda>(k, rec). (k, tag (sr_shard rec))) (b_shards b)"

lemma om_ok_tags: "om_ok (tags tag b) \<longleftrightarrow> om_ok (b_shards b)"
  by (simp add: om_ok_def tags_def case_prod_beta comp_def)

lemma om_find_map: "om_find (map (\<lambda>(k, v). (k, f v)) m) k = map_option f (om_find m k)"
  by (induction m) auto

lemma om_find_tags: "om_find (tags tag b) i = map_option (tag \<circ> sr_shard) (bus_find b i)"
  unfolding tags_def bus_find_def by (simp add: om_find_map comp_def)

lemma om_put_map: "map (\<lambda>(k, v). (k, f v)) (om_put k v m) = om_put k (f v) (map (\<lambda>(k, v). (k, f v)) m)"
  by (induction m) auto

lemma om_put_same: "om_ok m \<Longrightarrow> om_find m k = Some v \<Longrightarrow> om_put k v m = m"
proof (induction m)
  case (Cons p m)
  have "a < k" if "p = (a, w)" "k \<noteq> a" for a w
    using Cons.prems that om_find_set [of m k v] by (force simp: om_ok_def)
  then show ?case using Cons by (cases p) (auto simp: om_ok_def)
qed simp

lemma om_erase_map: "map (\<lambda>(k, v). (k, f v)) (om_erase k m) = om_erase k (map (\<lambda>(k, v). (k, f v)) m)"
  by (induction m) auto

lemma tags_put_record: "tags tag (put_record i rec b) = om_put i (tag (sr_shard rec)) (tags tag b)"
  by (simp add: tags_def put_record_def om_put_map case_prod_beta)

lemma tags_keep_record:
  assumes "om_ok (tags tag b)" and "bus_find b i = Some rec" and "tag (sr_shard rec') = tag (sr_shard rec)"
  shows "tags tag (put_record i rec' b) = tags tag b"
  using assms by (simp add: tags_put_record om_put_same om_find_tags)

lemma tags_shards: "b_shards b' = b_shards b \<Longrightarrow> tags tag b' = tags tag b"
  by (simp add: tags_def)

lemma emit_loop_shards: "b_shards (snd (emit_loop obs ev b)) = b_shards b"
  by (induction obs ev b rule: emit_loop.induct) (auto simp: bus_simps split: observer_effect.splits)

lemma quiet_shards [simp]:
  "b_shards (snd (bus_emit ev b)) = b_shards b"
  "b_shards (record_outcome s d r b) = b_shards b"
  "b_shards (snd (refuse_delivery ev r b)) = b_shards b"
  "b_shards (snd (announce ev out b)) = b_shards b"
  "b_shards (snd (enqueue_directed t m g b)) = b_shards b"
  "b_shards (snd (fanout m g b)) = b_shards b"
  by (simp_all add: bus_emit_def emit_loop_shards record_outcome_def refuse_delivery_def announce_def
      enqueue_directed_def Let_def case_prod_beta appended_fields(2) [OF appended_fanout [of "\<lambda>_. True"]]
      split: sum.splits)

lemma candidate_shards: "admit_candidate door bytes b = (res, b') \<Longrightarrow> b_shards b' = b_shards b"
  by (auto simp: admit_candidate_def split: prod.splits)

text \<open>A registration adds one record under the next id, or leaves the shards as they were.\<close>

definition shards_extended :: "'s \<Rightarrow> 's bus \<Rightarrow> shard_id result \<times> 's bus \<Rightarrow> bool" where
  "shards_extended st b out \<longleftrightarrow>
     (case fst out of
        Inl _ \<Rightarrow> b_shards (snd out) = b_shards b
      | Inr i \<Rightarrow> i = b_next_shard_id b \<and> (\<exists>rec. sr_shard rec = st \<and>
          b_shards (snd out) = (if bus_find b i = None then om_put i rec (b_shards b) else b_shards b)))"

lemma shards_extended_cong:
  "b_shards c = b_shards b \<Longrightarrow> b_next_shard_id c = b_next_shard_id b \<Longrightarrow>
   shards_extended st c out = shards_extended st b out"
  unfolding shards_extended_def bus_find_def by (simp only:)

lemma shards_extended_Inl: "b_shards c = b_shards b \<Longrightarrow> shards_extended st b (Inl e, c)"
  by (simp add: shards_extended_def)

lemma mount_record_shards: "shards_extended st b (mount_record st acc s a gr b)"
  by (auto simp: shards_extended_def mount_record_def Let_def bus_simps put_record_def bus_find_def split: sum.splits)
    (rule exI, rule conjI [rotated], rule refl, simp)

lemma seed_shard_shards: "shards_extended st b (seed_shard st acc snap gr b)"
proof -
  have "shards_extended st b (mount_record st acc t a gr (b\<lparr>b_registry := r, b_gate_calls := g\<rparr>))" for t a r g
    using mount_record_shards [of st "b\<lparr>b_registry := r, b_gate_calls := g\<rparr>"]
      shards_extended_cong [of "b\<lparr>b_registry := r, b_gate_calls := g\<rparr>" b] by simp
  then show ?thesis by (auto simp: seed_shard_def Let_def shards_extended_Inl split: sum.splits prod.splits)
qed

lemma register_shard_shards: "shards_extended st b (register_shard vt (Some st) gr b)"
proof -
  have "shards_extended st b (seed_shard st acc snap gr (b\<lparr>b_registry := r\<rparr>))" for acc snap r
    using seed_shard_shards [of st "b\<lparr>b_registry := r\<rparr>"] shards_extended_cong [of "b\<lparr>b_registry := r\<rparr>" b] by simp
  then show ?thesis by (auto simp: register_shard_def shards_extended_Inl split: sum.splits prod.splits)
qed

lemma om_put_new_keys: "om_find m k = None \<Longrightarrow> map fst (om_put k v m) \<noteq> map fst m"
proof (induction m)
  case (Cons p m)
  then show ?case by (cases p) (auto split: if_splits)
qed simp

lemma om_erase_keys: "om_find m k = Some v \<Longrightarrow> map fst (om_erase k m) \<noteq> map fst m"
proof (induction m)
  case (Cons p m)
  then show ?case by (cases p) (auto split: if_splits)
qed simp

locale tagged_shards =
  fixes vt :: "'s shard_ops" and tag :: "'s \<Rightarrow> 't"
  assumes handle_tag: "tag (snd (fst (run_action (vt_handle vt s m) ops b))) = tag s"
    and revive_tag: "tag (snd (vt_revive vt s v)) = tag s"
begin

lemma hand_over_tags:
  assumes "om_ok (tags tag b)" and "bus_find b (env_target env) = Some rec"
  shows "tags tag (snd (hand_over vt env rec v b)) = tags tag b"
proof -
  let ?t = "env_target env" and ?m = "(env_msg env)\<lparr>m_payload := v\<rparr>"
  let ?b0 = "note_trace (THandled ?t ?m (env_gated env)) b"
  obtain res st b1 where run: "run_action (vt_handle vt (sr_shard rec) ?m) (shard_bus ?t) ?b0 = ((res, st), b1)"
    by (metis surj_pair)
  have "b_shards b1 = b_shards b"
    using appended_fields(2) [OF shard_surface.run_action_appends [of ?t ?b0 "vt_handle vt (sr_shard rec) ?m"]] run
    by (simp add: bus_simps)
  moreover have "tag st = tag (sr_shard rec)"
    using handle_tag [of "sr_shard rec" ?m "shard_bus ?t" ?b0] run by simp
  ultimately have "tags tag (put_record ?t (rec\<lparr>sr_shard := st\<rparr>) b1) = tags tag b"
    using assms tags_keep_record [of tag b1 ?t rec "rec\<lparr>sr_shard := st\<rparr>"]
    by (simp add: bus_find_def tags_def)
  then show ?thesis by (simp add: hand_over_def run Let_def tags_def split: sum.splits)
qed

lemma deliver_one_tags:
  assumes "om_ok (tags tag b)"
  shows "tags tag (snd (deliver_one vt env b)) = tags tag b"
proof -
  have "tags tag (snd (hand_over vt env rec v (b\<lparr>b_gate_calls := g\<rparr>))) = tags tag b"
    if "bus_find b (env_target env) = Some rec" for rec v g
    using hand_over_tags [of "b\<lparr>b_gate_calls := g\<rparr>" env rec v] assms that by (simp add: bus_find_def tags_def)
  then show ?thesis
    by (auto simp: deliver_one_def gate_delivery_def Let_def case_prod_beta tags_def split: option.splits sum.splits)
qed

lemma pump_tags:
  assumes "om_ok (tags tag b)" and "pump vt b = Some r"
  shows "tags tag (snd r) = tags tag b"
proof -
  have "tags tag (snd s) = tags tag b" if "pump_loop vt (b\<lparr>b_in_dispatch := True, b_stop_requested := False\<rparr>) = Some s" for s
  proof (rule pump_loop_invariant [OF that, where I = "\<lambda>c. tags tag c = tags tag b"])
    fix c env rest
    assume c: "tags tag c = tags tag b"
    have q: "tags tag (c\<lparr>b_queue := rest\<rparr>) = tags tag c" by (simp add: tags_def)
    have "om_ok (tags tag (c\<lparr>b_queue := rest\<rparr>))" using assms(1) unfolding q c .
    with q c show "tags tag (snd (deliver_one vt env (c\<lparr>b_queue := rest\<rparr>))) = tags tag b"
      using deliver_one_tags by simp
  qed (simp add: tags_def)
  then show ?thesis
    using assms(2) by (fastforce simp: pump_def tags_def split: if_splits option.splits prod.splits sum.splits)
qed

lemma revive_with_tags:
  assumes "om_ok (tags tag b)" and "bus_find b i = Some rec" and "\<And>r. sr_shard (upd r) = sr_shard r"
  shows "tags tag (snd (revive_with vt i v upd rec ev out b)) = tags tag b"
proof -
  obtain res st where rv: "vt_revive vt (sr_shard rec) v = (res, st)" by (metis surj_pair)
  have "tag st = tag (sr_shard rec)" using revive_tag [of "sr_shard rec" v] rv by simp
  then have "tags tag (put_record i r (note_trace (TRevived i v) b)) = tags tag b" if "sr_shard r = st" for r
    using assms that tags_keep_record [of tag "note_trace (TRevived i v) b" i rec r]
    by (simp add: bus_find_def tags_def bus_simps)
  then show ?thesis by (auto simp: revive_with_def rv Let_def assms(3) tags_def split: sum.splits)
qed

lemma swap_state_tags:
  assumes "om_ok (tags tag b)"
  shows "tags tag (snd (swap_state vt i bytes b)) = tags tag b"
proof (cases "bus_find b i")
  case (Some rec)
  obtain res b1 where adm: "admit_candidate (sr_state_schema rec) bytes b = (res, b1)" by (metis surj_pair)
  then have b1: "b_shards b1 = b_shards b" by (rule candidate_shards)
  then have "tags tag (snd (revive_with vt i v (\<lambda>r. r\<lparr>sr_last_known_good := v, sr_alive := True\<rparr>) rec ev out b1)) = tags tag b" for v ev out
    using revive_with_tags [of b1 i rec] assms Some by (simp add: bus_find_def tags_def)
  then show ?thesis using b1
    by (auto simp: swap_state_def Some adm Let_def tags_def split: sum.splits)
qed (simp add: swap_state_def)

lemma reload_tags:
  assumes "om_ok (tags tag b)"
  shows "tags tag (snd (reload vt i bytes b)) = tags tag b"
proof (cases "bus_find b i")
  case (Some rec)
  have "tags tag (snd (reload_gated vt i bytes rec f c)) = tags tag b" if "b_shards c = b_shards b" for c f
  proof -
    obtain res b1 where adm: "admit_candidate (sr_state_schema rec) bytes c = (res, b1)" by (metis surj_pair)
    then have b1: "b_shards b1 = b_shards b" using candidate_shards that by metis
    then have "tags tag (snd (revive_with vt i v upd rec ev out b1)) = tags tag b"
      if "\<And>r. sr_shard (upd r) = sr_shard r" for v upd ev out
      using revive_with_tags [of b1 i rec upd] assms Some that by (simp add: bus_find_def tags_def)
    then show ?thesis using b1
      by (auto simp: reload_gated_def adm Let_def tags_def split: sum.splits)
  qed
  then show ?thesis
    by (auto simp: reload_def Some reload_policed_def tags_def split: sum.splits prod.splits)
qed (simp add: reload_def)

text \<open>A call of the host that neither mounts nor unmounts keeps the tags of all shards.\<close>

lemma bus_step_tags:
  assumes "bus_step vt b b'" and "om_ok (tags tag b)" and "map fst (b_shards b') = map fst (b_shards b)"
  shows "tags tag b' = tags tag b"
  using assms
proof cases
  case (register incoming gr)
  have "b_shards b' = b_shards b"
  proof (cases incoming)
    case (Some st)
    with register register_shard_shards [of st b vt gr] assms(3) show ?thesis
      by (auto simp: shards_extended_def bus_find_def om_put_new_keys split: sum.splits if_splits)
  qed (simp add: register register_shard_def)
  then show ?thesis by (rule tags_shards)
next
  case (unregister i)
  then have "b_shards b' = b_shards b"
    using assms(3) by (auto simp: unregister_shard_def bus_find_def split: option.splits dest: om_erase_keys)
  then show ?thesis by (rule tags_shards)
next
  case (kill i)
  then show ?thesis using assms(2) tags_keep_record [OF assms(2)]
    by (auto simp: kill_def tags_def split: option.splits)
next
  case (pump r)
  then show ?thesis using assms(2) pump_tags by simp
next
  case (reload i bytes)
  then show ?thesis using assms(2) reload_tags by simp
next
  case (swap i bytes)
  then show ?thesis using assms(2) swap_state_tags by simp
qed (simp_all add: send_def publish_def send_as_def publish_as_def stop_def add_observer_def remove_observer_def
    Let_def tags_def)

end

section \<open>A library's handler on the bus\<close>

lemma run_map_action: "\<exists>x. snd (fst (run_action (map_action f act) ops b)) = f x"
  by (induction act arbitrary: b) (auto simp: Let_def)

text \<open>One callback: nothing happens for an unknown schema; otherwise the gate runs, and what it accepts is
  routed.\<close>

lemma run_host_emit:
  "run_action (host_emit payload route return) ops b =
     (case resolve_schema (claimed_name (parse payload)) (claimed_version (parse payload)) b of
        None \<Rightarrow> run_action (return ZEN_ERR_UNKNOWN_SCHEMA) ops b
      | Some d \<Rightarrow>
          (case admit_unverified (\<lambda>_. None) (parse payload) (Some d) FirstError 0 of
             (a, n) \<Rightarrow>
               run_action
                 (case rbind a (\<lambda>ad. if adm_ok ad then adm_value ad else Inl Bad_variant_access) of
                    Inl _ \<Rightarrow> return ZEN_ERR_REFUSED
                  | Inr v \<Rightarrow> route v) ops (b\<lparr>b_gate_calls := b_gate_calls b + n\<rparr>)))"
  by (simp add: host_emit_def resolve_schema_def case_prod_beta split: option.splits)

text \<open>A library never throws into the bus, and leaves an instance of its own behind.\<close>

lemma run_library_returns: "\<exists>i. fst (run_action (run_library act f) ops b) = (Inr (), f i)"
proof (induction act arbitrary: b)
  case (LSend t r c p k)
  show ?case
    using LSend [OF rangeI]
    by (auto simp: run_host_emit Let_def split: option.splits prod.splits sum.splits)
next
  case (LPublish r c p k)
  show ?case
    using LPublish [OF rangeI]
    by (auto simp: run_host_emit Let_def split: option.splits prod.splits sum.splits)
qed auto

fun lib_tag :: "('n, 'i) mounted \<Rightarrow> lib_handle option" where
  "lib_tag (LocalShard n) = None"
| "lib_tag (AdapterShard a) = Some (ad_lib a)"

interpretation mounted: tagged_shards "kernel_ops nv" lib_tag for nv
proof
  fix s :: "('a, 'b) mounted" and m ops b
  show "lib_tag (snd (fst (run_action (vt_handle (kernel_ops nv) s m) ops b))) = lib_tag s"
  proof (cases s)
    case (LocalShard n)
    then show ?thesis using run_map_action [of LocalShard "vt_handle nv n m" ops b] by (auto simp: kernel_ops_def)
  next
    case (AdapterShard a)
    have "lib_tag (snd (fst (run_action (run_library act (\<lambda>i. AdapterShard (a\<lparr>ad_instance := i\<rparr>))) ops b))) =
        lib_tag (AdapterShard a :: ('a, 'b) mounted)" for act
      using run_library_returns [of act "\<lambda>i. AdapterShard (a\<lparr>ad_instance := i\<rparr>)" ops b] by auto
    with AdapterShard show ?thesis by (auto simp: kernel_ops_def adapter_handle_def split: sum.splits)
  qed
next
  fix s :: "('a, 'b) mounted" and v
  show "lib_tag (snd (vt_revive (kernel_ops nv) s v)) = lib_tag s"
    by (cases s) (auto simp: kernel_ops_def adapter_revive_def split: sum.splits prod.splits)
qed

section \<open>The life of a library\<close>

text \<open>
  The legal life of one open of a library: it is opened once; instances are created, described and
  destroyed only while it is open, and only live ones described or destroyed; and it is closed once,
  when no instance is left.
\<close>

datatype lib_state = Unopened | Open nat | Closed

fun lib_step :: "lib_event \<Rightarrow> (lib_handle \<Rightarrow> lib_state) \<Rightarrow> (lib_handle \<Rightarrow> lib_state) option" where
  "lib_step (LibOpen h) \<sigma> = (if \<sigma> h = Unopened then Some (\<sigma>(h := Open 0)) else None)"
| "lib_step (LibCreate h) \<sigma> = (case \<sigma> h of Open n \<Rightarrow> Some (\<sigma>(h := Open (Suc n))) | _ \<Rightarrow> None)"
| "lib_step (LibDescribe h) \<sigma> = (case \<sigma> h of Open (Suc n) \<Rightarrow> Some \<sigma> | _ \<Rightarrow> None)"
| "lib_step (LibDestroy h) \<sigma> = (case \<sigma> h of Open (Suc n) \<Rightarrow> Some (\<sigma>(h := Open n)) | _ \<Rightarrow> None)"
| "lib_step (LibClose h) \<sigma> = (if \<sigma> h = Open 0 then Some (\<sigma>(h := Closed)) else None)"

fun lib_run :: "lib_event list \<Rightarrow> (lib_handle \<Rightarrow> lib_state) \<Rightarrow> (lib_handle \<Rightarrow> lib_state) option" where
  "lib_run [] \<sigma> = Some \<sigma>"
| "lib_run (e # es) \<sigma> = (case lib_step e \<sigma> of None \<Rightarrow> None | Some \<sigma>' \<Rightarrow> lib_run es \<sigma>')"

lemma lib_run_append:
  "lib_run (es @ fs) \<sigma> = (case lib_run es \<sigma> of None \<Rightarrow> None | Some \<sigma>' \<Rightarrow> lib_run fs \<sigma>')"
  by (induction es arbitrary: \<sigma>) (auto split: option.splits)

definition lib_states :: "('n, 'i) kernel \<Rightarrow> (lib_handle \<Rightarrow> lib_state) option" where
  "lib_states k = lib_run (k_log k) (\<lambda>_. Unopened)"

text \<open>
  The invariant, over what the bus knows of each shard's library (\<open>T\<close>), the kernel's table (\<open>L\<close>), the
  number of opens, the libraries a throwing reload left behind, and the states of all libraries.
\<close>

definition uses :: "(loaded \<Rightarrow> 'a) \<Rightarrow> (string \<Rightarrow> loaded option) \<Rightarrow> 'a set" where
  "uses f L = f ` ran L"

definition separate :: "(loaded \<Rightarrow> 'a) \<Rightarrow> (string \<Rightarrow> loaded option) \<Rightarrow> bool" where
  "separate f L \<longleftrightarrow> (\<forall>n1 n2 r1 r2. L n1 = Some r1 \<longrightarrow> L n2 = Some r2 \<longrightarrow> f r1 = f r2 \<longrightarrow> n1 = n2)"

definition lib_inv ::
  "(shard_id \<Rightarrow> lib_handle option option) \<Rightarrow> (string \<Rightarrow> loaded option) \<Rightarrow> nat \<Rightarrow> lib_handle set \<Rightarrow>
   (lib_handle \<Rightarrow> lib_state) \<Rightarrow> bool" where
  "lib_inv T L n leaked \<sigma> \<longleftrightarrow>
     (\<forall>name rec. L name = Some rec \<longrightarrow> T (ld_id rec) = Some (Some (ld_lib rec))) \<and>
     (\<forall>i h. T i = Some (Some h) \<longrightarrow> i \<in> uses ld_id L) \<and>
     separate ld_id L \<and> separate ld_lib L \<and>
     (\<forall>h. \<sigma> h = Open 1 \<longleftrightarrow> h \<in> uses ld_lib L) \<and> (\<forall>h. \<sigma> h = Open 0 \<longleftrightarrow> h \<in> leaked) \<and>
     (\<forall>h m. \<sigma> h = Open m \<longrightarrow> m \<le> 1) \<and> (\<forall>h \<ge> n. \<sigma> h = Unopened)"

lemma uses_iff: "x \<in> uses f L \<longleftrightarrow> (\<exists>name rec. L name = Some rec \<and> f rec = x)"
  by (auto simp: uses_def ran_def)

lemma usesI: "L name = Some rec \<Longrightarrow> f rec \<in> uses f L"
  by (auto simp: uses_iff)

lemma uses_new: "L name = None \<Longrightarrow> uses f (L(name \<mapsto> rec)) = insert (f rec) (uses f L)"
  by (simp add: uses_def)

lemma uses_old:
  assumes "separate f L" and "L name = Some rec"
  shows "uses f (L(name := x)) = (uses f L - {f rec}) \<union> f ` set_option x"
proof -
  have "f r = f rec \<longleftrightarrow> m = name" if "L m = Some r" for m r
    using assms that unfolding separate_def by (metis option.inject)
  then have "y \<in> uses f (L(name := x)) \<longleftrightarrow> y \<in> (uses f L - {f rec}) \<union> f ` set_option x" for y
    by (cases x) (auto simp: uses_iff split: if_splits)
  then show ?thesis by blast
qed

lemma separate_put:
  assumes "separate f L" and "f rec \<notin> uses f (L(name := None))"
  shows "separate f (L(name \<mapsto> rec))"
proof -
  have "f r \<noteq> f rec" if "L m = Some r" "m \<noteq> name" for m r
    using assms(2) usesI [of "L(name := None)" m r f] that by auto
  then show ?thesis using assms(1) unfolding separate_def by auto metis
qed

lemma separate_erase: "separate f L \<Longrightarrow> separate f (L(name := None))"
  unfolding separate_def by (auto split: if_splits)

lemma lib_inv_fresh:
  assumes "lib_inv T L n X \<sigma>"
  shows "\<sigma> n = Unopened" and "n \<notin> uses ld_lib L" and "n \<notin> X"
proof -
  show u: "\<sigma> n = Unopened" using assms by (simp add: lib_inv_def)
  show "n \<notin> X" "n \<notin> uses ld_lib L"
    using assms u unfolding lib_inv_def by (metis lib_state.distinct(1))+
qed

lemma lib_inv_entry:
  assumes "lib_inv T L n X \<sigma>" and "L name = Some rec"
  shows "\<sigma> (ld_lib rec) = Open 1" and "ld_lib rec < n" and "ld_lib rec \<notin> X"
    and "T (ld_id rec) = Some (Some (ld_lib rec))"
proof -
  show st: "\<sigma> (ld_lib rec) = Open 1" using assms usesI [of L name rec ld_lib] by (simp add: lib_inv_def)
  show "T (ld_id rec) = Some (Some (ld_lib rec))" using assms by (simp add: lib_inv_def)
  show "ld_lib rec < n"
  proof (rule ccontr)
    assume "\<not> ld_lib rec < n"
    then show False using assms(1) st by (simp add: lib_inv_def)
  qed
  have "\<sigma> (ld_lib rec) \<noteq> Open 0" using st by simp
  then show "ld_lib rec \<notin> X" using assms(1) by (simp add: lib_inv_def)
qed

text \<open>A library that is opened and closed again, a load, the two ends of a reload, an unload.\<close>

lemma lib_inv_failed:
  assumes "lib_inv T L n X \<sigma>"
  shows "lib_inv T L (Suc n) X (\<sigma>(n := Closed))"
  using assms lib_inv_fresh [OF assms] unfolding lib_inv_def by auto

lemma lib_inv_load:
  assumes "lib_inv T L n X \<sigma>" and "T i = None" and "L name = None"
  shows "lib_inv (T(i := Some (Some n))) (L(name \<mapsto> \<lparr>ld_lib = n, ld_id = i\<rparr>)) (Suc n) X (\<sigma>(n := Open 1))"
proof -
  have i: "i \<notin> uses ld_id L" using assms(1,2) unfolding lib_inv_def uses_def ran_def by fastforce
  have "separate ld_id (L(name \<mapsto> \<lparr>ld_lib = n, ld_id = i\<rparr>))" "separate ld_lib (L(name \<mapsto> \<lparr>ld_lib = n, ld_id = i\<rparr>))"
    using assms i lib_inv_fresh [OF assms(1)] by (auto intro!: separate_put simp: lib_inv_def fun_upd_idem)
  then show ?thesis
    using assms i lib_inv_fresh [OF assms(1)] unfolding lib_inv_def by (auto simp: uses_new dest: usesI)
qed

lemma lib_inv_reload:
  assumes "lib_inv T L n X \<sigma>" and "L name = Some rec"
    and "st = Closed \<and> Y = X \<or> st = Open 0 \<and> Y = insert (ld_lib rec) X"
  shows "lib_inv (T(ld_id rec := Some (Some n))) (L(name \<mapsto> rec\<lparr>ld_lib := n\<rparr>)) (Suc n) Y
    (\<sigma>(n := Open 1, ld_lib rec := st))"
proof -
  have sep: "separate ld_id L" "separate ld_lib L" using assms(1) by (simp_all add: lib_inv_def)
  note u = uses_old [OF sep(1) assms(2)] uses_old [OF sep(2) assms(2)]
  have "separate ld_id (L(name \<mapsto> rec\<lparr>ld_lib := n\<rparr>))" "separate ld_lib (L(name \<mapsto> rec\<lparr>ld_lib := n\<rparr>))"
    using sep lib_inv_fresh [OF assms(1)] by (auto intro!: separate_put simp: u)
  moreover have "ld_id r \<noteq> ld_id rec" if "L m = Some r" "m \<noteq> name" for m r
    using sep(1) assms(2) that unfolding separate_def by blast
  ultimately show ?thesis
    using assms lib_inv_fresh [OF assms(1)] lib_inv_entry [OF assms(1,2)] usesI [of L name rec ld_lib]
      usesI [of L name rec ld_id]
    unfolding lib_inv_def by (auto simp: u)
qed

lemma lib_inv_unload:
  assumes "lib_inv T L n X \<sigma>" and "L name = Some rec"
  shows "lib_inv (T(ld_id rec := None)) (L(name := None)) n X (\<sigma>(ld_lib rec := Closed))"
proof -
  have sep: "separate ld_id L" "separate ld_lib L" using assms(1) by (simp_all add: lib_inv_def)
  note u = uses_old [OF sep(1) assms(2), of None] uses_old [OF sep(2) assms(2), of None]
  have "ld_id r \<noteq> ld_id rec" if "L m = Some r" "m \<noteq> name" for m r
    using sep(1) assms(2) that unfolding separate_def by blast
  then show ?thesis
    using assms lib_inv_entry [OF assms(1,2)] separate_erase [OF sep(1)] separate_erase [OF sep(2)]
    unfolding lib_inv_def by (auto simp: u)
qed

lemma lib_inv_local:
  assumes "lib_inv T L n X \<sigma>"
  shows "T i = None \<Longrightarrow> lib_inv (T(i := Some None)) L n X \<sigma>"
    and "T i = Some None \<Longrightarrow> lib_inv (T(i := None)) L n X \<sigma>"
  using assms unfolding lib_inv_def by (auto split: if_splits)

section \<open>What the kernel's operations do to the libraries\<close>

lemma open_instance_outcome:
  assumes "open_instance env k = (res, k')"
  shows "case res of
      Inl _ \<Rightarrow> k' = k \<or> k' = k\<lparr>k_opens := Suc (k_opens k),
        k_log := k_log k @ [LibOpen (k_opens k), LibClose (k_opens k)]\<rparr>
    | Inr (h, abi, inst) \<Rightarrow> h = k_opens k \<and> k' = k\<lparr>k_opens := Suc (k_opens k),
        k_log := k_log k @ [LibOpen (k_opens k), LibCreate (k_opens k)]\<rparr>"
  using assms
  by (auto simp: open_instance_def lib_open_def lib_close_def note_lib_def split: if_splits sum.splits option.splits)

text \<open>A description of an instance costs one call of the library, a run of the gate, and may publish schemas.\<close>

definition described :: "lib_handle \<Rightarrow> u64 \<Rightarrow> registry \<Rightarrow> ('n, 'i) kernel \<Rightarrow> ('n, 'i) kernel" where
  "described h g r k =
     k\<lparr>k_bus := (k_bus k)\<lparr>b_gate_calls := g\<rparr>, k_registry := r, k_log := k_log k @ [LibDescribe h]\<rparr>"

lemma described_same:
  "note_lib (LibDescribe h) k = described h (b_gate_calls (k_bus k)) (k_registry k) k"
  "(note_lib (LibDescribe h) k)\<lparr>k_bus := (k_bus k)\<lparr>b_gate_calls := g\<rparr>\<rparr> = described h g (k_registry k) k"
  "(described h g r' k)\<lparr>k_registry := r\<rparr> = described h g r k"
  by (simp_all add: described_def note_lib_def)

lemma reconstruct_outcome:
  assumes "reconstruct abi inst h k = (res, k')"
  shows "\<exists>g r. k' = described h g r k"
proof -
  obtain st bytes where d: "abi_describe abi inst = (st, bytes)" by (metis surj_pair)
  show ?thesis
  proof (cases "st = ZEN_OK")
    case True
    obtain a g where "admit_candidate manifest_sch bytes (k_bus k) = (Inr a, (k_bus k)\<lparr>b_gate_calls := g\<rparr>)"
      using candidate_returns by blast
    moreover have "k_bus (note_lib (LibDescribe h) k) = k_bus k" by (simp add: note_lib_def)
    ultimately show ?thesis
      using assms d True
      by (auto simp: reconstruct_def Let_def manifest_schema_eq described_same(2,3) split: if_splits sum.splits prod.splits)
  qed (use assms d in \<open>auto simp: reconstruct_def Let_def described_same(1)\<close>)
qed

text \<open>The invariant of a kernel and its bus.\<close>

definition kernel_ok :: "lib_handle set \<Rightarrow> ('n, 'i) kernel \<Rightarrow> bool" where
  "kernel_ok leaked k \<longleftrightarrow>
     om_ok (b_shards (k_bus k)) \<and> om_ok (k_libs k) \<and>
     (\<exists>\<sigma>. lib_states k = Some \<sigma> \<and>
        lib_inv (om_find (tags lib_tag (k_bus k))) (om_find (k_libs k)) (k_opens k) leaked \<sigma>)"

lemma kernel_okE:
  assumes "kernel_ok leaked k"
  obtains \<sigma> where "lib_states k = Some \<sigma>" and "om_ok (b_shards (k_bus k))" and "om_ok (k_libs k)"
    and "lib_inv (om_find (tags lib_tag (k_bus k))) (om_find (k_libs k)) (k_opens k) leaked \<sigma>"
  using assms unfolding kernel_ok_def by blast

lemma kernel_okI:
  assumes "lib_states k = Some \<sigma>" and "k_log k' = k_log k @ es" and "lib_run es \<sigma> = Some \<sigma>'"
    and "om_ok (b_shards (k_bus k'))" and "om_ok (k_libs k')"
    and "lib_inv (om_find (tags lib_tag (k_bus k'))) (om_find (k_libs k')) (k_opens k') leaked \<sigma>'"
  shows "kernel_ok leaked k'"
  using assms unfolding kernel_ok_def lib_states_def by (simp add: lib_run_append)

lemma kernel_ok_new [simp]: "kernel_ok {} (new_kernel (new_bus g))"
  by (simp add: kernel_ok_def new_kernel_def lib_states_def lib_inv_def new_bus_def tags_def separate_def uses_iff)

text \<open>A library that does not make it is opened, used and closed.\<close>

lemma kernel_ok_failed:
  assumes "kernel_ok X k" and "k_log k' = k_log k @ es" and "k_opens k' = Suc (k_opens k)"
    and "es \<in> {[LibOpen h, LibClose h], [LibOpen h, LibCreate h, LibDescribe h, LibDestroy h, LibClose h]}"
    and "h = k_opens k" and "b_shards (k_bus k') = b_shards (k_bus k)" and "k_libs k' = k_libs k"
  shows "kernel_ok X k'"
proof -
  obtain \<sigma> where st: "lib_states k = Some \<sigma>" and ok: "om_ok (b_shards (k_bus k))" "om_ok (k_libs k)"
    and inv: "lib_inv (om_find (tags lib_tag (k_bus k))) (om_find (k_libs k)) (k_opens k) X \<sigma>"
    by (rule kernel_okE [OF assms(1)])
  have "lib_run es \<sigma> = Some (\<sigma>(h := Closed))"
    using assms(4,5) lib_inv_fresh [OF inv] by auto
  then show ?thesis
    using kernel_okI [OF st assms(2)] lib_inv_failed [OF inv] assms ok tags_shards [OF assms(6), of lib_tag] by simp
qed

lemma tags_set_self: "om_ok (b_shards b) \<Longrightarrow> tags lib_tag (set_self i b) = tags lib_tag b"
  by (auto simp: set_self_def intro: tags_keep_record simp: om_ok_tags split: option.splits mounted.splits)

text \<open>The next shard id is free (ids count up from one in 64 bits).\<close>

definition fresh_id :: "'s bus \<Rightarrow> bool" where
  "fresh_id b \<longleftrightarrow> bus_find b (b_next_shard_id b) = None"

text \<open>A library that has been opened, instantiated and described: what has changed, and that it can be
  given up again.\<close>

definition instantiated :: "lib_handle \<Rightarrow> ('n, 'i) kernel \<Rightarrow> ('n, 'i) kernel \<Rightarrow> bool" where
  "instantiated h k k2 \<longleftrightarrow>
     h = k_opens k \<and> k_opens k2 = Suc h \<and> k_log k2 = k_log k @ [LibOpen h, LibCreate h, LibDescribe h] \<and>
     k_libs k2 = k_libs k \<and> (\<exists>g. k_bus k2 = (k_bus k)\<lparr>b_gate_calls := g\<rparr>)"

lemma instantiated_by:
  assumes "open_instance env k = (Inr (h, abi, inst), k1)" and "reconstruct abi inst h k1 = (res, k2)"
  shows "instantiated h k k2"
  using open_instance_outcome [OF assms(1)] reconstruct_outcome [OF assms(2)]
  by (auto simp: instantiated_def described_def)

lemma instantiated_bus:
  assumes "instantiated h k k2"
  shows "b_shards (k_bus k2) = b_shards (k_bus k)" and "b_next_shard_id (k_bus k2) = b_next_shard_id (k_bus k)"
    and "bus_find (k_bus k2) = bus_find (k_bus k)" and "tags tag (k_bus k2) = tags tag (k_bus k)"
  using assms by (auto simp: instantiated_def bus_find_def tags_def)

lemma given_up:
  assumes "kernel_ok X k" and "instantiated h k k2" and "b_shards b = b_shards (k_bus k)"
  shows "kernel_ok X (lib_close h (lib_destroy h (k2\<lparr>k_bus := b\<rparr>)))"
  by (rule kernel_ok_failed [OF assms(1), where h = h and
        es = "[LibOpen h, LibCreate h, LibDescribe h, LibDestroy h, LibClose h]"])
    (use assms(2,3) in \<open>auto simp: instantiated_def lib_close_def lib_destroy_def note_lib_def\<close>)

lemma not_opened:
  assumes "kernel_ok X k" and "open_instance env k = (Inl e, k1)"
  shows "kernel_ok X k1"
  using open_instance_outcome [OF assms(2)] assms(1)
    kernel_ok_failed [OF assms(1), of k1 "[LibOpen (k_opens k), LibClose (k_opens k)]"] by auto

lemma loaded_ok:
  assumes "kernel_ok X k" and "fresh_id (k_bus k)" and "om_find (k_libs k) name = None" and "instantiated h k k2"
    and "sr_shard rec = AdapterShard a" and "ad_lib a = h" and "i = b_next_shard_id (k_bus k)"
    and "b_shards b = om_put i rec (b_shards (k_bus k))"
  shows "kernel_ok X (k2\<lparr>k_bus := set_self i b, k_libs := om_put name \<lparr>ld_lib = h, ld_id = i\<rparr> (k_libs k2)\<rparr>)"
    (is "kernel_ok X ?k3")
proof -
  obtain \<sigma> where st: "lib_states k = Some \<sigma>" and ok: "om_ok (b_shards (k_bus k))" "om_ok (k_libs k)"
    and inv: "lib_inv (om_find (tags lib_tag (k_bus k))) (om_find (k_libs k)) (k_opens k) X \<sigma>"
    by (rule kernel_okE [OF assms(1)])
  have okb: "om_ok (b_shards b)" using ok assms(8) by (simp add: om_ok_put)
  have "tags lib_tag b = om_put i (Some h) (tags lib_tag (k_bus k))"
    using assms(5,6,8) by (simp add: tags_def om_put_map)
  then have t3: "tags lib_tag (k_bus ?k3) = om_put i (Some h) (tags lib_tag (k_bus k))"
    by (simp add: tags_set_self [OF okb])
  have "om_find (tags lib_tag (k_bus k)) i = None"
    using assms(2,7) by (simp add: om_find_tags fresh_id_def)
  from lib_inv_load [OF inv this assms(3)]
  have "lib_inv (om_find (tags lib_tag (k_bus ?k3))) (om_find (k_libs ?k3)) (k_opens ?k3) X (\<sigma>(h := Open 1))"
    using t3 assms(4) by (simp add: instantiated_def om_find_put)
  moreover have "lib_run [LibOpen h, LibCreate h, LibDescribe h] \<sigma> = Some (\<sigma>(h := Open 1))"
    using lib_inv_fresh [OF inv] assms(4) by (simp add: instantiated_def)
  moreover have "om_ok (tags lib_tag (k_bus ?k3))" using t3 ok by (simp add: om_ok_tags om_ok_put)
  ultimately show ?thesis
    using kernel_okI [OF st, of ?k3 "[LibOpen h, LibCreate h, LibDescribe h]"] ok assms(4)
    by (simp add: instantiated_def om_ok_put om_ok_tags)
qed

lemma load_kernel_ok:
  assumes "kernel_ok X k" and "fresh_id (k_bus k)"
  shows "kernel_ok X (snd (load nv name env k))"
proof (cases "om_find (k_libs k) name")
  case free: None
  obtain res k1 where op: "open_instance env k = (res, k1)" by (metis surj_pair)
  show ?thesis
  proof (cases res)
    case (Inl e)
    then show ?thesis using not_opened [OF assms(1)] op by (simp add: load_def free)
  next
    case (Inr hai)
    obtain h abi inst where hai: "hai = (h, abi, inst)" by (metis prod_cases3)
    obtain rres k2 where rc: "reconstruct abi inst h k1 = (rres, k2)" by (metis surj_pair)
    have in2: "instantiated h k k2" using instantiated_by op Inr hai rc by metis
    note up = given_up [OF assms(1) in2] and b2 = instantiated_bus [OF in2]
    show ?thesis
    proof (cases rres)
      case (Inl e)
      then show ?thesis using up [of "k_bus k2"] b2(1) by (simp add: load_def free op Inr hai rc)
    next
      case acc: (Inr as)
      obtain accepted state where as: "as = (accepted, state)" by (metis surj_pair)
      define a where "a = new_adapter abi inst accepted state h"
      obtain reg b where rs: "register_shard (kernel_ops nv) (Some (AdapterShard a)) (allow_any grant_nothing) (k_bus k2) = (reg, b)"
        by (metis surj_pair)
      then have ext: "shards_extended (AdapterShard a) (k_bus k2) (reg, b)"
        using register_shard_shards by metis
      have run: "load nv name env k = (case reg of
          Inl e \<Rightarrow> (load_refused (''load refused: '' @ exn_what e), lib_close h (lib_destroy h (k2\<lparr>k_bus := b\<rparr>)))
        | Inr i \<Rightarrow> (\<lparr>lr_ok = True, lr_id = i, lr_error = []\<rparr>,
            k2\<lparr>k_bus := set_self i b, k_libs := om_put name \<lparr>ld_lib = h, ld_id = i\<rparr> (k_libs k2)\<rparr>))"
        by (simp add: load_def free op Inr hai rc acc as rs split: sum.splits flip: a_def)
      show ?thesis
        using ext b2 assms(2) up [of b] loaded_ok [OF assms free in2, of _ a _ b]
        by (auto simp: run shards_extended_def fresh_id_def bus_find_def a_def new_adapter_def split: sum.splits)
    qed
  qed
qed (simp add: load_def assms)

lemma adapter_at_tag:
  "om_find (tags lib_tag b) i = Some (Some h) \<Longrightarrow> \<exists>rec a. bus_find b i = Some rec \<and> sr_shard rec = AdapterShard a \<and> ad_lib a = h"
  by (auto simp: om_find_tags elim: lib_tag.elims)

lemma entry_adapter:
  assumes "kernel_ok X k" and "om_find (k_libs k) name = Some e"
  obtains rec a where "bus_find (k_bus k) (ld_id e) = Some rec" and "sr_shard rec = AdapterShard a"
    and "ad_lib a = ld_lib e"
proof -
  from assms(1) obtain \<sigma> where "lib_inv (om_find (tags lib_tag (k_bus k))) (om_find (k_libs k)) (k_opens k) X \<sigma>"
    by (rule kernel_okE)
  from adapter_at_tag [OF lib_inv_entry(4) [OF this assms(2)]] that show ?thesis by blast
qed

text \<open>The table and the bus after a commit; \<open>closing\<close> says whether the old library is closed.\<close>

lemma committed_ok:
  assumes "kernel_ok X k" and "om_find (k_libs k) name = Some e" and "instantiated h k k2"
    and "om_ok (b_shards b)" and "tags lib_tag b = om_put (ld_id e) (Some h) (tags lib_tag (k_bus k))"
    and "k_bus k3 = b" and "k_libs k3 = om_put name (e\<lparr>ld_lib := h\<rparr>) (k_libs k2)" and "k_opens k3 = k_opens k2"
    and "k_log k3 = k_log k2 @ LibDestroy (ld_lib e) # (if closing then [LibClose (ld_lib e)] else [])"
  shows "kernel_ok (if closing then X else insert (ld_lib e) X) k3"
proof -
  obtain \<sigma> where st: "lib_states k = Some \<sigma>" and ok: "om_ok (b_shards (k_bus k))" "om_ok (k_libs k)"
    and inv: "lib_inv (om_find (tags lib_tag (k_bus k))) (om_find (k_libs k)) (k_opens k) X \<sigma>"
    by (rule kernel_okE [OF assms(1)])
  let ?old = "ld_lib e" and ?fin = "if closing then Closed else Open 0"
  note fresh = lib_inv_fresh [OF inv] and old = lib_inv_entry [OF inv assms(2)]
  have h: "h = k_opens k" using assms(3) by (simp add: instantiated_def)
  let ?es = "[LibOpen h, LibCreate h, LibDescribe h, LibDestroy ?old] @ (if closing then [LibClose ?old] else [])"
  have run: "lib_run ?es \<sigma> = Some (\<sigma>(h := Open 1, ?old := ?fin))"
    using fresh old h by simp
  have "lib_inv ((om_find (tags lib_tag (k_bus k)))(ld_id e := Some (Some h))) ((om_find (k_libs k))(name \<mapsto> e\<lparr>ld_lib := h\<rparr>))
      (Suc h) (if closing then X else insert ?old X) (\<sigma>(h := Open 1, ?old := ?fin))"
    using lib_inv_reload [OF inv assms(2), of ?fin] h by simp
  then show ?thesis
    using kernel_okI [OF st _ run, of k3] assms(3-9) ok
    by (simp add: instantiated_def om_find_put om_ok_put)
qed

lemma commit_reload_ok:
  assumes "kernel_ok X k" and "om_find (k_libs k) name = Some e" and "instantiated h k k2"
    and "commit_reload nv name e snapshot h abi inst k2 = (res, k')"
  shows "kernel_ok (case res of Inl _ \<Rightarrow> insert (ld_lib e) X | Inr _ \<Rightarrow> X) k'"
proof -
  obtain rec a where rec: "bus_find (k_bus k) (ld_id e) = Some rec" "sr_shard rec = AdapterShard a" "ad_lib a = ld_lib e"
    by (rule entry_adapter [OF assms(1,2)])
  note b2 = instantiated_bus [OF assms(3)]
  define rec' where "rec' = rec\<lparr>sr_shard := AdapterShard (a\<lparr>ad_abi := abi, ad_instance := inst, ad_lib := h\<rparr>)\<rparr>"
  define b where "b = put_record (ld_id e) rec' (k_bus k2)"
  obtain sres b3 where sw: "swap_state (kernel_ops nv) (ld_id e) snapshot b = (sres, b3)" by (metis surj_pair)
  have okb: "om_ok (b_shards b)"
    using assms(1) b2(1) by (simp add: b_def put_record_def om_ok_put kernel_ok_def)
  have "tags lib_tag b3 = tags lib_tag b"
    using mounted.swap_state_tags [of b nv "ld_id e" snapshot] okb sw by (simp add: om_ok_tags)
  then have t3: "tags lib_tag b3 = om_put (ld_id e) (Some h) (tags lib_tag (k_bus k))"
    by (simp add: b_def tags_put_record rec'_def b2)
  have ok3: "om_ok (b_shards b3)"
    using okb \<open>tags lib_tag b3 = tags lib_tag b\<close> om_ok_tags [of lib_tag b3] om_ok_tags [of lib_tag b] by simp
  have rb: "rebind (ld_id e) abi inst h k2 = (lib_destroy (ld_lib e) k2)\<lparr>k_bus := b\<rparr>"
    using rec by (simp add: rebind_def b2 b_def rec'_def)
  show ?thesis
    using assms(4)
    by (auto simp: commit_reload_def rb sw Let_def lib_destroy_def lib_close_def note_lib_def
        split: sum.splits if_splits intro!: committed_ok [OF assms(1-3) ok3 t3, where closing = False, simplified]
          committed_ok [OF assms(1-3) ok3 t3, where closing = True, simplified])
qed

lemma reload_from_kernel_ok:
  assumes "kernel_ok X k" and "reload_from nv name env k = (res, k')"
  shows "case res of
      Inl _ \<Rightarrow> (\<exists>e. om_find (k_libs k) name = Some e \<and> kernel_ok (insert (ld_lib e) X) k')
    | Inr _ \<Rightarrow> kernel_ok X k'"
proof (cases "om_find (k_libs k) name")
  case (Some e)
  obtain ores k1 where op: "open_instance env k = (ores, k1)" by (metis surj_pair)
  show ?thesis
  proof (cases "snapshot_bytes (kernel_ops nv) (ld_id e) (k_bus k)")
    case snap: (Inr snapshot)
    show ?thesis
    proof (cases ores)
      case (Inl er)
      then show ?thesis using assms op snap Some not_opened [OF assms(1)] by (auto simp: reload_from_def)
    next
      case (Inr hai)
      obtain h abi inst where hai: "hai = (h, abi, inst)" by (metis prod_cases3)
      obtain rres k2 where rc: "reconstruct abi inst h k1 = (rres, k2)" by (metis surj_pair)
      have in2: "instantiated h k k2" using instantiated_by op Inr hai rc by metis
      have up: "kernel_ok X (lib_close h (lib_destroy h k2))"
        using given_up [OF assms(1) in2, of "k_bus k2"] instantiated_bus(1) [OF in2] by simp
      obtain rec a where "bus_find (k_bus k) (ld_id e) = Some rec" "sr_shard rec = AdapterShard a"
        by (rule entry_adapter [OF assms(1) Some])
      then have at: "adapter_at (ld_id e) (k_bus k2) = Some a"
        by (simp add: adapter_at_def instantiated_bus(3) [OF in2])
      show ?thesis
        using assms(2) up commit_reload_ok [OF assms(1) Some in2, of nv snapshot abi inst res k'] Some
        by (auto simp: reload_from_def snap op Inr hai rc at split: sum.splits if_splits)
    qed
  qed (use assms Some in \<open>auto simp: reload_from_def\<close>)
qed (use assms in \<open>auto simp: reload_from_def\<close>)

lemma unload_kernel_ok:
  assumes "kernel_ok X k"
  shows "kernel_ok X (snd (unload name k))"
proof (cases "om_find (k_libs k) name")
  case (Some e)
  obtain \<sigma> where st: "lib_states k = Some \<sigma>" and ok: "om_ok (b_shards (k_bus k))" "om_ok (k_libs k)"
    and inv: "lib_inv (om_find (tags lib_tag (k_bus k))) (om_find (k_libs k)) (k_opens k) X \<sigma>"
    by (rule kernel_okE [OF assms])
  obtain rec a where rec: "bus_find (k_bus k) (ld_id e) = Some rec" "sr_shard rec = AdapterShard a" "ad_lib a = ld_lib e"
    by (rule entry_adapter [OF assms Some])
  define b where "b = (k_bus k)\<lparr>b_shards := om_erase (ld_id e) (b_shards (k_bus k))\<rparr>"
  have tb: "tags lib_tag b = om_erase (ld_id e) (tags lib_tag (k_bus k))"
    by (simp add: b_def tags_def om_erase_map)
  have find: "om_find (tags lib_tag b) = (om_find (tags lib_tag (k_bus k)))(ld_id e := None)"
    unfolding tb using ok by (simp add: om_find_erase om_ok_tags)
  let ?k = "snd (unload name k)"
  have "lib_run [LibDestroy (ld_lib e), LibClose (ld_lib e)] \<sigma> = Some (\<sigma>(ld_lib e := Closed))"
    using lib_inv_entry [OF inv Some] by simp
  moreover have "k_log ?k = k_log k @ [LibDestroy (ld_lib e), LibClose (ld_lib e)]" "k_bus ?k = b"
    "k_libs ?k = om_erase name (k_libs k)" "k_opens ?k = k_opens k"
    using Some rec
    by (simp_all add: unload_def unregister_shard_def lib_destroy_def lib_close_def note_lib_def b_def Let_def)
  ultimately show ?thesis
    using kernel_okI [OF st, of ?k] lib_inv_unload [OF inv Some] ok find
    by (simp add: om_find_erase om_ok_erase b_def)
qed (simp add: unload_def assms)

section \<open>No call into a closed library\<close>

text \<open>
  Every sequence of calls on the kernel, of mounting and unmounting shards compiled into the host, and of
  other calls on the bus, which leave the set of shards alone. \<open>leaked\<close> collects the old library of each
  reload out of which an exception escaped.
\<close>

inductive kernel_run :: "'n shard_ops \<Rightarrow> lib_handle set \<Rightarrow> ('n, 'i) kernel \<Rightarrow> bool" for nv where
  start: "kernel_run nv {} (new_kernel (new_bus g))"
| load: "kernel_run nv X k \<Longrightarrow> fresh_id (k_bus k) \<Longrightarrow> kernel_run nv X (snd (load nv name env k))"
| reload: "kernel_run nv X k \<Longrightarrow> reload_from nv name env k = (Inr r, k') \<Longrightarrow> kernel_run nv X k'"
| reload_throws: "kernel_run nv X k \<Longrightarrow> reload_from nv name env k = (Inl e, k') \<Longrightarrow>
    om_find (k_libs k) name = Some rec \<Longrightarrow> kernel_run nv (insert (ld_lib rec) X) k'"
| unload: "kernel_run nv X k \<Longrightarrow> kernel_run nv X (snd (unload name k))"
| mount: "kernel_run nv X k \<Longrightarrow> fresh_id (k_bus k) \<Longrightarrow>
    kernel_run nv X (k\<lparr>k_bus := snd (register_shard (kernel_ops nv) (Some (LocalShard n)) gr (k_bus k))\<rparr>)"
| unmount: "kernel_run nv X k \<Longrightarrow> bus_find (k_bus k) i = Some rec \<Longrightarrow> sr_shard rec = LocalShard n \<Longrightarrow>
    kernel_run nv X (k\<lparr>k_bus := snd (unregister_shard i (k_bus k))\<rparr>)"
| call: "kernel_run nv X k \<Longrightarrow> bus_step (kernel_ops nv) (k_bus k) b \<Longrightarrow>
    map fst (b_shards b) = map fst (b_shards (k_bus k)) \<Longrightarrow> kernel_run nv X (k\<lparr>k_bus := b\<rparr>)"

lemma kernel_ok_bus:
  assumes "kernel_ok X k" and "om_ok (b_shards b)"
    and "\<And>\<sigma>. lib_inv (om_find (tags lib_tag (k_bus k))) (om_find (k_libs k)) (k_opens k) X \<sigma> \<Longrightarrow>
      lib_inv (om_find (tags lib_tag b)) (om_find (k_libs k)) (k_opens k) X \<sigma>"
  shows "kernel_ok X (k\<lparr>k_bus := b\<rparr>)"
  using assms unfolding kernel_ok_def lib_states_def by auto

lemma kernel_run_ok: "kernel_run nv X k \<Longrightarrow> kernel_ok X k"
proof (induction rule: kernel_run.induct)
  case (reload X k name env r k')
  then show ?case using reload_from_kernel_ok [of X k nv name env "Inr r" k'] by simp
next
  case (reload_throws X k name env e k' rec)
  then show ?case using reload_from_kernel_ok [of X k nv name env "Inl e" k'] by simp
next
  case (mount X k n gr)
  obtain res b where rs: "register_shard (kernel_ops nv) (Some (LocalShard n)) gr (k_bus k) = (res, b)" by (metis surj_pair)
  then have ext: "shards_extended (LocalShard n) (k_bus k) (res, b)" using register_shard_shards by metis
  have ok: "om_ok (b_shards (k_bus k))" using mount.IH by (simp add: kernel_ok_def)
  show ?case
  proof (cases res)
    case (Inl e)
    then have "b_shards b = b_shards (k_bus k)" using ext by (simp add: shards_extended_def)
    then show ?thesis using mount.IH ok tags_shards [of b "k_bus k" lib_tag] by (simp add: rs kernel_ok_bus)
  next
    case (Inr i)
    then obtain rec where i: "bus_find (k_bus k) i = None" and b: "b_shards b = om_put i rec (b_shards (k_bus k))"
      "sr_shard rec = LocalShard n"
      using ext mount(2) by (auto simp: shards_extended_def fresh_id_def)
    then have tb: "tags lib_tag b = om_put i None (tags lib_tag (k_bus k))" by (simp add: tags_def om_put_map)
    have "om_find (tags lib_tag (k_bus k)) i = None" using i by (simp add: om_find_tags)
    then show ?thesis
      using mount.IH ok b by (auto simp: rs tb om_find_put om_ok_put intro!: kernel_ok_bus lib_inv_local(1))
  qed
next
  case (unmount X k i rec n)
  then have ok: "om_ok (b_shards (k_bus k))" by (simp add: kernel_ok_def)
  let ?b = "(k_bus k)\<lparr>b_shards := om_erase i (b_shards (k_bus k))\<rparr>"
  have "tags lib_tag ?b = om_erase i (tags lib_tag (k_bus k))" by (simp add: tags_def om_erase_map)
  then have "om_find (tags lib_tag ?b) = (om_find (tags lib_tag (k_bus k)))(i := None)"
    using ok by (simp add: om_find_erase om_ok_tags)
  moreover have "om_find (tags lib_tag (k_bus k)) i = Some None" using unmount by (simp add: om_find_tags)
  ultimately show ?case
    using unmount ok by (auto simp: unregister_shard_def om_ok_erase intro!: kernel_ok_bus lib_inv_local(2))
next
  case (call X k b)
  then have ok: "om_ok (b_shards (k_bus k))" by (simp add: kernel_ok_def)
  then have "tags lib_tag b = tags lib_tag (k_bus k)"
    using mounted.bus_step_tags [OF call(2) _ call(3)] by (simp add: om_ok_tags)
  moreover have "om_ok (b_shards b)" using ok call(3) by (simp add: om_ok_def)
  ultimately show ?case using call.IH by (simp add: kernel_ok_bus)
qed (simp_all add: load_kernel_ok unload_kernel_ok)

text \<open>
  C18: No call ever lands in a closed library, and no library is forgotten. After any sequence of loads, hot
  reloads, unloads, mounts of native shards and traffic on the bus: the kernel's own opens, creations,
  descriptions, destructions and closes were all legal (every call fell between the open and the one close
  of its library, on a live instance, and no library was closed under a live instance); every adapter on
  the bus runs on a library that is open with exactly one instance; a library is open with an instance
  exactly when the kernel lists it; and the only libraries open without an instance are the old ones of
  reloads out of which an exception escaped.
\<close>

theorem library_lifetimes:
  assumes "kernel_run nv leaked k"
  shows "\<exists>\<sigma>. lib_run (k_log k) (\<lambda>_. Unopened) = Some \<sigma> \<and>
    (\<forall>i a. adapter_at i (k_bus k) = Some a \<longrightarrow> \<sigma> (ad_lib a) = Open 1) \<and>
    (\<forall>h. \<sigma> h = Open 1 \<longleftrightarrow> (\<exists>name rec. om_find (k_libs k) name = Some rec \<and> ld_lib rec = h)) \<and>
    (\<forall>h n. \<sigma> h = Open n \<longrightarrow> n \<le> 1) \<and> {h. \<sigma> h = Open 0} = leaked"
proof -
  obtain \<sigma> where st: "lib_states k = Some \<sigma>"
    and inv: "lib_inv (om_find (tags lib_tag (k_bus k))) (om_find (k_libs k)) (k_opens k) leaked \<sigma>"
    by (rule kernel_okE [OF kernel_run_ok [OF assms]])
  have "\<sigma> (ad_lib a) = Open 1" if at: "adapter_at i (k_bus k) = Some a" for i a
  proof -
    have tag: "om_find (tags lib_tag (k_bus k)) i = Some (Some (ad_lib a))"
      using at by (auto simp: adapter_at_def om_find_tags split: option.splits mounted.splits)
    then obtain name rec where "om_find (k_libs k) name = Some rec" "ld_id rec = i"
      using inv unfolding lib_inv_def uses_iff by blast
    then show ?thesis using lib_inv_entry(1,4) [OF inv] tag by fastforce
  qed
  then show ?thesis using st inv by (auto simp: lib_states_def lib_inv_def uses_iff)
qed

end
