(* ===== verification/Zen_Export.thy ===== *)
theory Zen_Export
  imports Zen_Library
begin

text \<open>
  One shard, two homes: what an instance of a class does to the bus when it is compiled into the host and when it is
  exported by \<open>ZEN_EXPORT_SHARD\<close> and sits behind the kernel's adapter, for values that cross the seam and handlers
  that do not look at what their sends return.
\<close>

section \<open>Handlers that do not depend on their home\<close>

text \<open>Every message the handler sends is of a published schema and crosses the seam, and what the handler does
  next does not depend on the ticket or the count it gets back (a loaded shard gets none).\<close>

inductive portable :: "registry \<Rightarrow> 's handler \<Rightarrow> bool" for r where
  quiet: "portable r (HDone s)"
| throw: "portable r (HThrow e s)"
| send: "crosses d (m_payload m) \<Longrightarrow> reg_lookup r (s_name d) (s_version d) = Some d \<Longrightarrow>
    (\<And>n. k (Inr n) = k (Inr 0)) \<Longrightarrow> portable r (k (Inr 0)) \<Longrightarrow> portable r (HSend t m k)"
| publish: "crosses d (m_payload m) \<Longrightarrow> reg_lookup r (s_name d) (s_version d) = Some d \<Longrightarrow>
    (\<And>n. k (Inr n) = k (Inr 0)) \<Longrightarrow> portable r (k (Inr 0)) \<Longrightarrow> portable r (HPublish m k)"

section \<open>The gate counter is a bystander\<close>

lemma enqueue_gate:
  "enqueue_directed t m g (b\<lparr>b_gate_calls := x\<rparr>) =
     map_prod id (\<lambda>b. b\<lparr>b_gate_calls := x\<rparr>) (enqueue_directed t m g b)"
  by (simp add: enqueue_directed_def Let_def)

lemma fanout_loop_gate:
  "fanout_loop rs m g n (b\<lparr>b_gate_calls := x\<rparr>) = map_prod id (\<lambda>b. b\<lparr>b_gate_calls := x\<rparr>) (fanout_loop rs m g n b)"
  by (induction rs m g n b rule: fanout_loop.induct) (simp_all add: enqueue_gate case_prod_beta)

lemma surface_gate:
  "send_as i t m (b\<lparr>b_gate_calls := x\<rparr>) = map_prod id (\<lambda>b. b\<lparr>b_gate_calls := x\<rparr>) (send_as i t m b)"
  "publish_as i m (b\<lparr>b_gate_calls := x\<rparr>) = map_prod id (\<lambda>b. b\<lparr>b_gate_calls := x\<rparr>) (publish_as i m b)"
  by (simp_all add: send_as_def enqueue_gate publish_as_def fanout_def fanout_loop_gate)

lemma surface_registry [simp]:
  "b_registry (snd (send_as i t m b)) = b_registry b" "b_registry (snd (publish_as i m b)) = b_registry b"
  by (simp_all add: send_as_def publish_as_def appended_fields(1) [OF appended_enqueue [of "\<lambda>_. True"]]
      appended_fields(1) [OF appended_fanout [of "\<lambda>_. True"]])

section \<open>Handling a message\<close>

text \<open>What the host's callback does with octets of a value that crosses: it routes that very value.\<close>

lemma run_host_emit_crossing:
  assumes "crosses d v" and "serialize v = Inr bytes" and "reg_lookup (b_registry b) (s_name d) (s_version d) = Some d"
  shows "\<exists>g. run_action (host_emit bytes route return) ops b = run_action (route v) ops (b\<lparr>b_gate_calls := g\<rparr>)"
proof -
  obtain bytes' where b': "serialize v = Inr bytes'"
    "fst (admit_unverified (\<lambda>_. None) (parse bytes') (Some d) FirstError 0) = Inr (accept v)"
    "claimed_name (parse bytes') = s_name d" "claimed_version (parse bytes') = s_version d"
    using crosses_bytes [OF assms(1)] by metis
  then have same: "bytes' = bytes" using assms(2) by simp
  obtain n where adm: "admit_unverified (\<lambda>_. None) (parse bytes) (Some d) FirstError 0 = (Inr (accept v), n)"
    using b'(2) same by (metis prod.collapse)
  show ?thesis
    using b'(3,4) assms(3) same
    by (intro exI [of _ "b_gate_calls b + n"])
      (simp add: run_host_emit resolve_schema_def adm accept_def adm_ok_def adm_value_def)
qed

text \<open>One message sent through the loaded shard's surface, and through the native one.\<close>

lemma restamped:
  "send_as i t \<lparr>m_payload = m_payload m, m_sender = 0, m_reply_to = m_reply_to m, m_correlation = m_correlation m\<rparr> b =
     send_as i t m b"
  "publish_as i \<lparr>m_payload = m_payload m, m_sender = 0, m_reply_to = m_reply_to m, m_correlation = m_correlation m\<rparr> b =
     publish_as i m b"
  by (cases m; simp add: send_as_def publish_as_def)+

lemma run_thunk:
  fixes b :: "('s, 's) mounted bus"
  assumes "portable r h" and "b_registry b = r"
  shows "\<exists>res s' b' g'. run_action (map_action LocalShard (native_action h)) (shard_bus i) b = ((res, LocalShard s'), b') \<and>
    run_action (run_library (thunk_action h) f) (shard_bus i) (b\<lparr>b_gate_calls := g\<rparr>) =
      ((Inr (), f s'), b'\<lparr>b_gate_calls := g'\<rparr>)"
  using assms
proof (induction arbitrary: b g rule: portable.induct)
  case (send d m k t)
  obtain bytes where ser: "serialize (m_payload m) = Inr bytes" using crosses_bytes [OF send(1)] by metis
  let ?msg = "\<lparr>m_payload = m_payload m, m_sender = 0, m_reply_to = m_reply_to m, m_correlation = m_correlation m\<rparr>"
  let ?rest = "run_library (thunk_action (k (Inr 0))) f"
  let ?b1 = "snd (send_as i t m b)"
  obtain x where emit: "run_action (host_emit bytes (\<lambda>v. ASend t (?msg\<lparr>m_payload := v\<rparr>) (\<lambda>_. ?rest)) (\<lambda>_. ?rest))
      (shard_bus i) (b\<lparr>b_gate_calls := g\<rparr>) =
      run_action (ASend t ?msg (\<lambda>_. ?rest)) (shard_bus i) (b\<lparr>b_gate_calls := x\<rparr>)"
    using run_host_emit_crossing [OF send(1) ser, of "b\<lparr>b_gate_calls := g\<rparr>"
        "\<lambda>v. ASend t (?msg\<lparr>m_payload := v\<rparr>) (\<lambda>_. ?rest)" "\<lambda>_. ?rest" "shard_bus i"] send(2,6) by auto
  obtain res s' b' g' where ih: "run_action (map_action LocalShard (native_action (k (Inr 0)))) (shard_bus i) ?b1 =
      ((res, LocalShard s'), b')"
    "run_action ?rest (shard_bus i) (?b1\<lparr>b_gate_calls := x\<rparr>) = ((Inr (), f s'), b'\<lparr>b_gate_calls := g'\<rparr>)"
    using send(5) [of ?b1 x] send(6) by auto
  have "run_action (run_library (thunk_action (HSend t m k)) f) (shard_bus i) (b\<lparr>b_gate_calls := g\<rparr>) =
      ((Inr (), f s'), b'\<lparr>b_gate_calls := g'\<rparr>)"
    using emit ih(2) by (simp add: ser shard_bus_def Let_def restamped surface_gate)
  moreover have "run_action (map_action LocalShard (native_action (HSend t m k))) (shard_bus i) b = ((res, LocalShard s'), b')"
    using ih(1) send(3) [of "fst (send_as i t m b)"] by (simp add: shard_bus_def Let_def)
  ultimately show ?case by blast
next
  case (publish d m k)
  obtain bytes where ser: "serialize (m_payload m) = Inr bytes" using crosses_bytes [OF publish(1)] by metis
  let ?msg = "\<lparr>m_payload = m_payload m, m_sender = 0, m_reply_to = m_reply_to m, m_correlation = m_correlation m\<rparr>"
  let ?rest = "run_library (thunk_action (k (Inr 0))) f"
  let ?b1 = "snd (publish_as i m b)"
  obtain x where emit: "run_action (host_emit bytes (\<lambda>v. APublish (?msg\<lparr>m_payload := v\<rparr>) (\<lambda>_. ?rest)) (\<lambda>_. ?rest))
      (shard_bus i) (b\<lparr>b_gate_calls := g\<rparr>) =
      run_action (APublish ?msg (\<lambda>_. ?rest)) (shard_bus i) (b\<lparr>b_gate_calls := x\<rparr>)"
    using run_host_emit_crossing [OF publish(1) ser, of "b\<lparr>b_gate_calls := g\<rparr>"
        "\<lambda>v. APublish (?msg\<lparr>m_payload := v\<rparr>) (\<lambda>_. ?rest)" "\<lambda>_. ?rest" "shard_bus i"] publish(2,6) by auto
  obtain res s' b' g' where ih: "run_action (map_action LocalShard (native_action (k (Inr 0)))) (shard_bus i) ?b1 =
      ((res, LocalShard s'), b')"
    "run_action ?rest (shard_bus i) (?b1\<lparr>b_gate_calls := x\<rparr>) = ((Inr (), f s'), b'\<lparr>b_gate_calls := g'\<rparr>)"
    using publish(5) [of ?b1 x] publish(6) by auto
  have "run_action (run_library (thunk_action (HPublish m k)) f) (shard_bus i) (b\<lparr>b_gate_calls := g\<rparr>) =
      ((Inr (), f s'), b'\<lparr>b_gate_calls := g'\<rparr>)"
    using emit ih(2) by (simp add: ser shard_bus_def Let_def restamped surface_gate)
  moreover have "run_action (map_action LocalShard (native_action (HPublish m k))) (shard_bus i) b = ((res, LocalShard s'), b')"
    using ih(1) publish(3) [of "fst (publish_as i m b)"] by (simp add: shard_bus_def Let_def)
  ultimately show ?case by blast
qed (auto simp: exI)

text \<open>Inbound: the octets the adapter hands over rebuild the message inside the library.\<close>

lemma do_handle_crossing:
  assumes "crosses d (m_payload m)" and "serialize (m_payload m) = Inr bytes"
    and "sc_accepted_schemas C s = Inr acc" and "accept_match acc (s_name d) (s_version d) = Some d"
  shows "do_handle C s (m_sender m) (m_reply_to m) (m_correlation m) bytes = thunk_action (sc_handle C s m)"
proof -
  obtain bytes' where b': "serialize (m_payload m) = Inr bytes'"
    "fst (admit_unverified (\<lambda>_. None) (parse bytes') (Some d) FirstError 0) = Inr (accept (m_payload m))"
    "claimed_name (parse bytes') = s_name d" "claimed_version (parse bytes') = s_version d"
    using crosses_bytes [OF assms(1)] by metis
  then have same: "bytes' = bytes" using assms(2) by simp
  show ?thesis
    using b'(2-4) assms(3,4)
    by (cases m) (simp add: same do_handle_def lib_admit_def accept_def adm_ok_def adm_value_def)
qed

section \<open>State and policy\<close>

lemma admit_bytes_crossing:
  assumes "crosses d v" and "serialize v = Inr bytes"
  shows "admit_bytes bytes d what = Inr v" and "lib_admit bytes d = Inr (accept v)"
proof -
  have "fst (admit_unverified (\<lambda>_. None) (parse bytes) (Some d) FirstError 0) = Inr (accept v)"
    using crosses_bytes [OF assms(1)] assms(2) by (metis sum.inject(2))
  then show "admit_bytes bytes d what = Inr v" "lib_admit bytes d = Inr (accept v)"
    by (simp_all add: admit_bytes_def lib_admit_def accept_def adm_ok_def adm_value_def)
qed

lemma sink_crossing: "crosses d v \<Longrightarrow> \<exists>bytes. serialize v = Inr bytes \<and> sink_result (serialize v) = (ZEN_OK, bytes)"
  using crosses_bytes [of d v] by (metis sink_result_def sum.simps(6))

lemma adapter_reads:
  assumes "ad_abi a = export_abi C" and "ad_instance a = s"
  shows "sc_snapshot C s = Inr v \<Longrightarrow> crosses (ad_state_schema a) v \<Longrightarrow> adapter_snapshot a = Inr v"
    and "sc_policy C s = Inr p \<Longrightarrow> crosses policy_schema p \<Longrightarrow> adapter_policy a = Inr p"
  using assms sink_crossing admit_bytes_crossing(1)
  by (auto simp: adapter_snapshot_def adapter_policy_def export_abi_def do_snapshot_def do_policy_def
      lifecycle_policy_schema_eq split: prod.splits) (fastforce+)?

lemma adapter_revives:
  assumes "ad_abi a = export_abi C" and "ad_instance a = s" and "sc_snapshot C s = Inr probe"
    and "crosses (v_schema probe) v" and "sc_revive C s v = (res, s')"
  shows "adapter_revive a v =
    (case res of Inl _ \<Rightarrow> Inl (status_failed ''revive'' ZEN_ERR) | Inr _ \<Rightarrow> Inr (), a\<lparr>ad_instance := s'\<rparr>)"
proof -
  obtain bytes where ser: "serialize v = Inr bytes" using crosses_bytes [OF assms(4)] by metis
  have "do_revive C s bytes = (case res of Inl _ \<Rightarrow> ZEN_ERR | Inr _ \<Rightarrow> ZEN_OK, s')"
    using admit_bytes_crossing(2) [OF assms(4) ser] assms(3,5)
    by (simp add: do_revive_def accept_def adm_ok_def adm_value_def split: sum.splits)
  then show ?thesis
    using assms(1,2) ser by (auto simp: adapter_revive_def export_abi_def status_defs split: sum.splits)
qed

section \<open>The same shard\<close>

text \<open>
  C20: What a loaded shard has in common with the same class compiled in, and under which conditions. Take a class, an
  instance of it, and an adapter over the exported class with that same instance, under the same id on the same bus.
  Let the message, the state and the policy cross the seam (a constructed schema, and sizes within the caps of the
  wire), and let the handler be portable: what it sends is of published schemas and crosses, and it does not look at
  the tickets and counts its sends return, which mean nothing inside a library. Then both append the same deliveries
  to the bus in the same order (only the gate counter differs) and leave the same instance state, though an exception
  out of the handler, which escapes a compiled-in shard, stays inside the library. The snapshot and the policy the bus
  reads are the same, and reviving leaves the same instance state and succeeds in one exactly when it does in the
  other. That loading produces the same instance is not part of the claim: an authored shard that is loaded does not
  learn its own id.
\<close>

theorem loaded_like_native:
  fixes C :: "'s shard_class" and b :: "('s, 's) mounted bus"
  assumes "ad_abi a = export_abi C" and "ad_instance a = s"
    and "sc_accepted_schemas C s = Inr acc" and "accept_match acc (s_name d) (s_version d) = Some d"
    and "crosses d (m_payload m)" and "portable (b_registry b) (sc_handle C s m)"
    and "sc_snapshot C s = Inr snap" and "crosses (ad_state_schema a) snap"
    and "sc_policy C s = Inr pol" and "crosses policy_schema pol"
    and "crosses (ad_state_schema a) v"
  defines "vt \<equiv> kernel_ops (native_ops C)"
  shows "(\<exists>res s' b' g. run_action (vt_handle vt (LocalShard s) m) (shard_bus i) b = ((res, LocalShard s'), b') \<and>
      run_action (vt_handle vt (AdapterShard a) m) (shard_bus i) b =
        ((Inr (), AdapterShard (a\<lparr>ad_instance := s'\<rparr>)), b'\<lparr>b_gate_calls := g\<rparr>)) \<and>
    vt_snapshot vt (AdapterShard a) = vt_snapshot vt (LocalShard s) \<and>
    vt_policy vt (AdapterShard a) = vt_policy vt (LocalShard s) \<and>
    (\<exists>res s' res'. vt_revive vt (LocalShard s) v = (res, LocalShard s') \<and>
      vt_revive vt (AdapterShard a) v = (res', AdapterShard (a\<lparr>ad_instance := s'\<rparr>)) \<and>
      (res' = Inr () \<longleftrightarrow> res = Inr ()))"
proof -
  obtain bytes where ser: "serialize (m_payload m) = Inr bytes" using crosses_bytes [OF assms(5)] by metis
  have handle: "vt_handle vt (AdapterShard a) m =
      run_library (thunk_action (sc_handle C s m)) (\<lambda>i. AdapterShard (a\<lparr>ad_instance := i\<rparr>))"
    using do_handle_crossing [OF assms(5) ser assms(3,4)] assms(1,2)
    by (simp add: vt_def kernel_ops_def adapter_handle_def ser export_abi_def)
  have native: "vt_handle vt (LocalShard s) m = map_action LocalShard (native_action (sc_handle C s m))"
    by (simp add: vt_def kernel_ops_def native_ops_def)
  have "b\<lparr>b_gate_calls := b_gate_calls b\<rparr> = b" by simp
  with run_thunk [OF assms(6) refl, of i "\<lambda>i. AdapterShard (a\<lparr>ad_instance := i\<rparr>)" "b_gate_calls b"]
  have 1: "\<exists>res s' b' g. run_action (vt_handle vt (LocalShard s) m) (shard_bus i) b = ((res, LocalShard s'), b') \<and>
      run_action (vt_handle vt (AdapterShard a) m) (shard_bus i) b =
        ((Inr (), AdapterShard (a\<lparr>ad_instance := s'\<rparr>)), b'\<lparr>b_gate_calls := g\<rparr>)"
    unfolding handle native by (simp only:)
  obtain res s' where rv: "sc_revive C s v = (res, s')" by (metis surj_pair)
  have "crosses (v_schema snap) v" using assms(8,11) by (simp add: crosses_schema [OF assms(8)])
  from adapter_revives [OF assms(1,2,7) this rv]
  have "\<exists>res'. vt_revive vt (AdapterShard a) v = (res', AdapterShard (a\<lparr>ad_instance := s'\<rparr>)) \<and>
      (res' = Inr () \<longleftrightarrow> res = Inr ())"
    by (auto simp: vt_def kernel_ops_def split: sum.splits)
  moreover have "vt_revive vt (LocalShard s) v = (res, LocalShard s')"
    by (simp add: vt_def kernel_ops_def native_ops_def rv)
  ultimately show ?thesis
    using 1 adapter_reads [OF assms(1,2)] assms(7-10)
    by (auto simp: vt_def kernel_ops_def native_ops_def)
qed

text \<open>A class with an empty state that forwards what it accepts to shard 7, and whose \<open>revive\<close> returns or
  throws as given.\<close>

definition demo_class :: "schema list \<Rightarrow> unit result \<Rightarrow> unit shard_class" where
  "demo_class acc rv =
     \<lparr>sc_create = Some (), sc_accepted_schemas = (\<lambda>_. Inr acc), sc_handle = (\<lambda>_ m. HSend 7 m (\<lambda>_. HDone ())),
      sc_snapshot = (\<lambda>_. Inr demo_snapshot), sc_policy = (\<lambda>_. Inr demo_policy), sc_revive = (\<lambda>_ _. (rv, ()))\<rparr>"

lemma demo_crosses: "crosses manifest_sch demo_manifest" "crosses policy_schema demo_policy"
  "crosses (plain_schema ''S'') demo_snapshot"
  using demo_exact demo_conforms by (simp_all add: crosses_def manifest_schema_eq manifest_sch_name)

definition demo_loaded_adapter :: "unit adapter" where
  "demo_loaded_adapter =
     \<lparr>ad_abi = export_abi (demo_class [plain_schema ''S''] (Inr ())), ad_instance = (),
      ad_accepted = [plain_schema ''S''], ad_state_schema = plain_schema ''S'', ad_self = 3, ad_lib = 0\<rparr>"

definition demo_loaded_bus :: "(unit, unit) mounted bus" where
  "demo_loaded_bus = (new_bus 0)\<lparr>b_registry := om_put (''S'', 1) (plain_schema ''S'') new_registry\<rparr>"

definition demo_message :: message where
  "demo_message = \<lparr>m_payload = demo_snapshot, m_sender = 5, m_reply_to = 0, m_correlation = 2\<rparr>"

theorem loaded_like_native_witness:
  "\<exists>b' g. b_queue b' = [\<lparr>env_msg = demo_message\<lparr>m_sender := 3\<rparr>, env_target = 7, env_seq = 1, env_gated = True\<rparr>] \<and>
    run_action (vt_handle (kernel_ops (native_ops (demo_class [plain_schema ''S''] (Inr ()))))
      (AdapterShard demo_loaded_adapter) demo_message) (shard_bus 3) demo_loaded_bus =
      ((Inr (), AdapterShard demo_loaded_adapter), b'\<lparr>b_gate_calls := g\<rparr>)"
proof -
  let ?C = "demo_class [plain_schema ''S''] (Inr ())" and ?a = demo_loaded_adapter and ?m = demo_message
  have "portable (b_registry demo_loaded_bus) (sc_handle ?C () ?m)"
    by (auto simp: demo_class_def demo_message_def demo_loaded_bus_def reg_lookup_def reg_snapshot_def om_find_put
        intro!: portable.intros demo_crosses(3))
  then have "\<exists>res s' b' g. run_action (vt_handle (kernel_ops (native_ops ?C)) (LocalShard ()) ?m) (shard_bus 3)
        demo_loaded_bus = ((res, LocalShard s'), b') \<and>
      run_action (vt_handle (kernel_ops (native_ops ?C)) (AdapterShard ?a) ?m) (shard_bus 3) demo_loaded_bus =
        ((Inr (), AdapterShard (?a\<lparr>ad_instance := s'\<rparr>)), b'\<lparr>b_gate_calls := g\<rparr>)"
    by (intro loaded_like_native [where acc = "[plain_schema ''S'']" and d = "plain_schema ''S''"
          and snap = demo_snapshot and pol = demo_policy and v = demo_snapshot, THEN conjunct1])
      (simp_all add: demo_loaded_adapter_def demo_message_def demo_class_def demo_crosses)
  then obtain res s' b' g where
    native: "run_action (vt_handle (kernel_ops (native_ops ?C)) (LocalShard ()) ?m) (shard_bus 3) demo_loaded_bus =
      ((res, LocalShard s'), b')"
    and loaded: "run_action (vt_handle (kernel_ops (native_ops ?C)) (AdapterShard ?a) ?m) (shard_bus 3) demo_loaded_bus =
      ((Inr (), AdapterShard (?a\<lparr>ad_instance := s'\<rparr>)), b'\<lparr>b_gate_calls := g\<rparr>)" by blast
  have "b_queue b' = [\<lparr>env_msg = ?m\<lparr>m_sender := 3\<rparr>, env_target = 7, env_seq = 1, env_gated = True\<rparr>]"
    using native
    by (auto simp: kernel_ops_def native_ops_def demo_class_def shard_bus_def Let_def send_as_def enqueue_directed_def
        demo_loaded_bus_def new_bus_def)
  moreover have "?a\<lparr>ad_instance := s'\<rparr> = ?a" by (simp add: demo_loaded_adapter_def)
  ultimately show ?thesis using loaded by auto
qed

end
