(* ===== verification/Zen_Reload.thy ===== *)
theory Zen_Reload
  imports Zen_Export
begin

text \<open>
  Hot reload (\<open>Kernel::reload_from\<close>) on every outcome, an exception after the commit included, and concrete libraries: one that loads, and one whose
  failing \<open>revive\<close> makes a reload leave the old library open.
\<close>

section \<open>What a state swap leaves behind\<close>

lemma swap_state_outcome:
  assumes "wf_schema (sr_state_schema rec)" and "bus_find b i = Some rec" and "swap_state vt i bytes b = (Inr out, b')"
  shows "if ro_revived out
    then \<exists>v st. serialize v = Inr bytes \<and> value_conforms v (sr_state_schema rec) \<and>
      vt_revive vt (sr_shard rec) v = (Inr (), st) \<and>
      bus_find b' i = Some (rec\<lparr>sr_shard := st, sr_last_known_good := v, sr_alive := True\<rparr>)
    else bus_find b' i = Some rec"
proof -
  obtain res b2 where cand: "admit_candidate (sr_state_schema rec) bytes b = (res, b2)" by (metis surj_pair)
  have find: "bus_find b2 i = Some rec" using bus_find_candidate [OF cand] assms(2) by simp
  obtain a where a: "res = Inr a" using assms(2,3) cand by (auto simp: swap_state_def split: sum.splits)
  show ?thesis
  proof (cases "a_value a")
    case None
    then show ?thesis
      using assms(2,3) cand a find
      by (auto simp: swap_state_def adm_ok_def Let_def new_revive_outcome_def bus_find_def dest!: announce_Inr
          split: sum.splits)
  next
    case (Some v)
    then show ?thesis
      using assms(2,3) cand a candidate_accepted [OF assms(1) _ Some, of bytes b b2]
      by (auto simp: swap_state_def adm_ok_def adm_value_def new_revive_outcome_def dest!: revive_with_Inr)
  qed
qed

lemma announce_find: "announce ev out b = (res, b') \<Longrightarrow> bus_find b' i = bus_find b i"
  using bus_find_emit [of ev b i] announce_snd [of ev out b] by simp

text \<open>A swap that throws: \<open>revive\<close> threw, or an observer of what came of it did.\<close>

lemma swap_state_throws:
  assumes "wf_schema (sr_state_schema rec)" and "bus_find b i = Some rec" and "swap_state vt i bytes b = (Inl ex, b')"
  shows "bus_find b' i = Some rec \<or>
    (\<exists>v st. serialize v = Inr bytes \<and> value_conforms v (sr_state_schema rec) \<and>
       (vt_revive vt (sr_shard rec) v = (Inl ex, st) \<and> bus_find b' i = Some (rec\<lparr>sr_shard := st\<rparr>) \<or>
        vt_revive vt (sr_shard rec) v = (Inr (), st) \<and>
          bus_find b' i = Some (rec\<lparr>sr_shard := st, sr_last_known_good := v, sr_alive := True\<rparr>)))"
proof -
  obtain res b2 where cand: "admit_candidate (sr_state_schema rec) bytes b = (res, b2)" by (metis surj_pair)
  have find: "bus_find b2 i = Some rec" using bus_find_candidate [OF cand] assms(2) by simp
  obtain a where a: "res = Inr a" using cand candidate_returns [of "sr_state_schema rec" bytes b] by auto
  show ?thesis
  proof (cases "a_value a")
    case None
    then show ?thesis
      using assms(2,3) cand a find
      by (auto simp: swap_state_def adm_ok_def Let_def announce_find split: sum.splits)
  next
    case (Some v)
    let ?upd = "\<lambda>r. r\<lparr>sr_last_known_good := v, sr_alive := True\<rparr>"
    have b': "b' = snd (revive_with vt i v ?upd rec (lifecycle_event EvRevived i rec False (bare_refusal RR_None))
        (new_revive_outcome\<lparr>ro_revived := True\<rparr>) b2)"
      and threw: "fst (revive_with vt i v ?upd rec (lifecycle_event EvRevived i rec False (bare_refusal RR_None))
        (new_revive_outcome\<lparr>ro_revived := True\<rparr>) b2) = Inl ex"
      using assms(2,3) cand a Some by (simp_all add: swap_state_def adm_ok_def adm_value_def)
    have "vt_revive vt (sr_shard rec) v = (Inl ex, st) \<or> vt_revive vt (sr_shard rec) v = (Inr (), st)"
      if "vt_revive vt (sr_shard rec) v = (rres, st)" for rres st
      using threw that by (cases rres) (auto simp: revive_with_def Let_def)
    then show ?thesis
      using candidate_accepted [OF assms(1) cand [unfolded a] Some] b'
      by (cases "vt_revive vt (sr_shard rec) v") (auto simp: revive_with_find)
  qed
qed

lemma adapter_revive_Inl:
  assumes "vt_revive (kernel_ops nv) (AdapterShard a) v = (Inl ex, st)" and "serialize v = Inr bytes"
  shows "\<exists>code i. abi_revive (ad_abi a) (ad_instance a) bytes = (code, i) \<and> code \<noteq> ZEN_OK \<and>
    st = AdapterShard (a\<lparr>ad_instance := i\<rparr>)"
  using assms
  by (auto simp: kernel_ops_def adapter_revive_def map_prod_def split: prod.splits if_splits)

lemma adapter_revive_Inr:
  assumes "vt_revive (kernel_ops nv) (AdapterShard a) v = (Inr (), st)" and "serialize v = Inr bytes"
  shows "\<exists>i. abi_revive (ad_abi a) (ad_instance a) bytes = (ZEN_OK, i) \<and> st = AdapterShard (a\<lparr>ad_instance := i\<rparr>)"
  using assms
  by (auto simp: kernel_ops_def adapter_revive_def map_prod_def split: prod.splits if_splits)

section \<open>The outcomes of a hot reload\<close>

text \<open>The shard's record once the new code is behind the old id.\<close>

definition rebound :: "'i shard_abi \<Rightarrow> 'i \<Rightarrow> lib_handle \<Rightarrow> 'i adapter \<Rightarrow> ('n, 'i) mounted shard_record \<Rightarrow>
  ('n, 'i) mounted shard_record" where
  "rebound abi inst h a rec = rec\<lparr>sr_shard := AdapterShard (a\<lparr>ad_abi := abi, ad_instance := inst, ad_lib := h\<rparr>)\<rparr>"

lemma open_instance_Inr:
  assumes "open_instance env k = (Inr (h, abi, inst), k1)"
  shows "h = k_opens k" and "fetch_abi env = Inr abi" and "abi_create abi = Some inst"
  using assms
  by (auto simp: open_instance_def lib_open_def lib_close_def note_lib_def split: if_splits sum.splits option.splits)

lemma commit_reload_outcome:
  assumes "bus_find (k_bus k) (ld_id e) = Some rec" and "sr_shard rec = AdapterShard a"
    and "wf_schema (sr_state_schema rec)" and "commit_reload nv name e bytes h abi inst k = (Inr r, k')"
  shows "rr_ok r \<and> \<not> rr_version_mismatch r \<and>
    (if rr_reloaded r
     then \<exists>v inst'. serialize v = Inr bytes \<and> value_conforms v (sr_state_schema rec) \<and>
       abi_revive abi inst bytes = (ZEN_OK, inst') \<and>
       bus_find (k_bus k') (ld_id e) =
         Some ((rebound abi inst' h a rec)\<lparr>sr_last_known_good := v, sr_alive := True\<rparr>)
     else bus_find (k_bus k') (ld_id e) = Some (rebound abi inst h a rec))"
proof -
  let ?rec = "rebound abi inst h a rec" and ?a = "a\<lparr>ad_abi := abi, ad_instance := inst, ad_lib := h\<rparr>"
  define b where "b = put_record (ld_id e) ?rec (k_bus k)"
  obtain sres b3 where sw: "swap_state (kernel_ops nv) (ld_id e) bytes b = (sres, b3)" by (metis surj_pair)
  have rb: "rebind (ld_id e) abi inst h k = (lib_destroy (ad_lib a) k)\<lparr>k_bus := b\<rparr>"
    using assms(1,2) by (simp add: rebind_def b_def rebound_def)
  obtain ro where ro: "sres = Inr ro" and r: "rr_ok r" "\<not> rr_version_mismatch r" "rr_reloaded r = ro_revived ro"
    and k': "k_bus k' = b3"
    using assms(4)
    by (auto simp: commit_reload_def rb sw Let_def lib_close_def note_lib_def split: sum.splits if_splits)
  have find: "bus_find b (ld_id e) = Some ?rec" by (simp add: b_def)
  have "wf_schema (sr_state_schema ?rec)" using assms(3) by (simp add: rebound_def)
  note out = swap_state_outcome [OF this find sw [unfolded ro]]
  show ?thesis
  proof (cases "ro_revived ro")
    case True
    with out obtain v st where v: "serialize v = Inr bytes" "value_conforms v (sr_state_schema rec)"
      "vt_revive (kernel_ops nv) (AdapterShard ?a) v = (Inr (), st)"
      "bus_find b3 (ld_id e) = Some (?rec\<lparr>sr_shard := st, sr_last_known_good := v, sr_alive := True\<rparr>)"
      by (auto simp: rebound_def)
    from adapter_revive_Inr [OF v(3,1)] v True r k' show ?thesis by (auto simp: rebound_def)
  qed (use out r k' in auto)
qed

lemma commit_reload_libs: "commit_reload nv name e bytes h abi inst k = (res, k') \<Longrightarrow> k_libs k' = om_put name (e\<lparr>ld_lib := h\<rparr>) (k_libs k)"
  by (auto simp: commit_reload_def rebind_def Let_def lib_close_def lib_destroy_def note_lib_def
      split: sum.splits prod.splits if_splits option.splits mounted.splits)

text \<open>The commit throws: the new code is in place, with the old state or without it.\<close>

lemma commit_reload_throws:
  assumes "bus_find (k_bus k) (ld_id e) = Some rec" and "sr_shard rec = AdapterShard a"
    and "wf_schema (sr_state_schema rec)" and "commit_reload nv name e bytes h abi inst k = (Inl ex, k')"
  shows "bus_find (k_bus k') (ld_id e) = Some (rebound abi inst h a rec) \<or>
    (\<exists>code inst'. abi_revive abi inst bytes = (code, inst') \<and> code \<noteq> ZEN_OK \<and>
       bus_find (k_bus k') (ld_id e) = Some (rebound abi inst' h a rec)) \<or>
    (\<exists>v inst'. serialize v = Inr bytes \<and> value_conforms v (sr_state_schema rec) \<and> abi_revive abi inst bytes = (ZEN_OK, inst') \<and>
       bus_find (k_bus k') (ld_id e) = Some ((rebound abi inst' h a rec)\<lparr>sr_last_known_good := v, sr_alive := True\<rparr>))"
proof -
  let ?rec = "rebound abi inst h a rec" and ?a = "a\<lparr>ad_abi := abi, ad_instance := inst, ad_lib := h\<rparr>"
  define b where "b = put_record (ld_id e) ?rec (k_bus k)"
  obtain sres b3 where sw: "swap_state (kernel_ops nv) (ld_id e) bytes b = (sres, b3)" by (metis surj_pair)
  have rb: "rebind (ld_id e) abi inst h k = (lib_destroy (ad_lib a) k)\<lparr>k_bus := b\<rparr>"
    using assms(1,2) by (simp add: rebind_def b_def rebound_def)
  have ro: "sres = Inl ex" and k': "k_bus k' = b3"
    using assms(4)
    by (auto simp: commit_reload_def rb sw Let_def split: sum.splits if_splits)
  have find: "bus_find b (ld_id e) = Some ?rec" by (simp add: b_def)
  have "wf_schema (sr_state_schema ?rec)" using assms(3) by (simp add: rebound_def)
  from swap_state_throws [OF this find sw [unfolded ro]] consider
      (same) "bus_find b3 (ld_id e) = Some ?rec"
    | (threw) v st where "serialize v = Inr bytes" "vt_revive (kernel_ops nv) (AdapterShard ?a) v = (Inl ex, st)"
        "bus_find b3 (ld_id e) = Some (?rec\<lparr>sr_shard := st\<rparr>)"
    | (returned) v st where "serialize v = Inr bytes" "value_conforms v (sr_state_schema rec)" "vt_revive (kernel_ops nv) (AdapterShard ?a) v = (Inr (), st)"
        "bus_find b3 (ld_id e) = Some (?rec\<lparr>sr_shard := st, sr_last_known_good := v, sr_alive := True\<rparr>)"
    by (auto simp: rebound_def)
  then show ?thesis
  proof cases
    case same
    then show ?thesis using k' by auto
  next
    case threw
    obtain code i where i: "abi_revive abi inst bytes = (code, i)" "code \<noteq> ZEN_OK"
      and st: "st = AdapterShard (?a\<lparr>ad_instance := i\<rparr>)"
      using adapter_revive_Inl [OF threw(2,1)] by auto
    have "bus_find (k_bus k') (ld_id e) = Some (rebound abi i h a rec)"
      using threw(3) k' by (simp add: st rebound_def)
    then show ?thesis using i by blast
  next
    case returned
    obtain i where i: "abi_revive abi inst bytes = (ZEN_OK, i)" and st: "st = AdapterShard (?a\<lparr>ad_instance := i\<rparr>)"
      using adapter_revive_Inr [OF returned(3,1)] by auto
    have "bus_find (k_bus k') (ld_id e) = Some ((rebound abi i h a rec)\<lparr>sr_last_known_good := v, sr_alive := True\<rparr>)"
      using returned(4) k' by (simp add: st rebound_def)
    then show ?thesis using returned(1,2) i by blast
  qed
qed

text \<open>
  C21: What a hot reload of a loaded shard can end in, exceptions included. Before the commit: it reports an error or a
  state schema mismatch, and no shard on the bus and no entry of the kernel has changed. From the commit on, the
  kernel's entry names the new library, and the shard keeps its id, grant, accept set, state schema and reload budget
  and runs an instance of the new library. Then there are three ends. It reports a reload: that instance accepted
  exactly the octets of the state the old instance showed, a value that conforms to the state schema and is now the
  last known good. It reports that the revival was refused: the new instance runs without the old state. Or an
  exception escapes after the commit: the new instance runs, either without the old state (which the gate refused), or
  as a \<open>revive\<close> that failed left it, or with the old state, when only an observer of the revival threw.
\<close>

theorem hot_reload:
  assumes "kernel_run nv X k" and "om_find (k_libs k) name = Some e" and "bus_find (k_bus k) (ld_id e) = Some rec"
    and "wf_schema (sr_state_schema rec)" and "reload_from nv name env k = (res, k')"
  shows "(\<exists>r. res = Inr r \<and> \<not> rr_reloaded r \<and> (\<not> rr_ok r \<or> rr_version_mismatch r) \<and>
      b_shards (k_bus k') = b_shards (k_bus k) \<and> k_libs k' = k_libs k) \<or>
    (\<exists>a bytes abi inst. sr_shard rec = AdapterShard a \<and>
      snapshot_bytes (kernel_ops nv) (ld_id e) (k_bus k) = Inr bytes \<and>
      fetch_abi env = Inr abi \<and> abi_create abi = Some inst \<and>
      k_libs k' = om_put name (e\<lparr>ld_lib := k_opens k\<rparr>) (k_libs k) \<and>
      (case res of
         Inr r \<Rightarrow> rr_ok r \<and> \<not> rr_version_mismatch r \<and>
           (if rr_reloaded r
            then \<exists>v inst'. serialize v = Inr bytes \<and> value_conforms v (sr_state_schema rec) \<and>
              abi_revive abi inst bytes = (ZEN_OK, inst') \<and>
              bus_find (k_bus k') (ld_id e) =
                Some ((rebound abi inst' (k_opens k) a rec)\<lparr>sr_last_known_good := v, sr_alive := True\<rparr>)
            else bus_find (k_bus k') (ld_id e) = Some (rebound abi inst (k_opens k) a rec))
       | Inl ex \<Rightarrow>
           bus_find (k_bus k') (ld_id e) = Some (rebound abi inst (k_opens k) a rec) \<or>
           (\<exists>code inst'. abi_revive abi inst bytes = (code, inst') \<and> code \<noteq> ZEN_OK \<and>
              bus_find (k_bus k') (ld_id e) = Some (rebound abi inst' (k_opens k) a rec)) \<or>
           (\<exists>v inst'. serialize v = Inr bytes \<and> value_conforms v (sr_state_schema rec) \<and>
              abi_revive abi inst bytes = (ZEN_OK, inst') \<and>
              bus_find (k_bus k') (ld_id e) =
                  Some ((rebound abi inst' (k_opens k) a rec)\<lparr>sr_last_known_good := v, sr_alive := True\<rparr>))))"
  (is "?before \<or> ?after")
proof -
  obtain a where a: "sr_shard rec = AdapterShard a"
    using entry_adapter [OF kernel_run_ok [OF assms(1)] assms(2)] assms(3) by auto
  obtain ores k1 where op: "open_instance env k = (ores, k1)" by (metis surj_pair)
  have same1: "b_shards (k_bus k1) = b_shards (k_bus k)" "k_libs k1 = k_libs k"
    using open_instance_outcome [OF op] by (auto split: sum.splits)
  show ?thesis
  proof (cases "snapshot_bytes (kernel_ops nv) (ld_id e) (k_bus k)")
    case (Inl er)
    then have "res = Inr (reload_failed (''snapshot of the live shard failed: '' @ exn_what er))" "k' = k"
      using assms(2,5) by (simp_all add: reload_from_def)
    then show ?thesis by (simp add: reload_failed_def)
  next
    case snap: (Inr bytes)
    show ?thesis
    proof (cases ores)
      case (Inl er)
      then have "res = Inr (reload_failed er)" "k' = k1" using assms(2,5) snap op by (simp_all add: reload_from_def)
      then show ?thesis by (simp add: reload_failed_def same1)
    next
      case (Inr hai)
      obtain h abi inst where hai: "hai = (h, abi, inst)" by (metis prod_cases3)
      note opened = open_instance_Inr [OF op [unfolded Inr hai]]
      obtain rres k2 where rc: "reconstruct abi inst h k1 = (rres, k2)" by (metis surj_pair)
      have in2: "instantiated h k k2" using instantiated_by op Inr hai rc by metis
      then have libs2: "k_libs k2 = k_libs k" by (simp add: instantiated_def)
      note b2 = instantiated_bus [OF in2]
      have at: "adapter_at (ld_id e) (k_bus k2) = Some a" using assms(3) a by (simp add: adapter_at_def b2)
      show ?thesis
      proof (cases "\<exists>acc st. rres = Inr (acc, st) \<and> same_state_schema st (ad_state_schema a)")
        case True
        then have run: "commit_reload nv name e bytes h abi inst k2 = (res, k')"
          using assms(2,5) by (auto simp: reload_from_def snap op Inr hai rc at)
        have find: "bus_find (k_bus k2) (ld_id e) = Some rec" using assms(3) by (simp add: b2)
        have ?after
        proof (cases res)
          case ex: (Inl ex)
          from commit_reload_throws [OF find a assms(4) run [unfolded ex]] commit_reload_libs [OF run] show ?thesis
            using a snap opened libs2 ex by (intro exI [of _ a] exI [of _ bytes] exI [of _ abi] exI [of _ inst]) simp
        next
          case r: (Inr r)
          from commit_reload_outcome [OF find a assms(4) run [unfolded r]] commit_reload_libs [OF run] show ?thesis
            using a snap opened libs2 r
            by (intro exI [of _ a] exI [of _ bytes] exI [of _ abi] exI [of _ inst]) (cases "rr_reloaded r"; auto)
        qed
        then show ?thesis ..
      next
        case False
        have closed: "b_shards (k_bus (lib_close h (lib_destroy h k2))) = b_shards (k_bus k)"
          "k_libs (lib_close h (lib_destroy h k2)) = k_libs k"
          using b2 libs2 by (simp_all add: lib_close_def lib_destroy_def note_lib_def)
        show ?thesis
        proof (cases rres)
          case refused: (Inl er)
          have "res = Inr (reload_failed (''new library refused: '' @ exn_what er))" "k' = lib_close h (lib_destroy h k2)"
            using assms(2,5) by (simp_all add: reload_from_def snap op Inr hai rc refused)
          then show ?thesis by (simp add: reload_failed_def closed)
        next
          case described: (Inr as)
          obtain acc st where as: "as = (acc, st)" by (metis surj_pair)
          have "\<not> same_state_schema st (ad_state_schema a)" using False described as by blast
          then have "res = Inr \<lparr>rr_ok = True, rr_reloaded = False, rr_version_mismatch = True,
              rr_error = ''state schema version mismatch; reload refused''\<rparr>" "k' = lib_close h (lib_destroy h k2)"
            using assms(2,5) by (simp_all add: reload_from_def snap op Inr hai rc described as at)
          then show ?thesis by (simp add: closed)
        qed
      qed
    qed
  qed
qed

section \<open>Concrete libraries\<close>

definition demo_lib :: "unit result \<Rightarrow> unit lib_env" where
  "demo_lib rv = \<lparr>le_opens = True, le_error = [], le_symbol = True, le_abi = Some (export_abi (demo_class [] rv))\<rparr>"

definition demo_adapter :: "unit result \<Rightarrow> shard_id \<Rightarrow> lib_handle \<Rightarrow> unit adapter" where
  "demo_adapter rv self h =
     \<lparr>ad_abi = export_abi (demo_class [] rv), ad_instance = (), ad_accepted = [], ad_state_schema = plain_schema ''S'',
      ad_self = self, ad_lib = h\<rparr>"

lemma demo_adapter_snapshot: "adapter_snapshot (demo_adapter rv self h) = Inr demo_snapshot"
  by (rule adapter_reads(1) [of _ "demo_class [] rv" "()"])
    (simp_all add: demo_adapter_def demo_class_def demo_crosses)

lemma demo_describes: "do_describe (demo_class [] rv) () = (ZEN_OK, bytes_of demo_manifest)"
proof -
  have "encode_manifest [] (v_schema demo_snapshot) = Inr demo_manifest"
    by (simp add: encode_manifest_eq demo_snapshot_def demo_manifest_def)
  then show ?thesis
    by (simp add: do_describe_def demo_class_def demo_serialized sink_result_def)
qed

lemma demo_open:
  "open_instance (demo_lib rv) k =
     (Inr (k_opens k, export_abi (demo_class [] rv), ()),
      k\<lparr>k_opens := Suc (k_opens k), k_log := k_log k @ [LibOpen (k_opens k), LibCreate (k_opens k)]\<rparr>)"
  by (simp add: open_instance_def demo_lib_def lib_open_def note_lib_def fetch_abi_def export_abi_def demo_class_def)

lemma demo_decode_again:
  assumes "reg_lookup r ''S'' 1 = None \<or> reg_lookup r ''S'' 1 = Some (plain_schema ''S'')"
  shows "\<exists>r'. decode_manifest demo_manifest r = (Inr ([], plain_schema ''S''), r') \<and>
    reg_lookup r' ''S'' 1 = Some (plain_schema ''S'')"
proof -
  have "decode_schema (schema_value (plain_schema ''S'')) r = Inr (plain_schema ''S'')"
    by (rule decode_schema_eq) (simp_all add: plain_schema_def)
  then show ?thesis
    using assms
    by (auto simp: decode_manifest_def demo_manifest_def manifest_value_def value_get_def manifest_schema_eq
        register_schema_def reg_lookup_def reg_snapshot_def plain_schema_def om_find_put)
qed

lemma demo_described:
  assumes "reg_lookup (k_registry k) ''S'' 1 = None \<or> reg_lookup (k_registry k) ''S'' 1 = Some (plain_schema ''S'')"
  shows "\<exists>g r. reconstruct (export_abi (demo_class [] rv)) () h k = (Inr ([], plain_schema ''S''), described h g r k) \<and>
    reg_lookup r ''S'' 1 = Some (plain_schema ''S'')"
proof -
  obtain g where adm: "admit_candidate manifest_sch (bytes_of demo_manifest) (k_bus k) =
      (Inr (accept demo_manifest), (k_bus k)\<lparr>b_gate_calls := g\<rparr>)"
    using candidate_crossing [OF demo_crosses(1) demo_serialized(1)] by blast
  obtain r where "decode_manifest demo_manifest (k_registry k) = (Inr ([], plain_schema ''S''), r)"
    "reg_lookup r ''S'' 1 = Some (plain_schema ''S'')"
    using demo_decode_again [OF assms] by blast
  then show ?thesis
    using adm by (intro exI [of _ g] exI [of _ r])
      (simp add: reconstruct_def export_abi_def demo_describes Let_def manifest_schema_eq accept_def adm_ok_def
        adm_value_def described_def note_lib_def)
qed

text \<open>The library loads: shard 1 runs on it, under the library's first handle.\<close>

definition demo_loaded :: "unit result \<Rightarrow> ('n, unit) kernel \<Rightarrow> bool" where
  "demo_loaded rv k \<longleftrightarrow>
     (\<exists>rec. bus_find (k_bus k) 1 = Some rec \<and> sr_shard rec = AdapterShard (demo_adapter rv 1 0) \<and>
        sr_state_schema rec = plain_schema ''S'') \<and> b_observers (k_bus k) = [] \<and>
     reg_lookup (k_registry k) ''S'' 1 = Some (plain_schema ''S'') \<and>
     om_find (k_libs k) ''a'' = Some \<lparr>ld_lib = 0, ld_id = 1\<rparr> \<and> k_opens k = 1"

lemma demo_register:
  fixes nv :: "'n shard_ops"
  assumes "ad_accepted a = []" and "adapter_snapshot a = Inr demo_snapshot"
  shows "\<exists>b rec. register_shard (kernel_ops nv) (Some (AdapterShard a)) gr ((new_bus 0)\<lparr>b_gate_calls := g\<rparr>) = (Inr 1, b) \<and>
    bus_find b 1 = Some rec \<and> sr_shard rec = AdapterShard a \<and> sr_state_schema rec = plain_schema ''S'' \<and>
    b_observers b = []"
  using assms plain_admitted [of "''S''" FirstError g]
  by (simp add: register_shard_def kernel_ops_def seed_shard_def demo_snapshot_def register_schema_def new_bus_def
      new_registry_def mount_record_def accept_def adm_ok_def adm_value_def Let_def bus_find_def put_record_def note_trace_def)

lemma demo_loads:
  fixes nv :: "'n shard_ops"
  shows "demo_loaded rv (snd (load nv ''a'' (demo_lib rv) (new_kernel (new_bus 0))))"
proof -
  let ?k0 = "new_kernel (new_bus 0) :: ('n, unit) kernel"
  let ?k1 = "?k0\<lparr>k_opens := 1, k_log := [LibOpen 0, LibCreate 0]\<rparr>"
  have reg: "reg_lookup (k_registry ?k1) ''S'' 1 = None"
    by (simp add: new_kernel_def new_registry_def reg_lookup_def reg_snapshot_def)
  obtain g r where rc: "reconstruct (export_abi (demo_class [] rv)) () 0 ?k1 = (Inr ([], plain_schema ''S''), described 0 g r ?k1)"
    and r: "reg_lookup r ''S'' 1 = Some (plain_schema ''S'')"
    using demo_described [of ?k1 rv 0] reg by blast
  have ad: "new_adapter (export_abi (demo_class [] rv)) () [] (plain_schema ''S'') 0 = demo_adapter rv 0 0"
    by (simp add: new_adapter_def demo_adapter_def)
  obtain b rec where rs: "register_shard (kernel_ops nv) (Some (AdapterShard (demo_adapter rv 0 0))) (allow_any grant_nothing)
      ((new_bus 0)\<lparr>b_gate_calls := g\<rparr>) = (Inr 1, b)"
    and rec: "bus_find b 1 = Some rec" "sr_shard rec = AdapterShard (demo_adapter rv 0 0)"
      "sr_state_schema rec = plain_schema ''S''" "b_observers b = []"
    using demo_register [of "demo_adapter rv 0 0" nv "allow_any grant_nothing" g] demo_adapter_snapshot [of rv 0 0]
    by (auto simp: demo_adapter_def)
  have "open_instance (demo_lib rv) ?k0 = (Inr (0, export_abi (demo_class [] rv), ()), ?k1)"
    using demo_open [of rv ?k0] by (simp add: new_kernel_def)
  then have "load nv ''a'' (demo_lib rv) ?k0 = (\<lparr>lr_ok = True, lr_id = 1, lr_error = []\<rparr>,
      (described 0 g r ?k1)\<lparr>k_bus := set_self 1 b, k_libs := om_put ''a'' \<lparr>ld_lib = 0, ld_id = 1\<rparr> []\<rparr>)"
    using rc rs ad by (simp add: load_def new_kernel_def described_def)
  then show ?thesis
    using rec r
    by (simp add: demo_loaded_def set_self_def described_def om_find_put) (simp add: demo_adapter_def put_record_def)
qed

lemma demo_run:
  fixes nv :: "'n shard_ops"
  shows "kernel_run nv {} (snd (load nv ''a'' (demo_lib rv) (new_kernel (new_bus 0))))"
  by (rule kernel_run.load [OF kernel_run.start]) (simp add: fresh_id_def new_kernel_def new_bus_def bus_find_def)

theorem library_lifetimes_witness:
  "\<exists>k \<sigma>. kernel_run relay_ops {} k \<and> lib_run (k_log k) (\<lambda>_. Unopened) = Some \<sigma> \<and> \<sigma> 0 = Open 1 \<and>
     adapter_at 1 (k_bus k) = Some (demo_adapter (Inr ()) 1 0)"
proof -
  let ?k = "snd (load relay_ops ''a'' (demo_lib (Inr ())) (new_kernel (new_bus 0)))"
  from demo_loads [of "Inr ()" relay_ops]
  have at: "adapter_at 1 (k_bus ?k) = Some (demo_adapter (Inr ()) 1 0)"
    by (auto simp: demo_loaded_def adapter_at_def)
  from library_lifetimes [OF demo_run] obtain \<sigma> where \<sigma>: "lib_run (k_log ?k) (\<lambda>_. Unopened) = Some \<sigma>"
    "\<forall>i a. adapter_at i (k_bus ?k) = Some a \<longrightarrow> \<sigma> (ad_lib a) = Open 1" by blast
  have "\<sigma> (ad_lib (demo_adapter (Inr ()) 1 0)) = Open 1" using \<sigma>(2) at by blast
  then have "\<sigma> 0 = Open 1" by (simp add: demo_adapter_def)
  with \<sigma>(1) at demo_run show ?thesis by blast
qed

text \<open>Reloading it with a library of the same state schema comes down to how the new \<open>revive\<close> ends.\<close>

lemma demo_swap:
  assumes "bus_find b 1 = Some rec" and "sr_shard rec = AdapterShard (demo_adapter rv 1 h)"
    and "sr_state_schema rec = plain_schema ''S''" and "b_observers b = []"
  shows "\<exists>b' ro. swap_state (kernel_ops nv) 1 (bytes_of demo_snapshot) b =
    (case rv of Inl _ \<Rightarrow> Inl (status_failed ''revive'' ZEN_ERR) | Inr _ \<Rightarrow> Inr ro, b') \<and> ro_revived ro"
proof -
  obtain g where adm: "admit_candidate (plain_schema ''S'') (bytes_of demo_snapshot) b = (Inr (accept demo_snapshot), b\<lparr>b_gate_calls := g\<rparr>)"
    using candidate_crossing [OF demo_crosses(3) demo_serialized(3)] by blast
  have "adapter_revive (demo_adapter rv 1 h) demo_snapshot =
      (case rv of Inl _ \<Rightarrow> Inl (status_failed ''revive'' ZEN_ERR) | Inr _ \<Rightarrow> Inr (), (demo_adapter rv 1 h)\<lparr>ad_instance := ()\<rparr>)"
    by (rule adapter_revives [of _ "demo_class [] rv" "()" demo_snapshot])
      (simp_all add: demo_adapter_def demo_class_def crosses_schema [OF demo_crosses(3)] demo_crosses(3))
  then have "vt_revive (kernel_ops nv) (AdapterShard (demo_adapter rv 1 h)) demo_snapshot =
      (case rv of Inl _ \<Rightarrow> Inl (status_failed ''revive'' ZEN_ERR) | Inr _ \<Rightarrow> Inr (),
       AdapterShard ((demo_adapter rv 1 h)\<lparr>ad_instance := ()\<rparr>))"
    by (simp add: kernel_ops_def)
  then show ?thesis
    using assms adm
    by (auto simp: swap_state_def accept_def adm_ok_def adm_value_def revive_with_def Let_def announce_def
        bus_emit_def note_trace_def put_record_def new_revive_outcome_def split: sum.splits
        intro!: exI [of _ "\<lparr>ro_revived = True, ro_from_last_known_good = False, ro_reloads_exhausted = False,
          ro_policy_malformed = False, ro_refusal = bare_refusal RR_None\<rparr>"])
qed

lemma demo_reloads:
  assumes "demo_loaded rv0 k"
  shows "\<exists>k'. reload_from nv ''a'' (demo_lib rv) k =
    (case rv of
       Inl _ \<Rightarrow> Inl (status_failed ''revive'' ZEN_ERR)
     | Inr _ \<Rightarrow> Inr \<lparr>rr_ok = True, rr_reloaded = True, rr_version_mismatch = False, rr_error = []\<rparr>, k')"
proof -
  obtain rec where rec: "bus_find (k_bus k) 1 = Some rec" "sr_shard rec = AdapterShard (demo_adapter rv0 1 0)"
    "sr_state_schema rec = plain_schema ''S''" and obs: "b_observers (k_bus k) = []"
    and reg: "reg_lookup (k_registry k) ''S'' 1 = Some (plain_schema ''S'')"
    and libs: "om_find (k_libs k) ''a'' = Some \<lparr>ld_lib = 0, ld_id = 1\<rparr>" and opens: "k_opens k = 1"
    using assms by (auto simp: demo_loaded_def)
  have snap: "snapshot_bytes (kernel_ops nv) 1 (k_bus k) = Inr (bytes_of demo_snapshot)"
    using rec by (simp add: snapshot_bytes_def kernel_ops_def demo_adapter_snapshot demo_serialized)
  define k1 where "k1 = k\<lparr>k_opens := 2, k_log := k_log k @ [LibOpen 1, LibCreate 1]\<rparr>"
  have op: "open_instance (demo_lib rv) k = (Inr (1, export_abi (demo_class [] rv), ()), k1)"
    using demo_open [of rv k] by (simp add: opens k1_def numeral_2_eq_2)
  obtain g r where rc: "reconstruct (export_abi (demo_class [] rv)) () 1 k1 = (Inr ([], plain_schema ''S''), described 1 g r k1)"
    using demo_described [of k1 rv 1] reg by (auto simp: k1_def)
  define k2 where "k2 = described 1 g r k1"
  note rc2 = rc [folded k2_def]
  have k2: "bus_find (k_bus k2) 1 = Some rec" "b_observers (k_bus k2) = []"
    using rec obs by (simp_all add: k2_def k1_def described_def)
  let ?a = "demo_adapter rv 1 1"
  let ?b = "put_record 1 (rec\<lparr>sr_shard := AdapterShard ?a\<rparr>) (k_bus k2)"
  have "rebind 1 (export_abi (demo_class [] rv)) () 1 k2 = (lib_destroy 0 k2)\<lparr>k_bus := ?b\<rparr>"
    using rec k2 by (simp add: rebind_def demo_adapter_def)
  moreover obtain b' ro where "swap_state (kernel_ops nv) 1 (bytes_of demo_snapshot) ?b =
      (case rv of Inl _ \<Rightarrow> Inl (status_failed ''revive'' ZEN_ERR) | Inr _ \<Rightarrow> Inr ro, b')" "ro_revived ro"
    using demo_swap [of ?b "rec\<lparr>sr_shard := AdapterShard ?a\<rparr>" rv 1 nv] rec k2 by (auto simp: put_record_def bus_find_def om_find_put)
  ultimately have "\<exists>k'. commit_reload nv ''a'' \<lparr>ld_lib = 0, ld_id = 1\<rparr> (bytes_of demo_snapshot) 1 (export_abi (demo_class [] rv)) () k2 =
    (case rv of Inl _ \<Rightarrow> Inl (status_failed ''revive'' ZEN_ERR)
     | Inr _ \<Rightarrow> Inr \<lparr>rr_ok = True, rr_reloaded = True, rr_version_mismatch = False, rr_error = []\<rparr>, k')"
    by (auto simp: commit_reload_def Let_def split: sum.splits)
  moreover have "adapter_at 1 (k_bus k2) = Some (demo_adapter rv0 1 0)" using k2 rec by (simp add: adapter_at_def)
  ultimately show ?thesis
    using libs snap op rc2 by (simp add: reload_from_def same_state_schema_def demo_adapter_def)
qed

theorem hot_reload_witness:
  "\<exists>(k :: (unit, unit) kernel) k' rec v. kernel_run relay_ops {} k \<and> bus_find (k_bus k) 1 = Some rec \<and>
     reload_from relay_ops ''a'' (demo_lib (Inr ())) k =
       (Inr \<lparr>rr_ok = True, rr_reloaded = True, rr_version_mismatch = False, rr_error = []\<rparr>, k') \<and>
     bus_find (k_bus k') 1 = Some ((rebound (export_abi (demo_class [] (Inr ()))) () 1 (demo_adapter (Inr ()) 1 0) rec)
       \<lparr>sr_last_known_good := v, sr_alive := True\<rparr>)"
proof -
  let ?k = "snd (load relay_ops ''a'' (demo_lib (Inr ())) (new_kernel (new_bus 0)))"
  note loaded = demo_loads [of "Inr ()" relay_ops]
  then obtain rec where rec: "bus_find (k_bus ?k) 1 = Some rec" "sr_shard rec = AdapterShard (demo_adapter (Inr ()) 1 0)"
    "sr_state_schema rec = plain_schema ''S''" and libs: "om_find (k_libs ?k) ''a'' = Some \<lparr>ld_lib = 0, ld_id = 1\<rparr>"
    and opens: "k_opens ?k = 1"
    by (auto simp: demo_loaded_def)
  obtain k' where run: "reload_from relay_ops ''a'' (demo_lib (Inr ())) ?k =
      (Inr \<lparr>rr_ok = True, rr_reloaded = True, rr_version_mismatch = False, rr_error = []\<rparr>, k')"
    using demo_reloads [OF loaded, of relay_ops "Inr ()"] by auto
  have "wf_schema (sr_state_schema rec)" using rec(3) by (simp add: plain_schema_def)
  from hot_reload [OF demo_run libs _ this run] rec opens show ?thesis
    using run demo_run [of relay_ops "Inr ()"]
    by (auto simp: fetch_abi_def demo_lib_def export_abi_def demo_class_def)
qed

text \<open>
  A hot reload whose new library refuses the old state throws out of \<open>reload_from\<close> after the commit, and the
  old library is left open for good: no entry of the kernel names it any more, so nothing will ever close it.
\<close>

theorem throwing_reload_leaks:
  "\<exists>(k :: (unit, unit) kernel) k' \<sigma>. kernel_run relay_ops {} k \<and>
     reload_from relay_ops ''a'' (demo_lib (Inl e)) k = (Inl (status_failed ''revive'' ZEN_ERR), k') \<and>
     lib_run (k_log k') (\<lambda>_. Unopened) = Some \<sigma> \<and> \<sigma> 0 = Open 0 \<and>
     0 \<notin> ld_lib ` ran (om_find (k_libs k'))"
proof -
  let ?k = "snd (load relay_ops ''a'' (demo_lib (Inr ())) (new_kernel (new_bus 0)))"
  note loaded = demo_loads [of "Inr ()" relay_ops]
  obtain k' where run: "reload_from relay_ops ''a'' (demo_lib (Inl e)) ?k = (Inl (status_failed ''revive'' ZEN_ERR), k')"
    using demo_reloads [OF loaded, of relay_ops "Inl e"] by auto
  have "om_find (k_libs ?k) ''a'' = Some \<lparr>ld_lib = 0, ld_id = 1\<rparr>" using loaded by (simp add: demo_loaded_def)
  from kernel_run.reload_throws [OF demo_run run this] have "kernel_run relay_ops {0} k'" by simp
  from kernel_okE [OF kernel_run_ok [OF this]] obtain \<sigma> where \<sigma>: "lib_states k' = Some \<sigma>"
    "lib_inv (om_find (tags lib_tag (k_bus k'))) (om_find (k_libs k')) (k_opens k') {0} \<sigma>" by blast
  then have "\<sigma> 0 = Open 0" "\<forall>name rec. om_find (k_libs k') name = Some rec \<longrightarrow> ld_lib rec \<noteq> 0"
    using lib_inv_entry(3) [OF \<sigma>(2)] by (auto simp: lib_inv_def)
  with run \<sigma>(1) demo_run [of relay_ops "Inr ()"] show ?thesis by (fastforce simp: lib_states_def ran_def)
qed

end
