(* ===== verification/Zen_Child.thy ===== *)
theory Zen_Child
  imports Zen_Kernel Zen_Channel
begin

text \<open>
  The child process that runs one shard: \<open>src/isolation/shard_host_main.cpp\<close>. It drives the same library
  descriptor as the kernel, over a blocking socket. The results of \<open>::recv\<close> and \<open>::send\<close> are scripts; a
  script that runs out is a call that does not return (\<open>None\<close>). A received chunk longer than the call asked
  for stays in the socket. The octets that reached the socket are kept, and whether a write ever failed.
\<close>

section \<open>The socket\<close>

record child_io =
  ci_recv :: "recv_result list"
  ci_send :: "send_result list"
  ci_wire :: string
  ci_broken :: bool

fun write_all :: "string \<Rightarrow> send_result list \<Rightarrow> string \<Rightarrow> (bool \<times> send_result list \<times> string) option" where
  "write_all p rs wire =
     (if p = [] then Some (True, rs, wire)
      else
        (case rs of
           [] \<Rightarrow> None
         | Sent n # rs' \<Rightarrow> if n > 0 then write_all (drop n p) rs' (wire @ take n p) else Some (False, rs', wire)
         | SendIntr # rs' \<Rightarrow> write_all p rs' wire
         | _ # rs' \<Rightarrow> Some (False, rs', wire)))"

declare write_all.simps [simp del]

definition child_send_frame :: "op \<Rightarrow> string \<Rightarrow> child_io \<Rightarrow> child_io option" where
  "child_send_frame op payload io =
     (let frame = ipc_put_u8 (ipc_put_u32 [] (of_nat (length payload))) op @ payload in
      case write_all frame (ci_send io) (ci_wire io) of
        None \<Rightarrow> None
      | Some (ok, rs, wire) \<Rightarrow>
          Some (io\<lparr>ci_send := rs, ci_wire := wire, ci_broken := ci_broken io \<or> \<not> ok\<rparr>))"

text \<open>\<open>n\<close> octets still to read, \<open>acc\<close> those read so far; \<open>None\<close> in the result is \<open>return false\<close>.\<close>

function read_exact :: "nat \<Rightarrow> string \<Rightarrow> recv_result list \<Rightarrow> (string option \<times> recv_result list) option" where
  "read_exact n acc rs =
     (if n = 0 then Some (Some acc, rs)
      else
        (case rs of
           [] \<Rightarrow> None
         | RecvBytes bs # rs' \<Rightarrow>
             if bs = [] then Some (None, rs')
             else if length bs \<le> n then read_exact (n - length bs) (acc @ bs) rs'
             else Some (Some (acc @ take n bs), RecvBytes (drop n bs) # rs')
         | RecvIntr # rs' \<Rightarrow> read_exact n acc rs'
         | _ # rs' \<Rightarrow> Some (None, rs')))"
  by pat_completeness auto
termination by (relation "measure (\<lambda>(n, acc, rs). length rs)") auto

declare read_exact.simps [simp del]

definition child_read_frame :: "child_io \<Rightarrow> (incoming option \<times> child_io) option" where
  "child_read_frame io =
     (case read_exact 5 [] (ci_recv io) of
        None \<Rightarrow> None
      | Some (None, rs) \<Rightarrow> Some (None, io\<lparr>ci_recv := rs\<rparr>)
      | Some (Some header, rs) \<Rightarrow>
          (case cu_u32 (new_cursor header) of
             (len_opt, h1) \<Rightarrow>
               let len = (case len_opt of None \<Rightarrow> 0 | Some l \<Rightarrow> unat l);
                   op = (case fst (cu_u8 h1) of None \<Rightarrow> 0 | Some o1 \<Rightarrow> o1)
               in if len > kMaxFrameLen then Some (None, io\<lparr>ci_recv := rs\<rparr>)
                  else
                    (case read_exact len [] rs of
                       None \<Rightarrow> None
                     | Some (None, rs') \<Rightarrow> Some (None, io\<lparr>ci_recv := rs'\<rparr>)
                     | Some (Some payload, rs') \<Rightarrow>
                         Some (Some \<lparr>in_op = op, in_payload = payload\<rparr>, io\<lparr>ci_recv := rs'\<rparr>))))"

section \<open>The shard's surface\<close>

definition ship_emit :: "u8 \<Rightarrow> u64 \<Rightarrow> u64 \<Rightarrow> u64 \<Rightarrow> string \<Rightarrow> child_io \<Rightarrow> child_io option" where
  "ship_emit kind target reply_to correlation payload io =
     child_send_frame Op_Emit
       (ipc_put_u64 (ipc_put_u64 (ipc_put_u64 (ipc_put_u8 [] kind) target) reply_to) correlation @ payload) io"

text \<open>A library's handler with \<open>zen_child_send\<close> and \<open>zen_child_publish\<close> as its host table.\<close>

primrec run_child :: "'i lib_action \<Rightarrow> child_io \<Rightarrow> ('i \<times> child_io) option" where
  "run_child (LReturn st i) io = Some (i, io)"
| "run_child (LSend target reply_to correlation payload k) io =
     Option.bind (ship_emit kEmitSend target reply_to correlation payload io) (run_child (k ZEN_OK))"
| "run_child (LPublish reply_to correlation payload k) io =
     Option.bind (ship_emit kEmitPublish 0 reply_to correlation payload io) (run_child (k ZEN_OK))"

definition emit_snapshot :: "'i shard_abi \<Rightarrow> 'i \<Rightarrow> child_io \<Rightarrow> child_io option" where
  "emit_snapshot abi inst io =
     (case abi_snapshot abi inst of
        (st, snap) \<Rightarrow> if st \<noteq> ZEN_OK then Some io else child_send_frame Op_Snapshot snap io)"

section \<open>The main loop\<close>

text \<open>The header of a \<open>Deliver\<close> frame.\<close>

definition read_deliver :: "string \<Rightarrow> (u64 \<times> u64 \<times> u64 \<times> string) option" where
  "read_deliver payload =
     (case cu_u64 (new_cursor payload) of
        (None, _) \<Rightarrow> None
      | (Some sender, c1) \<Rightarrow>
          (case cu_u64 c1 of
             (None, _) \<Rightarrow> None
           | (Some reply_to, c2) \<Rightarrow>
               (case cu_u64 c2 of
                  (None, _) \<Rightarrow> None
                | (Some correlation, c3) \<Rightarrow> Some (sender, reply_to, correlation, fst (cu_rest c3)))))"

text \<open>One frame from the parent: whether the loop goes on, the instance, the socket.\<close>

definition child_frame :: "'i shard_abi \<Rightarrow> 'i \<Rightarrow> incoming \<Rightarrow> child_io \<Rightarrow> (bool \<times> 'i \<times> child_io) option" where
  "child_frame abi inst f io =
     (if in_op f = Op_Deliver then
        (case read_deliver (in_payload f) of
           None \<Rightarrow> Some (False, inst, io)
         | Some (sender, reply_to, correlation, bytes) \<Rightarrow>
             (case run_child (abi_handle abi inst sender reply_to correlation bytes) io of
                None \<Rightarrow> None
              | Some (inst', io1) \<Rightarrow>
                  (case emit_snapshot abi inst' io1 of
                     None \<Rightarrow> None
                   | Some io2 \<Rightarrow> Some (True, inst', io2))))
      else if in_op f = Op_Revive then
        (case abi_revive abi inst (in_payload f) of
           (st, inst') \<Rightarrow>
             (case emit_snapshot abi inst' io of None \<Rightarrow> None | Some io1 \<Rightarrow> Some (True, inst', io1)))
      else if in_op f = Op_Shutdown then Some (False, inst, io)
      else Some (True, inst, io))"

partial_function (option) child_loop :: "'i shard_abi \<Rightarrow> 'i \<Rightarrow> child_io \<Rightarrow> ('i \<times> child_io) option" where
  "child_loop abi inst io =
     (case child_read_frame io of
        None \<Rightarrow> None
      | Some (None, io1) \<Rightarrow> Some (inst, io1)
      | Some (Some f, io1) \<Rightarrow>
          (case child_frame abi inst f io1 of
             None \<Rightarrow> None
           | Some (go_on, inst', io2) \<Rightarrow> if go_on then child_loop abi inst' io2 else Some (inst', io2)))"

definition child_hello :: "'i shard_abi \<Rightarrow> 'i \<Rightarrow> string option" where
  "child_hello abi inst =
     (case (abi_describe abi inst, abi_policy abi inst, abi_snapshot abi inst) of
        ((s1, manifest), (s2, policy), (s3, snapshot)) \<Rightarrow>
          if s1 \<noteq> ZEN_OK \<or> s2 \<noteq> ZEN_OK \<or> s3 \<noteq> ZEN_OK then None
          else Some (ipc_put_bytes (ipc_put_bytes (ipc_put_bytes [] manifest) policy) snapshot))"

text \<open>The exit code and the socket, for the number of command-line arguments.\<close>

definition child_main :: "nat \<Rightarrow> 'i lib_env \<Rightarrow> child_io \<Rightarrow> (int \<times> child_io) option" where
  "child_main argc env io =
     (if argc < 3 then Some (2, io)
      else if \<not> le_opens env then Some (3, io)
      else if \<not> le_symbol env then Some (4, io)
      else
        (case le_abi env of
           None \<Rightarrow> Some (5, io)
         | Some abi \<Rightarrow>
             if abi_version abi \<noteq> ZEN_ABI_VERSION then Some (5, io)
             else
               (case abi_create abi of
                  None \<Rightarrow> Some (6, io)
                | Some inst \<Rightarrow>
                    (case child_hello abi inst of
                       None \<Rightarrow> Some (7, io)
                     | Some hello \<Rightarrow>
                         (case child_send_frame Op_Hello hello io of
                            None \<Rightarrow> None
                          | Some io1 \<Rightarrow>
                              (case child_loop abi inst io1 of None \<Rightarrow> None | Some (_, io2) \<Rightarrow> Some (0, io2)))))))"

end
