(* ===== verification/Zen_Process.thy ===== *)
theory Zen_Process
  imports Zen_Child Zen_Isolation Zen_Export
begin

text \<open>
  One shard, its third home: what an instance of a class does to the bus from a child process behind the isolation
  host, against the same instance compiled in, for values that cross and portable handlers. The proof goes over the wire in both directions:
  the host's proxy writes a \<open>Deliver\<close> frame, the child reads it from a socket that cuts the octets up as it
  likes, runs the exported handler, and its frames are handled by the host.
\<close>

section \<open>Reading headers back\<close>

lemma cu_u64_put:
  assumes "drop i data = put_u64le w [] @ rest"
  shows "cu_u64 \<lparr>cu_data = data, cu_i = i\<rparr> = (Some w, \<lparr>cu_data = data, cu_i = i + 8\<rparr>)"
    and "drop (i + 8) data = rest"
proof -
  have len8: "length (put_u64le w []) = 8" by (simp add: put_u64le_def put_u8_def)
  have len: "8 + length rest = length data - i"
    using arg_cong [OF assms, of length] by (simp add: len8)
  have "(le_word 8 (drop i data) :: u64) = w"
    using u64_codec.dec_enc [of w rest] len
    by (simp add: assms [symmetric] read_u64le_def le_word_def split: if_splits)
  then show "cu_u64 \<lparr>cu_data = data, cu_i = i\<rparr> = (Some w, \<lparr>cu_data = data, cu_i = i + 8\<rparr>)"
    using len by (simp add: cu_u64_def cu_remaining_def le_word_def upt_rec)
  show "drop (i + 8) data = rest"
    using arg_cong [OF assms, of "drop 8"] by (simp add: len8 add.commute)
qed

lemma ipc_put_u64_append: "ipc_put_u64 out v = out @ put_u64le v []"
  unfolding ipc_put_u64_le by (rule put_u64le_append)

lemma read_deliver_put:
  "read_deliver (ipc_put_u64 (ipc_put_u64 (ipc_put_u64 [] s) r) c @ bytes) = Some (s, r, c, bytes)"
proof -
  let ?d = "ipc_put_u64 (ipc_put_u64 (ipc_put_u64 [] s) r) c @ bytes"
  have d: "drop 0 ?d = put_u64le s [] @ put_u64le r [] @ put_u64le c [] @ bytes"
    by (simp add: ipc_put_u64_append)
  note 1 = cu_u64_put [OF d]
  note 2 = cu_u64_put [OF 1(2)]
  note 3 = cu_u64_put [OF 2(2)]
  show ?thesis
    using 1 2 3 by (simp add: read_deliver_def new_cursor_def cu_rest_def)
qed

lemma read_emit_put:
  "read_emit (ipc_put_u64 (ipc_put_u64 (ipc_put_u64 (ipc_put_u8 [] k) t) r) c @ bytes) = Some (k, t, r, c, bytes)"
proof -
  let ?d = "ipc_put_u64 (ipc_put_u64 (ipc_put_u64 (ipc_put_u8 [] k) t) r) c @ bytes"
  have d0: "?d = chr k # put_u64le t [] @ put_u64le r [] @ put_u64le c [] @ bytes"
    by (simp add: ipc_put_u64_append ipc_put_u8_def)
  then have d: "drop 1 ?d = put_u64le t [] @ put_u64le r [] @ put_u64le c [] @ bytes" by simp
  have 0: "cu_u8 \<lparr>cu_data = ?d, cu_i = 0\<rparr> = (Some k, \<lparr>cu_data = ?d, cu_i = 1\<rparr>)"
    unfolding d0 by (simp add: cu_u8_def cu_remaining_def)
  note 1 = cu_u64_put [OF d]
  note 2 = cu_u64_put [OF 1(2)]
  note 3 = cu_u64_put [OF 2(2)]
  show ?thesis
    using 0 1 2 3 by (simp add: read_emit_def new_cursor_def cu_rest_def)
qed

section \<open>The child's socket\<close>

text \<open>A socket that can still take \<open>n\<close> octets, however few at a time and however often it is interrupted.\<close>

fun sends_some :: "send_result \<Rightarrow> bool" where
  "sends_some (Sent n) \<longleftrightarrow> 0 < n"
| "sends_some SendIntr \<longleftrightarrow> True"
| "sends_some _ \<longleftrightarrow> False"

definition takes :: "nat \<Rightarrow> send_result list \<Rightarrow> bool" where
  "takes n rs \<longleftrightarrow> list_all sends_some rs \<and> n \<le> length (filter (\<lambda>r. r \<noteq> SendIntr) rs)"

lemma takes_mono: "takes n rs \<Longrightarrow> m \<le> n \<Longrightarrow> takes m rs"
  by (simp add: takes_def)

lemma write_all_takes:
  assumes "takes (length p + m) rs"
  shows "\<exists>rs'. write_all p rs wire = Some (True, rs', wire @ p) \<and> takes m rs'"
  using assms
proof (induction p rs wire rule: write_all.induct)
  case (1 p rs wire)
  show ?case
  proof (cases "p = []")
    case True
    with "1.prems" show ?thesis by (simp add: write_all.simps)
  next
    case False
    with "1.prems" obtain r rs1 where rs: "rs = r # rs1" by (cases rs) (auto simp: takes_def)
    show ?thesis
    proof (cases r)
      case (Sent n)
      with "1.prems" rs have "0 < n" by (simp add: takes_def)
      moreover have "takes (length (drop n p) + m) rs1"
        using "1.prems" rs Sent \<open>0 < n\<close> False by (cases p) (auto simp: takes_def)
      ultimately show ?thesis
        using "1.IH"(1) [OF False rs Sent] rs Sent False by (simp add: write_all.simps [of p])
    next
      case SendIntr
      with "1.prems" rs have "takes (length p + m) rs1" by (simp add: takes_def)
      then show ?thesis using "1.IH"(2) [OF False rs SendIntr] rs SendIntr False by (simp add: write_all.simps [of p])
    qed (use "1.prems" rs in \<open>simp_all add: takes_def\<close>)
  qed
qed

text \<open>What a child has written after some frames, and what its socket still holds.\<close>

definition wrote :: "incoming list \<Rightarrow> child_io \<Rightarrow> child_io \<Rightarrow> bool" where
  "wrote fs io io' \<longleftrightarrow> ci_wire io' = ci_wire io @ concat (map frame_bytes fs) \<and> ci_broken io' = ci_broken io \<and>
     ci_recv io' = ci_recv io"

lemma wrote_Nil [simp]: "wrote [] io io"
  by (simp add: wrote_def)

lemma wrote_trans: "wrote fs io io1 \<Longrightarrow> wrote gs io1 io2 \<Longrightarrow> wrote (fs @ gs) io io2"
  by (simp add: wrote_def)

lemma child_frame_bytes: "ipc_put_u8 (ipc_put_u32 [] (of_nat (length p))) op @ p = frame_bytes \<lparr>in_op = op, in_payload = p\<rparr>"
  by (simp add: frame_bytes_def ipc_put_u8_def ipc_put_u32_le put_u8_def)

lemma send_frame_wrote:
  assumes "takes (length (frame_bytes \<lparr>in_op = op, in_payload = p\<rparr>) + m) (ci_send io)"
  shows "\<exists>io'. child_send_frame op p io = Some io' \<and> wrote [\<lparr>in_op = op, in_payload = p\<rparr>] io io' \<and> takes m (ci_send io')"
  using write_all_takes [OF assms, of "ci_wire io"]
  by (auto simp: child_send_frame_def child_frame_bytes wrote_def)

text \<open>The octets a socket delivers, however it cuts them up.\<close>

fun stream_of :: "recv_result list \<Rightarrow> string option" where
  "stream_of [] = Some []"
| "stream_of (RecvBytes bs # rs) = (if bs = [] then None else map_option ((@) bs) (stream_of rs))"
| "stream_of (RecvIntr # rs) = stream_of rs"
| "stream_of (_ # rs) = None"

lemma read_exact_stream:
  assumes "stream_of rs = Some (p @ rest)"
  shows "\<exists>rs'. read_exact (length p) acc rs = Some (Some (acc @ p), rs') \<and> stream_of rs' = Some rest"
  using assms
proof (induction rs arbitrary: p acc rule: stream_of.induct)
  case (2 bs rs)
  then obtain tail where bs: "bs \<noteq> []" and tail: "stream_of rs = Some tail" and eq: "bs @ tail = p @ rest"
    by (auto split: if_splits)
  show ?case
  proof (cases "length bs \<le> length p")
    case True
    then obtain q where p: "p = bs @ q" and "tail = q @ rest"
      using eq by (auto simp: append_eq_append_conv2)
    with 2(1) [OF bs, of q "acc @ bs"] tail bs show ?thesis
      by (auto simp: read_exact.simps [of "length bs + length q"])
  next
    case False
    then obtain q where q: "bs = p @ q" "q \<noteq> []" "rest = q @ tail"
      using eq by (auto simp: append_eq_append_conv2)
    with tail bs show ?thesis
      by (cases "p = []") (simp_all add: read_exact.simps [of "length p"] read_exact.simps [of 0])
  qed
next
  case (3 rs)
  then show ?case
    by (cases "p = []") (simp_all add: read_exact.simps [of _ _ "RecvIntr # rs"])
qed (auto simp: read_exact.simps [of 0])

lemma child_reads_frame:
  assumes "stream_of (ci_recv io) = Some (frame_bytes f @ rest)" and "frame_ok f"
  shows "\<exists>rs. child_read_frame io = Some (Some f, io\<lparr>ci_recv := rs\<rparr>) \<and> stream_of rs = Some rest"
proof -
  let ?h = "put_u32le (of_nat (length (in_payload f))) [] @ put_u8 (in_op f) []"
  have len: "length ?h = 5" by (simp add: put_u8_def)
  obtain rs1 where 1: "read_exact 5 [] (ci_recv io) = Some (Some ?h, rs1)" "stream_of rs1 = Some (in_payload f @ rest)"
    using read_exact_stream [of "ci_recv io" ?h "in_payload f @ rest" "[]"] assms(1)
    unfolding len by (auto simp: frame_bytes_def)
  obtain rs2 where 2: "read_exact (length (in_payload f)) [] rs1 = Some (Some (in_payload f), rs2)" "stream_of rs2 = Some rest"
    using read_exact_stream [OF 1(2), of "[]"] by auto
  have "cu_u32 (new_cursor ?h) = (Some (of_nat (length (in_payload f))), \<lparr>cu_data = ?h, cu_i = 4\<rparr>)"
    using u32_codec.dec_enc [of "of_nat (length (in_payload f))" "put_u8 (in_op f) []"] len
    by (simp add: new_cursor_def cu_u32_def cu_remaining_def read_u32le_le_word le_word_def split: if_splits)
  moreover have "cu_u8 \<lparr>cu_data = ?h, cu_i = 4\<rparr> = (Some (in_op f), \<lparr>cu_data = ?h, cu_i = 5\<rparr>)"
    by (simp add: cu_u8_def cu_remaining_def put_u8_def nth_append)
  ultimately show ?thesis
    using 1 2 assms(2)
    by (auto simp: child_read_frame_def frame_ok_def unat_frame_len not_less Let_def)
qed

section \<open>What the child writes\<close>

definition emit_frame :: "u8 \<Rightarrow> u64 \<Rightarrow> u64 \<Rightarrow> u64 \<Rightarrow> string \<Rightarrow> incoming" where
  "emit_frame kind t r c bytes =
     \<lparr>in_op = Op_Emit, in_payload = ipc_put_u64 (ipc_put_u64 (ipc_put_u64 (ipc_put_u8 [] kind) t) r) c @ bytes\<rparr>"

text \<open>The frames of a library's handler, whose calls all return \<open>ZEN_OK\<close>, and the instance it leaves.\<close>

primrec emitted :: "'i lib_action \<Rightarrow> incoming list \<times> 'i" where
  "emitted (LReturn st i) = ([], i)"
| "emitted (LSend t r c p k) = map_prod (Cons (emit_frame kEmitSend t r c p)) id (emitted (k ZEN_OK))"
| "emitted (LPublish r c p k) = map_prod (Cons (emit_frame kEmitPublish 0 r c p)) id (emitted (k ZEN_OK))"

definition octets :: "incoming list \<Rightarrow> nat" where
  "octets fs = length (concat (map frame_bytes fs))"

lemma octets_simps [simp]: "octets [] = 0" "octets (f # fs) = length (frame_bytes f) + octets fs"
  "octets (fs @ gs) = octets fs + octets gs"
  by (simp_all add: octets_def)

lemma ship_emit_wrote:
  assumes "takes (length (frame_bytes (emit_frame kind t r c p)) + m) (ci_send io)"
  shows "\<exists>io'. ship_emit kind t r c p io = Some io' \<and> wrote [emit_frame kind t r c p] io io' \<and> takes m (ci_send io')"
  using send_frame_wrote assms unfolding ship_emit_def emit_frame_def by blast

lemma run_child_emitted:
  assumes "takes (octets (fst (emitted a)) + m) (ci_send io)"
  shows "\<exists>io'. run_child a io = Some (snd (emitted a), io') \<and> wrote (fst (emitted a)) io io' \<and> takes m (ci_send io')"
  using assms
proof (induction a arbitrary: io)
  case (LSend t r c p k)
  let ?f = "emit_frame kEmitSend t r c p"
  obtain io1 where io1: "ship_emit kEmitSend t r c p io = Some io1" "wrote [?f] io io1"
    "takes (octets (fst (emitted (k ZEN_OK))) + m) (ci_send io1)"
    using ship_emit_wrote [of kEmitSend t r c p "octets (fst (emitted (k ZEN_OK))) + m" io] LSend.prems
    by (auto simp: add.assoc)
  then show ?case
    using LSend.IH [OF rangeI io1(3)] wrote_trans [OF io1(2)] by fastforce
next
  case (LPublish r c p k)
  let ?f = "emit_frame kEmitPublish 0 r c p"
  obtain io1 where io1: "ship_emit kEmitPublish 0 r c p io = Some io1" "wrote [?f] io io1"
    "takes (octets (fst (emitted (k ZEN_OK))) + m) (ci_send io1)"
    using ship_emit_wrote [of kEmitPublish 0 r c p "octets (fst (emitted (k ZEN_OK))) + m" io] LPublish.prems
    by (auto simp: add.assoc)
  then show ?case
    using LPublish.IH [OF rangeI io1(3)] wrote_trans [OF io1(2)] by fastforce
qed auto

section \<open>What the host makes of it\<close>

lemma link_of_shards: "b_shards b' = b_shards b \<Longrightarrow> link_of i b' = link_of i b"
  by (simp add: link_of_def bus_find_def)

lemma surface_shards [simp]:
  "b_shards (snd (send_as i t m b)) = b_shards b" "b_shards (snd (publish_as i m b)) = b_shards b"
  by (simp_all add: send_as_def publish_as_def appended_fields(2) [OF appended_enqueue [of "\<lambda>_. True"]]
      appended_fields(2) [OF appended_fanout [of "\<lambda>_. True"]])

text \<open>An \<open>Emit\<close> frame with the octets of a value that crosses is that very send, or publish, of the child's.\<close>

lemma emit_frame_handled:
  assumes "crosses d (m_payload m)" and "serialize (m_payload m) = Inr bytes"
    and "reg_lookup (b_registry b) (s_name d) (s_version d) = Some d"
    and "link_of i b = Some l" and "lk_id l = i"
  shows "\<exists>g. handle_child_frame i (emit_frame kEmitSend t (m_reply_to m) (m_correlation m) bytes) b =
      (Inr (), (snd (send_as i t m b))\<lparr>b_gate_calls := g\<rparr>)"
    and "\<exists>g. handle_child_frame i (emit_frame kEmitPublish 0 (m_reply_to m) (m_correlation m) bytes) b =
      (Inr (), (snd (publish_as i m b))\<lparr>b_gate_calls := g\<rparr>)"
proof -
  obtain g where adm: "admit_candidate d bytes b = (Inr (accept (m_payload m)), b\<lparr>b_gate_calls := g\<rparr>)"
    using candidate_crossing [OF assms(1,2)] by blast
  have "claimed_name (parse bytes) = s_name d" "claimed_version (parse bytes) = s_version d"
    using crosses_bytes [OF assms(1)] assms(2) by (metis sum.inject(2))+
  then have door: "resolve_schema (claimed_name (parse bytes)) (claimed_version (parse bytes)) b = Some d"
    using assms(3) by (simp add: resolve_schema_def)
  note run = handle_child_frame_def child_emits_def emit_frame_def read_emit_put door adm accept_def adm_ok_def
    adm_value_def Let_def restamped surface_gate kEmitSend_def kEmitPublish_def
  show "\<exists>g. handle_child_frame i (emit_frame kEmitSend t (m_reply_to m) (m_correlation m) bytes) b =
      (Inr (), (snd (send_as i t m b))\<lparr>b_gate_calls := g\<rparr>)"
    using assms(4,5) by (intro exI [of _ g]) (simp add: run)
  show "\<exists>g. handle_child_frame i (emit_frame kEmitPublish 0 (m_reply_to m) (m_correlation m) bytes) b =
      (Inr (), (snd (publish_as i m b))\<lparr>b_gate_calls := g\<rparr>)"
    using assms(4,5) by (intro exI [of _ g]) (simp add: run)
qed

lemma handled_thunk:
  fixes b :: "('s, 'w) hosted bus"
  assumes "portable r h" and "b_registry b = r" and "link_of i b = Some l" and "lk_id l = i"
  shows "\<exists>res b' g'. run_action (lift_action (native_action h)) (shard_bus i) b =
      ((res, NativeShard (snd (emitted (thunk_action h)))), b') \<and> b_shards b' = b_shards b \<and>
    handle_frames i (fst (emitted (thunk_action h))) (b\<lparr>b_gate_calls := g\<rparr>) = (Inr (), b'\<lparr>b_gate_calls := g'\<rparr>)"
  using assms
proof (induction arbitrary: b g rule: portable.induct)
  case (send d m k t)
  obtain bytes where ser: "serialize (m_payload m) = Inr bytes" using crosses_bytes [OF send(1)] by metis
  let ?b0 = "b\<lparr>b_gate_calls := g\<rparr>" and ?b1 = "snd (send_as i t m b)"
  have "link_of i ?b0 = Some l" "b_registry ?b0 = r" using send(6,7) link_of_shards [of ?b0 b i] by simp_all
  then obtain x where "handle_child_frame i (emit_frame kEmitSend t (m_reply_to m) (m_correlation m) bytes) ?b0 =
      (Inr (), (snd (send_as i t m ?b0))\<lparr>b_gate_calls := x\<rparr>)"
    using emit_frame_handled(1) [OF send(1) ser _ _ send(8)] send(2) by metis
  then have x: "handle_child_frame i (emit_frame kEmitSend t (m_reply_to m) (m_correlation m) bytes) ?b0 =
      (Inr (), ?b1\<lparr>b_gate_calls := x\<rparr>)"
    by (simp add: surface_gate)
  have "b_registry ?b1 = r" "link_of i ?b1 = Some l" using send(6,7) link_of_shards [of ?b1 b i] by simp_all
  from send(5) [OF this send(8), of x] show ?case
    using x send(3) [of "fst (send_as i t m b)"] by (auto simp: ser shard_bus_def Let_def)
next
  case (publish d m k)
  obtain bytes where ser: "serialize (m_payload m) = Inr bytes" using crosses_bytes [OF publish(1)] by metis
  let ?b0 = "b\<lparr>b_gate_calls := g\<rparr>" and ?b1 = "snd (publish_as i m b)"
  have "link_of i ?b0 = Some l" "b_registry ?b0 = r" using publish(6,7) link_of_shards [of ?b0 b i] by simp_all
  then obtain x where "handle_child_frame i (emit_frame kEmitPublish 0 (m_reply_to m) (m_correlation m) bytes) ?b0 =
      (Inr (), (snd (publish_as i m ?b0))\<lparr>b_gate_calls := x\<rparr>)"
    using emit_frame_handled(2) [OF publish(1) ser _ _ publish(8)] publish(2) by metis
  then have x: "handle_child_frame i (emit_frame kEmitPublish 0 (m_reply_to m) (m_correlation m) bytes) ?b0 =
      (Inr (), ?b1\<lparr>b_gate_calls := x\<rparr>)"
    by (simp add: surface_gate)
  have "b_registry ?b1 = r" "link_of i ?b1 = Some l" using publish(6,7) link_of_shards [of ?b1 b i] by simp_all
  from publish(5) [OF this publish(8), of x] show ?case
    using x publish(3) [of "fst (publish_as i m b)"] by (auto simp: ser shard_bus_def Let_def)
qed (auto intro!: exI)

lemma handle_frames_append:
  "handle_frames i fs b = (Inr (), b1) \<Longrightarrow> handle_frames i (fs @ gs) b = handle_frames i gs b1"
  by (induction fs arbitrary: b) (auto split: prod.splits sum.splits)

section \<open>The same shard, out of process\<close>

text \<open>A round of the child's loop on a \<open>Deliver\<close> frame: the handler's frames, then a fresh snapshot.\<close>

definition deliver_payload :: "message \<Rightarrow> string \<Rightarrow> string" where
  "deliver_payload m bytes = ipc_put_u64 (ipc_put_u64 (ipc_put_u64 [] (m_sender m)) (m_reply_to m)) (m_correlation m) @ bytes"

lemma child_frame_delivers:
  assumes "abi_handle abi inst (m_sender m) (m_reply_to m) (m_correlation m) bytes = a"
    and "abi_snapshot abi (snd (emitted a)) = (ZEN_OK, snap)"
    and "takes (octets (fst (emitted a) @ [\<lparr>in_op = Op_Snapshot, in_payload = snap\<rparr>])) (ci_send io)"
  shows "\<exists>io'. child_frame abi inst \<lparr>in_op = Op_Deliver, in_payload = deliver_payload m bytes\<rparr> io =
      Some (True, snd (emitted a), io') \<and> wrote (fst (emitted a) @ [\<lparr>in_op = Op_Snapshot, in_payload = snap\<rparr>]) io io'"
proof -
  let ?f = "\<lparr>in_op = Op_Snapshot, in_payload = snap\<rparr>"
  obtain io1 where io1: "run_child a io = Some (snd (emitted a), io1)" "wrote (fst (emitted a)) io io1"
    "takes (length (frame_bytes ?f)) (ci_send io1)"
    using run_child_emitted [of a "length (frame_bytes ?f)" io] assms(3) by auto
  obtain io2 where "child_send_frame Op_Snapshot snap io1 = Some io2" "wrote [?f] io1 io2"
    using send_frame_wrote [of Op_Snapshot snap 0 io1] io1(3) by auto
  then show ?thesis
    using io1 assms(1,2) wrote_trans
    by (auto simp: child_frame_def deliver_payload_def read_deliver_put emit_snapshot_def)
qed

lemma child_loop_delivers:
  assumes "child_frame abi inst f (io\<lparr>ci_recv := rs\<rparr>) = Some (True, inst', io')"
    and "child_read_frame io = Some (Some f, io\<lparr>ci_recv := rs\<rparr>)"
  shows "child_loop abi inst io = child_loop abi inst' io'"
  using assms by (simp add: child_loop.simps [of _ _ io])

lemma snapshot_frame_handled:
  assumes "crosses st v" and "serialize v = Inr bytes" and "link_of i b = Some l" and "lk_state_schema l = Some st"
  shows "\<exists>g. handle_frames i [\<lparr>in_op = Op_Snapshot, in_payload = bytes\<rparr>] b =
    (Inr (), put_link i (l\<lparr>lk_snapshot_value := Some v, lk_snapshot_bytes := bytes\<rparr>) (b\<lparr>b_gate_calls := g\<rparr>))"
proof -
  obtain g where "admit_candidate st bytes b = (Inr (accept v), b\<lparr>b_gate_calls := g\<rparr>)"
    using candidate_crossing [OF assms(1,2)] by blast
  then show ?thesis
    using assms(3,4)
    by (intro exI [of _ g]) (simp add: handle_child_frame_def child_snapshot_def accept_def adm_ok_def adm_value_def
        Op_Snapshot_def Op_Emit_def)
qed

text \<open>
  C19: What a shard in a child process has in common with the same class compiled in, and under which conditions. Take an
  exported class, a proxy on the bus and a child that runs an instance of the class. Let the message and the state
  after it cross the seam, let the handler be portable (what it sends is of published schemas and crosses, and it does
  not look at the tickets its sends return), and compare with a compiled-in shard with the same instance, under the
  same id, on the same bus. Then the proxy only queues one \<open>Deliver\<close> frame; the child, whose socket delivers the octets of
  that frame in any pieces and takes its output a few octets at a time, reads the frame, runs the handler, comes back
  to its loop with exactly the instance state the compiled-in run would leave, and has written the octets of a list of
  frames; and when the host later handles these frames, on the bus as the message found it, the bus gets the
  deliveries the compiled-in handler would have appended, in the same order (only the gate counter differs), and the
  link caches the new state. What other shards do to the bus in between, and how the child's instance came about (an
  authored shard in a child does not learn its own id), is not part of the claim.
\<close>

theorem out_of_process_like_native:
  fixes C :: "'s shard_class" and b :: "('s, 'w) hosted bus"
  assumes "sc_accepted_schemas C s = Inr acc" and "accept_match acc (s_name d) (s_version d) = Some d"
    and "crosses d (m_payload m)" and "portable (b_registry b) (sc_handle C s m)"
    and "link_of i b = Some l" and "lk_id l = i" and "lk_channel l = Some ch" and "lk_state_schema l = Some st"
    and "run_action (vt_handle (host_ops cfg (native_ops C)) (NativeShard s) m) (shard_bus i) b = ((res, NativeShard s'), b')"
    and "sc_snapshot C s' = Inr v" and "crosses st v" and "serialize (m_payload m) = Inr mb"
  defines "f \<equiv> \<lparr>in_op = Op_Deliver, in_payload = deliver_payload m mb\<rparr>"
  shows "\<exists>frames bytes g.
    vt_handle (host_ops cfg (native_ops C)) (ProxyShard l) m =
      ADone (ProxyShard (l\<lparr>lk_channel := Some (ch_queue (in_op f) (in_payload f) ch)\<rparr>)) \<and>
    (\<forall>io rest. frame_ok f \<and> stream_of (ci_recv io) = Some (frame_bytes f @ rest) \<and> takes (octets frames) (ci_send io) \<longrightarrow>
      (\<exists>io'. child_loop (export_abi C) s io = child_loop (export_abi C) s' io' \<and>
         stream_of (ci_recv io') = Some rest \<and> ci_broken io' = ci_broken io \<and>
         ci_wire io' = ci_wire io @ concat (map frame_bytes frames))) \<and>
    serialize v = Inr bytes \<and>
    handle_frames i frames b =
      (Inr (), put_link i (l\<lparr>lk_snapshot_value := Some v, lk_snapshot_bytes := bytes\<rparr>) (b'\<lparr>b_gate_calls := g\<rparr>))"
proof -
  note mb = \<open>serialize (m_payload m) = Inr mb\<close>
  obtain bytes where bytes: "serialize v = Inr bytes" using crosses_bytes [OF assms(11)] by metis
  let ?abi = "export_abi C" and ?a = "thunk_action (sc_handle C s m)"
  let ?frames = "fst (emitted ?a) @ [\<lparr>in_op = Op_Snapshot, in_payload = bytes\<rparr>]"
  have native: "vt_handle (host_ops cfg (native_ops C)) (NativeShard s) m = lift_action (native_action (sc_handle C s m))"
    by (simp add: host_ops_def native_ops_def)
  obtain g1 where s': "s' = snd (emitted ?a)" and b': "b_shards b' = b_shards b"
    and emits: "handle_frames i (fst (emitted ?a)) b = (Inr (), b'\<lparr>b_gate_calls := g1\<rparr>)"
    using handled_thunk [OF assms(4) refl assms(5,6), of "b_gate_calls b"] assms(9) unfolding native by auto
  have "link_of i (b'\<lparr>b_gate_calls := g1\<rparr>) = Some l"
    using assms(5) b' link_of_shards [of "b'\<lparr>b_gate_calls := g1\<rparr>" b i] by simp
  from snapshot_frame_handled [OF assms(11) bytes this assms(8)] obtain g where
    handled: "handle_frames i ?frames b =
      (Inr (), put_link i (l\<lparr>lk_snapshot_value := Some v, lk_snapshot_bytes := bytes\<rparr>) (b'\<lparr>b_gate_calls := g\<rparr>))"
    unfolding handle_frames_append [OF emits] by auto
  have proxy: "vt_handle (host_ops cfg (native_ops C)) (ProxyShard l) m =
      ADone (ProxyShard (l\<lparr>lk_channel := Some (ch_queue (in_op f) (in_payload f) ch)\<rparr>))"
    using mb assms(7) by (simp add: f_def host_ops_def proxy_handle_def ship_deliver_def deliver_payload_def Let_def)
  have "abi_handle ?abi s (m_sender m) (m_reply_to m) (m_correlation m) mb = ?a"
    using do_handle_crossing [OF assms(3) mb assms(1,2)] by (simp add: export_abi_def)
  moreover have "abi_snapshot ?abi (snd (emitted ?a)) = (ZEN_OK, bytes)"
    using assms(10) bytes s' by (simp add: export_abi_def do_snapshot_def sink_result_def)
  ultimately have runs: "takes (octets ?frames) (ci_send io) \<Longrightarrow>
      \<exists>io'. child_frame ?abi s f io = Some (True, s', io') \<and> wrote ?frames io io'" for io
    using child_frame_delivers [of ?abi s m mb ?a bytes io] s' by (simp add: f_def)
  have "\<exists>io'. child_loop ?abi s io = child_loop ?abi s' io' \<and> stream_of (ci_recv io') = Some rest \<and>
      ci_broken io' = ci_broken io \<and> ci_wire io' = ci_wire io @ concat (map frame_bytes ?frames)"
    if io: "frame_ok f" "stream_of (ci_recv io) = Some (frame_bytes f @ rest)" "takes (octets ?frames) (ci_send io)" for io rest
  proof -
    obtain rs where rs: "child_read_frame io = Some (Some f, io\<lparr>ci_recv := rs\<rparr>)" "stream_of rs = Some rest"
      using child_reads_frame [OF io(2,1)] by blast
    obtain io' where io': "child_frame ?abi s f (io\<lparr>ci_recv := rs\<rparr>) = Some (True, s', io')"
      "wrote ?frames (io\<lparr>ci_recv := rs\<rparr>) io'"
      using runs [of "io\<lparr>ci_recv := rs\<rparr>"] io(3) by auto
    then show ?thesis
      using child_loop_delivers [OF io'(1) rs(1)] rs(2) by (auto simp: wrote_def)
  qed
  with proxy handled bytes show ?thesis by blast
qed

definition demo_child_link :: "unit link" where
  "demo_child_link = demo_link\<lparr>lk_channel := Some (new_channel 3)\<rparr>"

definition demo_child_bus :: "(unit, unit) hosted bus" where
  "demo_child_bus = put_link 1 demo_child_link demo_bus"

definition demo_deliver :: incoming where
  "demo_deliver = \<lparr>in_op = Op_Deliver, in_payload = deliver_payload demo_message (bytes_of demo_snapshot)\<rparr>"

lemma demo_child_bus_simps:
  "link_of 1 demo_child_bus = Some demo_child_link" "b_queue demo_child_bus = []"
  "reg_lookup (b_registry demo_child_bus) ''S'' 1 = Some (plain_schema ''S'')" "b_next_seq demo_child_bus = 1"
proof -
  show "link_of 1 demo_child_bus = Some demo_child_link"
    unfolding demo_child_bus_def by (rule link_of_put_link [OF demo_link_of])
  have "b_queue demo_bus = [] \<and> reg_lookup (b_registry demo_bus) ''S'' 1 = Some (plain_schema ''S'') \<and> b_next_seq demo_bus = 1"
    using plain_admitted [of "''S''" FirstError]
    by (simp add: demo_bus_def seed_shard_def demo_snapshot_def register_schema_def new_bus_def new_registry_def
      mount_record_def accept_def adm_ok_def adm_value_def Let_def bus_find_def put_record_def note_trace_def
      reg_lookup_def reg_snapshot_def om_find_put)
  then show "b_queue demo_child_bus = []" "reg_lookup (b_registry demo_child_bus) ''S'' 1 = Some (plain_schema ''S'')"
    "b_next_seq demo_child_bus = 1"
    by (simp_all add: demo_child_bus_def put_link_def put_record_def split: option.split)
qed

lemma demo_deliver_ok: "frame_ok demo_deliver"
  using demo_lengths
  by (simp add: frame_ok_def demo_deliver_def deliver_payload_def kMaxFrameLen_def ipc_put_u64_def)

theorem out_of_process_like_native_witness:
  "\<exists>frames b' g io'. b_queue b' = [\<lparr>env_msg = demo_message\<lparr>m_sender := 1\<rparr>, env_target = 7, env_seq = 1, env_gated = True\<rparr>] \<and>
     child_loop (export_abi (demo_class [plain_schema ''S''] (Inr ()))) ()
       \<lparr>ci_recv = [RecvBytes (frame_bytes demo_deliver)], ci_send = replicate (octets frames) (Sent 1), ci_wire = [],
        ci_broken = False\<rparr> =
       child_loop (export_abi (demo_class [plain_schema ''S''] (Inr ()))) () io' \<and>
     ci_wire io' = concat (map frame_bytes frames) \<and>
     handle_frames 1 frames demo_child_bus = (Inr (), put_link 1 demo_child_link (b'\<lparr>b_gate_calls := g\<rparr>))"
proof -
  let ?C = "demo_class [plain_schema ''S''] (Inr ())" and ?S = "plain_schema ''S''"
  let ?run = "run_action (vt_handle (host_ops demo_cfg (native_ops ?C)) (NativeShard ()) demo_message) (shard_bus 1) demo_child_bus"
  define b' where "b' = snd ?run"
  have run: "?run = ((Inr (), NativeShard ()), b')" and q: "b_queue b' =
      [\<lparr>env_msg = demo_message\<lparr>m_sender := 1\<rparr>, env_target = 7, env_seq = 1, env_gated = True\<rparr>]"
    by (simp_all add: b'_def host_ops_def native_ops_def demo_class_def shard_bus_def Let_def send_as_def
        enqueue_directed_def demo_child_bus_simps)
  have "portable (b_registry demo_child_bus) (sc_handle ?C () demo_message)"
    by (auto simp: demo_class_def demo_message_def demo_child_bus_simps intro!: portable.intros demo_crosses(3))
  then have "\<exists>frames bytes g.
    vt_handle (host_ops demo_cfg (native_ops ?C)) (ProxyShard demo_child_link) demo_message =
      ADone (ProxyShard (demo_child_link\<lparr>lk_channel := Some (ch_queue (in_op demo_deliver) (in_payload demo_deliver) (new_channel 3))\<rparr>)) \<and>
    (\<forall>io rest. frame_ok demo_deliver \<and> stream_of (ci_recv io) = Some (frame_bytes demo_deliver @ rest) \<and>
        takes (octets frames) (ci_send io) \<longrightarrow>
      (\<exists>io'. child_loop (export_abi ?C) () io = child_loop (export_abi ?C) () io' \<and>
         stream_of (ci_recv io') = Some rest \<and> ci_broken io' = ci_broken io \<and>
         ci_wire io' = ci_wire io @ concat (map frame_bytes frames))) \<and>
    serialize demo_snapshot = Inr bytes \<and>
    handle_frames 1 frames demo_child_bus =
      (Inr (), put_link 1 (demo_child_link\<lparr>lk_snapshot_value := Some demo_snapshot, lk_snapshot_bytes := bytes\<rparr>) (b'\<lparr>b_gate_calls := g\<rparr>))"
    unfolding demo_deliver_def
    by (intro out_of_process_like_native [where acc = "[?S]" and d = ?S and st = ?S, OF _ _ _ _ _ _ _ _ run])
      (simp_all add: demo_child_bus_simps demo_child_link_def demo_link_def demo_link_values_def demo_message_def
        demo_class_def demo_crosses demo_serialized)
  then obtain frames bytes g where
    child: "\<And>io rest. frame_ok demo_deliver \<and> stream_of (ci_recv io) = Some (frame_bytes demo_deliver @ rest) \<and>
        takes (octets frames) (ci_send io) \<longrightarrow>
      (\<exists>io'. child_loop (export_abi ?C) () io = child_loop (export_abi ?C) () io' \<and>
         stream_of (ci_recv io') = Some rest \<and> ci_broken io' = ci_broken io \<and>
         ci_wire io' = ci_wire io @ concat (map frame_bytes frames))"
    and bytes: "serialize demo_snapshot = Inr bytes"
    and handled: "handle_frames 1 frames demo_child_bus =
      (Inr (), put_link 1 (demo_child_link\<lparr>lk_snapshot_value := Some demo_snapshot, lk_snapshot_bytes := bytes\<rparr>) (b'\<lparr>b_gate_calls := g\<rparr>))"
    by blast
  let ?io = "\<lparr>ci_recv = [RecvBytes (frame_bytes demo_deliver)], ci_send = replicate (octets frames) (Sent 1), ci_wire = [],
    ci_broken = False\<rparr>"
  have "frame_bytes demo_deliver \<noteq> []" by (simp add: frame_bytes_def put_u8_def)
  then have "\<exists>io'. child_loop (export_abi ?C) () ?io = child_loop (export_abi ?C) () io' \<and>
      ci_wire io' = concat (map frame_bytes frames)"
    using child [of ?io "[]"] demo_deliver_ok by (auto simp: takes_def list_all_iff)
  moreover have "demo_child_link\<lparr>lk_snapshot_value := Some demo_snapshot, lk_snapshot_bytes := bytes\<rparr> = demo_child_link"
    using bytes by (simp add: demo_serialized demo_child_link_def demo_link_def demo_link_values_def)
  ultimately show ?thesis using q handled by metis
qed

end
