(* ===== verification/Zen_Shape.thy ===== *)
theory Zen_Shape
  imports Zen_Gate
begin

text \<open>
  Shapes: \<open>include/zen/author/shape.hpp\<close>, which derives a schema and the conversions to and from a \<open>Value\<close>
  from a plain struct.

  \<^item> The templates are instantiated at the types an author may use for a member. \<open>member_type\<close> names these
    types; the template arguments are arguments of the definitions.
  \<^item> An object is its scalar, its elements, or its registered members in the order of \<open>ZEN_FIELD\<close>. The
    compiler rules out objects of another type; the equations for them are never used.
  \<^item> \<open>null_deref\<close> stands for the dereference of a null pointer.
\<close>

section \<open>Types and objects\<close>

datatype member_type =
    MInt64 | MDouble | MString | MBool | MBytes
  | MVector member_type
  | MShape (sh_name: string) (sh_version: u32) (sh_fields: "field_entry list")
and field_entry =
    FieldEntry (fe_name: string) (fe_type: member_type)

datatype cobj =
    OInt i64 | ODouble f64 | OString string | OBool bool | OBytes "u8 list"
  | OVector "cobj list"
  | OStruct "cobj list"

definition null_deref :: exn where
  "null_deref = Logic_error ''null dereference''"

definition wrong_type :: exn where
  "wrong_type = Logic_error ''unsupported field type''"

lemma size_fe_type [termination_simp]: "size (fe_type fe) < size fe"
  by (cases fe) simp

lemma size_fe_bound: "3 * size (fe_type fe) < 3 + (3 * size fe + k)"
  using size_fe_type [of fe] by linarith

section \<open>The derived schema\<close>

fun type_ref_for :: "member_type \<Rightarrow> typeref result"
and schema_of :: "member_type \<Rightarrow> schema result"
and add_fields :: "field_entry list \<Rightarrow> schema_builder \<Rightarrow> schema_builder result" where
  "type_ref_for MInt64 = type_of KInt"
| "type_ref_for MDouble = type_of KFloat"
| "type_ref_for MString = type_of KText"
| "type_ref_for MBool = type_of KBool"
| "type_ref_for MBytes = type_of KBytes"
| "type_ref_for (MVector t) = rbind (type_ref_for t) (\<lambda>el. Inr (type_list el))"
| "type_ref_for (MShape n v fes) =
     rbind (rbind (add_fields fes (new_builder n v)) builder_build) (\<lambda>s. type_message (Some s))"
| "schema_of (MShape n v fes) = rbind (add_fields fes (new_builder n v)) builder_build"
| "schema_of _ = Inl wrong_type"
| "add_fields [] b = Inr b"
| "add_fields (fe # fes) b =
     rbind (type_ref_for (fe_type fe)) (\<lambda>t. add_fields fes (builder_add (Field (fe_name fe) t True) b))"

section \<open>Members to cells\<close>

function (sequential) to_cell :: "member_type \<Rightarrow> cobj \<Rightarrow> cell result"
and to_cells :: "member_type \<Rightarrow> cobj list \<Rightarrow> cell list result"
and to_value :: "member_type \<Rightarrow> cobj \<Rightarrow> zvalue result"
and set_fields :: "field_entry list \<Rightarrow> cobj list \<Rightarrow> zvalue \<Rightarrow> zvalue result" where
  "to_cell MInt64 (OInt i) = Inr (CInt i)"
| "to_cell MDouble (ODouble d) = Inr (CFloat d)"
| "to_cell MString (OString s) = Inr (CText s)"
| "to_cell MBool (OBool b) = Inr (CBool b)"
| "to_cell MBytes (OBytes bs) = Inr (CBytes bs)"
| "to_cell (MVector t) (OVector os) = rbind (to_cells t os) (\<lambda>arr. Inr (CList arr))"
| "to_cell (MShape n v fes) ob = rbind (to_value (MShape n v fes) ob) (\<lambda>v. Inr (CMessage (Some v)))"
| "to_cell _ _ = Inl wrong_type"
| "to_cells t [] = Inr []"
| "to_cells t (e # es) = rbind (to_cell t e) (\<lambda>c. rbind (to_cells t es) (\<lambda>cs. Inr (c # cs)))"
| "to_value (MShape n v fes) (OStruct os) =
     rbind (schema_of (MShape n v fes)) (\<lambda>s. rbind (new_value (Some s)) (\<lambda>val. set_fields fes os val))"
| "to_value _ _ = Inl wrong_type"
| "set_fields [] _ v = Inr v"
| "set_fields (fe # fes) (m # os) v =
     rbind (to_cell (fe_type fe) m) (\<lambda>c. rbind (value_set (fe_name fe) c v) (\<lambda>v1. set_fields fes os v1))"
| "set_fields _ [] v = Inl wrong_type"
  by pat_completeness auto
termination
  by (relation "measure (\<lambda>x. case x of
        Inl (Inl (t, ob)) \<Rightarrow> 2 * size ob + 1
      | Inl (Inr (t, os)) \<Rightarrow> 2 * size_list size os
      | Inr (Inl (t, ob)) \<Rightarrow> 2 * size ob
      | Inr (Inr (fes, os, v)) \<Rightarrow> 2 * size_list size os)") auto

section \<open>Cells to members\<close>

function (sequential) from_cell :: "member_type \<Rightarrow> cell \<Rightarrow> cobj result"
and from_cells :: "member_type \<Rightarrow> cell list \<Rightarrow> cobj list result"
and from_value :: "member_type \<Rightarrow> zvalue \<Rightarrow> cobj result"
and get_fields :: "field_entry list \<Rightarrow> zvalue \<Rightarrow> cobj list result" where
  "from_cell MInt64 c = rbind (as_int c) (\<lambda>i. Inr (OInt i))"
| "from_cell MDouble c = rbind (as_float c) (\<lambda>d. Inr (ODouble d))"
| "from_cell MString c = rbind (as_text c) (\<lambda>s. Inr (OString s))"
| "from_cell MBool c = rbind (as_bool c) (\<lambda>b. Inr (OBool b))"
| "from_cell MBytes c = rbind (as_bytes c) (\<lambda>bs. Inr (OBytes bs))"
| "from_cell (MVector t) c = rbind (as_list c) (\<lambda>arr. rbind (from_cells t arr) (\<lambda>os. Inr (OVector os)))"
| "from_cell (MShape n v fes) c =
     rbind (as_message c) (\<lambda>m. case m of None \<Rightarrow> Inl null_deref | Some val \<Rightarrow> from_value (MShape n v fes) val)"
| "from_cells t [] = Inr []"
| "from_cells t (c # cs) = rbind (from_cell t c) (\<lambda>e. rbind (from_cells t cs) (\<lambda>es. Inr (e # es)))"
| "from_value (MShape n v fes) val = rbind (get_fields fes val) (\<lambda>os. Inr (OStruct os))"
| "from_value _ val = Inl wrong_type"
| "get_fields [] val = Inr []"
| "get_fields (fe # fes) val =
     (case value_get val (fe_name fe) of
        None \<Rightarrow> Inl null_deref
      | Some c \<Rightarrow> rbind (from_cell (fe_type fe) c) (\<lambda>m. rbind (get_fields fes val) (\<lambda>os. Inr (m # os))))"
  by pat_completeness auto
termination
  by (relation "inv_image (less_than <*lex*> less_than) (\<lambda>x. case x of
        Inl (Inl (t, c)) \<Rightarrow> (3 * size t + 2, 0)
      | Inl (Inr (t, cs)) \<Rightarrow> (3 * size t + 3, length cs)
      | Inr (Inl (t, v)) \<Rightarrow> (3 * size t + 1, 0)
      | Inr (Inr (fes, v)) \<Rightarrow> (3 * size_list size fes + 2, 0))")
    (auto simp: size_fe_bound)

section \<open>Which shapes have a schema\<close>

text \<open>Member names are never empty and never repeated, at every depth.\<close>

fun shape_ok :: "member_type \<Rightarrow> bool" where
  "shape_ok (MVector t) = shape_ok t"
| "shape_ok (MShape n v fes) =
     (distinct (map fe_name fes) \<and> (\<forall>fe \<in> set fes. fe_name fe \<noteq> [] \<and> shape_ok (fe_type fe)))"
| "shape_ok _ = True"

text \<open>The fields of the schema as a hand-written schema would list them.\<close>

definition derived_field :: "field_entry \<Rightarrow> field" where
  "derived_field fe = Field (fe_name fe) (projr (type_ref_for (fe_type fe))) True"

definition derived :: "member_type \<Rightarrow> schema" where
  "derived t = (let fs = map derived_field (sh_fields t) in
     Schema (sh_name t) (sh_version t) fs (compute_content_id (sh_name t) (sh_version t) fs))"

lemma derived_sel [simp]: "s_name (derived t) = sh_name t" "s_version (derived t) = sh_version t"
  "s_fields (derived t) = map derived_field (sh_fields t)" "f_name (derived_field fe) = fe_name fe"
  "f_required (derived_field fe)" "f_type (derived_field fe) = projr (type_ref_for (fe_type fe))"
  by (simp_all add: derived_def derived_field_def Let_def)

lemma names_derived: "map f_name (map derived_field fes) = map fe_name fes"
  by simp

lemma add_fields_eq:
  assumes "\<And>fe. fe \<in> set fes \<Longrightarrow> \<exists>t. type_ref_for (fe_type fe) = Inr t"
  shows "add_fields fes b = Inr (b\<lparr>sb_fields := sb_fields b @ map derived_field fes\<rparr>)"
  using assms
proof (induction fes arbitrary: b)
  case (Cons fe fes)
  obtain t where "type_ref_for (fe_type fe) = Inr t" using Cons.prems by force
  then show ?case using Cons by (simp add: builder_add_def derived_field_def)
qed simp

lemma mk_derived:
  assumes "\<And>fe. fe \<in> set fes \<Longrightarrow> \<exists>t. type_ref_for (fe_type fe) = Inr t \<and> wf_typeref t"
  shows "rbind (add_fields fes (new_builder n v)) builder_build = mk_schema n v (map derived_field fes)"
    and "mk_schema n v (map derived_field fes) = Inr s \<longleftrightarrow>
      distinct (map fe_name fes) \<and> (\<forall>fe \<in> set fes. fe_name fe \<noteq> []) \<and> s = derived (MShape n v fes)"
    and "distinct (map fe_name fes) \<and> (\<forall>fe \<in> set fes. fe_name fe \<noteq> []) \<Longrightarrow> wf_schema (derived (MShape n v fes))"
proof -
  have "\<exists>t. type_ref_for (fe_type fe) = Inr t" if "fe \<in> set fes" for fe using assms that by blast
  from add_fields_eq [OF this] show "rbind (add_fields fes (new_builder n v)) builder_build = mk_schema n v (map derived_field fes)"
    by (simp add: builder_build_def new_builder_def)
  have wf: "wf_typeref (projr (type_ref_for (fe_type fe)))" if "fe \<in> set fes" for fe
    using assms [OF that] by auto
  show "mk_schema n v (map derived_field fes) = Inr s \<longleftrightarrow>
      distinct (map fe_name fes) \<and> (\<forall>fe \<in> set fes. fe_name fe \<noteq> []) \<and> s = derived (MShape n v fes)"
    using wf by (auto simp: mk_schema_Inr_iff check_fields_iff derived_def wf_typeref_iff comp_def Let_def)
  show "distinct (map fe_name fes) \<and> (\<forall>fe \<in> set fes. fe_name fe \<noteq> []) \<Longrightarrow> wf_schema (derived (MShape n v fes))"
    using wf by (auto simp: derived_def derived_field_def comp_def Let_def)
qed

lemma type_ref_for_ok:
  "shape_ok t \<Longrightarrow> \<exists>tr. type_ref_for t = Inr tr \<and> wf_typeref tr"
proof (induction t rule: shape_ok.induct)
  case (2 n v fes)
  then have ok: "\<exists>t. type_ref_for (fe_type fe) = Inr t \<and> wf_typeref t" if "fe \<in> set fes" for fe using that by auto
  show ?case
    using mk_derived(1,3) [where fes = fes and n = n and v = v, OF ok]
      mk_derived(2) [where fes = fes and n = n and v = v and s = "derived (MShape n v fes)", OF ok] 2(2)
    by (simp add: type_message_def)
qed (auto simp: type_of_def type_list_def)

text \<open>The derived schema is the one an author would build by hand.\<close>

lemma schema_of_ok:
  assumes "shape_ok (MShape n v fes)"
  shows "schema_of (MShape n v fes) = Inr (derived (MShape n v fes))" and "wf_schema (derived (MShape n v fes))"
    and "type_ref_for (MShape n v fes) = Inr (TypeRef KMessage (Some (derived (MShape n v fes))) None)"
proof -
  have ok: "\<exists>t. type_ref_for (fe_type fe) = Inr t \<and> wf_typeref t" if "fe \<in> set fes" for fe
    using type_ref_for_ok assms that by auto
  show "schema_of (MShape n v fes) = Inr (derived (MShape n v fes))" "wf_schema (derived (MShape n v fes))"
    "type_ref_for (MShape n v fes) = Inr (TypeRef KMessage (Some (derived (MShape n v fes))) None)"
    using mk_derived(1,3) [where fes = fes and n = n and v = v, OF ok]
      mk_derived(2) [where fes = fes and n = n and v = v and s = "derived (MShape n v fes)", OF ok] assms
    by (simp_all add: type_message_def)
qed

section \<open>Objects and values\<close>

lemma size_zip_right [termination_simp]: "(a, b) \<in> set (zip fes os) \<Longrightarrow> size b < Suc (size_list size os)"
  by (auto dest!: set_zip_rightD simp: size_list_estimation less_Suc_eq_le size_list_estimation')

fun obj_typed :: "member_type \<Rightarrow> cobj \<Rightarrow> bool" where
  "obj_typed MInt64 (OInt _) = True"
| "obj_typed MDouble (ODouble _) = True"
| "obj_typed MString (OString _) = True"
| "obj_typed MBool (OBool _) = True"
| "obj_typed MBytes (OBytes _) = True"
| "obj_typed (MVector t) (OVector os) = (\<forall>e \<in> set os. obj_typed t e)"
| "obj_typed (MShape n v fes) (OStruct os) =
     (length os = length fes \<and> (\<forall>(fe, m) \<in> set (zip fes os). obj_typed (fe_type fe) m))"
| "obj_typed _ _ = False"

lemma field_index_at: "n \<notin> f_name ` set pre \<Longrightarrow> f_name f = n \<Longrightarrow> field_index n (pre @ f # rest) = Some (length pre)"
  by (induction pre) auto

lemma set_fields_eq:
  assumes "length fes = length os" and "length os = length cs"
    and "\<forall>((fe, m), c) \<in> set (zip (zip fes os) cs). to_cell (fe_type fe) m = Inr c"
    and "s_fields s = pre @ map derived_field fes" and "distinct (map f_name (s_fields s))"
    and "length xs = length pre"
  shows "set_fields fes os (Value s (xs @ replicate (length fes) None)) = Inr (Value s (xs @ map Some cs))"
  using assms
proof (induction fes os cs arbitrary: pre xs rule: list_induct3)
  case (Cons fe fes m os c cs)
  have ix: "field_index (fe_name fe) (s_fields s) = Some (length pre)"
    using Cons.prems(2,3) by (auto intro!: field_index_at)
  have "set_fields fes os (Value s ((xs @ [Some c]) @ replicate (length fes) None)) =
      Inr (Value s ((xs @ [Some c]) @ map Some cs))"
    using Cons.prems by (intro Cons.IH [of "pre @ [derived_field fe]"]) simp_all
  then show ?case
    using Cons.prems(1,4) ix by (simp add: value_set_def list_update_append)
qed simp

lemma get_fields_eq:
  assumes "length fes = length os" and "length os = length cs"
    and "\<forall>((fe, m), c) \<in> set (zip (zip fes os) cs). value_get v (fe_name fe) = Some c \<and> from_cell (fe_type fe) c = Inr m"
  shows "get_fields fes v = Inr os"
  using assms by (induction fes os cs rule: list_induct3) auto

lemma zip_choice:
  assumes "length xs = length ys" and "\<forall>(x, y) \<in> set (zip xs ys). \<exists>z. P x y z"
  shows "\<exists>zs. length ys = length zs \<and> (\<forall>((x, y), z) \<in> set (zip (zip xs ys) zs). P x y z)"
  using assms
proof (induction xs ys rule: list_induct2)
  case (Cons x xs y ys)
  then obtain z zs where "P x y z" "length ys = length zs" "\<forall>((x, y), z) \<in> set (zip (zip xs ys) zs). P x y z" by auto
  then show ?case by (intro exI [of _ "z # zs"]) simp
qed simp

text \<open>A value of the derived schema: each field holds the cell of its member.\<close>

lemma derived_get:
  assumes "distinct (map fe_name fes)" and "length fes = length os" and "length os = length cs"
    and "((fe, m), c) \<in> set (zip (zip fes os) cs)"
  shows "value_get (Value (derived (MShape n v fes)) (map Some cs)) (fe_name fe) = Some c"
proof -
  obtain i where i: "i < length fes" "fe = fes ! i" "c = cs ! i"
    using assms(2-4) by (auto simp: in_set_conv_nth)
  have "value_get (Value (derived (MShape n v fes)) (map Some cs)) (f_name (s_fields (derived (MShape n v fes)) ! i)) =
      map Some cs ! i"
    using value_get_nth [of "Value (derived (MShape n v fes)) (map Some cs)" i] assms(1) i(1) by (simp add: comp_def)
  then show ?thesis using i assms(2,3) by simp
qed

lemma struct_to_value:
  assumes "shape_ok (MShape n v fes)" and "length fes = length os"
    and "\<forall>(fe, m) \<in> set (zip fes os). \<exists>c. to_cell (fe_type fe) m = Inr c \<and>
      cell_conforms c (projr (type_ref_for (fe_type fe))) \<and> from_cell (fe_type fe) c = Inr m"
  shows "\<exists>val. to_value (MShape n v fes) (OStruct os) = Inr val \<and> v_schema val = derived (MShape n v fes) \<and>
    aligned val \<and> value_conforms val (derived (MShape n v fes)) \<and> from_value (MShape n v fes) val = Inr (OStruct os)"
proof -
  let ?s = "derived (MShape n v fes)"
  obtain cs where len: "length os = length cs"
    and cs: "\<forall>((fe, m), c) \<in> set (zip (zip fes os) cs). to_cell (fe_type fe) m = Inr c \<and>
      cell_conforms c (projr (type_ref_for (fe_type fe))) \<and> from_cell (fe_type fe) c = Inr m"
    using zip_choice [OF assms(2,3)] by blast
  let ?v = "Value ?s (map Some cs)"
  have dist: "distinct (map fe_name fes)" using assms(1) by simp
  have get: "value_get ?v (fe_name fe) = Some c" if "((fe, m), c) \<in> set (zip (zip fes os) cs)" for fe m c
    by (rule derived_get [OF dist assms(2) len that])
  have "set_fields fes os (Value ?s ([] @ replicate (length fes) None)) = Inr (Value ?s ([] @ map Some cs))"
    by (rule set_fields_eq [OF assms(2) len, where pre = "[]"]) (use cs dist in \<open>auto simp: comp_def\<close>)
  then have "to_value (MShape n v fes) (OStruct os) = Inr ?v"
    by (simp add: schema_of_ok(1) [OF assms(1)] new_value_def del: schema_of.simps)
  moreover have "get_fields fes ?v = Inr os"
    by (rule get_fields_eq [OF assms(2) len]) (use cs get in fastforce)
  moreover have "value_conforms ?v ?s"
  proof -
    have "\<exists>c. value_get ?v (fe_name fe) = Some c \<and> cell_conforms c (projr (type_ref_for (fe_type fe)))"
      if fe: "fe \<in> set fes" for fe
    proof -
      obtain i where "i < length fes" "fe = fes ! i" using fe by (auto simp: in_set_conv_nth)
      then have "((fe, os ! i), cs ! i) \<in> set (zip (zip fes os) cs)"
        using assms(2) len by (auto simp: set_zip intro!: exI [of _ i])
      then show ?thesis using cs get by blast
    qed
    then show ?thesis by (fastforce simp: value_conforms.simps)
  qed
  ultimately show ?thesis using assms(2) len by (auto simp: aligned_def)
qed

lemma to_cells_roundtrip:
  assumes "\<forall>e \<in> set os. \<exists>c. to_cell t e = Inr c \<and> cell_conforms c el \<and> from_cell t c = Inr e"
  shows "\<exists>cs. to_cells t os = Inr cs \<and> (\<forall>c \<in> set cs. cell_conforms c el) \<and> from_cells t cs = Inr os"
  using assms
proof (induction os)
  case (Cons e os)
  then obtain c cs where "to_cell t e = Inr c" "cell_conforms c el" "from_cell t c = Inr e"
    "to_cells t os = Inr cs" "\<forall>c \<in> set cs. cell_conforms c el" "from_cells t cs = Inr os" by auto
  then show ?case by (intro exI [of _ "c # cs"]) simp
qed simp

lemma to_cell_roundtrip:
  "obj_typed t ob \<Longrightarrow> shape_ok t \<Longrightarrow>
     \<exists>c. to_cell t ob = Inr c \<and> cell_conforms c (projr (type_ref_for t)) \<and> from_cell t c = Inr ob"
proof (induction t ob rule: obj_typed.induct)
  case (6 t os)
  obtain el where el: "type_ref_for t = Inr el" using type_ref_for_ok [of t] 6(3) by auto
  then have "\<exists>cs. to_cells t os = Inr cs \<and> (\<forall>c \<in> set cs. cell_conforms c el) \<and> from_cells t cs = Inr os"
    using 6 by (intro to_cells_roundtrip) auto
  then show ?case using el by (auto simp: type_list_def)
next
  case (7 n v fes os)
  have member: "\<exists>c. to_cell (fe_type fe) m = Inr c \<and> cell_conforms c (projr (type_ref_for (fe_type fe))) \<and>
      from_cell (fe_type fe) c = Inr m" if "(fe, m) \<in> set (zip fes os)" for fe m
    using 7(1) [OF that refl] 7(2,3) that set_zip_leftD [OF that] by fastforce
  have "\<exists>val. to_value (MShape n v fes) (OStruct os) = Inr val \<and> v_schema val = derived (MShape n v fes) \<and>
    aligned val \<and> value_conforms val (derived (MShape n v fes)) \<and> from_value (MShape n v fes) val = Inr (OStruct os)"
    using 7(2,3) member by (intro struct_to_value) auto
  then show ?case
    by (auto simp: schema_of_ok(3) [OF 7(3)] simp del: to_value.simps from_value.simps type_ref_for.simps)
qed (simp_all add: type_of_def)

section \<open>Gated values convert\<close>

lemma from_cell_total:
  shows "shape_ok t \<Longrightarrow> cell_conforms c (projr (type_ref_for t)) \<Longrightarrow> \<exists>ob. from_cell t c = Inr ob \<and> obj_typed t ob"
    and "shape_ok t \<Longrightarrow> \<forall>c \<in> set cs. cell_conforms c (projr (type_ref_for t)) \<Longrightarrow>
      \<exists>os. from_cells t cs = Inr os \<and> (\<forall>e \<in> set os. obj_typed t e)"
    and "shape_ok t \<Longrightarrow> t = MShape n v gs \<Longrightarrow> value_conforms val (derived t) \<Longrightarrow>
      \<exists>ob. from_value t val = Inr ob \<and> obj_typed t ob"
    and "\<forall>fe \<in> set fes. shape_ok (fe_type fe) \<and>
        (\<exists>c. value_get val (fe_name fe) = Some c \<and> cell_conforms c (projr (type_ref_for (fe_type fe)))) \<Longrightarrow>
      \<exists>os. get_fields fes val = Inr os \<and> length os = length fes \<and> (\<forall>(fe, m) \<in> set (zip fes os). obj_typed (fe_type fe) m)"
proof (induction t c and t cs and t val and fes val arbitrary: and and n v gs and
    rule: from_cell_from_cells_from_value_get_fields.induct)
  case (6 t c)
  obtain el where "type_ref_for t = Inr el" using type_ref_for_ok [of t] 6(2) by auto
  moreover from this obtain arr where "c = CList arr" "\<forall>x \<in> set arr. cell_conforms x el"
    using 6(3) by (auto simp: type_list_def split: cell.splits)
  ultimately show ?case using 6(1) [of arr] 6(2) by auto
next
  case (7 n v fes c)
  obtain nested where "c = CMessage (Some nested)" "value_conforms nested (derived (MShape n v fes))"
    using 7(3) by (auto simp: schema_of_ok(3) [OF 7(2)] simp del: type_ref_for.simps split: cell.splits option.splits)
  then show ?case using 7(1) [of "Some nested" nested] 7(2) by (auto simp del: from_value.simps)
next
  case (9 t c cs)
  then obtain e where "from_cell t c = Inr e" "obj_typed t e" by auto
  with 9 show ?case by force
next
  case (10 n v fes val)
  have "\<forall>fe \<in> set fes. shape_ok (fe_type fe) \<and>
        (\<exists>c. value_get val (fe_name fe) = Some c \<and> cell_conforms c (projr (type_ref_for (fe_type fe))))"
    using 10(2,4) by (auto simp: value_conforms.simps split: option.splits)
  from 10(1) [OF this] show ?case by auto
next
  case (13 fe fes val)
  then obtain c where "value_get val (fe_name fe) = Some c" "cell_conforms c (projr (type_ref_for (fe_type fe)))" by auto
  moreover from this obtain m where "from_cell (fe_type fe) c = Inr m" "obj_typed (fe_type fe) m" using 13 by force
  ultimately show ?case using 13(2) [of c m] 13(3) by force
qed (auto simp: type_of_def elim: cell_kind.elims)

lemma to_struct:
  assumes "shape_ok (MShape n v fes)" and "obj_typed (MShape n v fes) ob"
  shows "\<exists>val. to_value (MShape n v fes) ob = Inr val \<and> v_schema val = derived (MShape n v fes) \<and> aligned val \<and>
    value_conforms val (derived (MShape n v fes)) \<and> from_value (MShape n v fes) val = Inr ob"
proof -
  obtain os where os: "ob = OStruct os" "length os = length fes" "\<forall>(fe, m) \<in> set (zip fes os). obj_typed (fe_type fe) m"
    using assms(2) by (cases ob) auto
  have "\<forall>(fe, m) \<in> set (zip fes os). \<exists>c. to_cell (fe_type fe) m = Inr c \<and>
    cell_conforms c (projr (type_ref_for (fe_type fe))) \<and> from_cell (fe_type fe) c = Inr m"
    using os(3) assms(1) to_cell_roundtrip by (fastforce dest: set_zip_leftD)
  from struct_to_value [OF assms(1) _ this] os show ?thesis by simp
qed

text \<open>
  C22: A struct and its \<open>Value\<close> are the same data. For a shape whose members have distinct, nonempty names at every
  depth: the derived schema is exactly the one built by hand from the same names and types, all required, and is
  well formed; every struct converts to a value that claims this schema and conforms to it, and converts back
  to the same struct; and every value the gate admits at this schema converts to a struct, without an
  exception and without a null dereference.
\<close>

theorem struct_conversions:
  fixes n v fes
  defines "t \<equiv> MShape n v fes"
  assumes "shape_ok t"
  shows "\<exists>s. schema_of t = Inr s \<and> make_schema n v (map derived_field fes) = Inr s \<and> wf_schema s \<and>
    (\<forall>ob. obj_typed t ob \<longrightarrow> (\<exists>val. to_value t ob = Inr val \<and> v_schema val = s \<and> aligned val \<and> value_conforms val s \<and>
      from_value t val = Inr ob)) \<and>
    (\<forall>val r g. adm_ok (fst (admit val s r g)) \<longrightarrow> (\<exists>ob. from_value t val = Inr ob \<and> obj_typed t ob))"
proof -
  let ?s = "derived t"
  have ok: "shape_ok (MShape n v fes)" using assms by simp
  have made: "make_schema n v (map derived_field fes) = Inr ?s"
    using mk_derived(2) [where fes = fes and n = n and v = v and s = ?s] type_ref_for_ok ok
    by (auto simp: make_schema_def t_def)
  have "\<exists>ob. from_value t val = Inr ob \<and> obj_typed t ob" if "adm_ok (fst (admit val ?s r g))" for val r g
    using from_cell_total(3) [of t n v fes val] assms that validate_into_Nil_iff [OF schema_of_ok(2) [OF ok]]
    by (auto simp: fst_admit adm_ok_def reject_def t_def split: if_splits)
  with made show ?thesis using schema_of_ok [OF ok] to_struct [OF ok] unfolding t_def by blast
qed

text \<open>A shape with a nested shape and a list.\<close>

definition demo_point :: member_type where
  "demo_point = MShape ''Point'' 1 [FieldEntry ''x'' MInt64, FieldEntry ''tags'' (MVector MString)]"

definition demo_shape :: member_type where
  "demo_shape = MShape ''Move'' 2 [FieldEntry ''to'' demo_point, FieldEntry ''fast'' MBool]"

definition demo_obj :: cobj where
  "demo_obj = OStruct [OStruct [OInt 3, OVector [OString ''a'', OString []]], OBool True]"

theorem struct_conversions_witness:
  "\<exists>val. to_value demo_shape demo_obj = Inr val \<and> from_value demo_shape val = Inr demo_obj \<and> s_name (v_schema val) = ''Move''"
proof -
  let ?fes = "[FieldEntry ''to'' demo_point, FieldEntry ''fast'' MBool]"
  have "shape_ok (MShape ''Move'' 2 ?fes)" by (simp add: demo_point_def)
  from struct_conversions [OF this] obtain s where
    "make_schema ''Move'' 2 (map derived_field ?fes) = Inr s"
    "\<forall>ob. obj_typed demo_shape ob \<longrightarrow> (\<exists>val. to_value demo_shape ob = Inr val \<and> v_schema val = s \<and> from_value demo_shape val = Inr ob)"
    unfolding demo_shape_def by metis
  moreover have "obj_typed demo_shape demo_obj" by (simp add: demo_shape_def demo_point_def demo_obj_def)
  ultimately show ?thesis by (fastforce simp: make_schema_def mk_schema_Inr_iff)
qed

end
