(* ===== verification/Zen_Author.thy ===== *)
theory Zen_Author
  imports Zen_Shape Zen_Kernel Zen_Host
begin

text \<open>
  Authored shards: \<open>include/zen/author/shard.hpp\<close>. An author writes a state shape, the shapes a shard accepts
  with one handler each, and the shapes it emits; \<open>ShardBase\<close> derives the shard's methods.

  \<^item> An instance is the live state, the id \<open>mount\<close> wired in (zero before) and the author's own members.
  \<^item> A handler \<open>on(const T&, Mail&)\<close> is given the instance, the struct and the mail, and is a tree of calls on the
    bus, as every handler of a shard class is.
  \<^item> \<open>Mail::send\<close>, \<open>reply\<close> and \<open>publish\<close> take the rest of the handler as their last argument: what the call
    returns, or the exception it throws, goes there.
\<close>

section \<open>Mail\<close>

record mail =
  ml_in :: message
  ml_self :: shard_id

definition mail_post ::
  "mail \<Rightarrow> shard_id \<Rightarrow> shard_id \<Rightarrow> u64 \<Rightarrow> member_type \<Rightarrow> cobj \<Rightarrow> (u64 result \<Rightarrow> 's handler) \<Rightarrow> 's handler" where
  "mail_post ml target reply_to correlation t msg k =
     (case to_value t msg of
        Inl e \<Rightarrow> k (Inl e)
      | Inr v \<Rightarrow>
          HSend target \<lparr>m_payload = v, m_sender = ml_self ml, m_reply_to = reply_to, m_correlation = correlation\<rparr> k)"

definition mail_reply :: "mail \<Rightarrow> member_type \<Rightarrow> cobj \<Rightarrow> (u64 result \<Rightarrow> 's handler) \<Rightarrow> 's handler" where
  "mail_reply ml t msg k = mail_post ml (m_reply_to (ml_in ml)) (ml_self ml) (m_correlation (ml_in ml)) t msg k"

definition mail_send ::
  "mail \<Rightarrow> shard_id \<Rightarrow> member_type \<Rightarrow> cobj \<Rightarrow> u64 \<Rightarrow> (u64 result \<Rightarrow> 's handler) \<Rightarrow> 's handler" where
  "mail_send ml target t msg correlation k = mail_post ml target 0 correlation t msg k"

definition mail_publish :: "mail \<Rightarrow> member_type \<Rightarrow> cobj \<Rightarrow> u64 \<Rightarrow> (nat result \<Rightarrow> 's handler) \<Rightarrow> 's handler" where
  "mail_publish ml t msg correlation k =
     (case to_value t msg of
        Inl e \<Rightarrow> k (Inl e)
      | Inr v \<Rightarrow>
          HPublish \<lparr>m_payload = v, m_sender = ml_self ml, m_reply_to = 0, m_correlation = correlation\<rparr> k)"

section \<open>ShardBase\<close>

record lifecycle_config =
  max_reloads :: i64
  revive_from_last_good :: bool

definition default_config :: lifecycle_config where
  "default_config = \<lparr>max_reloads = 4, revive_from_last_good = True\<rparr>"

record 'x authored =
  au_state :: cobj
  au_self :: shard_id
  au_more :: 'x

type_synonym 'x on_handler = "'x authored \<Rightarrow> cobj \<Rightarrow> mail \<Rightarrow> 'x authored handler"

record 'x author_class =
  ac_state :: member_type
  ac_accept :: "(member_type \<times> 'x on_handler) list"
  ac_emit :: "member_type list"
  ac_policy_config :: "'x authored \<Rightarrow> lifecycle_config"
  ac_new :: "'x authored option"

fun schemas_of :: "member_type list \<Rightarrow> schema list result" where
  "schemas_of [] = Inr []"
| "schemas_of (t # ts) = rbind (schema_of t) (\<lambda>s. rbind (schemas_of ts) (\<lambda>ss. Inr (s # ss)))"

definition author_accepted_schemas :: "'x author_class \<Rightarrow> schema list result" where
  "author_accepted_schemas C = schemas_of (map fst (ac_accept C))"

definition emitted_schemas :: "'x author_class \<Rightarrow> schema list result" where
  "emitted_schemas C = schemas_of (ac_emit C)"

definition author_snapshot :: "'x author_class \<Rightarrow> 'x authored \<Rightarrow> zvalue result" where
  "author_snapshot C s = to_value (ac_state C) (au_state s)"

definition author_revive :: "'x author_class \<Rightarrow> 'x authored \<Rightarrow> zvalue \<Rightarrow> unit result \<times> 'x authored" where
  "author_revive C s v =
     (case from_value (ac_state C) v of
        Inl e \<Rightarrow> (Inl e, s)
      | Inr st \<Rightarrow> (Inr (), s\<lparr>au_state := st\<rparr>))"

definition author_policy :: "'x author_class \<Rightarrow> 'x authored \<Rightarrow> zvalue result" where
  "author_policy C s =
     (let p = ac_policy_config C s in
      rbind lifecycle_policy_schema (\<lambda>door.
      rbind (new_value (Some door)) (\<lambda>v.
      rbind (value_set ''max_reloads'' (CInt (max_reloads p)) v) (\<lambda>v1.
      value_set ''revive_from_last_good'' (CBool (revive_from_last_good p)) v1))))"

text \<open>The fold over \<open>dispatch_to\<close>: the handler chosen and the struct it is given, or none.\<close>

fun dispatch :: "(member_type \<times> 'h) list \<Rightarrow> zvalue \<Rightarrow> ('h \<times> cobj) option result" where
  "dispatch [] payload = Inr None"
| "dispatch ((t, on) # rest) payload =
     rbind (schema_of t) (\<lambda>s.
       if \<not> same_identity s (v_schema payload) then dispatch rest payload
       else rbind (from_value t payload) (\<lambda>msg. Inr (Some (on, msg))))"

definition no_handler :: "schema \<Rightarrow> exn" where
  "no_handler s =
     Logic_error (''zen::author::ShardBase: delivered message of shape '' @ [CHR 39] @ s_name s @ '' v'' @
       to_string (unat (s_version s)) @ [CHR 39] @ '' matched no handler '' @ [CHR 0xE2, CHR 0x80, CHR 0x94] @
       '' accept-set and handler set are out of sync'')"

definition author_handle :: "'x author_class \<Rightarrow> 'x authored \<Rightarrow> message \<Rightarrow> 'x authored handler" where
  "author_handle C s m =
     (case dispatch (ac_accept C) (m_payload m) of
        Inl e \<Rightarrow> HThrow e s
      | Inr None \<Rightarrow> HThrow (no_handler (v_schema (m_payload m))) s
      | Inr (Some (on, msg)) \<Rightarrow> on s msg \<lparr>ml_in = m, ml_self = au_self s\<rparr>)"

definition shard_base :: "'x author_class \<Rightarrow> 'x authored shard_class" where
  "shard_base C =
     \<lparr>sc_create = ac_new C, sc_accepted_schemas = (\<lambda>_. author_accepted_schemas C), sc_handle = author_handle C,
      sc_snapshot = author_snapshot C, sc_policy = author_policy C, sc_revive = author_revive C\<rparr>"

section \<open>Mounting\<close>

definition emit_default_grant :: "'x author_class \<Rightarrow> grant result" where
  "emit_default_grant C =
     rbind (emitted_schemas C) (\<lambda>ss. Inr (fold (\<lambda>s g. allow_to_any (s_name s) (s_version s) g) ss grant_nothing))"

text \<open>The shards of a bus may be of many classes: \<open>vt\<close> is its method table and \<open>wrap\<close> puts an instance of this
  class among them. The id is written through the pointer kept from before the registration.\<close>

definition zen_set_self :: "('x authored \<Rightarrow> 's) \<Rightarrow> 'x authored \<Rightarrow> shard_id \<Rightarrow> 's bus \<Rightarrow> 's bus" where
  "zen_set_self wrap s i b =
     (case bus_find b i of
        None \<Rightarrow> b
      | Some rec \<Rightarrow> put_record i (rec\<lparr>sr_shard := wrap (s\<lparr>au_self := i\<rparr>)\<rparr>) b)"

definition mount_granted ::
  "'s shard_ops \<Rightarrow> ('x authored \<Rightarrow> 's) \<Rightarrow> 'x authored \<Rightarrow> grant \<Rightarrow> 's bus \<Rightarrow> shard_id result \<times> 's bus" where
  "mount_granted vt wrap s gr b =
     (case register_shard vt (Some (wrap s)) gr b of
        (Inl e, b1) \<Rightarrow> (Inl e, b1)
      | (Inr i, b1) \<Rightarrow> (Inr i, zen_set_self wrap s i b1))"

definition author_mount ::
  "'s shard_ops \<Rightarrow> ('x authored \<Rightarrow> 's) \<Rightarrow> 'x author_class \<Rightarrow> 'x authored \<Rightarrow> 's bus \<Rightarrow> shard_id result \<times> 's bus" where
  "author_mount vt wrap C s b =
     (case emit_default_grant C of
        Inl e \<Rightarrow> (Inl e, b)
      | Inr gr \<Rightarrow> mount_granted vt wrap s gr b)"

section \<open>Dispatch\<close>

text \<open>A class whose state and accepted shapes have a schema.\<close>

definition is_shape :: "member_type \<Rightarrow> bool" where
  "is_shape t \<longleftrightarrow> (\<exists>n v fes. t = MShape n v fes) \<and> shape_ok t"

lemma is_shape_schema:
  assumes "is_shape t"
  shows "schema_of t = Inr (derived t)" and "wf_schema (derived t)"
  using assms schema_of_ok unfolding is_shape_def by blast+

lemma is_shape_struct:
  assumes "is_shape t" and "obj_typed t ob"
  shows "\<exists>val. to_value t ob = Inr val \<and> v_schema val = derived t \<and> aligned val \<and> value_conforms val (derived t) \<and>
    from_value t val = Inr ob"
  using assms to_struct unfolding is_shape_def by blast

lemma is_shape_value:
  "is_shape t \<Longrightarrow> value_conforms val (derived t) \<Longrightarrow> \<exists>ob. from_value t val = Inr ob \<and> obj_typed t ob"
  using from_cell_total(3) unfolding is_shape_def by blast

lemma schemas_of_eq: "\<forall>t \<in> set ts. is_shape t \<Longrightarrow> schemas_of ts = Inr (map derived ts)"
  by (induction ts) (simp_all add: is_shape_schema)

text \<open>The door the bus picks and the handler the shard picks belong to the same entry: the first one with the
  name and version of the payload.\<close>

lemma dispatch_finds:
  assumes "\<forall>(t, on) \<in> set entries. is_shape t"
    and "accept_match (map (derived \<circ> fst) entries) (s_name (v_schema v)) (s_version (v_schema v)) = Some door"
    and "s_content_id (v_schema v) = s_content_id door" and "value_conforms v door"
  shows "\<exists>t on ob. (t, on) \<in> set entries \<and> derived t = door \<and> from_value t v = Inr ob \<and> obj_typed t ob \<and>
    dispatch entries v = Inr (Some (on, ob))"
  using assms
proof (induction entries)
  case (Cons e entries)
  obtain t on where e: "e = (t, on)" by (cases e)
  then have t: "is_shape t" using Cons.prems(1) by simp
  show ?case
  proof (cases "s_name (derived t) = s_name (v_schema v) \<and> s_version (derived t) = s_version (v_schema v)")
    case True
    then have door: "derived t = door" using Cons.prems(2) e by simp
    with t Cons.prems(4) obtain ob where "from_value t v = Inr ob" "obj_typed t ob" using is_shape_value by blast
    moreover have "same_identity (derived t) (v_schema v)"
      using True door Cons.prems(3) by (simp add: same_identity_def)
    ultimately show ?thesis using e door is_shape_schema(1) [OF t] by auto
  next
    case False
    then have "\<not> same_identity (derived t) (v_schema v)" by (auto simp: same_identity_def)
    then have "dispatch (e # entries) v = dispatch entries v" using e is_shape_schema(1) [OF t] by simp
    moreover have "accept_match (map (derived \<circ> fst) entries) (s_name (v_schema v)) (s_version (v_schema v)) = Some door"
      using Cons.prems(2) False e by (auto simp: comp_def)
    ultimately show ?thesis using Cons.IH Cons.prems by (simp only: list.set) blast
  qed
qed simp

definition author_ok :: "'x author_class \<Rightarrow> bool" where
  "author_ok C \<longleftrightarrow> is_shape (ac_state C) \<and> (\<forall>(t, on) \<in> set (ac_accept C). is_shape t) \<and> (\<forall>t \<in> set (ac_emit C). is_shape t)"

lemma accepted_derived: "author_ok C \<Longrightarrow> author_accepted_schemas C = Inr (map (derived \<circ> fst) (ac_accept C))"
  using schemas_of_eq [of "map fst (ac_accept C)"]
  by (auto simp: author_ok_def author_accepted_schemas_def case_prod_beta)

text \<open>
  C23: An authored shard's handler gets the struct that was sent. Let a class have well-formed shapes, and let a
  message come through the gate at the door the bus picks for it among the schemas the class declares. Then
  \<open>ShardBase::handle\<close> runs the handler of that door's shape on a well-typed struct, the one the payload stands
  for: it never finds no handler and never reads a field that is not there.
\<close>

theorem authored_dispatch:
  assumes "author_ok C" and "author_accepted_schemas C = Inr acc"
    and "accept_match acc (s_name (v_schema (m_payload m))) (s_version (v_schema (m_payload m))) = Some door"
    and "adm_ok (fst (admit (m_payload m) door r g))"
  shows "\<exists>t on ob. (t, on) \<in> set (ac_accept C) \<and> schema_of t = Inr door \<and> from_value t (m_payload m) = Inr ob \<and>
    obj_typed t ob \<and> author_handle C s m = on s ob \<lparr>ml_in = m, ml_self = au_self s\<rparr>"
proof -
  have acc: "acc = map (derived \<circ> fst) (ac_accept C)" using accepted_derived [OF assms(1)] assms(2) by simp
  have "door \<in> set acc" using assms(3) by (induction acc) (auto split: if_splits)
  then have wf: "wf_schema door" using acc assms(1) is_shape_schema(2) by (auto simp: author_ok_def)
  have "s_content_id (v_schema (m_payload m)) = s_content_id door \<and> value_conforms (m_payload m) door"
    using assms(4) validate_into_Nil_iff [OF wf, of "m_payload m"]
    by (auto simp: fst_admit adm_ok_def reject_def Let_def split: if_splits)
  moreover have "\<forall>(t, on) \<in> set (ac_accept C). is_shape t" using assms(1) by (simp add: author_ok_def)
  ultimately obtain t on ob where "(t, on) \<in> set (ac_accept C)" "derived t = door" "from_value t (m_payload m) = Inr ob"
    "obj_typed t ob" "dispatch (ac_accept C) (m_payload m) = Inr (Some (on, ob))"
    using dispatch_finds [of "ac_accept C" "m_payload m" door] assms(3) acc by blast
  moreover from this have "schema_of t = Inr door" using assms(1) is_shape_schema(1) by (fastforce simp: author_ok_def)
  ultimately show ?thesis by (auto simp: author_handle_def)
qed

section \<open>The authority of an authored shard\<close>

lemma permits_fold:
  "permits (fold (\<lambda>s g. allow_to_any (s_name s) (s_version s) g) ss g0) n v t \<longleftrightarrow>
     permits g0 n v t \<or> (\<exists>s \<in> set ss. s_name s = n \<and> s_version s = v)"
  by (induction ss arbitrary: g0) (auto simp: allow_to_any_def permits_push_rule rule_matches_def)

lemma emit_grant_exact:
  assumes "author_ok C"
  obtains gr where "emit_default_grant C = Inr gr"
    "\<And>n v t. permits gr n v t \<longleftrightarrow> (\<exists>sh \<in> set (ac_emit C). sh_name sh = n \<and> sh_version sh = v)"
proof -
  have "emitted_schemas C = Inr (map derived (ac_emit C))"
    using assms schemas_of_eq by (simp add: author_ok_def emitted_schemas_def)
  then show ?thesis using that by (simp add: emit_default_grant_def permits_fold permits_nothing)
qed

section \<open>A bus that hosts the class\<close>

text \<open>What mounting relies on: the method table of the bus sends an instance of this class to the derived methods.\<close>

locale hosts_class =
  fixes vt :: "'s shard_ops" and wrap :: "'x authored \<Rightarrow> 's" and embed :: "'x authored action \<Rightarrow> 's action"
    and C :: "'x author_class"
  assumes hosts_accepted: "vt_accepted_schemas vt (wrap s) = rbind (author_accepted_schemas C) (\<lambda>ss. Inr (map Some ss))"
    and hosts_snapshot: "vt_snapshot vt (wrap s) = author_snapshot C s"
    and hosts_policy: "vt_policy vt (wrap s) = author_policy C s"
    and hosts_handle: "vt_handle vt (wrap s) m = embed (native_action (author_handle C s m))"
    and hosts_revive: "vt_revive vt (wrap s) v = map_prod id wrap (author_revive C s v)"

lemma register_accept_result:
  assumes "registry_ok r" and "\<forall>s \<in> set ss. wf_schema s" and "register_accept (map Some ss) acc r = (res, r')"
  shows "registry_ok r' \<and> (case res of
      Inl e \<Rightarrow> \<exists>n v c1 c2. e = Schema_conflict n v c1 c2
    | Inr acc' \<Rightarrow> \<exists>xs. acc' = acc @ xs \<and> list_all2 same_identity xs ss)"
  using assms
proof (induction ss arbitrary: acc r)
  case (Cons s ss)
  obtain res1 r1 where reg: "register_schema (Some s) r = (res1, r1)" by (metis surj_pair)
  note step = register_schema_ok [OF Cons.prems(1) _ reg]
  show ?case
  proof (cases res1)
    case (Inl e)
    then show ?thesis
      using reg step(1) Cons.prems by (auto simp: register_schema_def Let_def split: option.splits if_splits)
  next
    case (Inr xc)
    obtain x c where xc: "xc = (x, c)" by (cases xc)
    have run: "register_accept (map Some ss) (acc @ [x]) r1 = (res, r')"
      using Cons.prems(3) reg Inr xc by simp
    have x: "same_identity x s" using step(3) [of x c] Inr xc Cons.prems(2) by simp
    have "registry_ok r1" using step(1) Cons.prems(2) by simp
    from Cons.IH [OF this _ run] Cons.prems(2) x show ?thesis
      by (auto split: sum.splits simp: list_all2_Cons2)
  qed
qed auto

context hosts_class
begin

lemma mounted:
  assumes "author_ok C" and "obj_typed (ac_state C) (au_state s)" and "bus_ok b"
    and "bus_find b (b_next_shard_id b) = None" and "author_mount vt wrap C s b = (res, b')"
  shows "case res of
      Inl e \<Rightarrow> (\<exists>n v c1 c2. e = Schema_conflict n v c1 c2) \<and> b_shards b' = b_shards b
    | Inr i \<Rightarrow> i = b_next_shard_id b \<and> (\<exists>rec. bus_find b' i = Some rec \<and> sr_shard rec = wrap (s\<lparr>au_self := i\<rparr>) \<and>
        sr_alive rec \<and> sr_reloads_used rec = 0 \<and>
        list_all2 same_identity (sr_accept rec) (map (derived \<circ> fst) (ac_accept C)) \<and>
        sr_state_schema rec = derived (ac_state C) \<and> from_value (ac_state C) (sr_last_known_good rec) = Inr (au_state s) \<and>
        (\<forall>n v t. permits (sr_grant rec) n v t \<longleftrightarrow> (\<exists>sh \<in> set (ac_emit C). sh_name sh = n \<and> sh_version sh = v)))"
proof -
  obtain gr where gr: "emit_default_grant C = Inr gr"
    "\<And>n v t. permits gr n v t \<longleftrightarrow> (\<exists>sh \<in> set (ac_emit C). sh_name sh = n \<and> sh_version sh = v)"
    using emit_grant_exact [OF assms(1)] by blast
  have state: "is_shape (ac_state C)" using assms(1) by (simp add: author_ok_def)
  obtain snap where snap: "author_snapshot C s = Inr snap" "v_schema snap = derived (ac_state C)"
    "value_conforms snap (derived (ac_state C))" "from_value (ac_state C) snap = Inr (au_state s)"
    using is_shape_struct [OF state assms(2)] by (auto simp: author_snapshot_def)
  have admits: "fst (admit snap (derived (ac_state C)) FirstError g) = accept snap" for g
    using validate_into_Nil_iff [OF is_shape_schema(2) [OF state], of snap] snap(2,3) by (simp add: fst_admit)
  let ?acc = "map (derived \<circ> fst) (ac_accept C)"
  have wf: "\<forall>d \<in> set ?acc. wf_schema d" using assms(1) is_shape_schema(2) by (auto simp: author_ok_def)
  obtain ares r1 where ra: "register_accept (map Some ?acc) [] (b_registry b) = (ares, r1)" by (metis surj_pair)
  have ra_ok: "registry_ok r1" "case ares of
      Inl e \<Rightarrow> \<exists>n v c1 c2. e = Schema_conflict n v c1 c2
    | Inr acc' \<Rightarrow> list_all2 same_identity acc' ?acc"
    using register_accept_result [OF _ wf ra] assms(3) by (auto simp: bus_ok_def split: sum.splits)
  have declared: "vt_accepted_schemas vt (wrap s) = Inr (map Some ?acc)"
    by (simp add: hosts_accepted accepted_derived [OF assms(1)])
  note run = assms(5) [unfolded author_mount_def gr(1) sum.case mount_granted_def register_shard_def option.case declared ra]
  show ?thesis
  proof (cases ares)
    case (Inl e)
    then show ?thesis using run ra_ok(2) by auto
  next
    case (Inr acc')
    obtain sres r2 where rs: "register_schema (Some (derived (ac_state C))) r1 = (sres, r2)" by (metis surj_pair)
    show ?thesis
    proof (cases sres)
      case (Inl e)
      then have "\<exists>n v c1 c2. e = Schema_conflict n v c1 c2"
        using rs by (auto simp: register_schema_def Let_def split: option.splits if_splits)
      then show ?thesis
        using run \<open>ares = Inr acc'\<close> Inl by (auto simp: hosts_snapshot snap seed_shard_def rs)
    next
      case (Inr xs)
      show ?thesis
        using run \<open>ares = Inr acc'\<close> Inr ra_ok(2) assms(4) gr(2) snap(4)
        by (auto simp: hosts_snapshot snap seed_shard_def rs case_prod_beta admits Let_def accept_def adm_ok_def
            adm_value_def mount_record_def zen_set_self_def bus_simps bus_find_def put_record_def om_find_put note_trace_def
            split: option.splits)
    qed
  qed
qed

end

interpretation alone: hosts_class "native_ops (shard_base C)" "\<lambda>s. s" "\<lambda>act. act" C
  for C :: "'x author_class"
  by unfold_locales (simp_all add: native_ops_def shard_base_def map_prod_def split_beta id_def)

interpretation in_kernel: hosts_class
  "kernel_ops (native_ops (shard_base C)) :: ('x authored, 'i) mounted shard_ops" LocalShard "map_action LocalShard" C
  for C :: "'x author_class"
  by unfold_locales (simp_all add: kernel_ops_def native_ops_def shard_base_def)

interpretation in_host: hosts_class
  "host_ops cfg (native_ops (shard_base C)) :: ('x authored, 'w) hosted shard_ops" NativeShard lift_action C
  for cfg :: "'w host_cfg" and C :: "'x author_class"
  by unfold_locales (simp_all add: host_ops_def native_ops_def shard_base_def)

text \<open>
  C24: Mounting an authored shard beside loaded libraries either adds exactly the shard the author declared or
  changes no shard. It fails only because a published schema of the same name and version has another content
  id. Otherwise the shard gets the next id and knows it, is alive with an unspent reload budget, its doors are
  the declared shapes, its last known good state is its initial struct, and its grant lets it send the shapes
  it declared with \<open>Emit\<close>, to anyone, and nothing else.
\<close>

theorem authored_mount:
  fixes C :: "'x author_class" and b :: "('x authored, 'i) mounted bus"
  assumes "author_ok C" and "obj_typed (ac_state C) (au_state s)" and "bus_ok b"
    and "bus_find b (b_next_shard_id b) = None"
    and "author_mount (kernel_ops (native_ops (shard_base C))) LocalShard C s b = (res, b')"
  shows "case res of
      Inl e \<Rightarrow> (\<exists>n v c1 c2. e = Schema_conflict n v c1 c2) \<and> b_shards b' = b_shards b
    | Inr i \<Rightarrow> i = b_next_shard_id b \<and> (\<exists>rec. bus_find b' i = Some rec \<and> sr_shard rec = LocalShard (s\<lparr>au_self := i\<rparr>) \<and>
        sr_alive rec \<and> sr_reloads_used rec = 0 \<and>
        list_all2 same_identity (sr_accept rec) (map (derived \<circ> fst) (ac_accept C)) \<and>
        sr_state_schema rec = derived (ac_state C) \<and> from_value (ac_state C) (sr_last_known_good rec) = Inr (au_state s) \<and>
        (\<forall>n v t. permits (sr_grant rec) n v t \<longleftrightarrow> (\<exists>sh \<in> set (ac_emit C). sh_name sh = n \<and> sh_version sh = v)))"
  using in_kernel.mounted assms .

section \<open>A small authored shard\<close>

definition demo_ping :: member_type where
  "demo_ping = MShape ''Ping'' 1 [FieldEntry ''seq'' MInt64]"

definition demo_node :: "unit author_class" where
  "demo_node =
     \<lparr>ac_state = MShape ''Counter'' 1 [FieldEntry ''n'' MInt64],
      ac_accept = [(demo_ping, \<lambda>s msg ml. mail_reply ml demo_ping msg (\<lambda>_. HDone s))],
      ac_emit = [demo_ping], ac_policy_config = (\<lambda>_. default_config),
      ac_new = Some \<lparr>au_state = OStruct [OInt 0], au_self = 0, au_more = ()\<rparr>\<rparr>"

definition demo_instance :: "unit authored" where
  "demo_instance = \<lparr>au_state = OStruct [OInt 0], au_self = 0, au_more = ()\<rparr>"

lemma demo_node_ok: "author_ok demo_node" "obj_typed (ac_state demo_node) (au_state demo_instance)"
  by (simp_all add: author_ok_def is_shape_def demo_node_def demo_ping_def demo_instance_def)

lemma demo_ping_value: "\<exists>v. to_value demo_ping (OStruct [OInt 7]) = Inr v \<and> v_schema v = derived demo_ping \<and>
  value_conforms v (derived demo_ping) \<and> from_value demo_ping v = Inr (OStruct [OInt 7])"
  using is_shape_struct [of demo_ping "OStruct [OInt 7]"] by (auto simp: is_shape_def demo_ping_def)

theorem authored_dispatch_witness:
  "\<exists>v. v_schema v = derived demo_ping \<and>
    author_handle demo_node demo_instance \<lparr>m_payload = v, m_sender = 5, m_reply_to = 5, m_correlation = 2\<rparr> =
      mail_reply \<lparr>ml_in = \<lparr>m_payload = v, m_sender = 5, m_reply_to = 5, m_correlation = 2\<rparr>, ml_self = 0\<rparr> demo_ping
        (OStruct [OInt 7]) (\<lambda>_. HDone demo_instance)"
proof -
  obtain v where v: "v_schema v = derived demo_ping" "value_conforms v (derived demo_ping)"
    "from_value demo_ping v = Inr (OStruct [OInt 7])" using demo_ping_value by blast
  let ?m = "\<lparr>m_payload = v, m_sender = 5, m_reply_to = 5, m_correlation = 2\<rparr>"
  have wf: "wf_schema (derived demo_ping)" using is_shape_schema(2) by (simp add: is_shape_def demo_ping_def)
  have adm: "adm_ok (fst (admit (m_payload ?m) (derived demo_ping) FirstError 0))"
    using validate_into_Nil_iff [OF wf, of v] v by (simp add: fst_admit accept_def adm_ok_def)
  have "author_accepted_schemas demo_node = Inr [derived demo_ping]"
    using accepted_derived [OF demo_node_ok(1)] by (simp add: demo_node_def)
  from authored_dispatch [OF demo_node_ok(1) this _ adm, of demo_instance]
  have "author_handle demo_node demo_instance ?m =
      mail_reply \<lparr>ml_in = ?m, ml_self = 0\<rparr> demo_ping (OStruct [OInt 7]) (\<lambda>_. HDone demo_instance)"
    using v by (auto simp: demo_node_def demo_instance_def)
  with v show ?thesis by blast
qed

theorem authored_mount_witness:
  "\<exists>i b' rec. author_mount (kernel_ops (native_ops (shard_base demo_node))) LocalShard demo_node demo_instance
       (new_bus 0 :: (unit authored, unit) mounted bus) = (Inr i, b') \<and> bus_find b' i = Some rec \<and>
     sr_shard rec = LocalShard (demo_instance\<lparr>au_self := 1\<rparr>) \<and> permits (sr_grant rec) ''Ping'' 1 42 \<and>
     \<not> permits (sr_grant rec) ''Pong'' 1 42"
proof -
  let ?vt = "kernel_ops (native_ops (shard_base demo_node)) :: (unit authored, unit) mounted shard_ops"
  let ?b = "new_bus 0 :: (unit authored, unit) mounted bus"
  obtain res b' where run: "author_mount ?vt LocalShard demo_node demo_instance ?b = (res, b')" by (metis surj_pair)
  have fresh: "bus_find ?b (b_next_shard_id ?b) = None" by (simp add: new_bus_def bus_find_def)
  note mounts = authored_mount [OF demo_node_ok bus_ok_new fresh run]
  obtain gr where gr: "emit_default_grant demo_node = Inr gr"
    by (rule emit_grant_exact [OF demo_node_ok(1)]) (erule that)
  have acc: "vt_accepted_schemas ?vt (LocalShard demo_instance) = Inr [Some (derived demo_ping)]"
    using accepted_derived [OF demo_node_ok(1)] by (simp add: in_kernel.hosts_accepted demo_node_def)
  have state: "is_shape (ac_state demo_node)" using demo_node_ok(1) by (simp add: author_ok_def)
  obtain snap where snap: "vt_snapshot ?vt (LocalShard demo_instance) = Inr snap" "v_schema snap = derived (ac_state demo_node)"
    "value_conforms snap (derived (ac_state demo_node))"
    using is_shape_struct [OF state demo_node_ok(2)] by (auto simp: in_kernel.hosts_snapshot author_snapshot_def)
  have admits: "fst (admit snap (derived (ac_state demo_node)) FirstError g) = accept snap" for g
    using validate_into_Nil_iff [OF is_shape_schema(2) [OF state], of snap] snap(2,3) by (simp add: fst_admit)
  have keys: "sh_name demo_ping = ''Ping''" "sh_name (ac_state demo_node) = ''Counter''"
    by (simp_all add: demo_ping_def demo_node_def)
  have "\<exists>i. res = Inr i"
    using run
    by (auto simp: author_mount_def gr mount_granted_def register_shard_def acc snap register_schema_def new_bus_def
        new_registry_def seed_shard_def keys Let_def case_prod_beta admits accept_def adm_ok_def adm_value_def mount_record_def)
  then show ?thesis using mounts run by (auto simp: demo_node_def demo_ping_def new_bus_def)
qed

end
