(* ===== verification/Zen_Control.thy ===== *)
theory Zen_Control
  imports Zen_Author Zen_Reload
begin

text \<open>
  The kernel's message door: \<open>include/zen/kernel/control.hpp\<close>. The control shard's handlers call the kernel, and so
  the switchboard, from inside a delivery; their effect is on the kernel's state. \<open>libs\<close> says what the dynamic
  loader answers for a path. The shard's own state is its count of operations.
\<close>

section \<open>Shapes\<close>

definition LoadLibrary :: member_type where
  "LoadLibrary = MShape ''LoadLibrary'' 1 [FieldEntry ''name'' MString, FieldEntry ''path'' MString]"

definition ReloadLibrary :: member_type where
  "ReloadLibrary = MShape ''ReloadLibrary'' 1 [FieldEntry ''name'' MString, FieldEntry ''path'' MString]"

definition UnloadLibrary :: member_type where
  "UnloadLibrary = MShape ''UnloadLibrary'' 1 [FieldEntry ''name'' MString]"

definition ControlState :: member_type where
  "ControlState = MShape ''ControlState'' 1 [FieldEntry ''ops'' MInt64]"

lemmas control_shapes = LoadLibrary_def ReloadLibrary_def UnloadLibrary_def ControlState_def

section \<open>The handlers\<close>

type_synonym ('n, 'i) control_on = "cobj \<Rightarrow> i64 \<Rightarrow> ('n, 'i) kernel \<Rightarrow> unit result \<times> i64 \<times> ('n, 'i) kernel"

fun on_load :: "'n shard_ops \<Rightarrow> (string \<Rightarrow> 'i lib_env) \<Rightarrow> ('n, 'i) control_on" where
  "on_load nv libs (OStruct [OString name, OString path]) ops k = (Inr (), ops + 1, snd (load nv name (libs path) k))"
| "on_load nv libs _ ops k = (Inl wrong_type, ops, k)"

fun on_reload :: "'n shard_ops \<Rightarrow> (string \<Rightarrow> 'i lib_env) \<Rightarrow> ('n, 'i) control_on" where
  "on_reload nv libs (OStruct [OString name, OString path]) ops k =
     (case reload_from nv name (libs path) k of
        (Inl e, k1) \<Rightarrow> (Inl e, ops + 1, k1)
      | (Inr _, k1) \<Rightarrow> (Inr (), ops + 1, k1))"
| "on_reload nv libs _ ops k = (Inl wrong_type, ops, k)"

fun on_unload :: "('n, 'i) control_on" where
  "on_unload (OStruct [OString name]) ops k = (Inr (), ops + 1, snd (unload name k))"
| "on_unload _ ops k = (Inl wrong_type, ops, k)"

definition control_entries ::
  "'n shard_ops \<Rightarrow> (string \<Rightarrow> 'i lib_env) \<Rightarrow> (member_type \<times> ('n, 'i) control_on) list" where
  "control_entries nv libs =
     [(LoadLibrary, on_load nv libs), (ReloadLibrary, on_reload nv libs), (UnloadLibrary, on_unload)]"

text \<open>\<open>ShardBase::handle\<close> of the control shard.\<close>

definition control_handle ::
  "'n shard_ops \<Rightarrow> (string \<Rightarrow> 'i lib_env) \<Rightarrow> message \<Rightarrow> i64 \<Rightarrow> ('n, 'i) kernel \<Rightarrow> unit result \<times> i64 \<times> ('n, 'i) kernel" where
  "control_handle nv libs m ops k =
     (case dispatch (control_entries nv libs) (m_payload m) of
        Inl e \<Rightarrow> (Inl e, ops, k)
      | Inr None \<Rightarrow> (Inl (no_handler (v_schema (m_payload m))), ops, k)
      | Inr (Some (on, msg)) \<Rightarrow> on msg ops k)"

definition control_snapshot :: "i64 \<Rightarrow> zvalue result" where
  "control_snapshot ops = to_value ControlState (OStruct [OInt ops])"

definition control_revive :: "zvalue \<Rightarrow> i64 \<Rightarrow> unit result \<times> i64" where
  "control_revive v ops =
     (case from_value ControlState v of
        Inl e \<Rightarrow> (Inl e, ops)
      | Inr (OStruct [OInt n]) \<Rightarrow> (Inr (), n)
      | Inr _ \<Rightarrow> (Inl wrong_type, ops))"

text \<open>The control shard emits nothing, so its default grant is the empty one.\<close>

definition mount_control ::
  "'s shard_ops \<Rightarrow> (unit authored \<Rightarrow> 's) \<Rightarrow> 's bus \<Rightarrow> shard_id result \<times> 's bus" where
  "mount_control vt wrap b =
     mount_granted vt wrap \<lparr>au_state = OStruct [OInt 0], au_self = 0, au_more = ()\<rparr> grant_nothing b"

definition load_capability :: "shard_id \<Rightarrow> grant" where
  "load_capability control =
     allow (sh_name UnloadLibrary) (sh_version UnloadLibrary) control
       (allow (sh_name ReloadLibrary) (sh_version ReloadLibrary) control
         (allow (sh_name LoadLibrary) (sh_version LoadLibrary) control grant_nothing))"

section \<open>The door\<close>

lemma control_shapes_ok: "is_shape LoadLibrary" "is_shape ReloadLibrary" "is_shape UnloadLibrary" "is_shape ControlState"
  by (simp_all add: is_shape_def control_shapes)

lemma control_entries_ok: "\<forall>(t, on) \<in> set (control_entries nv libs). is_shape t"
  by (simp add: control_entries_def control_shapes_ok)

lemma load_capability_permits:
  "permits (load_capability c) n v t \<longleftrightarrow>
     t = c \<and> v = 1 \<and> (n = ''LoadLibrary'' \<or> n = ''ReloadLibrary'' \<or> n = ''UnloadLibrary'')"
  by (auto simp: load_capability_def allow_def permits_push_rule rule_matches_def control_shapes)

text \<open>Every operation leaves the kernel in a state it can reach by its own calls.\<close>

lemma control_op_reachable:
  assumes "kernel_run nv X k" and "fresh_id (k_bus k)" and "(t, on) \<in> set (control_entries nv libs)"
    and "on msg ops k = (res, ops', k')"
  shows "\<exists>Y. kernel_run nv Y k'"
proof -
  consider name path where "msg = OStruct [OString name, OString path]" "on = on_load nv libs"
    | name path where "msg = OStruct [OString name, OString path]" "on = on_reload nv libs"
    | name where "msg = OStruct [OString name]" "on = on_unload" | "k' = k"
    using assms(3,4) unfolding control_entries_def
    by (auto elim!: on_load.elims on_reload.elims on_unload.elims)
  then show ?thesis
  proof cases
    case (1 name path)
    then show ?thesis using kernel_run.load [OF assms(1,2), of name "libs path"] assms(4) by auto
  next
    case (2 name path)
    then show ?thesis
    proof (cases "om_find (k_libs k) name")
      case None
      then have "k' = k" using assms(4) 2 by (auto simp: reload_from_def)
      then show ?thesis using assms(1) by blast
    next
      case (Some rec)
      then show ?thesis
        using assms(1,4) 2 kernel_run.reload kernel_run.reload_throws
        by (auto split: prod.splits sum.splits) blast+
    qed
  next
    case (3 name)
    then show ?thesis using kernel_run.unload [OF assms(1), of name] assms(4) by auto
  qed (use assms(1) in blast)
qed

lemma control_structs:
  "obj_typed LoadLibrary ob \<longleftrightarrow> (\<exists>name path. ob = OStruct [OString name, OString path])"
  "obj_typed ReloadLibrary ob \<longleftrightarrow> (\<exists>name path. ob = OStruct [OString name, OString path])"
  "obj_typed UnloadLibrary ob \<longleftrightarrow> (\<exists>name. ob = OStruct [OString name])"
  "obj_typed ControlState ob \<longleftrightarrow> (\<exists>n. ob = OStruct [OInt n])"
  by (auto simp: control_shapes length_Suc_conv elim!: obj_typed.elims)

text \<open>
  C25: Operating the kernel by message is operating the kernel. For a message that comes through the gate at one of
  the control shard's three doors, the shard counts one operation and does exactly what the host would do by
  calling \<open>load\<close>, \<open>reload_from\<close> or \<open>unload\<close> with the name and path the message carries, and the kernel is
  again in a state its own calls can reach; the exception of a reload is the only one that escapes.
\<close>

theorem control_drives_kernel:
  assumes "kernel_run nv X k" and "fresh_id (k_bus k)"
    and "accept_match (map (derived \<circ> fst) (control_entries nv libs)) (s_name (v_schema (m_payload m)))
      (s_version (v_schema (m_payload m))) = Some door"
    and "adm_ok (fst (admit (m_payload m) door r g))"
    and "control_handle nv libs m ops k = (res, ops', k')"
  shows "ops' = ops + 1 \<and> (\<exists>Y. kernel_run nv Y k') \<and>
    (\<exists>name path.
       door = derived LoadLibrary \<and> from_value LoadLibrary (m_payload m) = Inr (OStruct [OString name, OString path]) \<and>
         res = Inr () \<and> k' = snd (load nv name (libs path) k) \<or>
       door = derived ReloadLibrary \<and> from_value ReloadLibrary (m_payload m) = Inr (OStruct [OString name, OString path]) \<and>
         (\<exists>out. reload_from nv name (libs path) k = (out, k') \<and> res = rbind out (\<lambda>_. Inr ())) \<or>
       door = derived UnloadLibrary \<and> from_value UnloadLibrary (m_payload m) = Inr (OStruct [OString name]) \<and>
         res = Inr () \<and> k' = snd (unload name k))"
proof -
  have "door \<in> set (map (derived \<circ> fst) (control_entries nv libs))"
    using accept_match_Some [OF assms(3)] by blast
  then have wf: "wf_schema door" using control_entries_ok is_shape_schema(2) by fastforce
  have "s_content_id (v_schema (m_payload m)) = s_content_id door \<and> value_conforms (m_payload m) door"
    using assms(4) validate_into_Nil_iff [OF wf, of "m_payload m"]
    by (auto simp: fst_admit adm_ok_def reject_def Let_def split: if_splits)
  then obtain t on ob where d: "(t, on) \<in> set (control_entries nv libs)" "derived t = door" "obj_typed t ob"
    "from_value t (m_payload m) = Inr ob" "dispatch (control_entries nv libs) (m_payload m) = Inr (Some (on, ob))"
    using dispatch_finds [OF control_entries_ok assms(3)] by blast
  then have run: "on ob ops k = (res, ops', k')" using assms(5) by (simp add: control_handle_def)
  have reach: "\<exists>Y. kernel_run nv Y k'" by (rule control_op_reachable [OF assms(1,2) d(1) run])
  consider "t = LoadLibrary" "on = on_load nv libs" | "t = ReloadLibrary" "on = on_reload nv libs"
    | "t = UnloadLibrary" "on = on_unload"
    using d(1) by (auto simp: control_entries_def)
  then show ?thesis
  proof cases
    case 1
    then obtain name path where "ob = OStruct [OString name, OString path]" using d(3) control_structs by blast
    with 1 d(2,4) run reach show ?thesis by (intro conjI exI [of _ name] exI [of _ path]) auto
  next
    case 2
    then obtain name path where ob: "ob = OStruct [OString name, OString path]" using d(3) control_structs by blast
    obtain out k1 where "reload_from nv name (libs path) k = (out, k1)" by (metis surj_pair)
    with 2 ob d(2,4) run reach show ?thesis
      by (intro conjI exI [of _ name] exI [of _ path]) (auto split: sum.splits)
  next
    case 3
    then obtain name where "ob = OStruct [OString name]" using d(3) control_structs by blast
    with 3 d(2,4) run reach show ?thesis by (intro conjI exI [of _ name]) auto
  qed
qed

theorem control_drives_kernel_witness:
  "\<exists>v Y res k'. from_value LoadLibrary v = Inr (OStruct [OString ''a'', OString ''a.so'']) \<and>
     control_handle relay_ops (\<lambda>_. demo_lib (Inr ())) \<lparr>m_payload = v, m_sender = 5, m_reply_to = 0, m_correlation = 0\<rparr>
        4 (new_kernel (new_bus 0)) = (res, 5, k') \<and> kernel_run relay_ops Y k' \<and> is_loaded ''a'' k'"
proof -
  let ?libs = "\<lambda>_. demo_lib (Inr ())" and ?k = "new_kernel (new_bus 0) :: (unit, unit) kernel"
  obtain v where v: "v_schema v = derived LoadLibrary" "value_conforms v (derived LoadLibrary)"
    "from_value LoadLibrary v = Inr (OStruct [OString ''a'', OString ''a.so''])"
    using is_shape_struct [OF control_shapes_ok(1), of "OStruct [OString ''a'', OString ''a.so'']"] control_structs(1) by blast
  let ?m = "\<lparr>m_payload = v, m_sender = 5, m_reply_to = 0, m_correlation = 0\<rparr>"
  have adm: "adm_ok (fst (admit (m_payload ?m) (derived LoadLibrary) FirstError 0))"
    using validate_into_Nil_iff [OF is_shape_schema(2) [OF control_shapes_ok(1)], of v] v
    by (simp add: fst_admit accept_def adm_ok_def)
  have door: "accept_match (map (derived \<circ> fst) (control_entries relay_ops ?libs)) (s_name (v_schema (m_payload ?m)))
      (s_version (v_schema (m_payload ?m))) = Some (derived LoadLibrary)"
    using v(1) by (simp add: control_entries_def)
  have fresh: "fresh_id (k_bus ?k)" by (simp add: fresh_id_def new_kernel_def new_bus_def bus_find_def)
  obtain res ops' k' where run: "control_handle relay_ops ?libs ?m 4 ?k = (res, ops', k')" by (metis prod_cases3)
  have names: "derived LoadLibrary \<noteq> derived UnloadLibrary" "derived LoadLibrary \<noteq> derived ReloadLibrary"
    by (auto simp: control_shapes dest!: arg_cong [where f = s_name])
  from control_drives_kernel [OF kernel_run.start fresh door adm run] names v(3)
  have "ops' = 5" "k' = snd (load relay_ops ''a'' (demo_lib (Inr ())) ?k)" "\<exists>Y. kernel_run relay_ops Y k'" by auto
  moreover have "is_loaded ''a'' (snd (load relay_ops ''a'' (demo_lib (Inr ())) ?k))"
    using demo_loads [of "Inr ()" relay_ops] by (simp add: is_loaded_def demo_loaded_def)
  ultimately show ?thesis using v(3) run by blast
qed

section \<open>A loaded authored shard\<close>

text \<open>
  The kernel tells the adapter its id, and no one tells the instance inside the library: where \<open>mount\<close> writes the
  id into the shard, \<open>load\<close> leaves the instance as the library constructed it. So \<open>Mail::reply\<close>, which gives
  \<open>self_\<close> as the address for further replies, gives the null id from a loaded shard.
\<close>

lemma loaded_instance_unwired:
  assumes "load nv name env k = (r, k')" and "lr_ok r" and "fresh_id (k_bus k)"
    and "le_abi env = Some (export_abi (shard_base C))" and "ac_new C = Some s"
  shows "\<exists>a. adapter_at (lr_id r) (k_bus k') = Some a \<and> ad_self a = lr_id r \<and> ad_instance a = s"
proof -
  have free: "om_find (k_libs k) name = None" using assms(1,2) by (auto simp: load_def load_refused_def split: if_splits)
  obtain res k1 where op: "open_instance env k = (res, k1)" by (metis surj_pair)
  then obtain h abi inst where res: "res = Inr (h, abi, inst)"
    using assms(1,2) free by (cases res) (auto simp: load_def load_refused_def)
  note opened = open_instance_Inr [OF op [unfolded res]]
  have abi: "abi = export_abi (shard_base C)" "inst = s"
    using opened(2,3) assms(4,5) by (auto simp: fetch_abi_def export_abi_def shard_base_def split: if_splits)
  obtain rres k2 where rc: "reconstruct abi inst h k1 = (rres, k2)" by (metis surj_pair)
  then obtain accepted state where rres: "rres = Inr (accepted, state)"
    using assms(1,2) free op res by (cases rres) (auto simp: load_def load_refused_def)
  have "instantiated h k k2" using instantiated_by op res rc by metis
  note b2 = instantiated_bus [OF this]
  let ?a = "new_adapter abi inst accepted state h"
  obtain reg b where rs: "register_shard (kernel_ops nv) (Some (AdapterShard ?a)) (allow_any grant_nothing) (k_bus k2) = (reg, b)"
    by (metis surj_pair)
  then obtain i where i: "reg = Inr i" using assms(1,2) free op res rc rres by (cases reg) (auto simp: load_def load_refused_def)
  have ext: "shards_extended (AdapterShard ?a) (k_bus k2) (reg, b)" using rs register_shard_shards by metis
  then obtain rec where rec: "bus_find b i = Some rec" "sr_shard rec = AdapterShard ?a"
    using i assms(3) b2 by (auto simp: shards_extended_def fresh_id_def bus_find_def om_find_put)
  have "r = \<lparr>lr_ok = True, lr_id = i, lr_error = []\<rparr>" "k_bus k' = set_self i b"
    using assms(1) free op res rc rres rs i by (auto simp: load_def)
  with rec abi(2) show ?thesis
    by (simp add: adapter_at_def set_self_def bus_find_def put_record_def om_find_put new_adapter_def)
qed

end
