(* ===== verification/Zen_Nucleus.thy ===== *)
theory Zen_Nucleus
  imports Zen_Ordmap
begin

text \<open>
  The seed program, \<open>nucleus.cpp\<close>: a self-contained first version of the gate, with its own schemas and values, a
  console that fills a value from a shape it was handed at run time, and shards that return through a lock they
  chose themselves. The names carry the prefix \<open>n\<close> because the library has its own. A pointer that may be null is
  an option, \<open>std::map\<close> an ordered map; the lines printed are left out.
\<close>

section \<open>The grammar\<close>

datatype nkind = NInt | NFloat | NText | NBool | NMessage

fun nname_of :: "nkind \<Rightarrow> string" where
  "nname_of NInt = ''Int''"
| "nname_of NFloat = ''Float''"
| "nname_of NText = ''Text''"
| "nname_of NBool = ''Bool''"
| "nname_of NMessage = ''Message''"

datatype nfield =
    NField (nf_name: string) (nf_kind: nkind) (nf_schema: "nschema option") (nf_required: bool)
and nschema =
    NSchema (ns_name: string) (ns_fields: "nfield list")

datatype ncell =
    NcInt i64 | NcFloat f64 | NcText string | NcBool bool | NcMessage "nvalue option"
and nvalue =
    NValue (nv_schema: "nschema option") (nv_cells: "(string \<times> ncell) list")

text \<open>The first field that fails, as \<open>conforms\<close> words it; \<open>None\<close> is \<open>true\<close>.\<close>

fun nconforms :: "nvalue \<Rightarrow> nschema \<Rightarrow> string option"
and nconforms_fields :: "nvalue \<Rightarrow> nfield list \<Rightarrow> string option"
and cell_matches :: "ncell \<Rightarrow> nfield \<Rightarrow> bool" where
  "nconforms v (NSchema n fs) = nconforms_fields v fs"
| "nconforms_fields v [] = None"
| "nconforms_fields v (f # fs) =
     (case om_find (nv_cells v) (nf_name f) of
        None \<Rightarrow>
          if nf_required f then Some (''missing required field '' @ [CHR 39] @ nf_name f @ [CHR 39])
          else nconforms_fields v fs
      | Some c \<Rightarrow>
          if \<not> cell_matches c f
          then Some (''field '' @ [CHR 39] @ nf_name f @ [CHR 39] @ '' has the wrong type (expected '' @
                     nname_of (nf_kind f) @ '')'')
          else nconforms_fields v fs)"
| "cell_matches c (NField n NInt s r) = (case c of NcInt _ \<Rightarrow> True | _ \<Rightarrow> False)"
| "cell_matches c (NField n NFloat s r) = (case c of NcFloat _ \<Rightarrow> True | _ \<Rightarrow> False)"
| "cell_matches c (NField n NText s r) = (case c of NcText _ \<Rightarrow> True | _ \<Rightarrow> False)"
| "cell_matches c (NField n NBool s r) = (case c of NcBool _ \<Rightarrow> True | _ \<Rightarrow> False)"
| "cell_matches c (NField n NMessage s r) =
     (case c of
        NcMessage (Some nested) \<Rightarrow>
          (case nv_schema nested of
             None \<Rightarrow> False
           | Some claimed \<Rightarrow>
               (case s of
                  None \<Rightarrow> False
                | Some sc \<Rightarrow> ns_name claimed = ns_name sc \<and> nconforms nested sc = None))
      | _ \<Rightarrow> False)"

section \<open>The threshold\<close>

record nadmission =
  na_ok :: bool
  na_reason :: string
  na_value :: "nvalue option"

definition nrefused :: "string \<Rightarrow> nadmission" where
  "nrefused why = \<lparr>na_ok = False, na_reason = why, na_value = None\<rparr>"

definition nadmit :: "nvalue \<Rightarrow> nschema \<Rightarrow> nadmission" where
  "nadmit v door =
     (case nv_schema v of
        None \<Rightarrow> nrefused ''value carries no shape; it cannot say what it is''
      | Some claimed \<Rightarrow>
          if ns_name claimed \<noteq> ns_name door then
            nrefused (''value claims to be '' @ [CHR 39] @ ns_name claimed @ [CHR 39] @
              '', this door admits only '' @ [CHR 39] @ ns_name door @ [CHR 39])
          else
            (case nconforms v door of
               Some why \<Rightarrow> nrefused (''value claims '' @ [CHR 39] @ ns_name door @ [CHR 39] @ '' but '' @ why)
             | None \<Rightarrow> \<lparr>na_ok = True, na_reason = [], na_value = Some v\<rparr>))"

section \<open>The console\<close>

definition nconstruct_blind :: "nschema \<Rightarrow> (nfield \<Rightarrow> ncell) \<Rightarrow> nvalue" where
  "nconstruct_blind shape source =
     NValue (Some shape) (fold (\<lambda>fld cells. om_put (nf_name fld) (source fld) cells) (ns_fields shape) [])"

section \<open>A shard that declares how it wishes to return\<close>

record nshard =
  nsh_name :: string
  nsh_state_schema :: nschema
  nsh_policy :: nvalue
  nsh_last_known_good :: nvalue
  nsh_reloads_used :: i64

text \<open>\<open>std::get<T>(cells.at(name))\<close>.\<close>

definition cell_at :: "nvalue \<Rightarrow> string \<Rightarrow> ncell result" where
  "cell_at v n = (case om_find (nv_cells v) n of None \<Rightarrow> Inl (Out_of_range ''map::at'') | Some c \<Rightarrow> Inr c)"

fun get_bool :: "ncell \<Rightarrow> bool result" where
  "get_bool (NcBool b) = Inr b"
| "get_bool _ = Inl Bad_variant_access"

fun get_int :: "ncell \<Rightarrow> i64 result" where
  "get_int (NcInt i) = Inr i"
| "get_int _ = Inl Bad_variant_access"

text \<open>The first component is what the shard wakes as, the value the code prints then; \<open>None\<close> when it stays gone.\<close>

definition nrevive :: "nshard \<Rightarrow> nvalue \<Rightarrow> nschema \<Rightarrow> (nvalue option \<times> nshard) result" where
  "nrevive s candidate policy_door =
     (if \<not> na_ok (nadmit (nsh_policy s) policy_door) then Inr (None, s)
      else
        rbind (rbind (cell_at (nsh_policy s) ''revive_from_last_good'') get_bool) (\<lambda>revive_lkg.
        rbind (rbind (cell_at (nsh_policy s) ''max_reloads'') get_int) (\<lambda>max_r.
          if sint (nsh_reloads_used s) \<ge> sint max_r then Inr (None, s)
          else if na_ok (nadmit candidate (nsh_state_schema s)) then
            Inr (Some candidate, s\<lparr>nsh_last_known_good := candidate, nsh_reloads_used := nsh_reloads_used s + 1\<rparr>)
          else if revive_lkg then
            Inr (Some (nsh_last_known_good s), s\<lparr>nsh_reloads_used := nsh_reloads_used s + 1\<rparr>)
          else Inr (None, s))))"

section \<open>What the threshold lets through\<close>

lemma nconforms_fields_iff:
  "nconforms_fields v fs = None \<longleftrightarrow>
     (\<forall>f \<in> set fs. case om_find (nv_cells v) (nf_name f) of
        None \<Rightarrow> \<not> nf_required f
      | Some c \<Rightarrow> cell_matches c f)"
  by (induction fs) (auto split: option.splits)

lemma nadmit_iff:
  "na_ok (nadmit v door) \<longleftrightarrow> (\<exists>claimed. nv_schema v = Some claimed \<and> ns_name claimed = ns_name door) \<and>
     nconforms_fields v (ns_fields door) = None"
  by (cases door) (auto simp: nadmit_def nrefused_def split: option.splits)

lemma om_find_filled:
  "distinct (map nf_name fs) \<Longrightarrow> f \<in> set fs \<Longrightarrow>
     om_find (fold (\<lambda>fld cells. om_put (nf_name fld) (source fld) cells) fs cells) (nf_name f) = Some (source f)"
proof (induction fs arbitrary: cells)
  case (Cons g fs)
  have keep: "om_find (fold (\<lambda>fld cells. om_put (nf_name fld) (source fld) cells) fs m) n = om_find m n"
    if "n \<notin> nf_name ` set fs" for n m
    using that by (induction fs arbitrary: m) (auto simp: om_find_put)
  from Cons show ?case by (cases "f = g") (auto simp: keep om_find_put)
qed simp

text \<open>Whatever shape the console is handed, a value it fills with cells of the right kind passes the gate.\<close>

lemma console_admitted:
  assumes "distinct (map nf_name (ns_fields shape))" and "\<forall>f \<in> set (ns_fields shape). cell_matches (source f) f"
  shows "na_ok (nadmit (nconstruct_blind shape source) shape)"
  using assms by (auto simp: nadmit_iff nconforms_fields_iff nconstruct_blind_def om_find_filled)

section \<open>The way back\<close>

text \<open>A policy door that asks for the two fields the kernel reads.\<close>

definition reload_door :: "nschema \<Rightarrow> bool" where
  "reload_door door \<longleftrightarrow>
     (\<exists>s. NField ''max_reloads'' NInt s True \<in> set (ns_fields door)) \<and>
     (\<exists>s. NField ''revive_from_last_good'' NBool s True \<in> set (ns_fields door))"

lemma policy_read:
  assumes "reload_door door" and "na_ok (nadmit p door)"
  shows "\<exists>b m. rbind (cell_at p ''revive_from_last_good'') get_bool = Inr b \<and>
    rbind (cell_at p ''max_reloads'') get_int = Inr m"
proof -
  have at: "\<exists>c. om_find (nv_cells p) n = Some c \<and> cell_matches c (NField n k s True)"
    if "NField n k s True \<in> set (ns_fields door)" for n k s
  proof -
    have "case om_find (nv_cells p) (nf_name (NField n k s True)) of
        None \<Rightarrow> \<not> nf_required (NField n k s True) | Some c \<Rightarrow> cell_matches c (NField n k s True)"
      using assms(2) that unfolding nadmit_iff nconforms_fields_iff by blast
    then show ?thesis by (simp split: option.splits)
  qed
  obtain s1 s2 where "NField ''max_reloads'' NInt s1 True \<in> set (ns_fields door)"
    "NField ''revive_from_last_good'' NBool s2 True \<in> set (ns_fields door)"
    using assms(1) by (auto simp: reload_door_def)
  from at [OF this(1)] at [OF this(2)] obtain c1 c2 where
    "om_find (nv_cells p) ''max_reloads'' = Some c1" "cell_matches c1 (NField ''max_reloads'' NInt s1 True)"
    "om_find (nv_cells p) ''revive_from_last_good'' = Some c2"
    "cell_matches c2 (NField ''revive_from_last_good'' NBool s2 True)" by blast
  then show ?thesis by (cases c1; cases c2) (simp_all add: cell_at_def)
qed

definition max_reloads_of :: "nshard \<Rightarrow> int" where
  "max_reloads_of s = (case rbind (cell_at (nsh_policy s) ''max_reloads'') get_int of Inl _ \<Rightarrow> 0 | Inr m \<Rightarrow> sint m)"

text \<open>A shard in good order: its safe self opens its own lock, and its counter is not negative.\<close>

definition nshard_ok :: "nshard \<Rightarrow> bool" where
  "nshard_ok s \<longleftrightarrow>
     na_ok (nadmit (nsh_last_known_good s) (nsh_state_schema s)) \<and> 0 \<le> sint (nsh_reloads_used s)"

text \<open>Death after death, one candidate each: what the shard woke as, in order, and the shard in the end.\<close>

fun nrevive_all :: "nshard \<Rightarrow> nvalue list \<Rightarrow> nschema \<Rightarrow> (nvalue list \<times> nshard) result" where
  "nrevive_all s [] door = Inr ([], s)"
| "nrevive_all s (c # cs) door =
     rbind (nrevive s c door) (\<lambda>(woken, s1).
     rbind (nrevive_all s1 cs door) (\<lambda>(ws, s2). Inr ((case woken of None \<Rightarrow> ws | Some w \<Rightarrow> w # ws), s2)))"

text \<open>How often a shard may still wake: nothing is left once its policy is malformed.\<close>

definition wakings_left :: "nschema \<Rightarrow> nshard \<Rightarrow> nat" where
  "wakings_left door s =
     (if na_ok (nadmit (nsh_policy s) door) then nat (max_reloads_of s - sint (nsh_reloads_used s)) else 0)"

lemma nrevive_step:
  assumes "reload_door door" and "nshard_ok s"
  shows "\<exists>woken s'. nrevive s c door = Inr (woken, s') \<and> nshard_ok s' \<and>
    nsh_policy s' = nsh_policy s \<and> nsh_state_schema s' = nsh_state_schema s \<and> nsh_name s' = nsh_name s \<and>
    (case woken of
       None \<Rightarrow> s' = s
     | Some w \<Rightarrow> w \<in> {c, nsh_last_known_good s} \<and> na_ok (nadmit w (nsh_state_schema s)) \<and> nsh_last_known_good s' = w \<and>
         0 < wakings_left door s \<and> wakings_left door s = Suc (wakings_left door s')) \<and>
    (0 < wakings_left door s \<and> na_ok (nadmit c (nsh_state_schema s)) \<longrightarrow> woken = Some c)"
proof (cases "na_ok (nadmit (nsh_policy s) door)")
  case True
  obtain b m where "rbind (cell_at (nsh_policy s) ''revive_from_last_good'') get_bool = Inr b"
    "rbind (cell_at (nsh_policy s) ''max_reloads'') get_int = Inr m"
    using policy_read [OF assms(1) True] by blast
  with True assms(2) sint_succ_u64 [of "nsh_reloads_used s" m] show ?thesis
    by (auto simp: nrevive_def nshard_ok_def max_reloads_of_def wakings_left_def)
qed (use assms(2) in \<open>simp add: nrevive_def wakings_left_def\<close>)

text \<open>
  C34: A shard of the seed program returns only through its own lock, and only as often as it said. Take a policy door
  that requires \<open>max_reloads\<close> and \<open>revive_from_last_good\<close>, and a shard whose last known good state opens its lock. For
  any sequence of deaths with one candidate state each, \<open>revive\<close> never throws; the shard wakes at most as often as its
  policy still allows, each time as a candidate or as the last known good state, and each time as a value that opens
  its lock; its name, lock and policy stay, and the last known good state is the last one it woke as. While its
  budget lasts, a candidate that opens the lock is the one it wakes as.
\<close>

theorem nucleus_returns:
  assumes "reload_door door" and "nshard_ok s"
  shows "\<exists>ws s'. nrevive_all s cs door = Inr (ws, s') \<and>
    length ws \<le> wakings_left door s \<and> wakings_left door s' = wakings_left door s - length ws \<and>
    (\<forall>w \<in> set ws. w \<in> insert (nsh_last_known_good s) (set cs) \<and> na_ok (nadmit w (nsh_state_schema s))) \<and>
    nsh_last_known_good s' = last (nsh_last_known_good s # ws) \<and> nshard_ok s' \<and>
    nsh_policy s' = nsh_policy s \<and> nsh_state_schema s' = nsh_state_schema s \<and> nsh_name s' = nsh_name s \<and>
    (length cs \<le> wakings_left door s \<and> (\<forall>c \<in> set cs. na_ok (nadmit c (nsh_state_schema s))) \<longrightarrow> ws = cs)"
  using assms(2)
proof (induction cs arbitrary: s)
  case (Cons c cs)
  obtain woken s1 where step: "nrevive s c door = Inr (woken, s1)" "nshard_ok s1" "nsh_policy s1 = nsh_policy s"
    "nsh_state_schema s1 = nsh_state_schema s" "nsh_name s1 = nsh_name s"
    "case woken of None \<Rightarrow> s1 = s
     | Some w \<Rightarrow> w \<in> {c, nsh_last_known_good s} \<and> na_ok (nadmit w (nsh_state_schema s)) \<and> nsh_last_known_good s1 = w \<and>
         0 < wakings_left door s \<and> wakings_left door s = Suc (wakings_left door s1)"
    "0 < wakings_left door s \<and> na_ok (nadmit c (nsh_state_schema s)) \<longrightarrow> woken = Some c"
    using nrevive_step [OF assms(1) Cons.prems, of c] by blast
  from Cons.IH [OF step(2)] obtain ws s2 where rest: "nrevive_all s1 cs door = Inr (ws, s2)"
    "length ws \<le> wakings_left door s1" "wakings_left door s2 = wakings_left door s1 - length ws"
    "\<forall>w \<in> set ws. w \<in> insert (nsh_last_known_good s1) (set cs) \<and> na_ok (nadmit w (nsh_state_schema s1))"
    "nsh_last_known_good s2 = last (nsh_last_known_good s1 # ws)" "nshard_ok s2" "nsh_policy s2 = nsh_policy s1"
    "nsh_state_schema s2 = nsh_state_schema s1" "nsh_name s2 = nsh_name s1"
    "length cs \<le> wakings_left door s1 \<and> (\<forall>c \<in> set cs. na_ok (nadmit c (nsh_state_schema s1))) \<longrightarrow> ws = cs" by blast
  show ?case
  proof (cases woken)
    case None
    then show ?thesis using step rest by auto
  next
    case (Some w)
    then show ?thesis using step rest by (intro exI [of _ "w # ws"] exI [of _ s2]) auto
  qed
qed simp

section \<open>The scenes of \<open>main\<close>\<close>

definition nreq :: "string \<Rightarrow> nkind \<Rightarrow> nfield" where
  "nreq n k = NField n k None True"

definition scene_move :: nschema where
  "scene_move = NSchema ''Move'' [nreq ''dx'' NFloat, nreq ''dy'' NFloat]"

definition scene_spawn :: nschema where
  "scene_spawn = NSchema ''Spawn'' [nreq ''kind'' NText]"

definition scene_set_color :: nschema where
  "scene_set_color = NSchema ''SetColor'' [nreq ''r'' NInt, nreq ''g'' NInt, nreq ''b'' NInt, nreq ''named'' NBool]"

fun scene_source :: "nfield \<Rightarrow> ncell" where
  "scene_source (NField n NInt s r) = NcInt 128"
| "scene_source (NField n NBool s r) = NcBool True"
| "scene_source (NField n NFloat s r) = NcFloat 0"
| "scene_source (NField n NText s r) = NcText []"
| "scene_source _ = NcInt 0"

definition player_state :: nschema where
  "player_state = NSchema ''PlayerState'' [nreq ''hp'' NInt, nreq ''name'' NText]"

definition reload_policy :: nschema where
  "reload_policy = NSchema ''ReloadPolicy'' [nreq ''max_reloads'' NInt, nreq ''revive_from_last_good'' NBool]"

definition ephemeral_policy :: nschema where
  "ephemeral_policy = NSchema ''EphemeralPolicy'' [nreq ''wipe_on_reload'' NBool]"

definition player :: "ncell \<Rightarrow> nvalue" where
  "player hp = NValue (Some player_state) (om_put ''name'' (NcText ''Ami'') (om_put ''hp'' hp []))"

definition ami :: nshard where
  "ami =
     \<lparr>nsh_name = ''Ami'', nsh_state_schema = player_state,
      nsh_policy = NValue (Some reload_policy)
        (om_put ''revive_from_last_good'' (NcBool True) (om_put ''max_reloads'' (NcInt 2) [])),
      nsh_last_known_good = player (NcInt 20), nsh_reloads_used = 0\<rparr>"

text \<open>The reports of the three scenes, and the shard after the two deaths of the third. A float cell is its bit
  pattern; which number it is does not matter to the gate.\<close>

definition scene_reports :: "nadmission list" where
  "scene_reports =
     [nadmit (NValue (Some scene_move) (om_put ''dy'' (NcFloat 0xC000000000000000) (om_put ''dx'' (NcFloat 0x3FF0000000000000) [])))
        scene_move,
      nadmit (NValue (Some scene_move) (om_put ''dx'' (NcFloat 0x3FF0000000000000) [])) scene_move,
      nadmit (NValue (Some scene_spawn) (om_put ''kind'' (NcText ''dragon'') [])) scene_move,
      nadmit (nconstruct_blind scene_set_color scene_source) scene_set_color,
      nadmit (nsh_policy ami) reload_policy,
      nadmit (NValue (Some ephemeral_policy) (om_put ''wipe_on_reload'' (NcBool True) [])) ephemeral_policy]"

definition scene_deaths :: "((nvalue option \<times> nvalue option) \<times> nshard) result" where
  "scene_deaths =
     rbind (nrevive ami (player (NcInt 30)) reload_policy) (\<lambda>(first, s1).
     rbind (nrevive s1 (player (NcText ''?!'')) reload_policy) (\<lambda>(second, s2). Inr ((first, second), s2)))"

lemma scenes_play:
  "map na_ok scene_reports = [True, False, False, True, True, True]"
  "na_reason (scene_reports ! 1) = ''value claims '' @ [CHR 39] @ ''Move'' @ [CHR 39] @ '' but missing required field '' @
     [CHR 39] @ ''dy'' @ [CHR 39]"
  "scene_deaths =
     Inr ((Some (player (NcInt 30)), Some (player (NcInt 30))),
          ami\<lparr>nsh_last_known_good := player (NcInt 30), nsh_reloads_used := 2\<rparr>)"
  by code_simp+

text \<open>Four deaths: the shard wakes twice, and then its budget is spent.\<close>

theorem nucleus_returns_witness:
  "\<exists>ws s'. nrevive_all ami [player (NcInt 30), player (NcText ''?!''), player (NcInt 1), player (NcInt 2)] reload_policy =
       Inr (ws, s') \<and> length ws \<le> 2 \<and> na_ok (nadmit (nsh_last_known_good s') player_state)"
proof -
  have door: "reload_door reload_policy" by (auto simp: reload_door_def reload_policy_def nreq_def)
  have "na_ok (nadmit (nsh_last_known_good ami) (nsh_state_schema ami))" "max_reloads_of ami = 2"
    "na_ok (nadmit (nsh_policy ami) reload_policy)" "sint (nsh_reloads_used ami) = 0" "nsh_state_schema ami = player_state"
    by code_simp+
  moreover from this have "nshard_ok ami" "wakings_left reload_policy ami = 2"
    by (simp_all add: nshard_ok_def wakings_left_def)
  ultimately show ?thesis
    using nucleus_returns [OF door, of ami "[player (NcInt 30), player (NcText ''?!''), player (NcInt 1), player (NcInt 2)]"]
    by (auto simp: nshard_ok_def)
qed

end
