(* ===== verification/Zen_Heartbeat.thy ===== *)
theory Zen_Heartbeat
  imports Zen_Seam
begin

text \<open>
  The whole of the switchboard at work: \<open>examples/heartbeat.cpp\<close>. Two nodes exchange a gated message and its reply, a
  malformed message is refused at the door, and a node dies and returns through its own serialized state. What the
  program prints is left out; its observer only prints.
\<close>

section \<open>The shapes\<close>

definition ping_schema :: "schema result" where
  "ping_schema = rbind (builder_field ''seq'' KInt True (new_builder ''Ping'' 1)) builder_build"

definition pong_schema :: "schema result" where
  "pong_schema = rbind (builder_field ''seq'' KInt True (new_builder ''Pong'' 1)) builder_build"

definition counter_schema :: "schema result" where
  "counter_schema = rbind (builder_field ''count'' KInt True (new_builder ''Counter'' 1)) builder_build"

definition ping_value :: "i64 \<Rightarrow> zvalue result" where
  "ping_value seq = rbind ping_schema (\<lambda>s. rbind (new_value (Some s)) (value_set ''seq'' (CInt seq)))"

section \<open>The nodes\<close>

record node =
  nd_name :: string
  nd_accept :: "schema list"
  nd_reply :: bool
  nd_count :: i64

definition new_node :: "string \<Rightarrow> schema list \<Rightarrow> bool \<Rightarrow> node" where
  "new_node name accepted reply = \<lparr>nd_name = name, nd_accept = accepted, nd_reply = reply, nd_count = 0\<rparr>"

text \<open>\<open>Message(payload)\<close> and \<open>Message(payload, sender, reply_to)\<close>.\<close>

definition message_to :: "zvalue \<Rightarrow> shard_id \<Rightarrow> message" where
  "message_to v reply_to = \<lparr>m_payload = v, m_sender = 0, m_reply_to = reply_to, m_correlation = 0\<rparr>"

definition pong_for :: "zvalue \<Rightarrow> zvalue result" where
  "pong_for payload =
     rbind pong_schema (\<lambda>s. rbind (new_value (Some s)) (\<lambda>pong.
     rbind (deref (value_get payload ''seq'')) (\<lambda>c. value_set ''seq'' c pong)))"

definition node_handle :: "node \<Rightarrow> message \<Rightarrow> node action" where
  "node_handle s m =
     (let s1 = s\<lparr>nd_count := nd_count s + 1\<rparr> in
      if nd_reply s \<and> m_reply_to m \<noteq> 0 then
        (case pong_for (m_payload m) of
           Inl e \<Rightarrow> AThrow e s1
         | Inr pong \<Rightarrow> ASend (m_reply_to m) (message_to pong 0) (\<lambda>_. ADone s1))
      else ADone s1)"

definition node_snapshot :: "node \<Rightarrow> zvalue result" where
  "node_snapshot s = rbind counter_schema (\<lambda>c. rbind (new_value (Some c)) (value_set ''count'' (CInt (nd_count s))))"

definition node_policy :: "node \<Rightarrow> zvalue result" where
  "node_policy s =
     rbind lifecycle_policy_schema (\<lambda>p. rbind (new_value (Some p)) (\<lambda>v.
     rbind (value_set ''max_reloads'' (CInt 2) v) (value_set ''revive_from_last_good'' (CBool True))))"

definition node_revive :: "node \<Rightarrow> zvalue \<Rightarrow> unit result \<times> node" where
  "node_revive s state =
     (case rbind (deref (value_get state ''count'')) as_int of
        Inl e \<Rightarrow> (Inl e, s)
      | Inr n \<Rightarrow> (Inr (), s\<lparr>nd_count := n\<rparr>))"

definition node_ops :: "node shard_ops" where
  "node_ops =
     \<lparr>vt_accepted_schemas = (\<lambda>s. Inr (map Some (nd_accept s))), vt_handle = node_handle,
      vt_snapshot = node_snapshot, vt_policy = node_policy, vt_revive = node_revive\<rparr>"

section \<open>The program\<close>

text \<open>The next statement of \<open>main\<close>, unless this one threw.\<close>

definition then_do ::
  "'a result \<times> 's bus \<Rightarrow> ('a \<Rightarrow> 's bus \<Rightarrow> ('b result \<times> 's bus) option) \<Rightarrow> ('b result \<times> 's bus) option" where
  "then_do r k = (case r of (Inl e, b) \<Rightarrow> Some (Inl e, b) | (Inr x, b) \<Rightarrow> k x b)"

definition heartbeat :: "u64 \<Rightarrow> (revive_outcome result \<times> node bus) option" where
  "heartbeat g =
     (let b0 = snd (add_observer (Some (\<lambda>_. ObsReturn)) (new_bus g)) in
      then_do (ping_schema, b0) (\<lambda>ping b.
      then_do (register_shard node_ops (Some (new_node ''responder'' [ping] True))
                (allow_to_any ''Pong'' 1 grant_nothing) b) (\<lambda>responder b.
      then_do (pong_schema, b) (\<lambda>pong b.
      then_do (register_shard_default node_ops (Some (new_node ''collector'' [pong] False)) b) (\<lambda>collector b.
      then_do (ping_value 7, b) (\<lambda>v b.
      Option.bind (pump node_ops (snd (send responder (message_to v collector) b))) (\<lambda>r. then_do r (\<lambda>_ b.
      then_do (new_value (Some ping), b) (\<lambda>empty b.
      Option.bind (pump node_ops (snd (send responder (message_to empty 0) b))) (\<lambda>r. then_do r (\<lambda>_ b.
      then_do (snapshot_bytes node_ops responder b, b) (\<lambda>saved b.
      then_do (kill responder b) (\<lambda>_ b.
      Some (reload node_ops responder saved b))))))))))))))"

section \<open>What happens\<close>

definition int_shape :: "string \<Rightarrow> string \<Rightarrow> schema" where
  "int_shape n f = Schema n 1 [Field f (TypeRef KInt None None) True] (compute_content_id n 1 [Field f (TypeRef KInt None None) True])"

abbreviation int_value :: "string \<Rightarrow> string \<Rightarrow> i64 \<Rightarrow> zvalue" where
  "int_value n f i \<equiv> Value (int_shape n f) [Some (CInt i)]"

lemma int_shape_sel [simp]:
  "s_name (int_shape n f) = n" "s_version (int_shape n f) = 1" "s_fields (int_shape n f) = [Field f (TypeRef KInt None None) True]"
  "wf_schema (int_shape n f) \<longleftrightarrow> f \<noteq> []"
  by (simp_all add: int_shape_def)

lemma shapes_built:
  "ping_schema = Inr (int_shape ''Ping'' ''seq'')" "pong_schema = Inr (int_shape ''Pong'' ''seq'')"
  "counter_schema = Inr (int_shape ''Counter'' ''count'')"
  by (simp_all add: ping_schema_def pong_schema_def counter_schema_def builder_field_def new_builder_def type_of_def
      builder_add_def builder_build_def mk_schema_def int_shape_def)

lemma values_built:
  "ping_value i = Inr (int_value ''Ping'' ''seq'' i)" "node_snapshot s = Inr (int_value ''Counter'' ''count'' (nd_count s))"
  "pong_for (int_value n ''seq'' i) = Inr (int_value ''Pong'' ''seq'' i)"
  by (simp_all add: ping_value_def node_snapshot_def pong_for_def shapes_built new_value_def value_set_def value_get_def)

lemma int_admitted: "f \<noteq> [] \<Longrightarrow> admit (int_value n f i) (int_shape n f) r g = (accept (int_value n f i), g + 1)"
  by (rule prod_eqI) (simp_all add: fst_admit validate_into_Nil_iff value_conforms.simps value_get_def)

lemma empty_refused:
  "\<exists>e. admit (Value (int_shape n f) [None]) (int_shape n f) FirstError g = (reject [e], g + 1)"
  by (rule exI, rule prod_eqI) (simp_all add: fst_admit fst_validate_into value_errors.simps value_get_def)

text \<open>The two records and the bus once both nodes are on it.\<close>

definition node_record :: "shard_id \<Rightarrow> node \<Rightarrow> grant \<Rightarrow> node shard_record" where
  "node_record i s gr =
     \<lparr>sr_id = i, sr_shard = s, sr_accept = nd_accept s, sr_state_schema = int_shape ''Counter'' ''count'',
      sr_last_known_good = int_value ''Counter'' ''count'' (nd_count s), sr_grant = gr, sr_reloads_used = 0, sr_alive = True\<rparr>"

definition responder_node :: node where
  "responder_node = new_node ''responder'' [int_shape ''Ping'' ''seq''] True"

definition collector_node :: node where
  "collector_node = new_node ''collector'' [int_shape ''Pong'' ''seq''] False"

definition pong_grant :: grant where
  "pong_grant = allow_to_any ''Pong'' 1 grant_nothing"

definition mounted_nodes :: "u64 \<Rightarrow> node bus" where
  "mounted_nodes g =
     \<lparr>b_registry = [((''Counter'', 1), int_shape ''Counter'' ''count''), ((''Ping'', 1), int_shape ''Ping'' ''seq''),
        ((''Pong'', 1), int_shape ''Pong'' ''seq'')],
      b_shards = [(1, node_record 1 responder_node pong_grant), (2, node_record 2 collector_node grant_nothing)],
      b_next_shard_id = 3, b_queue = [], b_journal = [pending_outcome], b_next_seq = 1,
      b_observers = [(1, Some (\<lambda>_. ObsReturn))], b_next_observer_id = 2,
      b_in_dispatch = False, b_stop_requested = False, b_gate_calls = g + 2,
      b_trace = [TRegistered 1 pong_grant, TRegistered 2 grant_nothing]\<rparr>"

lemma nodes_mount:
  fixes g :: u64
  defines "b0 \<equiv> snd (add_observer (Some (\<lambda>_. ObsReturn)) (new_bus g)) :: node bus"
  shows "\<exists>b1. register_shard node_ops (Some responder_node) pong_grant b0 = (Inr 1, b1) \<and>
    register_shard_default node_ops (Some collector_node) b1 = (Inr 2, mounted_nodes g)"
  by (simp add: b0_def add_observer_def new_bus_def new_registry_def register_shard_default_def register_shard_def
      node_ops_def responder_node_def collector_node_def new_node_def register_schema_def seed_shard_def values_built
      int_admitted adm_ok_def accept_def adm_value_def mount_record_def bus_find_def put_record_def note_trace_def
      mounted_nodes_def node_record_def Let_def)

text \<open>The deliveries of the run, and what is left on the bus after each pump.\<close>

definition ping_delivery :: envelope where
  "ping_delivery = \<lparr>env_msg = message_to (int_value ''Ping'' ''seq'' 7) 2, env_target = 1, env_seq = 1, env_gated = False\<rparr>"

definition pong_delivery :: envelope where
  "pong_delivery =
     \<lparr>env_msg = (message_to (int_value ''Pong'' ''seq'' 7) 0)\<lparr>m_sender := 1\<rparr>, env_target = 2, env_seq = 2, env_gated = True\<rparr>"

definition empty_delivery :: envelope where
  "empty_delivery =
     \<lparr>env_msg = message_to (Value (int_shape ''Ping'' ''seq'') [None]) 0, env_target = 1, env_seq = 3, env_gated = False\<rparr>"

definition delivered_event :: "envelope \<Rightarrow> bus_event" where
  "delivered_event e = (delivery_event e)\<lparr>ev_kind := EvDelivered, ev_payload := Some (m_payload (env_msg e))\<rparr>"

definition delivered_outcome :: delivery_outcome where
  "delivered_outcome = \<lparr>d_disposition = Delivered, d_refusal = bare_refusal RR_None\<rparr>"

definition counted :: "shard_id \<Rightarrow> node \<Rightarrow> grant \<Rightarrow> node shard_record" where
  "counted i s gr = (node_record i s gr)\<lparr>sr_shard := s\<lparr>nd_count := 1\<rparr>\<rparr>"

definition pinged :: "u64 \<Rightarrow> node bus" where
  "pinged g = (mounted_nodes g)
     \<lparr>b_shards := [(1, counted 1 responder_node pong_grant), (2, node_record 2 collector_node grant_nothing)],
      b_queue := [pong_delivery], b_next_seq := 3, b_journal := [pending_outcome, delivered_outcome, pending_outcome],
      b_in_dispatch := True, b_gate_calls := g + 3,
      b_trace := [TRegistered 1 pong_grant, TRegistered 2 grant_nothing,
        THandled 1 (env_msg ping_delivery) False, TNotified 1 (delivered_event ping_delivery)]\<rparr>"

definition ponged :: "u64 \<Rightarrow> node bus" where
  "ponged g = (pinged g)
     \<lparr>b_shards := [(1, counted 1 responder_node pong_grant), (2, counted 2 collector_node grant_nothing)],
      b_queue := [], b_journal := [pending_outcome, delivered_outcome, delivered_outcome], b_gate_calls := g + 4,
      b_trace := b_trace (pinged g) @ [THandled 2 (env_msg pong_delivery) True, TNotified 1 (delivered_event pong_delivery)]\<rparr>"

lemmas node_run_defs = deliver_one_def gate_delivery_def hand_over_def bus_find_def capability_ok_def delivery_event_def
  new_event_def Let_def node_ops_def node_handle_def adm_ok_def accept_def adm_value_def shard_bus_def send_as_def
  enqueue_directed_def put_record_def note_trace_def record_outcome_def bus_emit_def message_to_def

lemmas node_state_defs = mounted_nodes_def pinged_def ponged_def node_record_def counted_def responder_node_def
  collector_node_def new_node_def delivered_event_def delivered_outcome_def ping_delivery_def pong_delivery_def

lemma ping_delivered:
  "deliver_one node_ops ping_delivery
     ((mounted_nodes g)\<lparr>b_next_seq := 2, b_journal := [pending_outcome, pending_outcome], b_in_dispatch := True\<rparr>) =
   (Inr (), pinged g)"
  by (simp add: node_run_defs node_state_defs int_admitted values_built)

lemma pong_permitted: "permits pong_grant ''Pong'' 1 t"
  by (simp add: pong_grant_def permits_def allow_to_any_def push_rule_def grant_nothing_def rule_matches_def)

lemma pong_delivered: "deliver_one node_ops pong_delivery ((pinged g)\<lparr>b_queue := []\<rparr>) = (Inr (), ponged g)"
  by (simp add: node_run_defs node_state_defs int_admitted pong_permitted)

lemma pump_loop_step:
  "b_queue b = env # rest \<Longrightarrow> \<not> b_stop_requested b \<Longrightarrow> deliver_one vt env (b\<lparr>b_queue := rest\<rparr>) = (Inr (), b') \<Longrightarrow>
   pump_loop vt b = pump_loop vt b'"
  by (simp add: pump_loop.simps)

lemma pump_loop_empty: "b_queue b = [] \<Longrightarrow> pump_loop vt b = Some (Inr (), b)"
  by (simp add: pump_loop.simps)

lemma pump_runs:
  "\<not> b_in_dispatch b \<Longrightarrow> pump_loop vt (b\<lparr>b_in_dispatch := True, b_stop_requested := False\<rparr>) = Some (Inr (), b') \<Longrightarrow>
   pump vt b = Some (Inr (), b'\<lparr>b_in_dispatch := False\<rparr>)"
  by (simp add: pump_def)

lemma first_pump:
  "pump node_ops (snd (send 1 (message_to (int_value ''Ping'' ''seq'' 7) 2) (mounted_nodes g))) =
   Some (Inr (), (ponged g)\<lparr>b_in_dispatch := False\<rparr>)"
proof -
  let ?b = "(snd (send 1 (message_to (int_value ''Ping'' ''seq'' 7) 2) (mounted_nodes g)))
    \<lparr>b_in_dispatch := True, b_stop_requested := False\<rparr>"
  have "?b\<lparr>b_queue := []\<rparr> = (mounted_nodes g)\<lparr>b_next_seq := 2, b_journal := [pending_outcome, pending_outcome], b_in_dispatch := True\<rparr>"
    by (simp add: send_def enqueue_directed_def Let_def mounted_nodes_def)
  then have "pump_loop node_ops ?b = pump_loop node_ops (pinged g)"
    using ping_delivered [of g]
    by (intro pump_loop_step [where env = ping_delivery and rest = "[]"])
      (simp_all add: send_def enqueue_directed_def Let_def mounted_nodes_def ping_delivery_def)
  also have "\<dots> = pump_loop node_ops (ponged g)"
    using pong_delivered [of g]
    by (intro pump_loop_step [where env = pong_delivery and rest = "[]"]) (simp_all add: pinged_def mounted_nodes_def)
  also have "\<dots> = Some (Inr (), ponged g)" by (rule pump_loop_empty) (simp add: ponged_def)
  finally show ?thesis by (rule pump_runs [rotated]) (simp add: send_def enqueue_directed_def Let_def mounted_nodes_def)
qed

definition turned_away :: "zerror \<Rightarrow> u64 \<Rightarrow> node bus" where
  "turned_away e g = (ponged g)
     \<lparr>b_next_seq := 4, b_gate_calls := g + 5,
      b_journal := [pending_outcome, delivered_outcome, delivered_outcome,
        \<lparr>d_disposition = Refused, d_refusal = \<lparr>rf_reason = GateRefused, rf_error = e\<rparr>\<rparr>],
      b_trace := b_trace (ponged g) @
        [TNotified 1 ((delivery_event empty_delivery)\<lparr>ev_kind := EvRefused, ev_refusal := \<lparr>rf_reason = GateRefused, rf_error = e\<rparr>\<rparr>)]\<rparr>"

lemma second_pump:
  "\<exists>e. pump node_ops (snd (send 1 (message_to (Value (int_shape ''Ping'' ''seq'') [None]) 0) ((ponged g)\<lparr>b_in_dispatch := False\<rparr>))) =
   Some (Inr (), (turned_away e g)\<lparr>b_in_dispatch := False\<rparr>)"
proof -
  let ?b = "(snd (send 1 (message_to (Value (int_shape ''Ping'' ''seq'') [None]) 0) ((ponged g)\<lparr>b_in_dispatch := False\<rparr>)))
    \<lparr>b_in_dispatch := True, b_stop_requested := False\<rparr>"
  obtain e where e: "admit (Value (int_shape ''Ping'' ''seq'') [None]) (int_shape ''Ping'' ''seq'') FirstError (g + 4) = (reject [e], g + 4 + 1)"
    using empty_refused by blast
  have "deliver_one node_ops empty_delivery (?b\<lparr>b_queue := []\<rparr>) = (Inr (), turned_away e g)"
    by (simp add: send_def node_run_defs node_state_defs empty_delivery_def turned_away_def e reject_def first_error_def
        refuse_delivery_def)
  then have "pump_loop node_ops ?b = pump_loop node_ops (turned_away e g)"
    by (intro pump_loop_step [where env = empty_delivery and rest = "[]"])
      (simp_all add: send_def enqueue_directed_def Let_def ponged_def pinged_def mounted_nodes_def empty_delivery_def)
  also have "\<dots> = Some (Inr (), turned_away e g)" by (rule pump_loop_empty) (simp add: turned_away_def ponged_def)
  finally have "pump node_ops (snd (send 1 (message_to (Value (int_shape ''Ping'' ''seq'') [None]) 0) ((ponged g)\<lparr>b_in_dispatch := False\<rparr>))) =
      Some (Inr (), (turned_away e g)\<lparr>b_in_dispatch := False\<rparr>)"
    by (rule pump_runs [rotated]) (simp add: send_def enqueue_directed_def Let_def)
  then show ?thesis ..
qed

lemma counter_crosses: "crosses (int_shape ''Counter'' ''count'') (int_value ''Counter'' ''count'' i)"
  by (simp add: crosses_def exact_value_slots kMaxBinaryDepth_def value_conforms.simps value_get_def valid_utf8_ascii
      byte_of_def valid_utf8.simps [of "[]"])

lemma node_policy_eq: "node_policy s = Inr demo_policy"
  by (simp add: node_policy_def lifecycle_policy_schema_eq new_value_def value_set_def policy_schema_def demo_policy_def Let_def)

lemma policy_admitted: "admit demo_policy policy_schema FirstError g = (accept demo_policy, g + 1)"
proof (rule prod_eqI)
  show "fst (admit demo_policy policy_schema FirstError g) = fst (accept demo_policy, g + 1)"
    using demo_conforms(2) validate_into_Nil_iff [OF policy_schema_wf, of demo_policy]
    by (simp add: fst_admit demo_policy_def)
qed simp

lemma policy_of_node: "read_policy demo_policy = Inr (2, True)"
  by (simp add: read_policy_def demo_policy_def policy_schema_def value_get_def Let_def)

text \<open>The record of the responder once it is back.\<close>

definition returned :: "node shard_record" where
  "returned = (counted 1 responder_node pong_grant)
     \<lparr>sr_last_known_good := int_value ''Counter'' ''count'' 1, sr_reloads_used := 1\<rparr>"

fun notified :: "trace_item list \<Rightarrow> event_kind list" where
  "notified [] = []"
| "notified (TNotified i ev # t) = ev_kind ev # notified t"
| "notified (TRegistered i gr # t) = notified t"
| "notified (THandled i m gated # t) = notified t"
| "notified (TRevived i v # t) = notified t"

lemma notified_append [simp]: "notified (t @ u) = notified t @ notified u"
  by (induction t rule: notified.induct) simp_all

lemma responder_returns:
  assumes "serialize (int_value ''Counter'' ''count'' 1) = Inr saved"
    and "b_shards b = [(1, counted 1 responder_node pong_grant), x]" and "b_observers b = [(1, Some (\<lambda>_. ObsReturn))]"
  shows "snapshot_bytes node_ops 1 b = Inr saved \<and>
    (\<exists>b1 b2 out ts. kill 1 b = (Inr (), b1) \<and> reload node_ops 1 saved b1 = (Inr out, b2) \<and>
       ro_revived out \<and> \<not> ro_from_last_known_good out \<and>
       b_shards b2 = [(1, returned), x] \<and> b_journal b2 = b_journal b \<and> b_trace b2 = b_trace b @ ts \<and>
       notified ts = [EvDied, EvRevived])"
proof -
  let ?rec = "counted 1 responder_node pong_grant"
  have find: "bus_find b 1 = Some ?rec" by (simp add: bus_find_def assms(2))
  have node: "nd_count (sr_shard ?rec) = 1" "sr_state_schema ?rec = int_shape ''Counter'' ''count''" "sr_reloads_used ?rec = 0"
    by (simp_all add: counted_def node_record_def)
  let ?ev = "lifecycle_event EvDied 1 ?rec False (bare_refusal RR_None)"
  let ?b1 = "note_trace (TNotified 1 ?ev) (put_record 1 (?rec\<lparr>sr_alive := False\<rparr>) b)"
  have killed: "kill 1 b = (Inr (), ?b1)"
    by (simp add: kill_def find bus_emit_def put_record_def assms(3))
  obtain g where admitted:
    "admit_candidate (int_shape ''Counter'' ''count'') saved (?b1\<lparr>b_gate_calls := b_gate_calls b + 1\<rparr>) =
       (Inr (accept (int_value ''Counter'' ''count'' 1)), ?b1\<lparr>b_gate_calls := g\<rparr>)"
    using candidate_crossing [OF counter_crosses assms(1), of "?b1\<lparr>b_gate_calls := b_gate_calls b + 1\<rparr>"] by auto
  have policed: "vt_policy node_ops = node_policy" "vt_revive node_ops = node_revive" by (simp_all add: node_ops_def)
  have revived: "node_revive s (int_value ''Counter'' ''count'' 1) = (Inr (), s\<lparr>nd_count := 1\<rparr>)" for s
    by (simp add: node_revive_def value_get_def)
  have "\<exists>b2 out ts. reload node_ops 1 saved ?b1 = (Inr out, b2) \<and> ro_revived out \<and> \<not> ro_from_last_known_good out \<and>
     b_shards b2 = [(1, returned), x] \<and> b_journal b2 = b_journal b \<and> b_trace b2 = b_trace b @ ts \<and>
     notified ts = [EvDied, EvRevived]"
    using admitted
    by (simp add: reload_def reload_policed_def reload_gated_def policed node revived bus_find_def put_record_def note_trace_def
        assms(2,3) node_policy_eq lifecycle_policy_schema_eq policy_admitted policy_of_node adm_ok_def accept_def adm_value_def
        revive_with_def announce_def bus_emit_def lifecycle_event_def new_event_def new_revive_outcome_def returned_def Let_def)
      (simp add: counted_def node_record_def)
  then show ?thesis using killed find node assms(1) by (auto simp: snapshot_bytes_def node_ops_def values_built)
qed

text \<open>
  The heartbeat: the program returns, without an exception, with the responder revived from its own snapshot and not
  from a fallback. Each node has handled exactly one message, the responder the Ping and the collector its reply; the
  Ping without a \<open>seq\<close> was refused by the gate; one reload is counted; and the observer saw a delivery, a delivery, a
  refusal, a death and a revival, in this order.
\<close>

theorem heartbeat_alive:
  "\<exists>out b. heartbeat g = Some (Inr out, b) \<and> ro_revived out \<and> \<not> ro_from_last_known_good out \<and>
     bus_find b 1 = Some returned \<and> sr_shard returned = responder_node\<lparr>nd_count := 1\<rparr> \<and> sr_alive returned \<and>
     shard 2 b = Some (collector_node\<lparr>nd_count := 1\<rparr>) \<and>
     map d_disposition (tl (b_journal b)) = [Delivered, Delivered, Refused] \<and>
     rf_reason (d_refusal (outcome 3 b)) = GateRefused \<and>
     notified (b_trace b) = [EvDelivered, EvDelivered, EvRefused, EvDied, EvRevived]"
proof -
  obtain b1 where mounts:
    "register_shard node_ops (Some responder_node) pong_grant (snd (add_observer (Some (\<lambda>_. ObsReturn)) (new_bus g))) = (Inr 1, b1)"
    "register_shard_default node_ops (Some collector_node) b1 = (Inr 2, mounted_nodes g)"
    using nodes_mount [of g] by blast
  obtain e where second: "pump node_ops (snd (send 1 (message_to (Value (int_shape ''Ping'' ''seq'') [None]) 0)
      ((ponged g)\<lparr>b_in_dispatch := False\<rparr>))) = Some (Inr (), (turned_away e g)\<lparr>b_in_dispatch := False\<rparr>)"
    using second_pump by blast
  let ?b = "(turned_away e g)\<lparr>b_in_dispatch := False\<rparr>"
  obtain saved where saved: "serialize (int_value ''Counter'' ''count'' 1) = Inr saved"
    by (rule crosses_bytes [OF counter_crosses, of 1]) (erule that)
  have "b_shards ?b = [(1, counted 1 responder_node pong_grant), (2, counted 2 collector_node grant_nothing)]"
    "b_observers ?b = [(1, Some (\<lambda>_. ObsReturn))]"
    by (simp_all add: turned_away_def ponged_def pinged_def mounted_nodes_def)
  from responder_returns [OF saved this] obtain b2 b3 out ts where last:
    "snapshot_bytes node_ops 1 ?b = Inr saved" "kill 1 ?b = (Inr (), b2)" "reload node_ops 1 saved b2 = (Inr out, b3)"
    and out: "ro_revived out" "\<not> ro_from_last_known_good out"
    and b3: "b_shards b3 = [(1, returned), (2, counted 2 collector_node grant_nothing)]" "b_journal b3 = b_journal ?b"
      "b_trace b3 = b_trace ?b @ ts" "notified ts = [EvDied, EvRevived]" by blast
  have "new_value (Some (int_shape ''Ping'' ''seq'')) = Inr (Value (int_shape ''Ping'' ''seq'') [None])"
    by (simp add: new_value_def)
  then have "heartbeat g = Some (Inr out, b3)"
    using mounts first_pump [of g] second last
    by (simp add: heartbeat_def then_do_def shapes_built values_built responder_node_def [symmetric]
        collector_node_def [symmetric] pong_grant_def [symmetric] Let_def)
  moreover have "bus_find b3 1 = Some returned" "shard 2 b3 = Some (collector_node\<lparr>nd_count := 1\<rparr>)"
    by (simp_all add: bus_find_def shard_def b3(1) counted_def)
  moreover have "sr_shard returned = responder_node\<lparr>nd_count := 1\<rparr>" "sr_alive returned"
    by (simp_all add: returned_def counted_def node_record_def)
  moreover have "map d_disposition (tl (b_journal b3)) = [Delivered, Delivered, Refused]"
    "rf_reason (d_refusal (outcome 3 b3)) = GateRefused"
    by (simp_all add: b3(2) outcome_def turned_away_def delivered_outcome_def)
  moreover have "notified (b_trace b3) = [EvDelivered, EvDelivered, EvRefused, EvDied, EvRevived]"
    by (simp add: b3(3,4) turned_away_def ponged_def pinged_def delivered_event_def)
  ultimately show ?thesis using out by (intro exI [of _ out] exI [of _ b3] conjI)
qed

end
