(* ===== verification/Zen_Quickstart.thy ===== *)
theory Zen_Quickstart
  imports Zen_Seam
begin

text \<open>
  The core without a bus: \<open>examples/quickstart.cpp\<close>. A value goes through the live gate, to native octets, back through
  the registry and the same gate, and a corrupted JSON candidate is refused. \<open>None\<close> is the early \<open>return 1\<close>; what is
  printed is the report.
\<close>

definition quickstart_player :: "schema result" where
  "quickstart_player =
     rbind (builder_field ''hp'' KInt True (new_builder ''PlayerState'' 1)) (\<lambda>b.
     rbind (builder_field ''name'' KText True b) builder_build)"

definition corrupt_text :: string where
  "corrupt_text =
     (let q = [CHR 34] in
      ''{'' @ q @ ''zen'' @ q @ '':1,'' @ q @ ''schema'' @ q @ '':'' @ q @ ''PlayerState'' @ q @ '','' @
      q @ ''version'' @ q @ '':1,'' @ q @ ''fields'' @ q @ '':{'' @ q @ ''hp'' @ q @ '':'' @ q @ ''oops'' @ q @ ''}}'')"

record quickstart_report =
  qs_bytes :: string
  qs_hp :: i64
  qs_name :: string
  qs_json :: string
  qs_refused :: admission

definition revived_report ::
  "(f64 \<Rightarrow> string) \<Rightarrow> (string \<Rightarrow> f64 option) \<Rightarrow> registry \<Rightarrow> zvalue \<Rightarrow> string \<Rightarrow> admission \<Rightarrow> u64 \<Rightarrow>
   quickstart_report option result" where
  "revived_report tc fc registry v bytes revived g =
     (if \<not> adm_ok revived then Inr None
      else
        rbind (adm_value revived) (\<lambda>r.
        rbind (rbind (deref (value_get r ''hp'')) as_int) (\<lambda>hp.
        rbind (rbind (deref (value_get r ''name'')) as_text) (\<lambda>name.
          Inr (Some \<lparr>qs_bytes = bytes, qs_hp = hp, qs_name = name, qs_json = compat_serialize tc v,
            qs_refused = fst (admit_registry fc (compat_parse corrupt_text) registry FirstError g)\<rparr>)))))"

definition quickstart :: "(f64 \<Rightarrow> string) \<Rightarrow> (string \<Rightarrow> f64 option) \<Rightarrow> u64 \<Rightarrow> quickstart_report option result" where
  "quickstart tc fc g =
     rbind quickstart_player (\<lambda>player.
     (case register_schema (Some player) new_registry of
        (Inl e, _) \<Rightarrow> Inl e
      | (Inr _, registry) \<Rightarrow>
          rbind (new_value (Some player)) (\<lambda>v0.
          rbind (value_set ''hp'' (CInt 30) v0) (\<lambda>v1.
          rbind (value_set ''name'' (CText ''Ami'') v1) (\<lambda>v.
            case admit v player FirstError g of
              (live, g1) \<Rightarrow>
                if \<not> adm_ok live then Inr None
                else
                  rbind (serialize v) (\<lambda>bytes.
                    case admit_registry fc (parse bytes) registry FirstError g1 of
                      (revived, g2) \<Rightarrow> revived_report tc fc registry v bytes revived g2))))))"

section \<open>What it reports\<close>

definition player_shape :: schema where
  "player_shape =
     (let fs = [Field ''hp'' (TypeRef KInt None None) True, Field ''name'' (TypeRef KText None None) True]
      in Schema ''PlayerState'' 1 fs (compute_content_id ''PlayerState'' 1 fs))"

definition ami_value :: zvalue where
  "ami_value = Value player_shape [Some (CInt 30), Some (CText ''Ami'')]"

lemma player_shape_sel [simp]:
  "s_name player_shape = ''PlayerState''" "s_version player_shape = 1" "wf_schema player_shape"
  "s_fields player_shape = [Field ''hp'' (TypeRef KInt None None) True, Field ''name'' (TypeRef KText None None) True]"
  by (simp_all add: player_shape_def Let_def)

lemma player_built: "quickstart_player = Inr player_shape"
  by (simp add: quickstart_player_def builder_field_def new_builder_def type_of_def builder_add_def builder_build_def
      mk_schema_def player_shape_def Let_def)

lemma ami_crosses: "crosses player_shape ami_value"
  by (simp add: crosses_def exact_value_slots kMaxBinaryDepth_def kMaxFieldBytes_def value_conforms.simps value_get_def
      valid_utf8_ascii byte_of_def valid_utf8.simps [of "[]"] ami_value_def)

lemma ami_read: "value_get ami_value ''hp'' = Some (CInt 30)" "value_get ami_value ''name'' = Some (CText ''Ami'')"
  by (simp_all add: ami_value_def value_get_def)

lemma corrupt_read:
  "parse_json corrupt_text =
     Some (Inr (JObject [(''zen'', JNumber ''1''), (''schema'', JString ''PlayerState''), (''version'', JNumber ''1''),
       (''fields'', JObject [(''hp'', JString ''oops'')])]))"
  by code_simp

lemma one_read: "json_parse_int64 ''1'' = Some 1" "json_parse_u32 ''1'' = Some 1" "json_parse_int64 ''oops'' = None"
  by (simp_all add: json_parse_int64_def json_parse_u32_def digits_value_def is_digit_def byte_of_def Let_def)

lemma corrupt_parsed:
  "compat_parse corrupt_text =
     Some ((new_impl Json)\<lparr>u_name := ''PlayerState'', u_version := 1, u_json_fields := JObject [(''hp'', JString ''oops'')], u_ok := True\<rparr>)"
  by (simp add: compat_parse_def corrupt_read compat_parse_root_def compat_finish_def is_object_def is_number_def is_string_def
      envelope_members_def kJsonEnvelopeVersion_def json_find_def one_read Let_def)

lemma corrupt_refused:
  "fst (admit_registry fc (compat_parse corrupt_text) [((''PlayerState'', 1), player_shape)] FirstError g) =
     reject_one (mk_error MalformedField ''hp'' ''Int'' ''json:string'' ''not a base-10 64-bit integer'')"
  by (simp add: admit_registry_def corrupt_parsed well_formed_def reg_lookup_def reg_snapshot_def admit_against_def new_impl_def
      schema_find_def jd_stop_def json_find_def jd_prim_def one_read join_path_def finish_def case_prod_beta Let_def)

text \<open>
  The quickstart: the value returns from its octets as it was, the octets start with the magic and the format version,
  and the candidate whose \<open>hp\<close> is not a number is refused, with that field named.
\<close>

theorem quickstart_reports:
  "\<exists>rep. quickstart tc fc g = Inr (Some rep) \<and> qs_hp rep = 30 \<and> qs_name rep = ''Ami'' \<and> take 3 (qs_bytes rep) = ''ZN'' @ [CHR 0x01] \<and>
     qs_refused rep = reject_one (mk_error MalformedField ''hp'' ''Int'' ''json:string'' ''not a base-10 64-bit integer'')"
proof -
  obtain bytes where bytes: "serialize ami_value = Inr bytes"
    and readmitted: "\<And>fc r g. fst (admit_unverified fc (parse bytes) (Some player_shape) r g) = Inr (accept ami_value)"
    and claim: "claimed_name (parse bytes) = ''PlayerState''" "claimed_version (parse bytes) = 1"
    by (rule crosses_bytes [OF ami_crosses]) (simp add: that)
  have live: "fst (admit ami_value player_shape FirstError g) = accept ami_value"
    using ami_crosses validate_into_Nil_iff [of player_shape ami_value False g]
    by (simp add: fst_admit crosses_def ami_value_def)
  have "fst (admit_registry fc (parse bytes) [((''PlayerState'', 1), player_shape)] FirstError h) = accept ami_value" for h
    using readmitted [of fc FirstError h] claim parse_Some [of bytes]
    by (auto simp: admit_registry_def admit_unverified_def reg_lookup_def reg_snapshot_def claimed_name_def claimed_version_def
        accept_def reject_one_def split: if_splits)
  moreover have magic: "chr 90 = CHR ''Z''" "chr 78 = CHR ''N''" "chr 1 = CHR 0x01" by code_simp+
  moreover have "bytes = native_header ''PlayerState'' 1 (s_content_id player_shape) @ value_bytes ami_value"
    using bytes serialize_exact [of player_shape ami_value bytes] ami_crosses by (simp add: crosses_def)
  then have "take 3 bytes = ''ZN'' @ [CHR 0x01]"
    using magic by (simp add: native_header_def put_u8_def kBinMagic0_def kBinMagic1_def kBinFormatVersion_def)
  ultimately show ?thesis
    using bytes live corrupt_refused
    by (simp add: quickstart_def revived_report_def player_built register_schema_def new_registry_def new_value_def value_set_def
        case_prod_beta ami_value_def [symmetric] adm_ok_def accept_def adm_value_def ami_read Let_def)
qed

end
