(* ===== verification/Spec2Isabelle.thy ===== *)
theory Spec2Isabelle
  imports
    Zen_Prelude Zen_Hash Zen_Schema Zen_Value Zen_Gate Zen_Ordmap Zen_Registry Zen_Binary
    Zen_Utf8 Zen_Base64 Zen_Json Zen_Native Zen_Native_Codec Zen_Compat Zen_Serialize
    Zen_Grant Zen_Switchboard Zen_Bus Zen_Delivery Zen_Lifecycle Zen_Seam Zen_Meta
    Zen_Channel Zen_Sandbox Zen_Host Zen_Isolation
    Zen_Abi Zen_Kernel Zen_Library Zen_Export Zen_Reload Zen_Child Zen_Process Zen_Shape Zen_Author Zen_Control
    Zen_Nucleus Zen_Heartbeat Zen_Quickstart
begin

text \<open>
  Zen: a verification of the message kernel under \<open>src/\<close>.

  \<^bold>\<open>The program.\<close> Zen is a C++20 library in which components (\<^emph>\<open>shards\<close>) exchange self-describing values. A
  \<open>Schema\<close> names a shape and hashes it to a content id, a \<open>Registry\<close> publishes schemas for good, a \<open>Value\<close> carries
  the schema it claims to be, and one \<^emph>\<open>gate\<close> decides at every boundary whether the claim is true. Values persist in
  a native binary format and a JSON view; octets come back as an \<open>Unverified\<close> that only the same gate turns into a
  value. The \<open>Switchboard\<close> queues messages between shards, checks each against the grant of its sender and the gate
  of its receiver, and kills and revives shards from their serialized state. The \<open>Kernel\<close> loads a shard from a shared
  library behind a C interface and replaces the code under a running shard. The \<open>IsolationHost\<close> runs a shard in a
  child process behind a socket, in namespaces and control groups, and supervises it. The author layer derives
  schemas and conversions from plain structs, and the control shard lets messages drive the kernel. \<open>nucleus.cpp\<close> is
  the self-contained program the library grew from.

  \<^bold>\<open>The core\<close> (\<open>include/zen/*.hpp\<close>, \<open>src/*.cpp\<close>, \<open>src/detail\<close>).
  \<^item> \<open>Zen_Prelude\<close>: machine integers as words, exceptions and results, decimal printing, shared list and word
    lemmas, and the locale \<open>wire_codec\<close> (a writer, a reader, and the law that reading is exactly undoing).
  \<^item> \<open>Zen_Hash\<close>, \<open>Zen_Schema\<close>: \<open>Fnv1a\<close>; kinds, type references, \<open>Schema\<close> and its builder. A constructed schema is well
    formed at every depth, and the hashed stream determines the shape.
  \<^item> \<open>Zen_Value\<close>, \<open>Zen_Gate\<close>: cells, values, \<open>admit\<close>, \<open>validate_into\<close>, \<open>diagnose\<close>. The gate accepts exactly what
    \<open>value_conforms\<close> describes, and its two report modes agree.
  \<^item> \<open>Zen_Ordmap\<close>, \<open>Zen_Registry\<close>: \<open>std::map\<close> (locale \<open>ordered_map\<close>) and the registry (locale \<open>schema_store\<close>), both
    interpreted on the definitions. What is published stays published.
  \<^item> \<open>Zen_Binary\<close>, \<open>Zen_Utf8\<close>, \<open>Zen_Base64\<close>, \<open>Zen_Json\<close>: integers, varints and floats on the wire, UTF-8, base64 and the
    JSON reader and quoter. Each primitive is an interpretation of \<open>wire_codec\<close> or canonical in the same sense; the
    JSON reader always returns.
  \<^item> \<open>Zen_Native\<close>, \<open>Zen_Native_Codec\<close>, \<open>Zen_Compat\<close>, \<open>Zen_Serialize\<close>: the body codecs of \<open>serialize.cpp\<close> and the
    persistence gate. Native octets are admitted exactly when they are what \<open>serialize\<close> writes for a conforming value,
    and every refusal is described.

  \<^bold>\<open>The switchboard\<close> (\<open>include/zen/switchboard\<close>, \<open>src/switchboard\<close>).
  \<^item> \<open>Zen_Grant\<close>: rules and OS capabilities of a grant.
  \<^item> \<open>Zen_Switchboard\<close>: the state (\<open>bus\<close>: registry, shard records, queue, journal, observers), and every member
    function. A shard is a method table \<open>shard_ops\<close> over a type of instances; a handler is a tree of calls on the
    \<open>Bus\<close> it was handed, so the same handler runs on any surface.
  \<^item> \<open>Zen_Bus\<close>: the invariant \<open>bus_ok\<close>, the locale \<open>bus_surface\<close> (what a send surface may do) interpreted for the host
    and for a shard, and the relation \<open>reachable\<close> over all host calls.
  \<^item> \<open>Zen_Delivery\<close>, \<open>Zen_Lifecycle\<close>: over every reachable state, handled messages are gated and permitted, fates are
    final, fan-out is exact, a pump settles the queue and ends when messages run out of hops; \<open>kill\<close>, \<open>reload\<close> and
    \<open>swap_state\<close> on every outcome; over every run the revivals of a shard are counted (\<open>revival_run\<close>), and there are
    no more of them than its policy allows.

  \<^bold>\<open>The kernel\<close> (\<open>include/zen/kernel\<close>, \<open>src/kernel\<close>).
  \<^item> \<open>Zen_Meta\<close>: \<open>schema_codec.hpp\<close>, schemas as values. \<open>Zen_Seam\<close>: what octets admitted at a seam stand for.
  \<^item> \<open>Zen_Abi\<close>: the C interface, both sides: the thunks of \<open>export.hpp\<close> and the adapter of the kernel.
  \<^item> \<open>Zen_Kernel\<close>: \<open>load\<close>, \<open>reload_from\<close>, \<open>unload\<close> with the handles of \<open>dlopen\<close> explicit, so that a call into a closed
    library is a value one can rule out.
  \<^item> \<open>Zen_Library\<close>: no call lands in a closed library and none is forgotten (locale \<open>tagged_shards\<close>: a part of an
    instance its own methods never change). \<open>Zen_Export\<close>: from the same instance, under the same id and for values that
    cross the seam, a portable handler does to the bus what it does compiled in, apart from exceptions, which stay in the
    library. \<open>Zen_Reload\<close>: a hot reload on every outcome, exceptions after the commit included.
  \<^item> \<open>Zen_Control\<close>: \<open>control.hpp\<close>; a control message is the kernel call it names.

  \<^bold>\<open>Isolation\<close> (\<open>include/zen/isolation\<close>, \<open>src/isolation\<close>).
  \<^item> \<open>Zen_Channel\<close>: frames, \<open>Cursor\<close> and the non-blocking \<open>Channel\<close>; delivery in order however the socket cuts the
    octets up, and bounds whatever the peer does.
  \<^item> \<open>Zen_Sandbox\<close>: mount plans, id maps, namespace comparison, control groups, probes and the enforcement report.
  \<^item> \<open>Zen_Host\<close>, \<open>Zen_Isolation\<close>: capability resolution, spawn and handshake, the proxy shard, frames from the child,
    supervision. A shard runs with what its grant gives it or not at all, and what a child says stays confined.
  \<^item> \<open>Zen_Child\<close>, \<open>Zen_Process\<close>: \<open>shard_host_main.cpp\<close>, and that, under the same conditions and once the host has handled the
    child's frames, a class in a child process has done to the bus what it does compiled in, over the wire in both
    directions.

  \<^bold>\<open>Authoring\<close> (\<open>include/zen/author\<close>).
  \<^item> \<open>Zen_Shape\<close>: structs, their schemas and conversions; the round trip and its totality on admitted values.
  \<^item> \<open>Zen_Author\<close>: \<open>ShardBase\<close>, \<open>Mail\<close>, \<open>mount\<close>. The locale \<open>hosts_class\<close> says what a table of shards needs to hold a
    class; it is interpreted for the class alone, inside the kernel's and inside the isolation host's table.

  \<^bold>\<open>Programs.\<close> \<open>Zen_Nucleus\<close> models \<open>nucleus.cpp\<close> and plays its scenes; a shard there wakes only through its own
  lock, and only as often as its policy says. \<open>Zen_Heartbeat\<close> and \<open>Zen_Quickstart\<close> run \<open>examples/heartbeat.cpp\<close> and \<open>examples/quickstart.cpp\<close> on the model of
  the library, from an empty bus or registry to the last statement.

  \<^bold>\<open>Conventions.\<close> Exceptions are the left summand of \<open>result\<close>; a null pointer is \<open>None\<close>; integers keep their width; a
  \<open>double\<close> is its bit pattern, and conversions between doubles and text are arguments. What the operating system
  answers is an argument: the results of \<open>recv\<close> and \<open>send\<close> as lists, a spawn as an environment \<open>spawn_env\<close>, a library
  as a \<open>lib_env\<close>, system calls as an \<open>os\<close> over a world of any type.

  \<^bold>\<open>Loops, fuel and bounds.\<close> \<open>pump_loop\<close> and \<open>child_loop\<close> may run for ever and are partial functions into options; that
  they return is proved where it is claimed. The mutually recursive JSON parser carries fuel, two units per octet and
  two more, which is proved enough on every input. All other loops end by a measure or by
  structure. Theorems about ids and tickets assume fewer than 2^64 of them.

  \<^bold>\<open>Named hypotheses.\<close> \<open>schemas_constructed\<close>: schemas come from the constructor. \<open>crosses\<close> and \<open>portable\<close>: a value has a
  published schema and fits the caps of the wire. \<open>takes\<close> and \<open>stream_of\<close>: a socket eventually takes octets and
  yields those sent. \<open>author_ok\<close> and \<open>shape_ok\<close>: the names an author gives are not empty and not repeated. A witness
  beside each property shows its hypotheses met.

  \<^bold>\<open>Not modelled.\<close> Threads and locks (each public call is one step); printing, log lines and \<open>std::cout\<close>; the branch of
  \<open>sandbox.cpp\<close> for systems other than Linux; memory exhaustion. What a teardown does outside the host (the last frame,
  the kill, the directories removed) is \<open>teardown_outside\<close>, which the host loop does not thread, as nothing of it comes
  back. A handler of the control shard is one step of the kernel, although in the program it runs inside a pump. The
  test programs and \<open>heartbeat_authored.cpp\<close> are not modelled.
\<close>

end
